(* ===== verification/Mping_Prelude.thy ===== *)
theory Mping_Prelude
  imports Main "HOL-Library.Signed_Division"
begin

text \<open>
  What every component theory shares: the Go basics of the model (durations and instants in
  nanoseconds, truncated integer division, decimal printing, the string functions the code
  calls), the windows of a list that ring buffers and bounded logs keep, and the contract of a
  bounded log.

  Strings are Go strings, so lists of bytes: a character beyond ASCII in a message of the code
  appears as its UTF-8 bytes (\<open>utf8_arrow\<close>, \<open>utf8_middot\<close>).
\<close>

named_theorems go_defs \<open>definitions that a component proof unfolds\<close>

section \<open>Time\<close>

text \<open>
  A \<open>time.Duration\<close> is an int64 count of nanoseconds and a \<open>time.Time\<close> is read as nanoseconds
  since the Unix epoch; both are integers here (290 years of range, so the wrap-around of
  int64 is out of reach of the program's clocks). The zero time is January 1 of year 1.
\<close>

type_synonym duration = int
type_synonym gotime = int

definition microsecond :: duration where "microsecond = 1000"
definition millisecond :: duration where "millisecond = 1000 * microsecond"
definition second :: duration where "second = 1000 * millisecond"
definition minute :: duration where "minute = 60 * second"
definition hour :: duration where "hour = 60 * minute"

lemma microsecond_eq [simp]: "microsecond = 1000" by (simp add: microsecond_def)
lemma millisecond_eq [simp]: "millisecond = 1000000" by (simp add: millisecond_def)
lemma second_eq [simp]: "second = 1000000000" by (simp add: second_def)
lemma minute_eq [simp]: "minute = 60000000000" by (simp add: minute_def)
lemma hour_eq [simp]: "hour = 3600000000000" by (simp add: hour_def)

definition zero_time :: gotime where "zero_time = - 62135596800000000000"

definition is_zero_time :: "gotime \<Rightarrow> bool" where
  "is_zero_time t = (t = zero_time)"

text \<open>\<open>t.Unix()\<close>: whole seconds, rounded towards minus infinity.\<close>

definition unix_seconds :: "gotime \<Rightarrow> int" where
  "unix_seconds t = t div second"

lemma unix_seconds_mono: "t \<le> u \<Longrightarrow> unix_seconds t \<le> unix_seconds u"
  by (simp add: unix_seconds_def zdiv_mono1)

text \<open>
  An operation that reads the clock more than once takes its readings as a function: \<open>clk 0\<close> is
  the first \<open>time.Now()\<close> of the operation, \<open>clk 1\<close> the second, and so on.
\<close>

type_synonym clock = "nat \<Rightarrow> gotime"

section \<open>Go integer division\<close>

text \<open>Go's \<open>/\<close> and \<open>%\<close> on signed integers truncate towards zero: \<open>sdiv\<close> and \<open>smod\<close>.\<close>

lemma sdiv_nonneg: "0 \<le> (a::int) \<Longrightarrow> 0 < b \<Longrightarrow> a sdiv b = a div b"
  by (cases "a = 0") (auto simp: signed_divide_int_def sgn_if)

lemma smod_nonneg: "0 \<le> (a::int) \<Longrightarrow> 0 < b \<Longrightarrow> a smod b = a mod b"
  by (cases "a = 0") (auto simp: signed_modulo_int_def sgn_if)

lemma sdiv_neg: "(a::int) < 0 \<Longrightarrow> 0 < b \<Longrightarrow> a sdiv b = - ((- a) div b)"
  by (auto simp: signed_divide_int_def sgn_if)

section \<open>Strings\<close>

definition digit_char :: "nat \<Rightarrow> char" where
  "digit_char d = char_of (48 + d)"

fun nat_str :: "nat \<Rightarrow> string" where
  "nat_str n = (if n < 10 then [digit_char n] else nat_str (n div 10) @ [digit_char (n mod 10)])"

declare nat_str.simps [simp del]

text \<open>\<open>%d\<close> and \<open>strconv.Itoa\<close>.\<close>

definition int_str :: "int \<Rightarrow> string" where
  "int_str i = (if i < 0 then CHR ''-'' # nat_str (nat (- i)) else nat_str (nat i))"

lemma nat_str_nonempty [simp]: "nat_str n \<noteq> []"
  by (subst nat_str.simps) simp

lemma digit_char_inj: "a < 10 \<Longrightarrow> b < 10 \<Longrightarrow> digit_char a = digit_char b \<Longrightarrow> a = b"
  by (drule arg_cong [where f = "of_char :: char \<Rightarrow> nat"]) (simp add: digit_char_def)

lemma nat_str_inj: "nat_str m = nat_str n \<Longrightarrow> m = n"
proof (induction m arbitrary: n rule: nat_str.induct)
  case (1 m)
  note step = nat_str.simps [of m] nat_str.simps [of n]
  show ?case
  proof (cases "m < 10 \<or> n < 10")
    case True
    with "1.prems" show ?thesis
      by (auto simp: step append_eq_Cons_conv Cons_eq_append_conv split: if_splits
          dest: digit_char_inj)
  next
    case False
    with "1.prems" have "nat_str (m div 10) = nat_str (n div 10)"
      and d: "digit_char (m mod 10) = digit_char (n mod 10)"
      by (auto simp: step)
    with "1.IH" False have "m div 10 = n div 10" by simp
    moreover from d have "m mod 10 = n mod 10" by (rule digit_char_inj [rotated 2]) simp_all
    ultimately show ?thesis by (metis div_mult_mod_eq)
  qed
qed

text \<open>\<open>strings.Join\<close>, \<open>strings.Contains\<close> and \<open>strings.Replace(s, old, new, 1)\<close>.\<close>

fun str_join :: "string \<Rightarrow> string list \<Rightarrow> string" where
  "str_join sep [] = []"
| "str_join sep [x] = x"
| "str_join sep (x # y # zs) = x @ sep @ str_join sep (y # zs)"

fun is_prefix_of :: "'a list \<Rightarrow> 'a list \<Rightarrow> bool" where
  "is_prefix_of [] ys = True"
| "is_prefix_of (x # xs) [] = False"
| "is_prefix_of (x # xs) (y # ys) = (x = y \<and> is_prefix_of xs ys)"

lemma is_prefix_of_iff: "is_prefix_of xs ys \<longleftrightarrow> (\<exists>zs. ys = xs @ zs)"
  by (induction xs ys rule: is_prefix_of.induct) auto

text \<open>\<open>strings.Index\<close> and \<open>bytes.Index\<close>: the first occurrence, None for the -1 of the source.\<close>

fun str_index :: "'a list \<Rightarrow> 'a list \<Rightarrow> nat option" where
  "str_index [] pat = (if pat = [] then Some 0 else None)"
| "str_index (x # xs) pat =
     (if is_prefix_of pat (x # xs) then Some 0 else map_option Suc (str_index xs pat))"

definition str_contains :: "string \<Rightarrow> string \<Rightarrow> bool" where
  "str_contains s pat = (str_index s pat \<noteq> None)"

definition str_replace1 :: "string \<Rightarrow> string \<Rightarrow> string \<Rightarrow> string" where
  "str_replace1 s old new = (case str_index s old of
     None \<Rightarrow> s | Some i \<Rightarrow> take i s @ new @ drop (i + length old) s)"

lemma str_index_SomeD:
  "str_index s pat = Some i \<Longrightarrow> i + length pat \<le> length s \<and> take (length pat) (drop i s) = pat"
proof (induction s pat arbitrary: i rule: str_index.induct)
  case (1 pat)
  then show ?case by (auto split: if_splits)
next
  case (2 x xs pat)
  show ?case
  proof (cases "is_prefix_of pat (x # xs)")
    case True
    then obtain zs where zs: "x # xs = pat @ zs" by (auto simp: is_prefix_of_iff)
    from True "2.prems" have "i = 0" by simp
    then show ?thesis by (simp only: zs) simp
  next
    case False
    with "2.prems" obtain j where "str_index xs pat = Some j" "i = Suc j" by auto
    with "2.IH" [OF False] show ?thesis by auto
  qed
qed

definition utf8_arrow :: string where "utf8_arrow = [CHR 0xE2, CHR 0x86, CHR 0x92]"
definition utf8_middot :: string where "utf8_middot = [CHR 0xC2, CHR 0xB7]"

section \<open>Windows of a list\<close>

text \<open>The last \<open>n\<close> elements of a list, what bounded logs and ring buffers keep.\<close>

definition lastn :: "nat \<Rightarrow> 'a list \<Rightarrow> 'a list" where
  "lastn n xs = drop (length xs - n) xs"

lemma length_lastn [simp]: "length (lastn n xs) = min n (length xs)"
  by (simp add: lastn_def min_def)

lemma lastn_all: "length xs \<le> n \<Longrightarrow> lastn n xs = xs"
  by (simp add: lastn_def)

lemma lastn_0 [simp]: "lastn 0 xs = []"
  by (simp add: lastn_def)

lemma lastn_Nil [simp]: "lastn n [] = []"
  by (simp add: lastn_def)

lemma lastn_lastn [simp]: "lastn m (lastn n xs) = lastn (min m n) xs"
proof -
  have k: "m \<le> n \<Longrightarrow> length xs - (length xs - n + m) + (length xs - n) = length xs - m" by arith
  show ?thesis by (simp add: lastn_def min_def k)
qed

lemma lastn_append_lastn: "lastn n (lastn n xs @ ys) = lastn n (xs @ ys)"
proof -
  have k: "length xs + length ys - (length xs - n + n) + (length xs - n)
      = length xs + length ys - n \<or> length xs \<le> length xs + length ys - n \<and>
        length xs \<le> length xs + length ys - (length xs - n + n) + (length xs - n)" by arith
  show ?thesis using k by (auto simp: lastn_def)
qed

lemma lastn_Suc_snoc: "lastn (Suc n) (xs @ [x]) = lastn n xs @ [x]"
  by (simp add: lastn_def)

lemma set_lastn: "set (lastn n xs) \<subseteq> set xs"
  by (simp add: lastn_def set_drop_subset)

section \<open>Searching a list\<close>

lemma find_append_miss: "(\<forall>x\<in>set xs. \<not> P x) \<Longrightarrow> find P (xs @ ys) = find P ys"
  by (induction xs) auto

lemma find_append_other: "\<not> P y \<Longrightarrow> find P (xs @ [y]) = find P xs"
  by (induction xs) auto

lemma find_filter_other: "(\<And>x. P x \<Longrightarrow> Q x) \<Longrightarrow> find P (filter Q xs) = find P xs"
  by (induction xs) auto

text \<open>Dropping old entries of a list with distinct keys finds the same entry or loses it.\<close>

lemma find_lastn:
  assumes "distinct (map f xs)"
  shows "find (\<lambda>x. f x = k) (lastn n xs) = find (\<lambda>x. f x = k) xs \<or>
    find (\<lambda>x. f x = k) (lastn n xs) = None \<and> n < length xs"
proof (cases "length xs \<le> n")
  case True
  then show ?thesis by (simp add: lastn_all)
next
  case False
  let ?m = "length xs - n"
  have x: "xs = take ?m xs @ lastn n xs" by (simp add: lastn_def)
  show ?thesis
  proof (cases "\<exists>x\<in>set (take ?m xs). f x = k")
    case True
    from assms x have "distinct (map f (take ?m xs) @ map f (lastn n xs))"
      by (metis map_append)
    with True have "\<forall>x\<in>set (lastn n xs). f x \<noteq> k" by auto
    then have "find (\<lambda>x. f x = k) (lastn n xs) = None" by (simp add: find_None_iff)
    with False show ?thesis by simp
  next
    case miss: False
    then have "find (\<lambda>x. f x = k) (take ?m xs @ lastn n xs) = find (\<lambda>x. f x = k) (lastn n xs)"
      by (intro find_append_miss) auto
    with x show ?thesis by simp
  qed
qed

section \<open>Slices\<close>

text \<open>\<open>xs[a:b]\<close>, and \<open>copy(dst[i:], src)\<close> as the updated \<open>dst\<close>.\<close>

definition go_slice :: "nat \<Rightarrow> nat \<Rightarrow> 'a list \<Rightarrow> 'a list" where
  "go_slice a b xs = take (b - a) (drop a xs)"

definition copy_at :: "nat \<Rightarrow> 'a list \<Rightarrow> 'a list \<Rightarrow> 'a list" where
  "copy_at i dst src = take i dst @ take (length dst - i) src @ drop (i + length src) dst"

lemma length_go_slice [simp]: "length (go_slice a b xs) = min (b - a) (length xs - a)"
  by (simp add: go_slice_def min_def)

lemma copy_at_fill: "length src = length dst \<Longrightarrow> copy_at 0 dst src = src"
  by (simp add: copy_at_def)

text \<open>Two copies that fill a fresh slice from the front and from position \<open>length a\<close>.\<close>

lemma copy_at_two:
  "length dst = length a + length b \<Longrightarrow> i = length a \<Longrightarrow> copy_at i (copy_at 0 dst a) b = a @ b"
  by (simp add: copy_at_def)

section \<open>The contract of a bounded log\<close>

text \<open>
  Several parts of the program append to a list and cut it back to its last \<open>cap\<close> entries (target
  events, IP history, the archive of removed targets, the alert log). \<open>push\<close> is that operation
  with the source's shape; the locale states what a client may rely on.
\<close>

locale bounded_log =
  fixes cap :: nat
    and push :: "'a list \<Rightarrow> 'a \<Rightarrow> 'a list"
  assumes push_spec: "push xs x = lastn cap (xs @ [x])"
begin

lemma push_length: "length (push xs x) = min cap (Suc (length xs))"
  by (simp add: push_spec)

lemma push_bounded: "length (push xs x) \<le> cap"
  by (simp add: push_spec)

lemma push_last: "0 < cap \<Longrightarrow> push xs x \<noteq> [] \<and> last (push xs x) = x"
  by (cases cap) (simp_all add: push_spec lastn_Suc_snoc)

lemma foldl_push: "length xs \<le> cap \<Longrightarrow> foldl push xs ys = lastn cap (xs @ ys)"
proof (induction ys arbitrary: xs)
  case Nil
  then show ?case by (simp add: lastn_all)
next
  case (Cons y ys)
  have "foldl push xs (y # ys) = lastn cap (push xs y @ ys)"
    using Cons.IH [of "push xs y"] by (simp add: push_bounded)
  also have "\<dots> = lastn cap ((xs @ [y]) @ ys)"
    by (simp only: push_spec lastn_append_lastn)
  finally show ?case by simp
qed

lemma foldl_push_bounded: "length xs \<le> cap \<Longrightarrow> length (foldl push xs ys) \<le> cap"
  by (simp add: foldl_push)

end

end
