(* ===== verification/Go_Float.thy ===== *)
theory Go_Float
  imports Mping_Prelude Complex_Main
begin

text \<open>
  Go's float64, as far as the program computes with it: values are not-a-number, an infinity or
  a rational number, and every operation rounds its exact result to 53 significant bits, ties to
  even, with the smallest exponent of binary64 (gradual underflow). Overflow to an infinity and
  the sign of zero are not modelled: the program's floats are nanosecond counts, squares of
  them and percentages.

  The theory ends with the contract \<open>rounding\<close>, what the numerical arguments of the
  other theories use, and its interpretation on the rounding function itself.
\<close>

section \<open>Rounding\<close>

text \<open>Round to an integer, ties to even.\<close>

definition round_even :: "rat \<Rightarrow> int" where
  "round_even x =
     (let f = \<lfloor>x\<rfloor>; r = x - of_int f in
      if r < 1 / 2 then f
      else if r > 1 / 2 then f + 1
      else if even f then f else f + 1)"

text \<open>\<open>pow2 e\<close> is 2 to the power \<open>e\<close>; \<open>ilog2 x\<close> the exponent of the leading bit of \<open>x > 0\<close>.\<close>

definition pow2 :: "int \<Rightarrow> rat" where
  "pow2 e = (if 0 \<le> e then 2 ^ nat e else 1 / 2 ^ nat (- e))"

function bit_len :: "int \<Rightarrow> int" where
  "bit_len n = (if n \<le> 0 then 0 else 1 + bit_len (n div 2))"
  by auto
termination by (relation "measure nat") auto

declare bit_len.simps [simp del]

definition ilog2 :: "rat \<Rightarrow> int" where
  "ilog2 x = (case quotient_of x of (a, b) \<Rightarrow>
     let k = bit_len a - bit_len b in
     if pow2 k \<le> x then k else k - 1)"

definition ulp_exp :: "rat \<Rightarrow> int" where
  "ulp_exp x = max (ilog2 x - 52) (- 1074)"

definition rnd_pos :: "rat \<Rightarrow> rat" where
  "rnd_pos x = of_int (round_even (x / pow2 (ulp_exp x))) * pow2 (ulp_exp x)"

definition rnd :: "rat \<Rightarrow> rat" where
  "rnd x = (if x = 0 then 0 else if 0 < x then rnd_pos x else - rnd_pos (- x))"

lemma round_even_of_int [simp]: "round_even (of_int n) = n"
  by (simp add: round_even_def)

lemma round_even_bounds: "\<lfloor>x\<rfloor> \<le> round_even x" "round_even x \<le> \<lfloor>x\<rfloor> + 1"
  by (auto simp: round_even_def Let_def)

lemma round_even_mono: "x \<le> y \<Longrightarrow> round_even x \<le> round_even y"
proof -
  assume le: "x \<le> y"
  then have "\<lfloor>x\<rfloor> \<le> \<lfloor>y\<rfloor>" by (rule floor_mono)
  then consider "\<lfloor>x\<rfloor> = \<lfloor>y\<rfloor>" | "\<lfloor>x\<rfloor> + 1 \<le> \<lfloor>y\<rfloor>" by linarith
  then show ?thesis
  proof cases
    case 1
    with le show ?thesis by (auto simp: round_even_def Let_def)
  next
    case 2
    then show ?thesis using round_even_bounds [of x] round_even_bounds [of y] by linarith
  qed
qed

lemma round_even_le: "x \<le> of_int n \<Longrightarrow> round_even x \<le> n"
  using round_even_mono [of x "of_int n"] by simp

lemma round_even_ge: "of_int n \<le> x \<Longrightarrow> n \<le> round_even x"
  using round_even_mono [of "of_int n" x] by simp

lemma pow2_pos [simp]: "0 < pow2 e"
  by (simp add: pow2_def)

lemma pow2_nonzero [simp]: "pow2 e \<noteq> 0"
  using pow2_pos [of e] by linarith

lemma pow2_powi: "pow2 e = 2 powi e"
  by (simp add: pow2_def power_int_def inverse_eq_divide power_one_over)

lemma pow2_add: "pow2 (a + b) = pow2 a * pow2 b"
  by (simp add: pow2_powi power_int_add)

lemma pow2_diff: "pow2 (a - b) = pow2 a / pow2 b"
  by (simp add: pow2_powi power_int_diff)

lemma pow2_mono: "a \<le> b \<Longrightarrow> pow2 a \<le> pow2 b"
  by (simp add: pow2_powi power_int_increasing)

lemma pow2_less: "pow2 a < pow2 b \<Longrightarrow> a < b"
  using pow2_mono [of b a] by linarith

lemma pow2_0 [simp]: "pow2 0 = 1"
  by (simp add: pow2_def)

lemma pow2_Suc: "pow2 (k + 1) = 2 * pow2 k"
  by (simp add: pow2_add) (simp add: pow2_def)

lemma pow2_int: "0 \<le> e \<Longrightarrow> pow2 e = of_int (2 ^ nat e)"
  by (simp add: pow2_def)

lemma bit_len_bounds:
  "0 < n \<Longrightarrow> pow2 (bit_len n - 1) \<le> of_int n \<and> of_int n < pow2 (bit_len n) \<and> 0 < bit_len n"
proof (induction n rule: bit_len.induct)
  case (1 n)
  show ?case
  proof (cases "n = 1")
    case True
    then show ?thesis by (simp add: bit_len.simps pow2_def)
  next
    case False
    with 1 have IH: "pow2 (bit_len (n div 2) - 1) \<le> of_int (n div 2)"
      "of_int (n div 2) < pow2 (bit_len (n div 2))" "0 < bit_len (n div 2)" by auto
    define k where "k = bit_len (n div 2)"
    have b: "bit_len n = k + 1" using 1 by (simp add: bit_len.simps [of n] k_def)
    have k: "0 < k" "2 ^ nat (k - 1) \<le> n div 2" "n div 2 < 2 ^ nat k"
      using IH by (simp_all add: k_def pow2_int del: of_int_div)
    have "nat k = Suc (nat (k - 1))" using k(1) by simp
    then have "2 * 2 ^ nat (k - 1) = (2 :: int) ^ nat k" by simp
    with k have "2 ^ nat k \<le> n" "n < 2 * 2 ^ nat k" by linarith+
    then have "(of_int (2 ^ nat k) :: rat) \<le> of_int n" "(of_int n :: rat) < of_int (2 * 2 ^ nat k)"
      by (simp_all only: of_int_le_iff of_int_less_iff)
    with k(1) show ?thesis by (simp add: b pow2_int nat_add_distrib)
  qed
qed

lemma ilog2_bounds:
  assumes "0 < x"
  shows "pow2 (ilog2 x) \<le> x" "x < pow2 (ilog2 x + 1)"
proof -
  obtain a b where q: "quotient_of x = (a, b)" by force
  then have b: "0 < b" and x: "x = of_int a / of_int b"
    using quotient_of_denom_pos quotient_of_div by blast+
  with assms have a: "0 < a" by (simp add: zero_less_divide_iff)
  define k where "k = bit_len a - bit_len b"
  have pa: "pow2 (bit_len a - 1) \<le> of_int a" "of_int a < pow2 (bit_len a)"
    and pb: "pow2 (bit_len b - 1) \<le> of_int b" "of_int b < pow2 (bit_len b)"
    using bit_len_bounds a b by blast+
  have "x < pow2 (bit_len a) / pow2 (bit_len b - 1)"
    unfolding x using pa pb b a by (intro frac_less) auto
  then have up: "x < pow2 (k + 1)"
    by (simp add: pow2_diff [symmetric] k_def algebra_simps)
  have "pow2 (bit_len a - 1) / pow2 (bit_len b) \<le> x"
    unfolding x using pa pb b a by (intro frac_le) auto
  then have lo: "pow2 (k - 1) \<le> x"
    by (simp add: pow2_diff [symmetric] k_def algebra_simps)
  have i: "ilog2 x = (if pow2 k \<le> x then k else k - 1)"
    by (simp add: ilog2_def q k_def)
  show "pow2 (ilog2 x) \<le> x" "x < pow2 (ilog2 x + 1)"
    using up lo by (auto simp: i)
qed

lemma ilog2_mono: "0 < x \<Longrightarrow> x \<le> y \<Longrightarrow> ilog2 x \<le> ilog2 y"
  using ilog2_bounds [of x] ilog2_bounds [of y] pow2_less [of "ilog2 x" "ilog2 y + 1"] by force

lemma ilog2_less: "0 < x \<Longrightarrow> x < pow2 k \<Longrightarrow> ilog2 x < k"
  using ilog2_bounds [of x] pow2_less [of "ilog2 x" k] by linarith

section \<open>Representable numbers\<close>

text \<open>\<open>representable x\<close>: rounding keeps \<open>x\<close>, so a float64 holds it exactly.\<close>

definition representable :: "rat \<Rightarrow> bool" where
  "representable x = (rnd x = x)"

lemma rnd_0 [simp]: "rnd 0 = 0"
  by (simp add: rnd_def)

lemma rnd_minus: "rnd (- x) = - rnd x"
  by (simp add: rnd_def)

lemma ulp_exp_mono: "0 < x \<Longrightarrow> x \<le> y \<Longrightarrow> ulp_exp x \<le> ulp_exp y"
  using ilog2_mono [of x y] by (auto simp: ulp_exp_def)

lemma rnd_pos_nonneg: "0 < x \<Longrightarrow> 0 \<le> rnd_pos x"
  using round_even_ge [of 0 "x / pow2 (ulp_exp x)"] by (simp add: rnd_pos_def less_imp_le)

lemma rnd_pos_upper:
  assumes "0 < x" "x \<le> pow2 k" "ulp_exp x \<le> k"
  shows "rnd_pos x \<le> pow2 k"
proof -
  let ?e = "ulp_exp x"
  have "x / pow2 ?e \<le> pow2 (k - ?e)"
    using assms by (simp add: pow2_diff divide_right_mono less_imp_le [OF pow2_pos])
  then have "round_even (x / pow2 ?e) \<le> 2 ^ nat (k - ?e)"
    using assms by (intro round_even_le) (simp add: pow2_int)
  then have "of_int (round_even (x / pow2 ?e)) \<le> pow2 (k - ?e)"
    using assms by (simp add: pow2_int)
  then have "rnd_pos x \<le> pow2 (k - ?e) * pow2 ?e"
    unfolding rnd_pos_def by (rule mult_right_mono) (simp add: less_imp_le)
  then show ?thesis by (simp add: pow2_diff)
qed

lemma rnd_pos_lower:
  assumes "0 < x" "pow2 k \<le> x" "ulp_exp x \<le> k"
  shows "pow2 k \<le> rnd_pos x"
proof -
  let ?e = "ulp_exp x"
  have "pow2 (k - ?e) \<le> x / pow2 ?e"
    using assms by (simp add: pow2_diff divide_right_mono less_imp_le [OF pow2_pos])
  then have "2 ^ nat (k - ?e) \<le> round_even (x / pow2 ?e)"
    using assms by (intro round_even_ge) (simp add: pow2_int)
  then have "pow2 (k - ?e) \<le> of_int (round_even (x / pow2 ?e))"
    using assms by (simp add: pow2_int)
  then have "pow2 (k - ?e) * pow2 ?e \<le> rnd_pos x"
    unfolding rnd_pos_def by (rule mult_right_mono) (simp add: less_imp_le)
  then show ?thesis by (simp add: pow2_diff)
qed

lemma rnd_pos_mono:
  assumes "0 < x" "x \<le> y"
  shows "rnd_pos x \<le> rnd_pos y"
proof (cases "ulp_exp x = ulp_exp y")
  case True
  have "round_even (x / pow2 (ulp_exp y)) \<le> round_even (y / pow2 (ulp_exp y))"
    using assms by (intro round_even_mono divide_right_mono) (simp_all add: less_imp_le)
  then show ?thesis by (simp add: rnd_pos_def True)
next
  case False
  define k where "k = ilog2 y"
  from False ulp_exp_mono [OF assms] have lt: "ulp_exp x < ulp_exp y" by simp
  then have ky: "ulp_exp y = k - 52" and kx: "ilog2 x + 1 \<le> k"
    by (auto simp: ulp_exp_def k_def)
  have "x \<le> pow2 k"
    using ilog2_bounds(2) [OF assms(1)] pow2_mono [OF kx] by simp
  then have "rnd_pos x \<le> pow2 k"
    using assms lt ky by (intro rnd_pos_upper) simp_all
  also have "pow2 k \<le> rnd_pos y"
    using assms ilog2_bounds(1) [of y] ky by (intro rnd_pos_lower) (simp_all add: k_def)
  finally show ?thesis .
qed

lemma rnd_mono: "x \<le> y \<Longrightarrow> rnd x \<le> rnd y"
proof -
  assume le: "x \<le> y"
  consider "0 < x" | "x \<le> 0" "0 \<le> y" | "y < 0" by linarith
  then show ?thesis
  proof cases
    case 1
    with le show ?thesis by (simp add: rnd_def rnd_pos_mono)
  next
    case 2
    then show ?thesis
      using rnd_pos_nonneg [of y] rnd_pos_nonneg [of "- x"] by (auto simp: rnd_def)
  next
    case 3
    with le show ?thesis using rnd_pos_mono [of "- y" "- x"] by (simp add: rnd_def)
  qed
qed

text \<open>Integer multiples of a coarse enough power of two are representable.\<close>

lemma rnd_pos_multiple:
  assumes "x = of_int n * pow2 e" "0 < x" "ulp_exp x \<le> e"
  shows "rnd_pos x = x"
proof -
  have "x / pow2 (ulp_exp x) = of_int n * pow2 (e - ulp_exp x)"
    by (simp add: assms(1) pow2_diff)
  also have "\<dots> = of_int (n * 2 ^ nat (e - ulp_exp x))"
    using assms by (simp add: pow2_int)
  finally have "x / pow2 (ulp_exp x) = of_int (n * 2 ^ nat (e - ulp_exp x))" .
  then have "of_int (round_even (x / pow2 (ulp_exp x))) = x / pow2 (ulp_exp x)"
    by (simp only: round_even_of_int)
  then show ?thesis by (simp add: rnd_pos_def)
qed

lemma rnd_pos_dyadic:
  assumes x: "x = of_int n * pow2 e" and n: "0 < n" "n < 2 ^ 53" and e: "- 1074 \<le> e"
  shows "rnd_pos x = x"
proof (rule rnd_pos_multiple [OF x])
  show pos: "0 < x" using n by (simp add: x)
  have "(of_int n :: rat) < of_int (2 ^ 53)" using n(2) by (simp only: of_int_less_iff)
  then have "of_int n * pow2 e < pow2 53 * pow2 e"
    by (intro mult_strict_right_mono) (simp_all add: pow2_def)
  then have "x < pow2 (53 + e)" by (simp add: x pow2_add)
  then have "ilog2 x < 53 + e" by (rule ilog2_less [OF pos])
  then show "ulp_exp x \<le> e" using e by (simp add: ulp_exp_def)
qed

lemma representable_dyadic:
  assumes x: "x = of_int n * pow2 e" and n: "\<bar>n\<bar> \<le> 2 ^ 53" and e: "- 1074 \<le> e"
  shows "representable x"
proof -
  have pos: "rnd_pos (of_int m * pow2 e) = of_int m * pow2 e" if m: "0 < m" "m \<le> 2 ^ 53" for m
  proof (cases "m = 2 ^ 53")
    case True
    then have "of_int m * pow2 e = of_int 1 * pow2 (53 + e)"
      by (simp add: pow2_add) (simp add: pow2_def)
    then show ?thesis using e by (intro rnd_pos_dyadic [of _ 1 "53 + e"]) simp_all
  next
    case False
    with m e show ?thesis by (intro rnd_pos_dyadic [OF refl]) simp_all
  qed
  show ?thesis
    using pos [of n] pos [of "- n"] n less_asym [OF pow2_pos [of e]]
    by (auto simp: representable_def rnd_def x zero_less_mult_iff abs_le_iff)
qed

lemma representable_pow2: "- 1074 \<le> k \<Longrightarrow> representable (pow2 k)"
  by (rule representable_dyadic [of _ 1 k]) simp_all

lemma representable_of_int: "\<bar>n\<bar> \<le> 2 ^ 53 \<Longrightarrow> representable (of_int n)"
  by (rule representable_dyadic [of _ n 0]) simp_all

lemma rnd_pos_dyadic_form:
  assumes "0 < x"
  shows "\<exists>n e. rnd_pos x = of_int n * pow2 e \<and> 0 \<le> n \<and> n \<le> 2 ^ 53 \<and> - 1074 \<le> e"
proof -
  let ?e = "ulp_exp x"
  have "x < pow2 (ilog2 x + 1)" by (rule ilog2_bounds(2) [OF assms])
  also have "\<dots> \<le> pow2 (53 + ?e)" by (rule pow2_mono) (simp add: ulp_exp_def)
  finally have "x / pow2 ?e \<le> of_int (2 ^ 53)"
    by (simp add: pow2_add pos_divide_le_eq pow2_int)
  then have "round_even (x / pow2 ?e) \<le> 2 ^ 53" by (rule round_even_le)
  moreover have "0 \<le> round_even (x / pow2 ?e)"
    by (rule round_even_ge) (simp add: assms less_imp_le)
  moreover have "- 1074 \<le> ?e" by (simp add: ulp_exp_def)
  ultimately show ?thesis unfolding rnd_pos_def by blast
qed

lemma rnd_dyadic_form:
  "\<exists>n e. rnd x = of_int n * pow2 e \<and> \<bar>n\<bar> \<le> 2 ^ 53 \<and> - 1074 \<le> e"
proof -
  consider "x = 0" | "0 < x" | "0 < - x" by linarith
  then show ?thesis
  proof cases
    case 1
    then show ?thesis by (intro exI [of _ 0]) simp
  next
    case 2
    then obtain n e where "rnd_pos x = of_int n * pow2 e" "0 \<le> n" "n \<le> 2 ^ 53" "- 1074 \<le> e"
      using rnd_pos_dyadic_form [OF 2] by auto
    with 2 show ?thesis by (intro exI [of _ n] exI [of _ e]) (simp add: rnd_def)
  next
    case 3
    then obtain n e where "rnd_pos (- x) = of_int n * pow2 e" "0 \<le> n" "n \<le> 2 ^ 53" "- 1074 \<le> e"
      using rnd_pos_dyadic_form [OF 3] by auto
    with 3 show ?thesis by (intro exI [of _ "- n"] exI [of _ e]) (simp add: rnd_def)
  qed
qed

lemma rnd_representable: "representable (rnd x)"
  using rnd_dyadic_form [of x] representable_dyadic by metis

lemma representable_grid:
  "representable x \<Longrightarrow> \<exists>n. x = of_int n * pow2 (- 1074)"
proof -
  assume "representable x"
  then have "x = rnd x" by (simp add: representable_def)
  with rnd_dyadic_form [of x] obtain n e where x: "x = of_int n * pow2 e" and e: "- 1074 \<le> e"
    by metis
  have "pow2 e = pow2 (e + 1074) * pow2 (- 1074)" by (simp add: pow2_add [symmetric])
  also have "pow2 (e + 1074) = of_int (2 ^ nat (e + 1074))" using e by (simp add: pow2_int)
  finally have "x = of_int (n * 2 ^ nat (e + 1074)) * pow2 (- 1074)" by (simp add: x)
  then show ?thesis by blast
qed

text \<open>The gap between two representable numbers lies between neighbouring powers of two.\<close>

lemma representable_gap:
  assumes "representable x" "representable y" "y < x"
  shows "\<exists>p. 0 < p \<and> p \<le> x - y \<and> x - y \<le> 2 * p \<and> representable p \<and> representable (2 * p)"
proof -
  obtain m n where "x = of_int m * pow2 (- 1074)" "y = of_int n * pow2 (- 1074)"
    using assms representable_grid by metis
  then have d: "x - y = of_int (m - n) * pow2 (- 1074)" by (simp add: left_diff_distrib)
  with assms(3) have "0 < of_int (m - n) * pow2 (- 1074)" by linarith
  then have "0 < m - n" by (simp only: zero_less_mult_iff) (use pow2_pos [of "- 1074"] in auto)
  then have "(1 :: rat) \<le> of_int (m - n)" by (simp only: of_int_1_le_iff)
  then have "1 * pow2 (- 1074) \<le> x - y"
    unfolding d by (rule mult_right_mono) (simp add: less_imp_le)
  then have "pow2 (- 1074) < pow2 (ilog2 (x - y) + 1)"
    using ilog2_bounds(2) [of "x - y"] assms(3) by simp
  then have k: "- 1074 \<le> ilog2 (x - y)" using pow2_less by force
  show ?thesis
  proof (intro exI conjI)
    show "0 < pow2 (ilog2 (x - y))" by simp
    show "pow2 (ilog2 (x - y)) \<le> x - y" "x - y \<le> 2 * pow2 (ilog2 (x - y))"
      using ilog2_bounds [of "x - y"] assms(3) by (simp_all add: pow2_Suc)
    show "representable (pow2 (ilog2 (x - y)))" "representable (2 * pow2 (ilog2 (x - y)))"
      using k representable_pow2 [of "ilog2 (x - y)"] representable_pow2 [of "ilog2 (x - y) + 1"]
      by (simp_all add: pow2_Suc)
  qed
qed

section \<open>The contract of rounding\<close>

locale rounding =
  fixes r :: "rat \<Rightarrow> rat"
  assumes mono: "x \<le> y \<Longrightarrow> r x \<le> r y"
    and minus: "r (- x) = - r x"
    and idem: "r (r x) = r x"
    and exact_int: "\<bar>n\<bar> \<le> 2 ^ 53 \<Longrightarrow> r (of_int n) = of_int n"
    and gap: "r x = x \<Longrightarrow> r y = y \<Longrightarrow> y < x \<Longrightarrow>
      \<exists>p. 0 < p \<and> p \<le> x - y \<and> x - y \<le> 2 * p \<and> r p = p \<and> r (2 * p) = 2 * p"
begin

lemma zero: "r 0 = 0"
  using exact_int [of 0] by simp

lemma one: "r 1 = 1"
  using exact_int [of 1] by simp

lemma nonneg: "0 \<le> x \<Longrightarrow> 0 \<le> r x"
  using mono [of 0 x] by (simp add: zero)

lemma nonpos: "x \<le> 0 \<Longrightarrow> r x \<le> 0"
  using mono [of x 0] by (simp add: zero)

lemma below: "x \<le> y \<Longrightarrow> r y = y \<Longrightarrow> r x \<le> y"
  using mono [of x y] by simp

lemma above: "y \<le> x \<Longrightarrow> r y = y \<Longrightarrow> y \<le> r x"
  using mono [of y x] by simp

text \<open>A ratio of ordered nonnegative counts, scaled to percent, stays in [0, 100].\<close>

lemma ratio_le_one:
  assumes "0 \<le> a" "a \<le> b"
  shows "0 \<le> r (r a / r b)" "r (r a / r b) \<le> 1"
proof -
  have ab: "0 \<le> r a" "r a \<le> r b" using assms by (auto intro: nonneg mono)
  then show "0 \<le> r (r a / r b)" by (intro nonneg [of "r a / r b"]) simp
  have "r a / r b \<le> 1" using ab by (cases "r b = 0") (auto simp: divide_le_eq_1)
  then show "r (r a / r b) \<le> 1" by (rule below) (rule one)
qed

lemma percent_bounds:
  assumes "0 \<le> a" "a \<le> b"
  shows "0 \<le> r (r (r a / r b) * 100)" "r (r (r a / r b) * 100) \<le> 100"
proof -
  have h: "r 100 = 100" using exact_int [of 100] by simp
  show "0 \<le> r (r (r a / r b) * 100)"
    using ratio_le_one [OF assms] by (intro nonneg) simp
  show "r (r (r a / r b) * 100) \<le> 100"
    using ratio_le_one [OF assms] by (intro below h) simp
qed

text \<open>
  Half of a rounded difference, rounded, never exceeds the exact difference; hence a running
  mean moved by at most half of the way to a sample does not pass the sample.
\<close>

lemma half_step:
  assumes "r x = x" "r y = y" "y \<le> x" "2 \<le> n"
  shows "r (r (x - y) / n) \<le> x - y"
proof (cases "y = x")
  case True
  then show ?thesis by (simp add: zero)
next
  case False
  with assms gap [of x y] obtain p
    where p: "0 < p" "p \<le> x - y" "x - y \<le> 2 * p" "r p = p" "r (2 * p) = 2 * p" by auto
  have "r (x - y) \<le> 2 * p" using p by (intro below)
  then have "r (x - y) / n \<le> (2 * p) / n" using assms(4) by (intro divide_right_mono) auto
  also have "\<dots> \<le> (2 * p) / 2" using assms(4) p by (intro divide_left_mono) auto
  finally have "r (r (x - y) / n) \<le> p" using p by (intro below) auto
  with p show ?thesis by simp
qed

lemma mean_step_le:
  assumes "r x = x" "r y = y" "y \<le> x" "2 \<le> n"
  shows "r (y + r (r (x - y) / n)) \<le> x"
  using half_step [OF assms] assms(1) by (intro below) auto

lemma mean_step_ge:
  assumes "r x = x" "r y = y" "x \<le> y" "2 \<le> n"
  shows "x \<le> r (y + r (r (x - y) / n))"
proof -
  let ?q = "r (x - y) / n"
  have "r (- x - - y) / n = - ?q" using minus [of "x - y"] by simp
  moreover have "- y + r (- ?q) = - (y + r ?q)" by (simp add: minus)
  ultimately have "r (- y + r (r (- x - - y) / n)) = r (- (y + r ?q))"
    by (simp only:)
  also have "\<dots> = - r (y + r ?q)" by (rule minus)
  finally have "r (- y + r (r (- x - - y) / n)) = - r (y + r ?q)" .
  moreover have "r (- y + r (r (- x - - y) / n)) \<le> - x"
    using assms minus by (intro mean_step_le) auto
  ultimately show ?thesis by simp
qed

end

interpretation f64: rounding rnd
  using representable_gap representable_of_int rnd_representable
  by unfold_locales (auto simp: rnd_mono rnd_minus representable_def)

section \<open>The float64 operations\<close>

datatype float64 = NaN | PosInf | NegInf | Finite rat

text \<open>
  \<open>+\<close>, \<open>-\<close>, \<open>*\<close> and \<open>/\<close> of the source. Division by a (positive) zero gives an infinity or, for a
  zero dividend, not-a-number, as in Go.
\<close>

fun f_neg :: "float64 \<Rightarrow> float64" where
  "f_neg NaN = NaN"
| "f_neg PosInf = NegInf"
| "f_neg NegInf = PosInf"
| "f_neg (Finite x) = Finite (- x)"

fun f_add :: "float64 \<Rightarrow> float64 \<Rightarrow> float64" where
  "f_add (Finite x) (Finite y) = Finite (rnd (x + y))"
| "f_add NaN _ = NaN"
| "f_add _ NaN = NaN"
| "f_add PosInf NegInf = NaN"
| "f_add NegInf PosInf = NaN"
| "f_add PosInf _ = PosInf"
| "f_add NegInf _ = NegInf"
| "f_add (Finite x) y = y"

definition f_inf :: "bool \<Rightarrow> float64" where
  "f_inf positive = (if positive then PosInf else NegInf)"

fun f_positive :: "float64 \<Rightarrow> bool" where
  "f_positive NaN = False"
| "f_positive PosInf = True"
| "f_positive NegInf = False"
| "f_positive (Finite x) = (0 \<le> x)"

fun f_mul :: "float64 \<Rightarrow> float64 \<Rightarrow> float64" where
  "f_mul (Finite x) (Finite y) = Finite (rnd (x * y))"
| "f_mul NaN _ = NaN"
| "f_mul _ NaN = NaN"
| "f_mul x y = (if x = Finite 0 \<or> y = Finite 0 then NaN else f_inf (f_positive x = f_positive y))"

fun f_div :: "float64 \<Rightarrow> float64 \<Rightarrow> float64" where
  "f_div (Finite x) (Finite y) =
     (if y = 0 then (if x = 0 then NaN else f_inf (0 < x)) else Finite (rnd (x / y)))"
| "f_div NaN _ = NaN"
| "f_div _ NaN = NaN"
| "f_div (Finite x) _ = Finite 0"
| "f_div x (Finite y) = f_inf (f_positive x = (0 \<le> y))"
| "f_div _ _ = NaN"

fun f_le :: "float64 \<Rightarrow> float64 \<Rightarrow> bool" where
  "f_le (Finite x) (Finite y) = (x \<le> y)"
| "f_le NaN _ = False"
| "f_le _ NaN = False"
| "f_le NegInf _ = True"
| "f_le _ PosInf = True"
| "f_le _ _ = False"

fun f_less :: "float64 \<Rightarrow> float64 \<Rightarrow> bool" where
  "f_less (Finite x) (Finite y) = (x < y)"
| "f_less NaN _ = False"
| "f_less _ NaN = False"
| "f_less NegInf y = (y \<noteq> NegInf)"
| "f_less x PosInf = (x \<noteq> PosInf)"
| "f_less _ _ = False"

instantiation float64 :: "{zero, one, plus, minus, times, inverse, ord}"
begin

definition zero_float64 :: float64 where "zero_float64 = Finite 0"
definition one_float64 :: float64 where "one_float64 = Finite 1"
definition plus_float64 :: "float64 \<Rightarrow> float64 \<Rightarrow> float64" where "plus_float64 = f_add"
definition minus_float64 :: "float64 \<Rightarrow> float64 \<Rightarrow> float64" where
  "minus_float64 x y = f_add x (f_neg y)"
definition times_float64 :: "float64 \<Rightarrow> float64 \<Rightarrow> float64" where "times_float64 = f_mul"
definition divide_float64 :: "float64 \<Rightarrow> float64 \<Rightarrow> float64" where "divide_float64 = f_div"
definition inverse_float64 :: "float64 \<Rightarrow> float64" where "inverse_float64 = f_div (Finite 1)"
definition less_eq_float64 :: "float64 \<Rightarrow> float64 \<Rightarrow> bool" where "less_eq_float64 = f_le"
definition less_float64 :: "float64 \<Rightarrow> float64 \<Rightarrow> bool" where "less_float64 = f_less"

instance by intro_classes

end

text \<open>\<open>float64(i)\<close> of an integer, and \<open>int64(f)\<close>, which the language leaves open beyond the
  integer range and for not-a-number: None.\<close>

definition f_of_int :: "int \<Rightarrow> float64" where
  "f_of_int i = Finite (rnd (of_int i))"

fun f_trunc :: "float64 \<Rightarrow> int option" where
  "f_trunc (Finite x) = (let n = (if 0 \<le> x then \<lfloor>x\<rfloor> else - \<lfloor>- x\<rfloor>) in
     if - (2 ^ 63) \<le> n \<and> n < 2 ^ 63 then Some n else None)"
| "f_trunc _ = None"

lemma f_ops [simp]:
  "Finite x + Finite y = Finite (rnd (x + y))"
  "Finite x - Finite y = Finite (rnd (x - y))"
  "Finite x * Finite y = Finite (rnd (x * y))"
  "y \<noteq> 0 \<Longrightarrow> Finite x / Finite y = Finite (rnd (x / y))"
  "(Finite x \<le> Finite y) = (x \<le> y)"
  "(Finite x < Finite y) = (x < y)"
  by (simp_all add: plus_float64_def minus_float64_def times_float64_def divide_float64_def
      less_eq_float64_def less_float64_def)

text \<open>\<open>math.Sqrt\<close>: the integer root of a scaled argument with a half as the sticky bit, which
  rounds like the exact root; not-a-number for a negative argument.\<close>

function isqrt_rem :: "int \<Rightarrow> int \<times> int" where
  "isqrt_rem n = (if n \<le> 0 then (0, 0) else
     (case isqrt_rem (n div 4) of (q, r) \<Rightarrow>
       let r' = 4 * r + n mod 4 in
       if 4 * q + 1 \<le> r' then (2 * q + 1, r' - (4 * q + 1)) else (2 * q, r')))"
  by auto
termination by (relation "measure nat") auto

declare isqrt_rem.simps [simp del]

lemma isqrt_rem_spec:
  "0 \<le> n \<Longrightarrow> isqrt_rem n = (q, r) \<Longrightarrow> n = q * q + r \<and> 0 \<le> r \<and> r \<le> 2 * q \<and> 0 \<le> q"
proof (induction n arbitrary: q r rule: isqrt_rem.induct)
  case (1 n)
  show ?case
  proof (cases "n = 0")
    case True
    with 1 show ?thesis by (simp add: isqrt_rem.simps [of 0])
  next
    case False
    obtain a b where ab: "isqrt_rem (n div 4) = (a, b)" by force
    have "\<not> n \<le> 0" "0 \<le> n div 4" using "1.prems"(1) False by simp_all
    from "1.IH" [OF this ab] have *: "n div 4 = a * a + b" "0 \<le> b" "b \<le> 2 * a" "0 \<le> a" by blast+
    define k where "k = n mod 4"
    have n: "n = 4 * (a * a + b) + k" "k < 4" "0 \<le> k"
      by (simp_all only: k_def *(1) [symmetric]) simp_all
    have "isqrt_rem n = (if 4 * a + 1 \<le> 4 * b + k then (2 * a + 1, 4 * b + k - (4 * a + 1))
        else (2 * a, 4 * b + k))"
      using False "1.prems"(1) ab by (subst isqrt_rem.simps) (simp add: k_def Let_def)
    with "1.prems"(2)
    have e: "(if 4 * a + 1 \<le> 4 * b + k then (2 * a + 1, 4 * b + k - (4 * a + 1))
        else (2 * a, 4 * b + k)) = (q, r)" by (simp only:)
    show ?thesis
    proof (cases "4 * a + 1 \<le> 4 * b + k")
      case True
      then have qr: "q = 2 * a + 1" "r = 4 * b + k - (4 * a + 1)" using e by simp_all
      have "(2 * a + 1) * (2 * a + 1) = 4 * (a * a) + 4 * a + 1" by (simp add: algebra_simps)
      then show ?thesis unfolding qr using n * True by simp
    next
      case False
      then have qr: "q = 2 * a" "r = 4 * b + k" using e by simp_all
      show ?thesis unfolding qr using n * False by simp
    qed
  qed
qed

definition sqrt_rat :: "rat \<Rightarrow> rat" where
  "sqrt_rat x = (if x \<le> 0 then 0 else
     let s = max 0 (56 - ilog2 x div 2);
         y = x * pow2 (2 * s) in
     case isqrt_rem \<lfloor>y\<rfloor> of (m, r) \<Rightarrow>
       rnd ((if r = 0 \<and> of_int \<lfloor>y\<rfloor> = y then of_int m else of_int m + 1 / 2) / pow2 s))"

fun f_sqrt :: "float64 \<Rightarrow> float64" where
  "f_sqrt (Finite x) = (if x < 0 then NaN else Finite (sqrt_rat x))"
| "f_sqrt PosInf = PosInf"
| "f_sqrt _ = NaN"

lemma sqrt_rat_nonneg: "0 \<le> sqrt_rat x"
proof (cases "0 < x")
  case True
  define s y where "s = max 0 (56 - ilog2 x div 2)" and "y = x * pow2 (2 * s)"
  obtain m r where mr: "isqrt_rem \<lfloor>y\<rfloor> = (m, r)" by force
  from True have "0 \<le> \<lfloor>y\<rfloor>" by (simp add: y_def less_imp_le)
  with mr have "0 \<le> m" using isqrt_rem_spec by blast
  then have "0 \<le> rnd ((if r = 0 \<and> of_int \<lfloor>y\<rfloor> = y then of_int m else of_int m + 1 / 2) / pow2 s)"
    by (intro f64.nonneg divide_nonneg_pos) simp_all
  with True mr show ?thesis by (simp add: sqrt_rat_def Let_def s_def y_def)
next
  case False
  then show ?thesis by (simp add: sqrt_rat_def)
qed

text \<open>\<open>%.1f\<close>: the exact value rounded to one decimal, ties to even.\<close>

fun fmt_f1 :: "float64 \<Rightarrow> string" where
  "fmt_f1 NaN = ''NaN''"
| "fmt_f1 PosInf = ''+Inf''"
| "fmt_f1 NegInf = ''-Inf''"
| "fmt_f1 (Finite x) =
     (let n = round_even (\<bar>x\<bar> * 10)
      in (if x < 0 then ''-'' else []) @ int_str (n div 10) @ ''.'' @ int_str (n mod 10))"

end
