(* ===== verification/Rtt_Accumulator.thy ===== *)
theory Rtt_Accumulator
  imports Go_Float
begin

text \<open>
  The round-trip-time accumulator (internal/stats/rtt_accumulator.go): minimum, maximum, sum and
  count of the samples, the float64 state of Welford's variance algorithm, and a ring buffer of
  the recent samples with the two functions that read it in order. The contract
  \<open>sample_window\<close> says what a buffer of recent samples promises its readers; the ring
  buffer implements it.
\<close>

section \<open>State\<close>

record rtt_acc =
  a_min :: duration
  a_max :: duration
  a_sum :: duration
  a_samples :: int
  a_mean :: float64
  a_m2 :: float64
  a_history :: "duration list option"
  a_idx :: nat
  a_len :: nat

text \<open>The zero value \<open>rttAccumulator{}\<close>.\<close>

definition empty_acc :: rtt_acc where
  "empty_acc = \<lparr> a_min = 0, a_max = 0, a_sum = 0, a_samples = 0, a_mean = 0, a_m2 = 0,
     a_history = None, a_idx = 0, a_len = 0 \<rparr>"

section \<open>Operations\<close>

definition record_rtt :: "rtt_acc \<Rightarrow> duration \<Rightarrow> rtt_acc" where
  "record_rtt a rtt =
     (if rtt \<le> 0 then a
      else
        let n = a_samples a + 1;
            x = f_of_int rtt;
            delta = x - a_mean a;
            mean = a_mean a + delta / f_of_int n;
            delta2 = x - mean
        in a \<lparr> a_samples := n,
               a_sum := a_sum a + rtt,
               a_min := (if a_min a = 0 \<or> rtt < a_min a then rtt else a_min a),
               a_max := (if rtt > a_max a then rtt else a_max a),
               a_mean := mean,
               a_m2 := a_m2 a + delta * delta2 \<rparr>)"

definition acc_avg :: "rtt_acc \<Rightarrow> duration" where
  "acc_avg a = (if a_samples a = 0 then 0 else a_sum a sdiv a_samples a)"

text \<open>
  \<open>stddev\<close>: None where the conversion of the float64 to a duration is not defined by the
  language (not-a-number, an infinity, or beyond int64).
\<close>

definition acc_stddev_float :: "rtt_acc \<Rightarrow> float64" where
  "acc_stddev_float a = f_sqrt (a_m2 a / f_of_int (a_samples a))"

definition acc_stddev :: "rtt_acc \<Rightarrow> duration option" where
  "acc_stddev a = (if a_samples a < 2 then Some 0 else f_trunc (acc_stddev_float a))"

text \<open>\<open>appendHistory\<close>; the capacity is a positive constant at every call.\<close>

definition append_history :: "nat \<Rightarrow> rtt_acc \<Rightarrow> duration \<Rightarrow> rtt_acc" where
  "append_history capacity a rtt =
     (let buf = (case a_history a of None \<Rightarrow> replicate capacity 0 | Some b \<Rightarrow> b)
      in a \<lparr> a_history := Some (buf[a_idx a mod capacity := rtt]),
             a_idx := a_idx a + 1,
             a_len := (if a_len a < capacity then a_len a + 1 else a_len a) \<rparr>)"

definition reconstruct_history :: "duration list option \<Rightarrow> nat \<Rightarrow> nat \<Rightarrow> duration list" where
  "reconstruct_history hist idx len =
     (case hist of None \<Rightarrow> [] | Some buf \<Rightarrow>
        if len = 0 then []
        else
          let size = length buf in
          if len < size then copy_at 0 (replicate len 0) (go_slice 0 len buf)
          else
            let start = idx mod size;
                out = copy_at 0 (replicate size 0) (drop start buf)
            in copy_at (size - start) out (go_slice 0 start buf))"

definition reconstruct_history_window ::
  "duration list option \<Rightarrow> nat \<Rightarrow> nat \<Rightarrow> int \<Rightarrow> duration list" where
  "reconstruct_history_window hist idx len n =
     (case hist of None \<Rightarrow> [] | Some buf \<Rightarrow>
        if len = 0 \<or> n \<le> 0 then []
        else
          let size = length buf;
              eff = nat (min n (int len))
          in
          if len < size then copy_at 0 (replicate eff 0) (go_slice (len - eff) len buf)
          else
            let ws = nat (((int idx - int eff) smod int size + int size) smod int size);
                out = replicate eff 0
            in
            if ws + eff \<le> size then copy_at 0 out (go_slice ws (ws + eff) buf)
            else
              let first = size - ws
              in copy_at first (copy_at 0 out (go_slice ws size buf)) (go_slice 0 (eff - first) buf))"

definition history_snapshot :: "rtt_acc \<Rightarrow> duration list" where
  "history_snapshot a = reconstruct_history (a_history a) (a_idx a) (a_len a)"

definition history_snapshot_window :: "rtt_acc \<Rightarrow> int \<Rightarrow> duration list" where
  "history_snapshot_window a n = reconstruct_history_window (a_history a) (a_idx a) (a_len a) n"

definition jitter_divisor :: int where "jitter_divisor = 16"

definition update_jitter :: "int \<Rightarrow> duration \<Rightarrow> duration \<Rightarrow> int" where
  "update_jitter jitter rtt last_rtt =
     (let delta = rtt - last_rtt;
          delta = (if delta < 0 then - delta else delta)
      in jitter + (delta - jitter) sdiv jitter_divisor)"

section \<open>The contract of a window of recent samples\<close>

text \<open>
  \<open>snapshot\<close> lists what is kept, oldest first; \<open>inv\<close> is what the operations keep. Readers may
  rely on the snapshot being the last \<open>cap\<close> samples pushed.
\<close>

locale sample_window =
  fixes inv :: "'s \<Rightarrow> bool"
    and push :: "'s \<Rightarrow> 'a \<Rightarrow> 's"
    and snapshot :: "'s \<Rightarrow> 'a list"
    and cap :: nat
  assumes inv_push: "inv s \<Longrightarrow> inv (push s x)"
    and snapshot_push: "inv s \<Longrightarrow> snapshot (push s x) = lastn cap (snapshot s @ [x])"
    and snapshot_bound: "inv s \<Longrightarrow> length (snapshot s) \<le> cap"
begin

lemma inv_foldl: "inv s \<Longrightarrow> inv (foldl push s xs)"
  by (induction xs arbitrary: s) (simp_all add: inv_push)

lemma snapshot_foldl: "inv s \<Longrightarrow> snapshot (foldl push s xs) = lastn cap (snapshot s @ xs)"
proof (induction xs arbitrary: s)
  case Nil
  then show ?case by (simp add: lastn_all snapshot_bound)
next
  case (Cons x xs)
  then have "snapshot (foldl push s (x # xs)) = lastn cap (lastn cap (snapshot s @ [x]) @ xs)"
    by (simp add: inv_push snapshot_push)
  then show ?case by (simp add: lastn_append_lastn)
qed

lemma push_inv_foldl_bound: "inv s \<Longrightarrow> length (snapshot (foldl push s xs)) \<le> cap"
  by (simp add: snapshot_foldl)

end

section \<open>The ring buffer is such a window\<close>

definition ring_inv :: "nat \<Rightarrow> rtt_acc \<Rightarrow> bool" where
  "ring_inv cap a = (0 < cap \<and>
     (case a_history a of
        None \<Rightarrow> a_idx a = 0 \<and> a_len a = 0
      | Some buf \<Rightarrow> length buf = cap \<and> a_len a = min (a_idx a) cap \<and> 0 < a_len a))"

text \<open>What the two branches of \<open>reconstructHistory\<close> return, without the copies.\<close>

lemma reconstruct_partial:
  "0 < len \<Longrightarrow> len < length buf \<Longrightarrow> reconstruct_history (Some buf) idx len = take len buf"
  by (simp add: reconstruct_history_def copy_at_fill go_slice_def)

lemma reconstruct_full:
  assumes "0 < length buf"
  shows "reconstruct_history (Some buf) idx (length buf)
    = drop (idx mod length buf) buf @ take (idx mod length buf) buf"
proof -
  let ?s = "idx mod length buf"
  have "?s < length buf" using assms by simp
  then show ?thesis
    using assms by (simp add: reconstruct_history_def go_slice_def Let_def copy_at_two)
qed

lemma snapshot_cases:
  assumes "ring_inv cap a" "a_history a = Some buf"
  shows "history_snapshot a =
    (if a_idx a < cap then take (a_idx a) buf
     else drop (a_idx a mod cap) buf @ take (a_idx a mod cap) buf)"
proof (cases "a_idx a < cap")
  case True
  with assms show ?thesis
    by (simp add: ring_inv_def history_snapshot_def reconstruct_partial)
next
  case False
  with assms have "a_len a = length buf" "cap = length buf" "0 < length buf"
    by (auto simp: ring_inv_def)
  with False assms(2) show ?thesis
    by (simp add: history_snapshot_def reconstruct_full)
qed

lemma snapshot_none: "a_history a = None \<Longrightarrow> history_snapshot a = []"
  by (simp add: history_snapshot_def reconstruct_history_def)

lemma ring_inv_empty: "0 < cap \<Longrightarrow> ring_inv cap empty_acc"
  by (simp add: ring_inv_def empty_acc_def)

lemma ring_inv_append: "ring_inv cap a \<Longrightarrow> ring_inv cap (append_history cap a x)"
  by (auto simp: ring_inv_def append_history_def Let_def split: option.splits)

lemma snapshot_length:
  assumes "ring_inv cap a"
  shows "length (history_snapshot a) = min (a_idx a) cap"
proof (cases "a_history a")
  case None
  with assms show ?thesis by (simp add: snapshot_none ring_inv_def)
next
  case (Some buf)
  with assms have "length buf = cap" "0 < cap" by (simp_all add: ring_inv_def)
  with snapshot_cases [OF assms Some] show ?thesis
    using mod_less_divisor [of cap "a_idx a"] by simp
qed

lemma take_Suc_update: "s < length b \<Longrightarrow> take (Suc s) (b[s := x]) = take s b @ [x]"
  by (simp add: take_Suc_conv_app_nth)

lemma lastn_shift: "length ys = n \<Longrightarrow> 0 < n \<Longrightarrow> lastn n (ys @ [x]) = tl ys @ [x]"
  by (cases ys) (simp_all add: lastn_def)

text \<open>Writing at the oldest entry of a full ring drops it and appends the new one.\<close>

lemma rotate_write:
  assumes s: "s < length b"
  shows "drop (Suc s mod length b) (b[s := x]) @ take (Suc s mod length b) (b[s := x])
    = lastn (length b) ((drop s b @ take s b) @ [x])"
proof -
  have r: "lastn (length b) ((drop s b @ take s b) @ [x]) = drop (Suc s) b @ take s b @ [x]"
    using s by (subst lastn_shift) (auto simp: tl_drop drop_Suc)
  show ?thesis
  proof (cases "Suc s = length b")
    case True
    then show ?thesis using s take_Suc_update [OF s, of x] by (simp only: r) simp
  next
    case False
    then show ?thesis using s by (simp only: r) (simp add: take_Suc_update)
  qed
qed

lemma snapshot_append:
  assumes inv: "ring_inv cap a"
  shows "history_snapshot (append_history cap a x) = lastn cap (history_snapshot a @ [x])"
proof (cases "a_history a")
  case None
  with inv have i: "a_idx a = 0" "0 < cap" by (auto simp: ring_inv_def)
  then obtain k where k: "cap = Suc k" by (cases cap) auto
  show ?thesis
    using inv None i snapshot_cases [OF ring_inv_append [OF inv, of x]]
    by (cases k) (simp_all add: k snapshot_none append_history_def Let_def lastn_def)
next
  case (Some buf)
  let ?i = "a_idx a" and ?a = "append_history cap a x"
  from inv Some have c: "0 < cap" "length buf = cap" by (auto simp: ring_inv_def)
  have h: "a_history ?a = Some (buf[?i mod cap := x])" "a_idx ?a = Suc ?i"
    using Some by (simp_all add: append_history_def Let_def)
  note new = snapshot_cases [OF ring_inv_append [OF inv] h(1), unfolded h(2)]
  note old = snapshot_cases [OF inv Some]
  consider "Suc ?i < cap" | "Suc ?i = cap" | "cap \<le> ?i" by linarith
  then show ?thesis
  proof cases
    case 1
    then show ?thesis using c by (simp add: new old lastn_all take_Suc_conv_app_nth)
  next
    case 2
    then have "buf[?i := x] = take ?i buf @ [x]"
      using c by (simp add: upd_conv_take_nth_drop)
    with 2 c show ?thesis by (simp add: new old lastn_all)
  next
    case 3
    have s: "?i mod cap < length buf" and m: "Suc ?i mod cap = Suc (?i mod cap) mod length buf"
      using c by (simp_all add: mod_Suc_eq)
    have "\<not> ?i < cap" "\<not> Suc ?i < cap" using 3 by simp_all
    with c(2) rotate_write [OF s, of x] show ?thesis by (simp only: new old if_False m)
  qed
qed

interpretation ring: sample_window "ring_inv cap" "append_history cap" history_snapshot cap for cap
  by unfold_locales (simp_all add: ring_inv_append snapshot_append snapshot_length)

section \<open>The trailing window\<close>

lemma mod_step_back:
  assumes "0 < e" "e \<le> n" "e \<le> (i::nat)"
  shows "(i - e) mod n = (if e \<le> i mod n then i mod n - e else i mod n + n - e)"
proof -
  define q s where "q = i div n" and "s = i mod n"
  have i: "i = q * n + s" and s: "s < n" using assms by (simp_all add: q_def s_def)
  show ?thesis
  proof (cases "e \<le> s")
    case True
    then have "i - e = q * n + (s - e)" by (simp add: i)
    then have "(i - e) mod n = (s - e) mod n" by (simp only: mod_mult_self3)
    with True s show ?thesis by (simp add: s_def)
  next
    case False
    with i assms(3) obtain p where q: "q = Suc p" by (cases q) auto
    have "i - e = p * n + (s + n - e)" using False assms(2) by (simp add: i q)
    then have "(i - e) mod n = (s + n - e) mod n" by (simp only: mod_mult_self3)
    with False s show ?thesis by (simp add: s_def)
  qed
qed

lemma window_start:
  assumes "0 < e" "e \<le> n" "e \<le> (i::nat)"
  shows "nat (((int i - int e) smod int n + int n) smod int n) = (i - e) mod n"
proof -
  have "(int i - int e) smod int n = int ((i - e) mod n)"
    using assms by (simp add: smod_nonneg of_nat_mod of_nat_diff)
  moreover have "(int ((i - e) mod n) + int n) smod int n = int (((i - e) mod n + n) mod n)"
    using assms by (simp add: smod_nonneg of_nat_mod)
  ultimately show ?thesis using assms by simp
qed

lemma window_full:
  assumes e: "0 < e" "e \<le> length buf" "e \<le> i"
  defines "ws \<equiv> (i - e) mod length buf"
  defines "s \<equiv> i mod length buf"
  shows "(if ws + e \<le> length buf then go_slice ws (ws + e) buf
      else go_slice ws (length buf) buf @ go_slice 0 (e - (length buf - ws)) buf)
    = lastn e (drop s buf @ take s buf)"
proof -
  have "0 < length buf" using e(1,2) by arith
  then have s: "s < length buf" unfolding s_def by (rule mod_less_divisor)
  note w = mod_step_back [OF e, folded ws_def s_def]
  consider "e \<le> s" | "s < e" "s = 0" | "s < e" "0 < s" by linarith
  then show ?thesis
  proof cases
    case 1
    with s w show ?thesis by (simp add: go_slice_def lastn_def drop_take)
  next
    case 2
    with e w show ?thesis by (auto simp: go_slice_def lastn_def)
  next
    case 3
    with s w e have "\<not> ws + e \<le> length buf" "ws = s + length buf - e" "e - (length buf - ws) = s"
      by auto
    with 3 s e show ?thesis by (simp add: go_slice_def lastn_def add.commute)
  qed
qed

lemma window_snapshot:
  assumes inv: "ring_inv cap a"
  shows "history_snapshot_window a n = lastn (nat n) (history_snapshot a)"
proof (cases "a_history a")
  case None
  then show ?thesis by (simp add: history_snapshot_window_def reconstruct_history_window_def snapshot_none)
next
  case (Some buf)
  with inv have c: "length buf = cap" "a_len a = min (a_idx a) cap" "0 < a_len a" "0 < cap"
    by (auto simp: ring_inv_def)
  define e where "e = nat (min n (int (a_len a)))"
  show ?thesis
  proof (cases "n \<le> 0")
    case True
    then show ?thesis
      using Some by (simp add: history_snapshot_window_def reconstruct_history_window_def)
  next
    case False
    then have e: "0 < e" "e \<le> a_len a" using c by (auto simp: e_def)
    have l: "lastn (nat n) (history_snapshot a) = lastn e (history_snapshot a)"
      using False snapshot_length [OF inv] c by (simp add: lastn_def e_def min_def)
    show ?thesis
    proof (cases "a_idx a < cap")
      case True
      with c have "nat (min n (int (a_idx a))) = e" by (simp add: e_def)
      with True Some c False e snapshot_cases [OF inv Some] show ?thesis
        unfolding l
        by (simp add: history_snapshot_window_def reconstruct_history_window_def Let_def
            copy_at_fill go_slice_def lastn_def drop_take)
    next
      case full: False
      with e c have b: "e \<le> length buf" "e \<le> a_idx a" "\<not> a_len a < length buf" by auto
      define ws where "ws = (a_idx a - e) mod length buf"
      have ws: "ws < length buf" using c by (simp add: ws_def)
      have "history_snapshot_window a n =
          (if ws + e \<le> length buf then go_slice ws (ws + e) buf
           else go_slice ws (length buf) buf @ go_slice 0 (e - (length buf - ws)) buf)"
        unfolding history_snapshot_window_def reconstruct_history_window_def Let_def Some option.case
          e_def [symmetric] window_start [OF e(1) b(1,2)] ws_def [symmetric]
        using False b ws c(3) by (simp add: copy_at_fill copy_at_two)
      then show ?thesis
        unfolding l
        using window_full [OF e(1) b(1,2), folded ws_def] snapshot_cases [OF inv Some] full c
        by simp
    qed
  qed
qed

section \<open>Minimum, maximum, sum and count\<close>

text \<open>The samples that count: \<open>record\<close> ignores what is not positive.\<close>

abbreviation valid_samples :: "duration list \<Rightarrow> duration list" where
  "valid_samples rs \<equiv> filter (\<lambda>r. 0 < r) rs"

definition acc_of :: "duration list \<Rightarrow> rtt_acc" where
  "acc_of rs = foldl record_rtt empty_acc rs"

lemma acc_of_Nil [simp]: "acc_of [] = empty_acc"
  by (simp add: acc_of_def)

lemma acc_of_snoc: "acc_of (rs @ [r]) = record_rtt (acc_of rs) r"
  by (simp add: acc_of_def)

lemma record_rtt_ignored: "r \<le> 0 \<Longrightarrow> record_rtt a r = a"
  by (simp add: record_rtt_def)

lemma record_rtt_fields:
  "0 < r \<Longrightarrow> a_samples (record_rtt a r) = a_samples a + 1"
  "0 < r \<Longrightarrow> a_sum (record_rtt a r) = a_sum a + r"
  "0 < r \<Longrightarrow> a_min (record_rtt a r) = (if a_min a = 0 \<or> r < a_min a then r else a_min a)"
  "0 < r \<Longrightarrow> a_max (record_rtt a r) = (if r > a_max a then r else a_max a)"
  by (simp_all add: record_rtt_def Let_def)

lemma record_rtt_history [simp]:
  "a_history (record_rtt a r) = a_history a" "a_idx (record_rtt a r) = a_idx a"
  "a_len (record_rtt a r) = a_len a"
  by (simp_all add: record_rtt_def Let_def)

lemma append_history_stats [simp]:
  "a_samples (append_history c a r) = a_samples a" "a_sum (append_history c a r) = a_sum a"
  "a_min (append_history c a r) = a_min a" "a_max (append_history c a r) = a_max a"
  "a_mean (append_history c a r) = a_mean a" "a_m2 (append_history c a r) = a_m2 a"
  by (simp_all add: append_history_def Let_def)

lemma acc_sum_count:
  "a_samples (acc_of rs) = int (length (valid_samples rs)) \<and> a_sum (acc_of rs) = sum_list (valid_samples rs)"
proof (induction rs rule: rev_induct)
  case (snoc r rs)
  then show ?case by (cases "0 < r") (simp_all add: acc_of_snoc record_rtt_fields record_rtt_ignored)
qed (simp add: acc_of_def empty_acc_def)

lemma acc_min_max:
  "(valid_samples rs = [] \<longrightarrow> a_min (acc_of rs) = 0 \<and> a_max (acc_of rs) = 0) \<and>
   (valid_samples rs \<noteq> [] \<longrightarrow> a_min (acc_of rs) = Min (set (valid_samples rs)) \<and>
      a_max (acc_of rs) = Max (set (valid_samples rs)) \<and> 0 < a_min (acc_of rs))"
proof (induction rs rule: rev_induct)
  case (snoc r rs)
  show ?case
  proof (cases "0 < r")
    case True
    show ?thesis
    proof (cases "valid_samples rs = []")
      case True
      with snoc \<open>0 < r\<close> show ?thesis by (simp add: acc_of_snoc record_rtt_fields)
    next
      case False
      define S where "S = set (valid_samples rs)"
      have ins: "set (valid_samples (rs @ [r])) = insert r S" "valid_samples (rs @ [r]) \<noteq> []"
        using True by (simp_all add: S_def)
      have S: "finite S" "S \<noteq> {}" using False by (simp_all add: S_def del: set_filter)
      from False snoc have "a_min (acc_of rs) = Min S" "a_max (acc_of rs) = Max S" "0 < Min S"
        by (simp_all only: S_def) simp_all
      with S ins True show ?thesis
        by (simp add: acc_of_snoc record_rtt_fields min_def max_def
            del: Min_gr_iff Max_less_iff Min_ge_iff Max_le_iff set_filter filter_append)
    qed
  next
    case False
    then have "valid_samples (rs @ [r]) = valid_samples rs" "acc_of (rs @ [r]) = acc_of rs"
      by (simp_all add: acc_of_snoc record_rtt_ignored)
    with snoc show ?thesis by (simp only:)
  qed
qed (simp add: acc_of_def empty_acc_def)

section \<open>The variance state\<close>

text \<open>
  What Welford's update keeps: both floats are finite and representable, and \<open>m2\<close> is not
  negative, so the square root of the variance is a number.
\<close>

definition welford_inv :: "rtt_acc \<Rightarrow> bool" where
  "welford_inv a = (0 \<le> a_samples a \<and> (a_samples a = 0 \<longrightarrow> a_mean a = 0) \<and>
     (case (a_mean a, a_m2 a) of
        (Finite m, Finite v) \<Rightarrow> rnd m = m \<and> 0 \<le> v
      | _ \<Rightarrow> False))"

lemma welford_inv_iff:
  "welford_inv a \<longleftrightarrow> 0 \<le> a_samples a \<and> (\<exists>m v. a_mean a = Finite m \<and> a_m2 a = Finite v \<and>
     rnd m = m \<and> 0 \<le> v \<and> (a_samples a = 0 \<longrightarrow> m = 0))"
  by (auto simp: welford_inv_def zero_float64_def split: float64.splits)

lemma welford_inv_empty: "welford_inv empty_acc"
  by (simp add: welford_inv_def empty_acc_def zero_float64_def)

text \<open>One update on the rationals: both differences have the sign of \<open>x - mean\<close>.\<close>

lemma welford_product:
  assumes x: "rnd x = x" and m: "rnd m = m" and n: "2 \<le> n"
  shows "0 \<le> rnd (x - m) * rnd (x - rnd (m + rnd (rnd (x - m) / n)))"
proof (cases "m \<le> x")
  case True
  then have "rnd (m + rnd (rnd (x - m) / n)) \<le> x" using x m n by (intro f64.mean_step_le)
  with True show ?thesis by (intro mult_nonneg_nonneg f64.nonneg) auto
next
  case False
  then have "x \<le> rnd (m + rnd (rnd (x - m) / n))" using x m n by (intro f64.mean_step_ge) auto
  with False show ?thesis by (intro mult_nonpos_nonpos f64.nonpos) auto
qed

lemma rnd_count_ge_two: "2 \<le> n \<Longrightarrow> 2 \<le> rnd (of_int n)"
  using f64.exact_int [of 2] by (intro f64.above) simp_all

lemma welford_inv_record: "welford_inv a \<Longrightarrow> welford_inv (record_rtt a r)"
proof (cases "0 < r")
  case True
  assume "welford_inv a"
  then obtain m v where mv: "a_mean a = Finite m" "a_m2 a = Finite v" "rnd m = m" "0 \<le> v"
      "0 \<le> a_samples a" "a_samples a = 0 \<longrightarrow> m = 0" by (auto simp: welford_inv_iff)
  define x n where "x = rnd (of_int r)" and "n = rnd (of_int (a_samples a + 1))"
  define m' where "m' = rnd (m + rnd (rnd (x - m) / n))"
  have x: "rnd x = x" by (simp add: x_def f64.idem)
  have n: "1 \<le> n" unfolding n_def using mv(5) f64.one by (intro f64.above) simp_all
  have "0 \<le> rnd (x - m) * rnd (x - m')"
  proof (cases "a_samples a = 0")
    case True
    then have "n = 1" "m = 0" using mv(6) f64.one by (simp_all add: n_def)
    then show ?thesis using x by (simp add: m'_def)
  next
    case False
    then have "2 \<le> n" unfolding n_def using mv(5) by (intro rnd_count_ge_two) simp
    then show ?thesis unfolding m'_def by (intro welford_product x mv(3))
  qed
  then have v: "0 \<le> rnd (v + rnd (rnd (x - m) * rnd (x - m')))"
    using mv(4) by (intro f64.nonneg add_nonneg_nonneg) auto
  have "a_mean (record_rtt a r) = Finite m'"
      "a_m2 (record_rtt a r) = Finite (rnd (v + rnd (rnd (x - m) * rnd (x - m'))))"
    using True n
    by (simp_all add: record_rtt_def Let_def mv(1,2) f_of_int_def x_def [symmetric]
        n_def [symmetric] m'_def del: of_int_add)
  moreover have "rnd m' = m'" by (simp add: m'_def f64.idem)
  ultimately show ?thesis
    using v True mv(5) by (simp add: welford_inv_iff record_rtt_fields)
qed (simp add: record_rtt_ignored)

lemma welford_inv_acc_of: "welford_inv (acc_of rs)"
  by (induction rs rule: rev_induct)
    (simp_all add: acc_of_snoc welford_inv_record welford_inv_empty)

lemma stddev_float_finite:
  assumes "welford_inv a" "2 \<le> a_samples a"
  shows "\<exists>s. acc_stddev_float a = Finite s \<and> 0 \<le> s"
proof -
  obtain v where v: "a_m2 a = Finite v" "0 \<le> v" using assms by (auto simp: welford_inv_iff)
  define n where "n = rnd (of_int (a_samples a))"
  have n: "2 \<le> n" unfolding n_def by (rule rnd_count_ge_two) (rule assms)
  then have "a_m2 a / f_of_int (a_samples a) = Finite (rnd (v / n))"
    by (simp add: v f_of_int_def n_def [symmetric])
  moreover have "0 \<le> rnd (v / n)" using v n by (intro f64.nonneg) simp
  ultimately show ?thesis by (simp add: acc_stddev_float_def sqrt_rat_nonneg)
qed

section \<open>Jitter\<close>

lemma update_jitter_between:
  assumes "0 \<le> j"
  shows "min j \<bar>rtt - prev\<bar> \<le> update_jitter j rtt prev \<and>
    update_jitter j rtt prev \<le> max j \<bar>rtt - prev\<bar>"
proof -
  define d where "d = \<bar>rtt - prev\<bar>"
  have u: "update_jitter j rtt prev = j + (d - j) sdiv 16"
    by (simp add: update_jitter_def d_def Let_def jitter_divisor_def abs_if)
  show ?thesis
  proof (cases "j \<le> d")
    case True
    then have "(d - j) sdiv 16 = (d - j) div 16" by (intro sdiv_nonneg) simp_all
    then show ?thesis unfolding u using True by (simp add: d_def [symmetric]) arith
  next
    case False
    then have "(d - j) sdiv 16 = - ((j - d) div 16)" by (subst sdiv_neg) simp_all
    then show ?thesis unfolding u using False by (simp add: d_def [symmetric]) arith
  qed
qed

section \<open>Properties\<close>

definition ring_of :: "nat \<Rightarrow> duration list \<Rightarrow> rtt_acc" where
  "ring_of cap xs = foldl (append_history cap) empty_acc xs"

text \<open>A target's round-trip history is a window: after any sequence of measurements pushed
  into a new accumulator, the reader of the whole ring sees exactly the last \<open>cap\<close> of them in
  order, and the reader of a trailing window of \<open>n\<close> entries sees exactly the last \<open>n\<close> of those,
  whatever the write index and however the ring has wrapped.\<close>

theorem ring_reads_last_samples:
  assumes "0 < cap"
  shows "history_snapshot (ring_of cap xs) = lastn cap xs \<and>
    history_snapshot_window (ring_of cap xs) n = lastn (min (nat n) cap) xs"
proof -
  note e = ring_inv_empty [OF assms(1)]
  have s: "history_snapshot (ring_of cap xs) = lastn cap xs"
    by (simp add: ring_of_def ring.snapshot_foldl [OF e]) (simp add: snapshot_none empty_acc_def)
  show ?thesis
    using window_snapshot [OF ring.inv_foldl [OF e, of xs], of n] s by (simp add: ring_of_def)
qed

theorem ring_reads_last_samples_witness:
  "history_snapshot (ring_of 3 [11, 0, 13, 14]) = [0, 13, 14] \<and>
   history_snapshot_window (ring_of 3 [11, 0, 13, 14]) 2 = [13, 14]"
  using ring_reads_last_samples [of 3 "[11, 0, 13, 14]" 2] by (simp add: lastn_def)

text \<open>The variance state never goes negative: whatever measurements are recorded, Welford's
  \<open>m2\<close> is a nonnegative float64 and, from two samples on, the square root that \<open>stddev\<close> converts
  is a nonnegative number, never not-a-number, in spite of the rounding of every operation. This
  is what the comment on the struct claims.\<close>

theorem stddev_never_nan:
  "(\<exists>v. a_m2 (acc_of rs) = Finite v \<and> 0 \<le> v) \<and>
   (2 \<le> length (valid_samples rs) \<longrightarrow> (\<exists>s. acc_stddev_float (acc_of rs) = Finite s \<and> 0 \<le> s))"
  using welford_inv_acc_of [of rs] stddev_float_finite [of "acc_of rs"]
  by (auto simp: welford_inv_iff acc_sum_count)

theorem stddev_never_nan_witness:
  "\<exists>s. acc_stddev_float (acc_of [3000000, 0, 5000000]) = Finite s \<and> 0 \<le> s"
  using stddev_never_nan [of "[3000000, 0, 5000000]"] by simp

text \<open>The summary statistics are exact: over the positive measurements recorded (others are
  ignored) the accumulator holds their count, sum, minimum and maximum, and the average it
  reports lies between minimum and maximum.\<close>

theorem acc_statistics_exact:
  "a_samples (acc_of rs) = int (length (valid_samples rs)) \<and>
    a_sum (acc_of rs) = sum_list (valid_samples rs) \<and>
    (valid_samples rs = [] \<longrightarrow> acc_avg (acc_of rs) = 0) \<and>
    (valid_samples rs \<noteq> [] \<longrightarrow>
       a_min (acc_of rs) = Min (set (valid_samples rs)) \<and> a_max (acc_of rs) = Max (set (valid_samples rs)) \<and>
       a_min (acc_of rs) \<le> acc_avg (acc_of rs) \<and> acc_avg (acc_of rs) \<le> a_max (acc_of rs))"
proof -
  let ?v = "valid_samples rs"
  note c = acc_sum_count [of rs] and m = acc_min_max [of rs]
  have bounds: "int (length ys) * lo \<le> sum_list ys \<and> sum_list ys \<le> int (length ys) * hi"
    if "\<forall>y\<in>set ys. lo \<le> y \<and> y \<le> hi" for ys :: "int list" and lo hi
    using that by (induction ys) (auto simp: algebra_simps)
  have avg: "a_min (acc_of rs) \<le> acc_avg (acc_of rs) \<and> acc_avg (acc_of rs) \<le> a_max (acc_of rs)"
    if ne: "?v \<noteq> []"
  proof -
    let ?n = "int (length ?v)"
    from ne have n: "0 < ?n" by simp
    from ne m have lo: "\<forall>y\<in>set ?v. a_min (acc_of rs) \<le> y \<and> y \<le> a_max (acc_of rs)"
      and pos: "0 < a_min (acc_of rs)" by simp_all
    note b = bounds [OF lo]
    have "0 \<le> ?n * a_min (acc_of rs)" using n pos by (intro mult_nonneg_nonneg) simp_all
    with b have s: "0 \<le> sum_list ?v" by linarith
    have "acc_avg (acc_of rs) = sum_list ?v div ?n"
      using c n sdiv_nonneg [OF s n] ne by (simp add: acc_avg_def)
    moreover have "a_min (acc_of rs) \<le> sum_list ?v div ?n"
      using b n zdiv_mono1 [of "?n * a_min (acc_of rs)" "sum_list ?v" ?n] by simp
    moreover have "sum_list ?v div ?n \<le> a_max (acc_of rs)"
      using b n zdiv_mono1 [of "sum_list ?v" "?n * a_max (acc_of rs)" ?n] by simp
    ultimately show ?thesis by simp
  qed
  show ?thesis
    using c m avg by (auto simp: acc_avg_def)
qed

theorem acc_statistics_exact_witness:
  "acc_avg (acc_of [3000, 0, 5000]) = 4000 \<and> a_min (acc_of [3000, 0, 5000]) = 3000 \<and>
    a_max (acc_of [3000, 0, 5000]) = 5000"
  using acc_statistics_exact [of "[3000, 0, 5000]"] by (simp add: acc_avg_def sdiv_nonneg)

end
