(* ===== verification/Thresholds.thy ===== *)
theory Thresholds
  imports Go_Float
begin

text \<open>
  Warning and critical thresholds and the severity levels every presentation shows
  (internal/stats/thresholds.go), the loss ratio, the port and HTTP status levels, and the
  labels of autonomous systems and route hops (asn.go).
\<close>

section \<open>Thresholds\<close>

record thresholds =
  rtt_warn :: duration
  rtt_crit :: duration
  jitter_warn :: duration
  jitter_crit :: duration
  loss_warn :: float64
  loss_crit :: float64

definition default_thresholds :: thresholds where
  "default_thresholds = \<lparr> rtt_warn = 50 * millisecond, rtt_crit = 200 * millisecond,
     jitter_warn = 10 * millisecond, jitter_crit = 50 * millisecond,
     loss_warn = Finite 20, loss_crit = Finite 80 \<rparr>"

text \<open>The errors of \<open>Validate\<close>, with the values their messages carry.\<close>

datatype threshold_error =
    RttNotPositive
  | RttOrder duration duration
  | JitterNotPositive
  | JitterOrder duration duration
  | LossRange
  | LossOrder float64 float64

definition thresholds_validate :: "thresholds \<Rightarrow> threshold_error option" where
  "thresholds_validate t =
     (if rtt_warn t \<le> 0 \<or> rtt_crit t \<le> 0 then Some RttNotPositive
      else if rtt_warn t \<ge> rtt_crit t then Some (RttOrder (rtt_warn t) (rtt_crit t))
      else if jitter_warn t \<le> 0 \<or> jitter_crit t \<le> 0 then Some JitterNotPositive
      else if jitter_warn t \<ge> jitter_crit t then Some (JitterOrder (jitter_warn t) (jitter_crit t))
      else if loss_warn t = NaN \<or> loss_crit t = NaN \<or>
        loss_warn t < 0 \<or> loss_warn t > Finite 100 \<or> loss_crit t < 0 \<or> loss_crit t > Finite 100
        then Some LossRange
      else if loss_warn t \<ge> loss_crit t then Some (LossOrder (loss_warn t) (loss_crit t))
      else None)"

section \<open>Levels\<close>

datatype level = LevelNone | LevelPending | LevelOK | LevelWarn | LevelCrit

text \<open>The string values, part of the JSON export.\<close>

fun level_string :: "level \<Rightarrow> string" where
  "level_string LevelNone = ''none''"
| "level_string LevelPending = ''pending''"
| "level_string LevelOK = ''ok''"
| "level_string LevelWarn = ''warn''"
| "level_string LevelCrit = ''crit''"

text \<open>Severity orders the levels.\<close>

fun level_rank :: "level \<Rightarrow> nat" where
  "level_rank LevelNone = 0"
| "level_rank LevelPending = 1"
| "level_rank LevelOK = 2"
| "level_rank LevelWarn = 3"
| "level_rank LevelCrit = 4"

lemma level_rank_inj: "level_rank a = level_rank b \<longleftrightarrow> a = b"
  by (cases a; cases b) simp_all

instantiation level :: linorder
begin

definition less_eq_level :: "level \<Rightarrow> level \<Rightarrow> bool" where
  "less_eq_level a b = (level_rank a \<le> level_rank b)"

definition less_level :: "level \<Rightarrow> level \<Rightarrow> bool" where
  "less_level a b = (level_rank a < level_rank b)"

instance
  by standard (auto simp: less_eq_level_def less_level_def level_rank_inj)

end

definition duration_level :: "duration \<Rightarrow> duration \<Rightarrow> duration \<Rightarrow> level" where
  "duration_level d warn crit =
     (if d \<le> 0 then LevelNone
      else if d > crit then LevelCrit
      else if d > warn then LevelWarn
      else LevelOK)"

definition rtt_level :: "thresholds \<Rightarrow> duration \<Rightarrow> level" where
  "rtt_level t d = duration_level d (rtt_warn t) (rtt_crit t)"

definition jitter_level :: "thresholds \<Rightarrow> duration \<Rightarrow> level" where
  "jitter_level t d = duration_level d (jitter_warn t) (jitter_crit t)"

definition loss_level :: "thresholds \<Rightarrow> float64 \<Rightarrow> level" where
  "loss_level t pct =
     (if pct > loss_crit t then LevelCrit
      else if pct > loss_warn t then LevelWarn
      else LevelOK)"

definition hop_loss_level :: "thresholds \<Rightarrow> float64 \<Rightarrow> level" where
  "hop_loss_level t pct =
     (if pct \<ge> loss_crit t then LevelCrit
      else if pct > 0 then LevelWarn
      else LevelOK)"

record levels =
  lv_loss :: level
  lv_last_rtt :: level
  lv_jitter :: level

definition loss_ratio :: "int \<Rightarrow> int \<Rightarrow> float64" where
  "loss_ratio recv loss =
     (if recv + loss = 0 then 0
      else f_of_int loss / f_of_int (recv + loss) * Finite 100)"

definition compute_levels :: "thresholds \<Rightarrow> int \<Rightarrow> int \<Rightarrow> duration \<Rightarrow> duration \<Rightarrow> levels" where
  "compute_levels t recv loss last_rtt jitter =
     (let l = \<lparr> lv_loss = LevelNone, lv_last_rtt = rtt_level t last_rtt,
                lv_jitter = jitter_level t jitter \<rparr>
      in if recv + loss > 0 then l \<lparr> lv_loss := loss_level t (loss_ratio recv loss) \<rparr> else l)"

definition port_status_level :: "string \<Rightarrow> level" where
  "port_status_level status =
     (if status = ''Open'' then LevelOK
      else if status = ''Closed'' then LevelCrit
      else if status = ''Filtered'' \<or> status = ''Open|Filtered'' then LevelWarn
      else LevelPending)"

definition http_status_level :: "string \<Rightarrow> level" where
  "http_status_level status =
     (if status = ''Up'' then LevelOK
      else if status = ''Down'' \<or> status = ''Error'' then LevelCrit
      else LevelPending)"

section \<open>Labels\<close>

definition format_asn :: "string \<Rightarrow> string \<Rightarrow> string" where
  "format_asn number org =
     (if number = '''' then '''' else if org = '''' then number else number @ '' '' @ org)"

definition format_hop :: "string \<Rightarrow> string \<Rightarrow> string \<Rightarrow> string \<Rightarrow> string" where
  "format_hop ip asn org ptr =
     (if ip = '''' then ''*''
      else
        let annotation = format_asn asn org;
            out = (if annotation \<noteq> '''' then ip @ ''('' @ annotation @ '')'' else ip)
        in if ptr \<noteq> '''' then out @ '' '' @ ptr else out)"

section \<open>Lemmas\<close>

text \<open>What a validated set of thresholds guarantees.\<close>

definition thresholds_ok :: "thresholds \<Rightarrow> bool" where
  "thresholds_ok t = (0 < rtt_warn t \<and> rtt_warn t < rtt_crit t \<and>
     0 < jitter_warn t \<and> jitter_warn t < jitter_crit t \<and>
     (\<exists>w c. loss_warn t = Finite w \<and> loss_crit t = Finite c \<and> 0 \<le> w \<and> w < c \<and> c \<le> 100))"

lemma validate_iff: "thresholds_validate t = None \<longleftrightarrow> thresholds_ok t"
  by (cases "loss_warn t"; cases "loss_crit t")
    (auto simp: thresholds_validate_def thresholds_ok_def zero_float64_def less_float64_def
      less_eq_float64_def)

lemma default_thresholds_ok: "thresholds_ok default_thresholds"
  by (simp add: thresholds_ok_def default_thresholds_def)

lemma duration_level_mono:
  "warn < crit \<Longrightarrow> d \<le> d' \<Longrightarrow> duration_level d warn crit \<le> duration_level d' warn crit"
  by (auto simp: duration_level_def less_eq_level_def)

lemma loss_ratio_finite:
  assumes "0 \<le> recv" "0 \<le> loss"
  shows "\<exists>p. loss_ratio recv loss = Finite p \<and> 0 \<le> p \<and> p \<le> 100"
proof (cases "recv + loss = 0")
  case True
  then show ?thesis by (simp add: loss_ratio_def zero_float64_def)
next
  case False
  then have "(1::rat) \<le> of_int (recv + loss)" using assms by simp
  then have "1 \<le> rnd (of_int (recv + loss))" using f64.one by (intro f64.above)
  then have "loss_ratio recv loss
      = Finite (rnd (rnd (rnd (of_int loss) / rnd (of_int (recv + loss))) * 100))"
    using False by (simp add: loss_ratio_def f_of_int_def del: of_int_add)
  moreover have "(0::rat) \<le> of_int loss" "(of_int loss :: rat) \<le> of_int (recv + loss)"
    using assms by simp_all
  ultimately show ?thesis using f64.percent_bounds by blast
qed

lemma loss_ratio_mono:
  assumes "0 \<le> recv" "0 \<le> loss" "loss \<le> loss'" "recv + loss' \<le> 2 ^ 53"
  shows "loss_ratio recv loss \<le> loss_ratio recv loss'"
proof (cases "recv + loss = 0")
  case True
  then show ?thesis using loss_ratio_finite [of recv loss'] assms
    by (auto simp: loss_ratio_def zero_float64_def)
next
  case False
  then have pos: "0 < recv + loss" "0 < recv + loss'" using assms by auto
  have ex: "rnd (of_int i) = of_int i" if "0 \<le> i" "i \<le> recv + loss'" for i
    using that assms by (intro f64.exact_int) auto
  have ratio: "loss_ratio recv l = Finite (rnd (rnd (of_int l / of_int (recv + l)) * 100))"
    if "0 < recv + l" "0 \<le> l" "l \<le> loss'" for l
  proof -
    have "rnd (of_int l) = of_int l" "rnd (of_int (recv + l)) = of_int (recv + l)"
      using that assms by (intro ex; simp)+
    moreover have "(of_int (recv + l) :: rat) \<noteq> 0" using that by simp
    ultimately show ?thesis using that by (simp add: loss_ratio_def f_of_int_def del: of_int_add)
  qed
  have "loss * (recv + loss') \<le> loss' * (recv + loss)"
    using assms mult_right_mono [of loss loss' recv] by (simp add: algebra_simps)
  then have "(of_int (loss * (recv + loss')) :: rat) \<le> of_int (loss' * (recv + loss))"
    by (simp only: of_int_le_iff)
  then have "(of_int loss :: rat) / of_int (recv + loss) \<le> of_int loss' / of_int (recv + loss')"
    using pos by (simp add: divide_simps mult.commute del: of_int_add)
  then show ?thesis
    using pos assms by (simp add: ratio f64.mono del: of_int_add)
qed

section \<open>Properties\<close>

text \<open>Classification is monotone: with thresholds that pass validation, a longer round trip, a
  larger jitter and (with the same replies) more losses are never shown at a lower severity.\<close>

theorem levels_monotone:
  assumes "thresholds_validate t = None" "d \<le> d'" "0 \<le> recv" "0 \<le> loss" "loss \<le> loss'"
    "recv + loss' \<le> 2 ^ 53"
  shows "rtt_level t d \<le> rtt_level t d' \<and> jitter_level t d \<le> jitter_level t d' \<and>
    lv_loss (compute_levels t recv loss r j) \<le> lv_loss (compute_levels t recv loss' r j)"
proof -
  from assms(1) obtain w c where ok: "rtt_warn t < rtt_crit t" "jitter_warn t < jitter_crit t"
      "loss_warn t = Finite w" "loss_crit t = Finite c" "w < c"
    unfolding validate_iff thresholds_ok_def by blast
  obtain p where p: "loss_ratio recv loss = Finite p"
    using loss_ratio_finite [of recv loss] assms by blast
  obtain q where q: "loss_ratio recv loss' = Finite q"
    using loss_ratio_finite [of recv loss'] assms by auto
  have "p \<le> q" using loss_ratio_mono [OF assms(3-6)] by (simp add: p q)
  with ok have l: "loss_level t (Finite p) \<le> loss_level t (Finite q)"
    by (auto simp: loss_level_def less_eq_level_def)
  have "LevelNone \<le> loss_level t x" for x by (simp add: less_eq_level_def)
  with l assms p q have "lv_loss (compute_levels t recv loss r j) \<le> lv_loss (compute_levels t recv loss' r j)"
    by (auto simp: compute_levels_def Let_def)
  then show ?thesis
    using ok assms(2) by (simp add: rtt_level_def jitter_level_def duration_level_mono)
qed

theorem levels_monotone_witness:
  "rtt_level default_thresholds (60 * millisecond) \<le> rtt_level default_thresholds (300 * millisecond)"
  using levels_monotone [of default_thresholds "60 * millisecond" "300 * millisecond" 1 0 1]
  by (simp add: validate_iff default_thresholds_ok)

text \<open>The loss ratio is a percentage: for any counts of replies and losses it is a finite
  float64 between 0 and 100 (never not-a-number), 0 when nothing has completed.\<close>

theorem loss_ratio_is_percentage:
  assumes "0 \<le> recv" "0 \<le> loss"
  shows "(\<exists>p. loss_ratio recv loss = Finite p \<and> 0 \<le> p \<and> p \<le> 100) \<and>
    (recv + loss = 0 \<longrightarrow> loss_ratio recv loss = 0)"
  using loss_ratio_finite [OF assms] by (auto simp: loss_ratio_def)

theorem loss_ratio_is_percentage_witness:
  "\<exists>p. loss_ratio 2 1 = Finite p \<and> 0 \<le> p \<and> p \<le> 100"
  using loss_ratio_is_percentage [of 2 1] by simp

end
