(* ===== verification/Check_Results.thy ===== *)
theory Check_Results
  imports Rtt_Accumulator Thresholds
begin

text \<open>
  Results of the auxiliary checks of a target: TCP/UDP ports (internal/stats/portcheck.go) and
  HTTP URLs (internal/stats/httpcheck.go), with the counters they keep and the views readers
  get. Every \<open>SetResult\<close> reads the clock at most once, so it takes the time as an argument.
\<close>

definition history_size :: nat where "history_size = 3000"

lemma history_size_pos [simp]: "0 < history_size"
  by (simp add: history_size_def)

section \<open>Port checks\<close>

record port_check =
  pc_port :: int
  pc_protocol :: string
  pc_status :: string
  pc_last_rtt :: duration
  pc_open :: int
  pc_closed :: int
  pc_last_change :: gotime
  pc_rtt :: rtt_acc

record port_view =
  pv_port :: int
  pv_protocol :: string
  pv_status :: string
  pv_rtt :: duration
  pv_min :: duration
  pv_avg :: duration
  pv_max :: duration
  pv_stddev :: "duration option"
  pv_history :: "duration list"
  pv_open :: int
  pv_closed :: int
  pv_last_change :: gotime

definition new_port_check :: "int \<Rightarrow> string \<Rightarrow> port_check" where
  "new_port_check port protocol = \<lparr> pc_port = port, pc_protocol = protocol,
     pc_status = ''Checking...'', pc_last_rtt = 0, pc_open = 0, pc_closed = 0,
     pc_last_change = zero_time, pc_rtt = empty_acc \<rparr>"

definition port_record_rtt :: "port_check \<Rightarrow> duration \<Rightarrow> port_check" where
  "port_record_rtt r rtt =
     (if rtt \<le> 0 then r
      else r \<lparr> pc_rtt := append_history history_size (record_rtt (pc_rtt r) rtt) rtt \<rparr>)"

definition port_set_result :: "gotime \<Rightarrow> port_check \<Rightarrow> string \<Rightarrow> duration \<Rightarrow> port_check" where
  "port_set_result now r status rtt =
     (let r1 = (if status \<noteq> pc_status r then r \<lparr> pc_last_change := now \<rparr> else r);
          r2 = r1 \<lparr> pc_status := status, pc_last_rtt := rtt \<rparr>
      in if status = ''Open'' then port_record_rtt (r2 \<lparr> pc_open := pc_open r2 + 1 \<rparr>) rtt
         else if status \<in> {''Closed'', ''Filtered'', ''Open|Filtered''}
         then r2 \<lparr> pc_closed := pc_closed r2 + 1 \<rparr>
         else r2)"

definition port_get_view :: "port_check \<Rightarrow> port_view" where
  "port_get_view r = \<lparr> pv_port = pc_port r, pv_protocol = pc_protocol r, pv_status = pc_status r,
     pv_rtt = pc_last_rtt r, pv_min = a_min (pc_rtt r), pv_avg = acc_avg (pc_rtt r),
     pv_max = a_max (pc_rtt r), pv_stddev = acc_stddev (pc_rtt r),
     pv_history = history_snapshot (pc_rtt r), pv_open = pc_open r, pv_closed = pc_closed r,
     pv_last_change = pc_last_change r \<rparr>"

section \<open>HTTP checks\<close>

record http_check =
  hc_url :: string
  hc_status_code :: int
  hc_status :: string
  hc_last_rtt :: duration
  hc_up :: int
  hc_down :: int
  hc_last_change :: gotime
  hc_rtt :: rtt_acc

record http_view =
  hv_url :: string
  hv_status_code :: int
  hv_status :: string
  hv_rtt :: duration
  hv_min :: duration
  hv_avg :: duration
  hv_max :: duration
  hv_stddev :: "duration option"
  hv_up :: int
  hv_down :: int
  hv_last_change :: gotime

definition new_http_check :: "string \<Rightarrow> http_check" where
  "new_http_check url = \<lparr> hc_url = url, hc_status_code = 0, hc_status = ''Checking...'',
     hc_last_rtt = 0, hc_up = 0, hc_down = 0, hc_last_change = zero_time, hc_rtt = empty_acc \<rparr>"

text \<open>The switch of \<open>SetResult\<close>; \<open>failed\<close> says that its error argument is not nil.\<close>

definition http_status :: "int \<Rightarrow> bool \<Rightarrow> string" where
  "http_status code failed =
     (if failed then ''Error''
      else if 200 \<le> code \<and> code < 400 then ''Up''
      else ''Down'')"

definition http_set_result ::
  "gotime \<Rightarrow> http_check \<Rightarrow> int \<Rightarrow> duration \<Rightarrow> bool \<Rightarrow> http_check" where
  "http_set_result now r code rtt failed =
     (let status = http_status code failed;
          r1 = (if status \<noteq> hc_status r then r \<lparr> hc_last_change := now \<rparr> else r);
          r2 = r1 \<lparr> hc_status := status, hc_status_code := code, hc_last_rtt := rtt \<rparr>
      in if status = ''Up''
         then r2 \<lparr> hc_up := hc_up r2 + 1, hc_rtt := record_rtt (hc_rtt r2) rtt \<rparr>
         else r2 \<lparr> hc_down := hc_down r2 + 1 \<rparr>)"

definition http_get_view :: "http_check \<Rightarrow> http_view" where
  "http_get_view r = \<lparr> hv_url = hc_url r, hv_status_code = hc_status_code r,
     hv_status = hc_status r, hv_rtt = hc_last_rtt r, hv_min = a_min (hc_rtt r),
     hv_avg = acc_avg (hc_rtt r), hv_max = a_max (hc_rtt r), hv_stddev = acc_stddev (hc_rtt r),
     hv_up = hc_up r, hv_down = hc_down r, hv_last_change = hc_last_change r \<rparr>"

section \<open>A run of checks\<close>

text \<open>Checks in order: the time, the status (or code and error) and the round trip of each.\<close>

definition port_run :: "port_check \<Rightarrow> (gotime \<times> string \<times> duration) list \<Rightarrow> port_check" where
  "port_run r cs = foldl (\<lambda>r (now, status, rtt). port_set_result now r status rtt) r cs"

definition http_run :: "http_check \<Rightarrow> (gotime \<times> int \<times> duration \<times> bool) list \<Rightarrow> http_check" where
  "http_run r cs = foldl (\<lambda>r (now, code, rtt, failed). http_set_result now r code rtt failed) r cs"

lemma http_run_snoc:
  "http_run r (cs @ [c]) = (case c of (now, code, rtt, failed) \<Rightarrow>
     http_set_result now (http_run r cs) code rtt failed)"
  by (simp add: http_run_def split: prod.split)

lemma port_run_snoc:
  "port_run r (cs @ [c]) = (case c of (now, status, rtt) \<Rightarrow>
     port_set_result now (port_run r cs) status rtt)"
  by (simp add: port_run_def split: prod.split)

definition open_rtts :: "(gotime \<times> string \<times> duration) list \<Rightarrow> duration list" where
  "open_rtts cs = map (\<lambda>(_, _, rtt). rtt) (filter (\<lambda>(_, s, rtt). s = ''Open'' \<and> 0 < rtt) cs)"

lemma port_set_result_fields:
  "pc_open (port_set_result now r s rtt) = pc_open r + (if s = ''Open'' then 1 else 0)"
  "pc_closed (port_set_result now r s rtt) = pc_closed r +
     (if s \<in> {''Closed'', ''Filtered'', ''Open|Filtered''} then 1 else 0)"
  "pc_status (port_set_result now r s rtt) = s"
  "pc_rtt (port_set_result now r s rtt) = (if s = ''Open'' \<and> 0 < rtt
     then append_history history_size (record_rtt (pc_rtt r) rtt) rtt else pc_rtt r)"
  by (auto simp: port_set_result_def port_record_rtt_def Let_def)

lemma snapshot_record_rtt [simp]:
  "history_snapshot (append_history c (record_rtt a x) y) = history_snapshot (append_history c a y)"
  "ring_inv c (append_history c (record_rtt a x) y) = ring_inv c (append_history c a y)"
  by (simp_all add: history_snapshot_def ring_inv_def append_history_def Let_def)

lemma port_run_history:
  "ring_inv history_size (pc_rtt (port_run (new_port_check p proto) cs)) \<and>
   history_snapshot (pc_rtt (port_run (new_port_check p proto) cs)) = lastn history_size (open_rtts cs)"
proof (induction cs rule: rev_induct)
  case Nil
  then show ?case
    by (simp add: port_run_def new_port_check_def open_rtts_def ring_inv_empty snapshot_none)
      (simp add: snapshot_none empty_acc_def)
next
  case (snoc c cs)
  obtain now s rtt where c: "c = (now, s, rtt)" by (cases c)
  show ?case
    using snoc ring.inv_push [of history_size "pc_rtt (port_run (new_port_check p proto) cs)" rtt]
      ring.snapshot_push [of history_size "pc_rtt (port_run (new_port_check p proto) cs)" rtt]
    by (simp add: port_run_snoc c port_set_result_fields open_rtts_def lastn_append_lastn)
qed

definition up_checks :: "(gotime \<times> int \<times> duration \<times> bool) list \<Rightarrow> (gotime \<times> int \<times> duration \<times> bool) list" where
  "up_checks cs = filter (\<lambda>(_, code, _, failed). \<not> failed \<and> 200 \<le> code \<and> code < 400) cs"

section \<open>Properties\<close>

text \<open>Port check counters partition the runs: over any sequence of checks the open count is the
  number of Open results, the closed count the number of Closed, Filtered or Open|Filtered ones
  (an Error counts in neither), the status is the last one, and the history the reader gets is
  the window of the positive round trips of the Open results.\<close>

theorem port_check_counts:
  "pc_open (port_run (new_port_check port proto) cs) = int (length (filter (\<lambda>(_, s, _). s = ''Open'') cs)) \<and>
    pc_closed (port_run (new_port_check port proto) cs) = int (length (filter
      (\<lambda>(_, s, _). s \<in> {''Closed'', ''Filtered'', ''Open|Filtered''}) cs)) \<and>
    pc_status (port_run (new_port_check port proto) cs) = (if cs = [] then ''Checking...'' else fst (snd (last cs))) \<and>
    pv_history (port_get_view (port_run (new_port_check port proto) cs)) = lastn history_size (open_rtts cs)"
proof -
  have "pc_open (port_run (new_port_check port proto) cs) = int (length (filter (\<lambda>(_, s, _). s = ''Open'') cs)) \<and>
    pc_closed (port_run (new_port_check port proto) cs) = int (length (filter
      (\<lambda>(_, s, _). s \<in> {''Closed'', ''Filtered'', ''Open|Filtered''}) cs)) \<and>
    pc_status (port_run (new_port_check port proto) cs) = (if cs = [] then ''Checking...'' else fst (snd (last cs)))"
  proof (induction cs rule: rev_induct)
    case Nil
    then show ?case by (simp add: port_run_def new_port_check_def)
  next
    case (snoc c cs)
    obtain now s rtt where c: "c = (now, s, rtt)" by (cases c)
    from snoc show ?case
      by (simp add: port_run_snoc c port_set_result_fields)
  qed
  then show ?thesis using port_run_history [of port proto cs] by (simp add: port_get_view_def)
qed

text \<open>HTTP check counters partition the runs: every check counts as up (a 2xx or 3xx status
  without an error) or as down, the two counts add up to the number of checks, and the round-trip
  statistics are those of the up checks alone.\<close>

theorem http_check_counts:
  "hc_up (http_run (new_http_check url) cs) = int (length (up_checks cs)) \<and> hc_up (http_run (new_http_check url) cs) + hc_down (http_run (new_http_check url) cs) = int (length cs) \<and>
    hc_rtt (http_run (new_http_check url) cs) = acc_of (map (\<lambda>(_, _, rtt, _). rtt) (up_checks cs))"
proof (induction cs rule: rev_induct)
  case Nil
  then show ?case by (simp add: up_checks_def http_run_def new_http_check_def)
next
  case (snoc c cs)
  obtain now code rtt failed where c: "c = (now, code, rtt, failed)" by (cases c)
  from snoc show ?case
    by (auto simp: up_checks_def http_run_snoc c http_set_result_def http_status_def Let_def
        acc_of_snoc)
qed

end
