(* ===== verification/Mtr_Stats.thy ===== *)
theory Mtr_Stats
  imports Check_Results
begin

text \<open>
  The hop path of one target (internal/stats/mtr.go): per-hop counters, the annotations of the
  router that answers, route snapshots and the detection of route changes (flaps). The lock of
  the source makes every method one atomic step, so each is one function on the state.
\<close>

section \<open>State\<close>

record hop_stats =
  h_ttl :: int
  h_ip :: string
  h_route_ip :: string
  h_asn :: string
  h_country :: string
  h_org :: string
  h_ptr :: string
  h_sent :: int
  h_recv :: int
  h_last_rtt :: duration
  h_min_rtt :: duration
  h_max_rtt :: duration
  h_sum_rtt :: duration
  h_jitter :: int

record hop_annotation =
  ha_asn :: string
  ha_country :: string
  ha_org :: string
  ha_ptr :: string

record hop_view =
  hv_ttl :: int
  hv_ip :: string
  hv_asn :: string
  hv_country :: string
  hv_org :: string
  hv_ptr :: string
  hv_sent :: int
  hv_recv :: int
  hv_loss_pct :: float64
  hv_last_rtt :: duration
  hv_avg_rtt :: duration
  hv_min_rtt :: duration
  hv_max_rtt :: duration
  hv_jitter :: int

record mtr_stats =
  m_hops :: "hop_stats list"
  m_flap_count :: int
  m_last_flap_at :: gotime
  m_last_flap_desc :: string
  m_last_err :: string

definition new_hop :: "int \<Rightarrow> hop_stats" where
  "new_hop ttl = \<lparr> h_ttl = ttl, h_ip = [], h_route_ip = [], h_asn = [], h_country = [],
     h_org = [], h_ptr = [], h_sent = 0, h_recv = 0, h_last_rtt = 0, h_min_rtt = 0,
     h_max_rtt = 0, h_sum_rtt = 0, h_jitter = 0 \<rparr>"

definition new_mtr_stats :: mtr_stats where
  "new_mtr_stats = \<lparr> m_hops = [], m_flap_count = 0, m_last_flap_at = zero_time,
     m_last_flap_desc = [], m_last_err = [] \<rparr>"

section \<open>Operations\<close>

definition hop_annotate :: "string \<Rightarrow> hop_annotation \<Rightarrow> hop_stats \<Rightarrow> hop_stats" where
  "hop_annotate ip a h =
     (let h1 = (if ip \<noteq> [] then
                  (let h0 = (if ip \<noteq> h_ip h
                             then h \<lparr> h_asn := [], h_country := [], h_org := [], h_ptr := [] \<rparr>
                             else h)
                   in h0 \<lparr> h_ip := ip \<rparr>)
                else h);
          h2 = (if ha_asn a \<noteq> [] then h1 \<lparr> h_asn := ha_asn a \<rparr> else h1);
          h3 = (if ha_country a \<noteq> [] then h2 \<lparr> h_country := ha_country a \<rparr> else h2);
          h4 = (if ha_org a \<noteq> [] then h3 \<lparr> h_org := ha_org a \<rparr> else h3)
      in if ha_ptr a \<noteq> [] then h4 \<lparr> h_ptr := ha_ptr a \<rparr> else h4)"

text \<open>\<open>EnsureLen\<close>: the loop appends hops numbered from the current length.\<close>

function ensure_hops :: "hop_stats list \<Rightarrow> int \<Rightarrow> hop_stats list" where
  "ensure_hops hops n =
     (if int (length hops) < n then ensure_hops (hops @ [new_hop (int (length hops) + 1)]) n
      else hops)"
  by pat_completeness auto
termination by (relation "measure (\<lambda>(hops, n). nat (n - int (length hops)))") auto

declare ensure_hops.simps [simp del]

definition ensure_len :: "mtr_stats \<Rightarrow> int \<Rightarrow> mtr_stats" where
  "ensure_len m n = m \<lparr> m_hops := ensure_hops (m_hops m) n \<rparr>"

definition truncate_len :: "mtr_stats \<Rightarrow> int \<Rightarrow> mtr_stats" where
  "truncate_len m n =
     (let n = (if n < 0 then 0 else n)
      in if int (length (m_hops m)) > n then m \<lparr> m_hops := take (nat n) (m_hops m) \<rparr> else m)"

text \<open>\<open>hopAt\<close> gives a pointer into the slice: here the index, None when out of range.\<close>

definition hop_at :: "mtr_stats \<Rightarrow> int \<Rightarrow> nat option" where
  "hop_at m ttl =
     (let idx = ttl - 1 in
      if idx < 0 \<or> idx \<ge> int (length (m_hops m)) then None else Some (nat idx))"

definition update_hop :: "mtr_stats \<Rightarrow> int \<Rightarrow> (hop_stats \<Rightarrow> hop_stats) \<Rightarrow> mtr_stats" where
  "update_hop m ttl f =
     (case hop_at m ttl of
        None \<Rightarrow> m
      | Some i \<Rightarrow> m \<lparr> m_hops := (m_hops m)[i := f (m_hops m ! i)] \<rparr>)"

definition hop_reply :: "string \<Rightarrow> hop_annotation \<Rightarrow> duration \<Rightarrow> hop_stats \<Rightarrow> hop_stats" where
  "hop_reply ip a rtt h =
     (let h1 = hop_annotate ip a (h \<lparr> h_sent := h_sent h + 1, h_recv := h_recv h + 1 \<rparr>);
          h2 = (if h_recv h1 > 1
                then h1 \<lparr> h_jitter := update_jitter (h_jitter h1) rtt (h_last_rtt h1) \<rparr> else h1);
          h3 = h2 \<lparr> h_last_rtt := rtt, h_sum_rtt := h_sum_rtt h2 + rtt \<rparr>;
          h4 = (if h_min_rtt h3 = 0 \<or> rtt < h_min_rtt h3 then h3 \<lparr> h_min_rtt := rtt \<rparr> else h3)
      in if rtt > h_max_rtt h4 then h4 \<lparr> h_max_rtt := rtt \<rparr> else h4)"

definition record_reply_annotated ::
  "mtr_stats \<Rightarrow> int \<Rightarrow> string \<Rightarrow> hop_annotation \<Rightarrow> duration \<Rightarrow> mtr_stats" where
  "record_reply_annotated m ttl ip a rtt = update_hop m ttl (hop_reply ip a rtt)"

definition record_reply ::
  "mtr_stats \<Rightarrow> int \<Rightarrow> string \<Rightarrow> string \<Rightarrow> string \<Rightarrow> string \<Rightarrow> duration \<Rightarrow> mtr_stats" where
  "record_reply m ttl ip asn country org rtt = record_reply_annotated m ttl ip
     \<lparr> ha_asn = asn, ha_country = country, ha_org = org, ha_ptr = [] \<rparr> rtt"

definition record_loss :: "mtr_stats \<Rightarrow> int \<Rightarrow> mtr_stats" where
  "record_loss m ttl = update_hop m ttl (\<lambda>h. h \<lparr> h_sent := h_sent h + 1 \<rparr>)"

definition set_ip_annotated :: "mtr_stats \<Rightarrow> int \<Rightarrow> string \<Rightarrow> hop_annotation \<Rightarrow> mtr_stats" where
  "set_ip_annotated m ttl ip a = update_hop m ttl (\<lambda>h.
     let h1 = hop_annotate ip a h in if ip \<noteq> [] then h1 \<lparr> h_route_ip := ip \<rparr> else h1)"

definition set_hop_ip :: "mtr_stats \<Rightarrow> int \<Rightarrow> string \<Rightarrow> string \<Rightarrow> string \<Rightarrow> string \<Rightarrow> mtr_stats" where
  "set_hop_ip m ttl ip asn country org = set_ip_annotated m ttl ip
     \<lparr> ha_asn = asn, ha_country = country, ha_org = org, ha_ptr = [] \<rparr>"

definition set_hop_ptr :: "mtr_stats \<Rightarrow> int \<Rightarrow> string \<Rightarrow> string \<Rightarrow> mtr_stats" where
  "set_hop_ptr m ttl ip name =
     update_hop m ttl (\<lambda>h. if h_ip h = ip then h \<lparr> h_ptr := name \<rparr> else h)"

definition annotate_ip ::
  "mtr_stats \<Rightarrow> string \<Rightarrow> string \<Rightarrow> string \<Rightarrow> string \<Rightarrow> string \<Rightarrow> mtr_stats" where
  "annotate_ip m ip asn country org ptr = m \<lparr> m_hops := map (\<lambda>h.
     if h_ip h \<noteq> ip then h
     else hop_annotate ip \<lparr> ha_asn = asn, ha_country = country, ha_org = org, ha_ptr = ptr \<rparr> h)
     (m_hops m) \<rparr>"

definition set_mtr_error :: "mtr_stats \<Rightarrow> string \<Rightarrow> mtr_stats" where
  "set_mtr_error m msg = m \<lparr> m_last_err := msg \<rparr>"

definition mtr_error :: "mtr_stats \<Rightarrow> string" where
  "mtr_error m = m_last_err m"

definition hop_to_view :: "hop_stats \<Rightarrow> hop_view" where
  "hop_to_view h =
     (let avg = (if h_recv h > 0 then h_sum_rtt h sdiv h_recv h else 0);
          loss = (if h_sent h > 0
                  then f_of_int (h_sent h - h_recv h) / f_of_int (h_sent h) * Finite 100 else 0)
      in \<lparr> hv_ttl = h_ttl h, hv_ip = h_ip h, hv_asn = h_asn h, hv_country = h_country h,
           hv_org = h_org h, hv_ptr = h_ptr h, hv_sent = h_sent h, hv_recv = h_recv h,
           hv_loss_pct = loss, hv_last_rtt = h_last_rtt h, hv_avg_rtt = avg,
           hv_min_rtt = h_min_rtt h, hv_max_rtt = h_max_rtt h, hv_jitter = h_jitter h \<rparr>)"

definition mtr_view :: "mtr_stats \<Rightarrow> hop_view list" where
  "mtr_view m = map hop_to_view (m_hops m)"

definition route_snapshot :: "mtr_stats \<Rightarrow> string list" where
  "route_snapshot m = map h_route_ip (m_hops m)"

definition star_if_empty :: "string \<Rightarrow> string" where
  "star_if_empty s = (if s = [] then ''*'' else s)"

fun changed_hops :: "int \<Rightarrow> string list \<Rightarrow> string list \<Rightarrow> string list" where
  "changed_hops i (p # ps) (c # cs) =
     (if p \<noteq> c
      then (''hop '' @ int_str (i + 1) @ '': '' @ star_if_empty p @ '' '' @ utf8_arrow @ '' '' @
              star_if_empty c) # changed_hops (i + 1) ps cs
      else changed_hops (i + 1) ps cs)"
| "changed_hops i _ _ = []"

definition build_flap_desc :: "string list \<Rightarrow> string list \<Rightarrow> string" where
  "build_flap_desc prev cur =
     (if length prev \<noteq> length cur
      then ''path length: '' @ int_str (int (length prev)) @ '' '' @ utf8_arrow @ '' '' @
             int_str (int (length cur)) @ '' hops''
      else str_join ''; '' (changed_hops 0 prev cur))"

definition check_flap :: "mtr_stats \<Rightarrow> string list \<Rightarrow> gotime \<Rightarrow> mtr_stats \<times> bool \<times> string" where
  "check_flap m prev now =
     (let cur = route_snapshot m in
      if prev = cur then (m, False, [])
      else
        let desc = build_flap_desc prev cur
        in (m \<lparr> m_flap_count := m_flap_count m + 1, m_last_flap_at := now,
               m_last_flap_desc := desc \<rparr>, True, desc))"

definition flap_info :: "mtr_stats \<Rightarrow> int \<times> gotime \<times> string" where
  "flap_info m = (m_flap_count m, m_last_flap_at m, m_last_flap_desc m)"

definition mtr_reset :: "mtr_stats \<Rightarrow> mtr_stats" where
  "mtr_reset m = m \<lparr> m_hops := [], m_flap_count := 0, m_last_flap_at := zero_time,
     m_last_flap_desc := [], m_last_err := [] \<rparr>"

section \<open>Lemmas on the hop list\<close>

lemma hop_at_Some: "hop_at m ttl = Some i \<longleftrightarrow> int i = ttl - 1 \<and> i < length (m_hops m)"
  by (auto simp: hop_at_def Let_def)

lemma ensure_hops_spec:
  "ensure_hops hops n = hops @ map (\<lambda>i. new_hop (int i + 1)) [length hops..<max (length hops) (nat n)]"
proof (induction hops n rule: ensure_hops.induct)
  case (1 hops n)
  show ?case
  proof (cases "int (length hops) < n")
    case True
    then have "[length hops..<max (length hops) (nat n)]
        = length hops # [Suc (length hops)..<max (Suc (length hops)) (nat n)]"
      by (auto simp: max_def upt_conv_Cons)
    with 1 True show ?thesis by (subst ensure_hops.simps) simp
  next
    case False
    then have "max (length hops) (nat n) = length hops" by simp
    with False show ?thesis by (subst ensure_hops.simps) simp
  qed
qed

lemma hop_annotate_counters [simp]:
  "h_ttl (hop_annotate ip a h) = h_ttl h" "h_sent (hop_annotate ip a h) = h_sent h"
  "h_recv (hop_annotate ip a h) = h_recv h" "h_last_rtt (hop_annotate ip a h) = h_last_rtt h"
  "h_min_rtt (hop_annotate ip a h) = h_min_rtt h" "h_max_rtt (hop_annotate ip a h) = h_max_rtt h"
  "h_sum_rtt (hop_annotate ip a h) = h_sum_rtt h" "h_jitter (hop_annotate ip a h) = h_jitter h"
  "h_route_ip (hop_annotate ip a h) = h_route_ip h"
  by (simp_all add: hop_annotate_def Let_def)

lemma hop_annotate_ip: "h_ip (hop_annotate ip a h) = (if ip = [] then h_ip h else ip)"
  by (simp add: hop_annotate_def Let_def)

section \<open>The invariant of a hop\<close>

definition hop_ok :: "hop_stats \<Rightarrow> bool" where
  "hop_ok h = (0 \<le> h_recv h \<and> h_recv h \<le> h_sent h \<and>
     (h_recv h = 0 \<longrightarrow> h_min_rtt h = 0 \<and> h_max_rtt h = 0 \<and> h_sum_rtt h = 0) \<and>
     (0 < h_recv h \<longrightarrow> 0 < h_min_rtt h \<and> h_min_rtt h \<le> h_max_rtt h \<and>
        h_recv h * h_min_rtt h \<le> h_sum_rtt h \<and> h_sum_rtt h \<le> h_recv h * h_max_rtt h))"

definition mtr_inv :: "mtr_stats \<Rightarrow> bool" where
  "mtr_inv m = (\<forall>i<length (m_hops m). hop_ok (m_hops m ! i) \<and> h_ttl (m_hops m ! i) = int i + 1)"

lemma hop_ok_new: "hop_ok (new_hop ttl)"
  by (simp add: hop_ok_def new_hop_def)

lemma hop_ok_cong:
  "hop_ok h \<Longrightarrow> h_sent h' = h_sent h \<Longrightarrow> h_recv h' = h_recv h \<Longrightarrow> h_min_rtt h' = h_min_rtt h \<Longrightarrow>
   h_max_rtt h' = h_max_rtt h \<Longrightarrow> h_sum_rtt h' = h_sum_rtt h \<Longrightarrow> hop_ok h'"
  by (simp add: hop_ok_def)

lemma hop_ok_annotate [simp]: "hop_ok (hop_annotate ip a h) = hop_ok h"
  by (simp add: hop_ok_def)

lemma hop_reply_fields:
  "h_sent (hop_reply ip a rtt h) = h_sent h + 1"
  "h_recv (hop_reply ip a rtt h) = h_recv h + 1"
  "h_sum_rtt (hop_reply ip a rtt h) = h_sum_rtt h + rtt"
  "h_min_rtt (hop_reply ip a rtt h) = (if h_min_rtt h = 0 \<or> rtt < h_min_rtt h then rtt else h_min_rtt h)"
  "h_max_rtt (hop_reply ip a rtt h) = (if rtt > h_max_rtt h then rtt else h_max_rtt h)"
  "h_ttl (hop_reply ip a rtt h) = h_ttl h"
  "h_route_ip (hop_reply ip a rtt h) = h_route_ip h"
  by (simp_all add: hop_reply_def Let_def)

lemma hop_ok_reply:
  assumes ok: "hop_ok h" and pos: "0 < rtt"
  shows "hop_ok (hop_reply ip a rtt h)"
proof (cases "h_recv h = 0")
  case True
  with assms show ?thesis by (simp add: hop_ok_def hop_reply_fields)
next
  case False
  with ok have h: "0 < h_recv h" "h_recv h \<le> h_sent h" "0 < h_min_rtt h" "h_min_rtt h \<le> h_max_rtt h"
    "h_recv h * h_min_rtt h \<le> h_sum_rtt h" "h_sum_rtt h \<le> h_recv h * h_max_rtt h"
    by (auto simp: hop_ok_def)
  have lo: "h_recv h * min rtt (h_min_rtt h) \<le> h_sum_rtt h"
    using h by (intro order_trans [OF mult_left_mono h(5)]) auto
  have hi: "h_sum_rtt h \<le> h_recv h * max rtt (h_max_rtt h)"
    using h by (intro order_trans [OF h(6) mult_left_mono]) auto
  have m: "h_min_rtt (hop_reply ip a rtt h) = min rtt (h_min_rtt h)"
    "h_max_rtt (hop_reply ip a rtt h) = max rtt (h_max_rtt h)"
    using h by (auto simp: hop_reply_fields)
  show ?thesis
    unfolding hop_ok_def m using h pos lo hi
    by (auto simp: hop_reply_fields(1,2,3) distrib_right)
qed

lemma mtr_inv_update:
  assumes "mtr_inv m" "\<And>h. hop_ok h \<Longrightarrow> hop_ok (f h)" "\<And>h. h_ttl (f h) = h_ttl h"
  shows "mtr_inv (update_hop m ttl f)"
  using assms by (auto simp: mtr_inv_def update_hop_def hop_at_Some nth_list_update split: option.split)

lemma mtr_inv_ensure: "mtr_inv m \<Longrightarrow> mtr_inv (ensure_len m n)"
  by (auto simp: mtr_inv_def ensure_len_def ensure_hops_spec nth_append hop_ok_new)
    (auto simp: new_hop_def)

lemma hop_loss_percent:
  assumes "hop_ok h"
  shows "\<exists>p. hv_loss_pct (hop_to_view h) = Finite p \<and> 0 \<le> p \<and> p \<le> 100"
proof (cases "0 < h_sent h")
  case True
  then have "(1::rat) \<le> of_int (h_sent h)" by simp
  then have "1 \<le> rnd (of_int (h_sent h))" using f64.one by (intro f64.above)
  then have "hv_loss_pct (hop_to_view h)
      = Finite (rnd (rnd (rnd (of_int (h_sent h - h_recv h)) / rnd (of_int (h_sent h))) * 100))"
    using True by (simp add: hop_to_view_def f_of_int_def Let_def del: of_int_diff)
  moreover have "(0::rat) \<le> of_int (h_sent h - h_recv h)"
    "(of_int (h_sent h - h_recv h) :: rat) \<le> of_int (h_sent h)"
    using assms by (simp_all add: hop_ok_def)
  ultimately show ?thesis using f64.percent_bounds by blast
next
  case False
  then show ?thesis by (simp add: hop_to_view_def zero_float64_def Let_def)
qed

lemma hop_average:
  assumes "hop_ok h" "0 < h_recv h"
  shows "h_min_rtt h \<le> h_sum_rtt h sdiv h_recv h \<and> h_sum_rtt h sdiv h_recv h \<le> h_max_rtt h"
proof -
  from assms have b: "0 < h_min_rtt h" "h_recv h * h_min_rtt h \<le> h_sum_rtt h"
    "h_sum_rtt h \<le> h_recv h * h_max_rtt h" by (simp_all add: hop_ok_def)
  have "0 \<le> h_recv h * h_min_rtt h" using b assms(2) by simp
  with b have "0 \<le> h_sum_rtt h" by linarith
  then have "h_sum_rtt h sdiv h_recv h = h_sum_rtt h div h_recv h" by (rule sdiv_nonneg) (rule assms)
  moreover have "h_min_rtt h \<le> h_sum_rtt h div h_recv h"
    using b(2) assms(2) zdiv_mono1 [of "h_recv h * h_min_rtt h" "h_sum_rtt h" "h_recv h"] by simp
  moreover have "h_sum_rtt h div h_recv h \<le> h_max_rtt h"
    using b(3) assms(2) zdiv_mono1 [of "h_sum_rtt h" "h_recv h * h_max_rtt h" "h_recv h"] by simp
  ultimately show ?thesis by simp
qed

lemma changed_hops_nonempty:
  "length prev = length cur \<Longrightarrow> prev \<noteq> cur \<Longrightarrow> str_join sep (changed_hops i prev cur) \<noteq> []"
proof (induction i prev cur rule: changed_hops.induct)
  case (1 i p ps c cs)
  then show ?case by (cases "changed_hops (i + 1) ps cs") auto
qed auto

lemma build_flap_desc_nonempty: "prev \<noteq> cur \<Longrightarrow> build_flap_desc prev cur \<noteq> []"
  by (simp add: build_flap_desc_def changed_hops_nonempty)

section \<open>Every operation keeps it\<close>

text \<open>The operations of the component, as its clients call them.\<close>

datatype mtr_op =
    EnsureLen int
  | TruncateLen int
  | RecordReply int string hop_annotation duration
  | RecordLoss int
  | SetIP int string hop_annotation
  | SetPTR int string string
  | AnnotateIP string string string string string
  | SetError string
  | CheckFlap "string list" gotime
  | ResetHops

fun mtr_apply :: "mtr_op \<Rightarrow> mtr_stats \<Rightarrow> mtr_stats" where
  "mtr_apply (EnsureLen n) m = ensure_len m n"
| "mtr_apply (TruncateLen n) m = truncate_len m n"
| "mtr_apply (RecordReply ttl ip a rtt) m = record_reply_annotated m ttl ip a rtt"
| "mtr_apply (RecordLoss ttl) m = record_loss m ttl"
| "mtr_apply (SetIP ttl ip a) m = set_ip_annotated m ttl ip a"
| "mtr_apply (SetPTR ttl ip name) m = set_hop_ptr m ttl ip name"
| "mtr_apply (AnnotateIP ip asn country org ptr) m = annotate_ip m ip asn country org ptr"
| "mtr_apply (SetError msg) m = set_mtr_error m msg"
| "mtr_apply (CheckFlap prev now) m = fst (check_flap m prev now)"
| "mtr_apply ResetHops m = mtr_reset m"

text \<open>Replies carry a positive round trip: a zero minimum means no sample yet.\<close>

fun mtr_op_ok :: "mtr_op \<Rightarrow> bool" where
  "mtr_op_ok (RecordReply ttl ip a rtt) = (0 < rtt)"
| "mtr_op_ok _ = True"

lemma mtr_inv_apply: "mtr_inv m \<Longrightarrow> mtr_op_ok op \<Longrightarrow> mtr_inv (mtr_apply op m)"
proof (cases op)
  case (EnsureLen n)
  assume "mtr_inv m"
  then show ?thesis by (simp add: EnsureLen mtr_inv_ensure)
next
  case (RecordReply ttl ip a rtt)
  assume "mtr_inv m" "mtr_op_ok op"
  then show ?thesis
    by (auto simp: RecordReply record_reply_annotated_def hop_reply_fields
        intro!: mtr_inv_update hop_ok_reply)
next
  case (RecordLoss ttl)
  assume "mtr_inv m"
  then show ?thesis
    by (auto simp: RecordLoss record_loss_def intro!: mtr_inv_update) (auto simp: hop_ok_def)
next
  case (SetIP ttl ip a)
  assume "mtr_inv m"
  then show ?thesis
    by (auto simp: SetIP set_ip_annotated_def Let_def intro!: mtr_inv_update elim: hop_ok_cong)
next
  case (SetPTR ttl ip name)
  assume "mtr_inv m"
  then show ?thesis
    by (auto simp: SetPTR set_hop_ptr_def intro!: mtr_inv_update elim: hop_ok_cong)
qed (auto simp: truncate_len_def annotate_ip_def set_mtr_error_def check_flap_def
    mtr_reset_def mtr_inv_def Let_def elim: hop_ok_cong)

definition mtr_run :: "mtr_op list \<Rightarrow> mtr_stats" where
  "mtr_run ops = foldl (\<lambda>m op. mtr_apply op m) new_mtr_stats ops"

lemma mtr_inv_run: "\<forall>op\<in>set ops. mtr_op_ok op \<Longrightarrow> mtr_inv (mtr_run ops)"
proof (induction ops rule: rev_induct)
  case Nil
  then show ?case by (simp add: mtr_run_def mtr_inv_def new_mtr_stats_def)
next
  case (snoc op ops)
  then show ?case by (simp add: mtr_run_def mtr_inv_apply)
qed

section \<open>Properties\<close>

text \<open>The hop path stays consistent under every sequence of operations whose replies carry a
  positive round trip: hops are numbered 1, 2, ... in order, no hop has more replies than probes,
  the loss percentage shown is a finite float64 between 0 and 100, and once a hop has answered
  the average shown lies between its minimum and maximum.\<close>

theorem hop_path_consistent:
  assumes "\<forall>op\<in>set ops. mtr_op_ok op" "i < length (mtr_view (mtr_run ops))"
  shows "hv_ttl (mtr_view (mtr_run ops) ! i) = int i + 1 \<and>
    0 \<le> hv_recv (mtr_view (mtr_run ops) ! i) \<and>
    hv_recv (mtr_view (mtr_run ops) ! i) \<le> hv_sent (mtr_view (mtr_run ops) ! i) \<and>
    (\<exists>p. hv_loss_pct (mtr_view (mtr_run ops) ! i) = Finite p \<and> 0 \<le> p \<and> p \<le> 100) \<and>
    (0 < hv_recv (mtr_view (mtr_run ops) ! i) \<longrightarrow>
      hv_min_rtt (mtr_view (mtr_run ops) ! i) \<le> hv_avg_rtt (mtr_view (mtr_run ops) ! i) \<and>
      hv_avg_rtt (mtr_view (mtr_run ops) ! i) \<le> hv_max_rtt (mtr_view (mtr_run ops) ! i))"
proof -
  define h where "h = m_hops (mtr_run ops) ! i"
  from assms(2) have v: "mtr_view (mtr_run ops) ! i = hop_to_view h"
    by (simp add: mtr_view_def h_def)
  from mtr_inv_run [OF assms(1)] assms(2) have ok: "hop_ok h" "h_ttl h = int i + 1"
    by (simp_all add: mtr_inv_def h_def mtr_view_def)
  have loss: "\<exists>p. hv_loss_pct (hop_to_view h) = Finite p \<and> 0 \<le> p \<and> p \<le> 100"
    by (rule hop_loss_percent [OF ok(1)])
  have avg: "h_min_rtt h \<le> h_sum_rtt h sdiv h_recv h \<and> h_sum_rtt h sdiv h_recv h \<le> h_max_rtt h"
    if "0 < h_recv h" by (rule hop_average [OF ok(1) that])
  show ?thesis
    using ok loss avg unfolding v by (auto simp: hop_ok_def) (auto simp: hop_to_view_def Let_def)
qed

theorem hop_path_consistent_witness:
  "hv_ttl (mtr_view (mtr_run [EnsureLen 2, RecordLoss 2]) ! 1) = 2"
  using hop_path_consistent [of "[EnsureLen 2, RecordLoss 2]" 1]
  by (simp add: mtr_run_def mtr_view_def record_loss_def update_hop_def ensure_len_def
      ensure_hops_spec new_mtr_stats_def upt_rec hop_at_def)

text \<open>A lookup result never labels another router: applying an annotation for an address keeps
  every counter, round trip, address and route of the path, and changes the labels of exactly
  the hops that still answer from that address.\<close>

theorem annotation_targets_current_responder:
  assumes "i < length (m_hops m)"
  shows "length (m_hops (annotate_ip m ip asn country org ptr)) = length (m_hops m) \<and>
    h_ip (m_hops (annotate_ip m ip asn country org ptr) ! i) = h_ip (m_hops m ! i) \<and>
    route_snapshot (annotate_ip m ip asn country org ptr) = route_snapshot m \<and>
    (h_ip (m_hops m ! i) \<noteq> ip \<longrightarrow>
      m_hops (annotate_ip m ip asn country org ptr) ! i = m_hops m ! i) \<and>
    (h_ip (m_hops m ! i) = ip \<longrightarrow>
      m_hops (annotate_ip m ip asn country org ptr) ! i = (m_hops m ! i)
        \<lparr> h_asn := (if asn = [] then h_asn (m_hops m ! i) else asn),
          h_country := (if country = [] then h_country (m_hops m ! i) else country),
          h_org := (if org = [] then h_org (m_hops m ! i) else org),
          h_ptr := (if ptr = [] then h_ptr (m_hops m ! i) else ptr) \<rparr>)"
  using assms by (auto simp: annotate_ip_def route_snapshot_def hop_annotate_ip)
    (auto simp: hop_annotate_def Let_def)

theorem annotation_targets_current_responder_witness:
  "h_ip (m_hops (annotate_ip (set_hop_ip (ensure_len new_mtr_stats 1) 1 ''192.0.2.1'' [] [] [])
     ''192.0.2.1'' ''AS64500'' [] [] []) ! 0)
   = h_ip (m_hops (set_hop_ip (ensure_len new_mtr_stats 1) 1 ''192.0.2.1'' [] [] []) ! 0)"
  using annotation_targets_current_responder [of 0 "set_hop_ip (ensure_len new_mtr_stats 1) 1 ''192.0.2.1'' [] [] []"]
  by (simp add: set_hop_ip_def set_ip_annotated_def update_hop_def ensure_len_def ensure_hops_spec
      new_mtr_stats_def hop_at_def)

text \<open>A flap is recorded exactly when the route differs from the earlier snapshot: then the
  count grows by one, the time and a non-empty description are kept, and otherwise nothing
  changes; the hops are never touched.\<close>

theorem flap_iff_route_differs:
  "fst (snd (check_flap m prev now)) = (prev \<noteq> route_snapshot m) \<and>
   m_flap_count (fst (check_flap m prev now)) = m_flap_count m + (if prev = route_snapshot m then 0 else 1) \<and>
   m_hops (fst (check_flap m prev now)) = m_hops m \<and>
   (if prev = route_snapshot m then fst (check_flap m prev now) = m
    else snd (snd (check_flap m prev now)) \<noteq> [] \<and>
      flap_info (fst (check_flap m prev now)) =
        (m_flap_count m + 1, now, snd (snd (check_flap m prev now))))"
  using build_flap_desc_nonempty [of prev "route_snapshot m"]
  by (auto simp: check_flap_def flap_info_def Let_def)

end
