(* ===== verification/Target_Stats.thy ===== *)
theory Target_Stats
  imports Mtr_Stats
begin

text \<open>
  The statistics of one ping target (internal/stats: stats.go, events.go, health.go, probe.go,
  history.go): counters, the bounded event log with its folding of repeated failures, the
  health judgment with its hysteresis and its per-second outcome buckets, and the probes whose
  updates a reset invalidates. Every method of the source runs under the target's lock, so each
  is one function on the state; \<open>clk k\<close> is the reading of the clock at the k-th place where the
  operation may read it. The callback installed by \<open>SetEventSink\<close> is a flag and the list of
  the events it was given. The process-wide generation counter is modelled in Target_View.
\<close>

section \<open>State\<close>

record event =
  ev_count :: int
  ev_last_at :: gotime
  ev_at :: gotime
  ev_target_id :: nat
  ev_kind :: string
  ev_message :: string

record ip_change =
  ic_at :: gotime
  ic_ip :: string

record path_mtu_info =
  pm_ip :: string
  pm_mtu :: int
  pm_payload :: int
  pm_source :: string
  pm_status :: string
  pm_bottleneck :: string

definition empty_path_mtu :: path_mtu_info where
  "empty_path_mtu = \<lparr> pm_ip = [], pm_mtu = 0, pm_payload = 0, pm_source = [], pm_status = [],
     pm_bottleneck = [] \<rparr>"

record health_policy =
  hp_failures :: int
  hp_recoveries :: int
  hp_window :: duration
  hp_thresholds :: thresholds

record outcome_bucket =
  ob_second :: int
  ob_replies :: int
  ob_losses :: int

record target_health =
  th_policy :: health_policy
  th_configured :: bool
  th_status :: string
  th_reason :: string
  th_since :: gotime
  th_last_probe :: gotime
  th_last_reply :: gotime
  th_failures :: int
  th_successes :: int
  th_down :: bool
  th_buckets :: "outcome_bucket list"
  th_recent_received :: int
  th_recent_lost :: int
  th_evaluated_at :: gotime

text \<open>The zero value of a policy has \<open>Failures\<close> 0, which stands for no policy set.\<close>

definition zero_policy :: health_policy where
  "zero_policy = \<lparr> hp_failures = 0, hp_recoveries = 0, hp_window = 0,
     hp_thresholds = \<lparr> rtt_warn = 0, rtt_crit = 0, jitter_warn = 0, jitter_crit = 0,
       loss_warn = 0, loss_crit = 0 \<rparr> \<rparr>"

definition fresh_health :: "health_policy \<Rightarrow> bool \<Rightarrow> target_health" where
  "fresh_health policy configured = \<lparr> th_policy = policy, th_configured = configured,
     th_status = [], th_reason = [], th_since = zero_time, th_last_probe = zero_time,
     th_last_reply = zero_time, th_failures = 0, th_successes = 0, th_down = False,
     th_buckets = [], th_recent_received = 0, th_recent_lost = 0, th_evaluated_at = zero_time \<rparr>"

record target_stats =
  ts_id :: nat
  ts_host :: string
  ts_started_at :: gotime
  ts_window_started_at :: gotime
  ts_ip_history :: "ip_change list"
  ts_ip_changes :: int
  ts_cancelled :: int
  ts_ip :: string
  ts_asn :: string
  ts_country :: string
  ts_org :: string
  ts_ptr :: string
  ts_dns_server :: string
  ts_iface_mtu :: int
  ts_path_mtu :: path_mtu_info
  ts_port_results :: "port_check list"
  ts_mtr :: "mtr_stats option"
  ts_sent :: int
  ts_recv :: int
  ts_loss :: int
  ts_duplicates :: int
  ts_late_replies :: int
  ts_last_rtt :: duration
  ts_last_ttl :: int
  ts_last_loss_time :: gotime
  ts_last_error :: string
  ts_rtt :: rtt_acc
  ts_jitter :: int
  ts_events :: "event list"
  ts_events_dropped :: int
  ts_probe_epoch :: nat
  ts_display_name :: string
  ts_resolve_address :: string
  ts_health :: target_health
  ts_history_times :: "int list option"
  ts_measurement_state :: string
  ts_event_sink :: bool
  ts_delivered :: "event list"

text \<open>\<open>NewTargetStats\<close>, with the identity \<open>targetIDs.Add(1)\<close> gave.\<close>

definition new_target_stats :: "nat \<Rightarrow> gotime \<Rightarrow> string \<Rightarrow> target_stats" where
  "new_target_stats ident now host = \<lparr> ts_id = ident, ts_host = host, ts_started_at = now,
     ts_window_started_at = now, ts_ip_history = [], ts_ip_changes = 0, ts_cancelled = 0,
     ts_ip = [], ts_asn = [], ts_country = [], ts_org = [], ts_ptr = [], ts_dns_server = [],
     ts_iface_mtu = 0, ts_path_mtu = empty_path_mtu, ts_port_results = [], ts_mtr = None,
     ts_sent = 0, ts_recv = 0, ts_loss = 0, ts_duplicates = 0, ts_late_replies = 0,
     ts_last_rtt = 0, ts_last_ttl = 0, ts_last_loss_time = zero_time, ts_last_error = [],
     ts_rtt = empty_acc, ts_jitter = 0, ts_events = [], ts_events_dropped = 0,
     ts_probe_epoch = 0, ts_display_name = [], ts_resolve_address = [],
     ts_health = fresh_health zero_policy False, ts_history_times = None,
     ts_measurement_state = ''running'', ts_event_sink = False, ts_delivered = [] \<rparr>"

section \<open>Events\<close>

definition max_target_events :: nat where "max_target_events = 128"

definition push_event :: "event list \<Rightarrow> event \<Rightarrow> event list" where
  "push_event es e =
     (let es' = es @ [e] in
      if length es' > max_target_events then drop (length es' - max_target_events) es' else es')"

text \<open>
  The backward search of \<open>recordEventLocked\<close> for a failure to fold into, on the reversed log:
  health events are passed over, any other event decides. The result counts from the end.
\<close>

fun fold_index :: "string \<Rightarrow> string \<Rightarrow> event list \<Rightarrow> nat option" where
  "fold_index kind msg [] = None"
| "fold_index kind msg (e # es) =
     (if ev_kind e = ''health'' then map_option Suc (fold_index kind msg es)
      else if ev_kind e = kind \<and> ev_message e = msg then Some 0
      else None)"

definition deliver :: "event \<Rightarrow> target_stats \<Rightarrow> target_stats" where
  "deliver e t = (if ts_event_sink t then t \<lparr> ts_delivered := ts_delivered t @ [e] \<rparr> else t)"

definition record_event_locked :: "gotime \<Rightarrow> string \<Rightarrow> string \<Rightarrow> target_stats \<Rightarrow> target_stats" where
  "record_event_locked now kind msg t =
     (let e = \<lparr> ev_count = 1, ev_last_at = now, ev_at = now, ev_target_id = ts_id t,
                ev_kind = kind, ev_message = msg \<rparr>;
          es = ts_events t
      in case (if th_configured (ts_health t) \<and> kind = ''ping'' \<and> es \<noteq> []
               then fold_index kind msg (rev es) else None) of
           Some j \<Rightarrow>
             (let i = length es - 1 - j;
                  e' = (es ! i) \<lparr> ev_count := ev_count (es ! i) + 1, ev_last_at := now \<rparr>
              in deliver e' (t \<lparr> ts_events := es[i := e'] \<rparr>))
         | None \<Rightarrow>
             deliver e (t \<lparr> ts_events := push_event es e,
               ts_events_dropped := (if length es + 1 > max_target_events
                 then ts_events_dropped t + 1 else ts_events_dropped t) \<rparr>))"

definition record_event :: "gotime \<Rightarrow> string \<Rightarrow> string \<Rightarrow> target_stats \<Rightarrow> target_stats" where
  "record_event now kind msg t = record_event_locked now kind msg t"

definition events_of :: "target_stats \<Rightarrow> event list \<times> int" where
  "events_of t = (ts_events t, ts_events_dropped t)"

section \<open>Health\<close>

definition default_health_policy :: health_policy where
  "default_health_policy = \<lparr> hp_failures = 3, hp_recoveries = 2, hp_window = minute,
     hp_thresholds = default_thresholds \<rparr>"

datatype policy_error = PolicyCounts | PolicyWindow | PolicyThresholds threshold_error

definition policy_validate :: "health_policy \<Rightarrow> policy_error option" where
  "policy_validate p =
     (if hp_failures p < 1 \<or> hp_failures p > 10000 \<or> hp_recoveries p < 1 \<or> hp_recoveries p > 10000
      then Some PolicyCounts
      else if hp_window p < second \<or> hp_window p > hour then Some PolicyWindow
      else case thresholds_validate (hp_thresholds p) of
             Some err \<Rightarrow> Some (PolicyThresholds err) | None \<Rightarrow> None)"

definition health_policy_of :: "target_health \<Rightarrow> health_policy" where
  "health_policy_of h = (if hp_failures (th_policy h) = 0 then default_health_policy else th_policy h)"

definition in_window :: "health_policy \<Rightarrow> gotime \<Rightarrow> int \<Rightarrow> bool" where
  "in_window p now sec = (sec > unix_seconds (now - hp_window p) \<and> sec \<le> unix_seconds now)"

text \<open>\<open>recentHealthLocked\<close>: replies and losses of the buckets inside the window.\<close>

definition recent_health :: "target_health \<Rightarrow> gotime \<Rightarrow> int \<times> int" where
  "recent_health h now =
     foldl (\<lambda>(received, lost) b. if in_window (health_policy_of h) now (ob_second b)
        then (received + ob_replies b, lost + ob_losses b) else (received, lost))
       (0, 0) (th_buckets h)"

definition recent_loss_pct :: "int \<Rightarrow> int \<Rightarrow> float64" where
  "recent_loss_pct received lost =
     (if received + lost = 0 then 0
      else Finite 100 * f_of_int lost / f_of_int (received + lost))"

type_synonym metric_check = "string \<times> float64 \<times> float64 \<times> float64 \<times> string"

definition ms_of :: "int \<Rightarrow> float64" where
  "ms_of d = f_of_int d / f_of_int millisecond"

definition health_checks :: "health_policy \<Rightarrow> float64 \<Rightarrow> duration \<Rightarrow> int \<Rightarrow> metric_check list" where
  "health_checks p rate last_rtt jitter =
     (let t = hp_thresholds p in
      [(''Recent loss'', rate, loss_warn t, loss_crit t, ''%''),
       (''RTT'', ms_of last_rtt, ms_of (rtt_warn t), ms_of (rtt_crit t), ''ms''),
       (''Jitter'', ms_of jitter, ms_of (jitter_warn t), ms_of (jitter_crit t), ''ms'')])"

definition exceeds_text :: "string \<Rightarrow> float64 \<Rightarrow> float64 \<Rightarrow> string \<Rightarrow> string" where
  "exceeds_text name v limit unit =
     name @ '' '' @ fmt_f1 v @ unit @ '' > '' @ fmt_f1 limit @ unit"

text \<open>One turn of the loop over the checks; \<open>enough\<close> is false while too few probes completed for
  the recent loss to count.\<close>

definition check_metric :: "bool \<Rightarrow> string \<times> string list \<Rightarrow> metric_check \<Rightarrow> string \<times> string list" where
  "check_metric enough sr c =
     (case (sr, c) of ((status, reasons), (name, v, warn, crit, unit)) \<Rightarrow>
        if name = ''Recent loss'' \<and> \<not> enough then (status, reasons)
        else if v > crit then (''crit'', reasons @ [exceeds_text name v crit unit])
        else if v > warn then
          (if status \<noteq> ''crit'' then ''warn'' else status, reasons @ [exceeds_text name v warn unit])
        else (status, reasons))"

text \<open>The hysteresis: what happens to \<open>down\<close> when a probe has completed.\<close>

definition next_down :: "health_policy \<Rightarrow> target_health \<Rightarrow> bool" where
  "next_down p h =
     (let d1 = (if th_failures h \<ge> hp_failures p then True else th_down h)
      in if d1 \<and> th_successes h \<ge> hp_recoveries p then False else d1)"

text \<open>The status and the reasons of \<open>evaluateHealthLocked\<close>, from a health whose recent counts and
  \<open>down\<close> are up to date.\<close>

definition judge :: "health_policy \<Rightarrow> target_health \<Rightarrow> duration \<Rightarrow> int \<Rightarrow> string \<times> string list" where
  "judge p h last_rtt jitter =
     (if is_zero_time (th_last_probe h) then (''pending'', [''Waiting for a completed probe''])
      else if th_down h then
        (''crit'',
         [if th_successes h > 0
          then ''Recovering ('' @ int_str (th_successes h) @ ''/'' @ int_str (hp_recoveries p) @ '' replies)''
          else int_str (th_failures h) @ '' consecutive failures''])
      else
        let received = th_recent_received h;
            lost = th_recent_lost h;
            (status, reasons) = foldl (check_metric (received + lost \<ge> hp_failures p)) (''ok'', [])
              (health_checks p (recent_loss_pct received lost) last_rtt jitter)
        in if th_failures h > 0 \<and> reasons = []
           then (''warn'', [''Waiting for reply ('' @ int_str (th_failures h) @ ''/'' @
                   int_str (hp_failures p) @ '' failures)''])
           else (status, reasons))"

text \<open>The three steps of \<open>evaluateHealthLocked\<close> on the health alone: refreshing the recent counts
  and \<open>down\<close>, and storing the new status and reason.\<close>

definition refresh_health :: "gotime \<Rightarrow> target_health \<Rightarrow> target_health" where
  "refresh_health now h0 =
     (let rl = recent_health h0 now;
          h1 = h0 \<lparr> th_recent_received := fst rl, th_recent_lost := snd rl, th_evaluated_at := now \<rparr>
      in if is_zero_time (th_last_probe h1) then h1
         else h1 \<lparr> th_down := next_down (health_policy_of h0) h1 \<rparr>)"

definition settle_status :: "gotime \<Rightarrow> string \<Rightarrow> string \<Rightarrow> target_health \<Rightarrow> target_health" where
  "settle_status now status reason h =
     (let h' = (if th_status h \<noteq> status then h \<lparr> th_since := now \<rparr> else h)
      in h' \<lparr> th_status := status, th_reason := reason \<rparr>)"

definition evaluate_health :: "gotime \<Rightarrow> gotime \<Rightarrow> target_stats \<Rightarrow> target_stats" where
  "evaluate_health event_now now t =
     (let h = refresh_health now (ts_health t);
          sr = judge (health_policy_of (ts_health t)) h (ts_last_rtt t) (ts_jitter t);
          status = fst sr;
          reasons = (if snd sr = [] then [''Within thresholds''] else snd sr);
          reason = str_join ('' '' @ utf8_middot @ '' '') reasons;
          changed = (th_status h \<noteq> [] \<and> status \<noteq> th_status h);
          t' = t \<lparr> ts_health := settle_status now status reason h \<rparr>
      in if changed \<and> th_configured h
         then record_event_locked event_now ''health'' (status @ '': '' @ reason) t'
         else t')"

definition bucket_count :: "health_policy \<Rightarrow> nat" where
  "bucket_count p = nat (hp_window p sdiv second + 2)"

text \<open>\<open>recordOutcomeLocked\<close> up to the final evaluation: the buckets and the run counters.\<close>

definition count_outcome :: "gotime \<Rightarrow> bool \<Rightarrow> target_health \<Rightarrow> target_health" where
  "count_outcome now success h =
     (let n = bucket_count (health_policy_of h);
          bs = (if length (th_buckets h) \<noteq> n
                then replicate n \<lparr> ob_second = 0, ob_replies = 0, ob_losses = 0 \<rparr>
                else th_buckets h);
          sec = unix_seconds now;
          i = nat (sec smod int n);
          b = (if ob_second (bs ! i) \<noteq> sec
               then \<lparr> ob_second = sec, ob_replies = 0, ob_losses = 0 \<rparr> else bs ! i)
      in if success
         then h \<lparr> th_buckets := bs[i := b \<lparr> ob_replies := ob_replies b + 1 \<rparr>],
                  th_last_probe := now, th_last_reply := now,
                  th_successes := th_successes h + 1, th_failures := 0 \<rparr>
         else h \<lparr> th_buckets := bs[i := b \<lparr> ob_losses := ob_losses b + 1 \<rparr>],
                  th_last_probe := now,
                  th_failures := th_failures h + 1, th_successes := 0 \<rparr>)"

definition record_outcome :: "gotime \<Rightarrow> gotime \<Rightarrow> bool \<Rightarrow> target_stats \<Rightarrow> target_stats" where
  "record_outcome event_now now success t =
     evaluate_health event_now now (t \<lparr> ts_health := count_outcome now success (ts_health t) \<rparr>)"

definition configure_health :: "clock \<Rightarrow> health_policy \<Rightarrow> target_stats \<Rightarrow> target_stats" where
  "configure_health clk p0 t =
     (let p = (case policy_validate p0 of None \<Rightarrow> p0 | Some _ \<Rightarrow> default_health_policy);
          h = ts_health t;
          h1 = (if hp_window (th_policy h) \<noteq> hp_window p then h \<lparr> th_buckets := [] \<rparr> else h)
      in evaluate_health (clk 1) (clk 0)
           (t \<lparr> ts_health := h1 \<lparr> th_policy := p, th_configured := True \<rparr> \<rparr>))"

section \<open>Operations\<close>

text \<open>\<open>MTR\<close>: creates the hop path on first use.\<close>

definition ensure_mtr :: "target_stats \<Rightarrow> target_stats" where
  "ensure_mtr t = (case ts_mtr t of None \<Rightarrow> t \<lparr> ts_mtr := Some new_mtr_stats \<rparr> | Some _ \<Rightarrow> t)"

definition push_ip_change :: "ip_change list \<Rightarrow> ip_change \<Rightarrow> ip_change list" where
  "push_ip_change hs c =
     (let hs' = hs @ [c] in if length hs' > 64 then drop (length hs' - 64) hs' else hs')"

definition set_ip :: "clock \<Rightarrow> string \<Rightarrow> target_stats \<Rightarrow> target_stats" where
  "set_ip clk ip t =
     (let t1 = (if pm_ip (ts_path_mtu t) \<noteq> [] \<and> pm_ip (ts_path_mtu t) \<noteq> ip
                then t \<lparr> ts_path_mtu := empty_path_mtu \<rparr> else t);
          t2 = (if ts_ip t1 \<noteq> ip then
                  (let u = record_event_locked (clk 0) ''dns''
                             (''IP: '' @ ts_ip t1 @ '' '' @ utf8_arrow @ '' '' @ ip) t1;
                       u' = (if ts_ip u \<noteq> [] then u \<lparr> ts_ip_changes := ts_ip_changes u + 1 \<rparr> else u)
                   in u' \<lparr> ts_ip_history := push_ip_change (ts_ip_history u')
                             \<lparr> ic_at = clk 1, ic_ip = ip \<rparr> \<rparr>)
                else t1)
      in t2 \<lparr> ts_ip := ip \<rparr>)"

definition set_asn_info :: "string \<Rightarrow> string \<Rightarrow> string \<Rightarrow> target_stats \<Rightarrow> target_stats" where
  "set_asn_info number country org t = t \<lparr> ts_asn := number, ts_country := country, ts_org := org \<rparr>"

definition set_ptr :: "string \<Rightarrow> target_stats \<Rightarrow> target_stats" where
  "set_ptr name t = t \<lparr> ts_ptr := name \<rparr>"

definition set_dns_server :: "string \<Rightarrow> target_stats \<Rightarrow> target_stats" where
  "set_dns_server s t = t \<lparr> ts_dns_server := s \<rparr>"

definition set_iface_mtu :: "int \<Rightarrow> target_stats \<Rightarrow> target_stats" where
  "set_iface_mtu mtu t = t \<lparr> ts_iface_mtu := mtu \<rparr>"

definition set_path_mtu :: "path_mtu_info \<Rightarrow> target_stats \<Rightarrow> target_stats" where
  "set_path_mtu info t = t \<lparr> ts_path_mtu := info \<rparr>"

definition set_port_results :: "port_check list \<Rightarrow> target_stats \<Rightarrow> target_stats" where
  "set_port_results results t = t \<lparr> ts_port_results := results \<rparr>"

definition inc_sent :: "target_stats \<Rightarrow> target_stats" where
  "inc_sent t = t \<lparr> ts_sent := ts_sent t + 1 \<rparr>"

definition append_history_locked :: "duration \<Rightarrow> gotime \<Rightarrow> target_stats \<Rightarrow> target_stats" where
  "append_history_locked rtt tm t =
     (let acc = append_history history_size (ts_rtt t) rtt;
          tms = (case ts_history_times t of None \<Rightarrow> replicate history_size 0 | Some xs \<Rightarrow> xs)
      in t \<lparr> ts_rtt := acc,
             ts_history_times := Some (tms[(a_idx acc - 1) mod history_size := tm]) \<rparr>)"

text \<open>\<open>onSuccessLocked\<close>: the counters of the reply, then the history and the judgment.\<close>

definition count_success :: "duration \<Rightarrow> int \<Rightarrow> target_stats \<Rightarrow> target_stats" where
  "count_success rtt ttl t = t
     \<lparr> ts_jitter := (if ts_recv t > 0 then update_jitter (ts_jitter t) rtt (ts_last_rtt t)
                     else ts_jitter t),
       ts_recv := ts_recv t + 1, ts_last_rtt := rtt, ts_last_ttl := ttl,
       ts_rtt := record_rtt (ts_rtt t) rtt \<rparr>"

definition on_success_locked :: "clock \<Rightarrow> duration \<Rightarrow> int \<Rightarrow> target_stats \<Rightarrow> target_stats" where
  "on_success_locked clk rtt ttl t =
     (let t1 = (if ts_last_error t \<noteq> []
                then record_event_locked (clk 0) ''recovery'' ''Ping replies resumed'' t else t);
          t2 = count_success rtt ttl t1;
          now = clk 1;
          t3 = append_history_locked rtt now t2;
          t4 = record_outcome (clk 2) now True t3
      in t4 \<lparr> ts_last_error := [] \<rparr>)"

definition on_success :: "clock \<Rightarrow> duration \<Rightarrow> int \<Rightarrow> target_stats \<Rightarrow> target_stats" where
  "on_success clk rtt ttl t = on_success_locked clk rtt ttl t"

definition on_duplicate :: "target_stats \<Rightarrow> target_stats" where
  "on_duplicate t = t \<lparr> ts_duplicates := ts_duplicates t + 1 \<rparr>"

definition on_late_reply :: "target_stats \<Rightarrow> target_stats" where
  "on_late_reply t = t \<lparr> ts_late_replies := ts_late_replies t + 1 \<rparr>"

definition on_failure_locked :: "clock \<Rightarrow> string \<Rightarrow> target_stats \<Rightarrow> target_stats" where
  "on_failure_locked clk reason t =
     (let t1 = t \<lparr> ts_loss := ts_loss t + 1, ts_last_loss_time := clk 0, ts_last_error := reason \<rparr>;
          t2 = record_event_locked (clk 1) ''ping'' reason t1;
          t3 = append_history_locked 0 (ts_last_loss_time t2) t2
      in record_outcome (clk 2) (ts_last_loss_time t3) False t3)"

definition on_failure :: "clock \<Rightarrow> string \<Rightarrow> target_stats \<Rightarrow> target_stats" where
  "on_failure clk reason t = on_failure_locked clk reason t"

definition reset_stats :: "clock \<Rightarrow> target_stats \<Rightarrow> target_stats" where
  "reset_stats clk t =
     (let t1 = t \<lparr> ts_probe_epoch := ts_probe_epoch t + 1, ts_window_started_at := clk 0 \<rparr>;
          t2 = record_event_locked (clk 1) ''reset'' ''Statistics reset'' t1;
          h = ts_health t2
      in t2 \<lparr> ts_sent := 0, ts_cancelled := 0, ts_recv := 0, ts_loss := 0, ts_duplicates := 0,
              ts_late_replies := 0, ts_last_rtt := 0, ts_last_ttl := 0,
              ts_last_loss_time := zero_time, ts_last_error := [], ts_rtt := empty_acc,
              ts_history_times := None,
              ts_health := fresh_health (th_policy h) (th_configured h),
              ts_jitter := 0, ts_mtr := map_option mtr_reset (ts_mtr t2) \<rparr>)"

definition display_name_locked :: "target_stats \<Rightarrow> string" where
  "display_name_locked t = (if ts_display_name t \<noteq> [] then ts_display_name t else ts_host t)"

text \<open>\<open>SetDisplayName\<close>, with whether it got past its early return (and so bumped the generation).\<close>

definition set_display_name :: "gotime \<Rightarrow> string \<Rightarrow> target_stats \<Rightarrow> target_stats \<times> bool" where
  "set_display_name now name t =
     (if name = display_name_locked t then (t, False)
      else (record_event_locked now ''renamed'' (''Display name changed to '' @ name)
              (t \<lparr> ts_display_name := name \<rparr>), True))"

definition set_resolve_address :: "string \<Rightarrow> target_stats \<Rightarrow> target_stats" where
  "set_resolve_address a t = t \<lparr> ts_resolve_address := a \<rparr>"

definition resolve_address :: "target_stats \<Rightarrow> string" where
  "resolve_address t = (if ts_resolve_address t \<noteq> [] then ts_resolve_address t else ts_host t)"

definition effective_address :: "target_stats \<Rightarrow> string" where
  "effective_address t =
     (if ts_ip t \<noteq> [] then ts_ip t
      else if ts_resolve_address t \<noteq> [] then ts_resolve_address t
      else ts_host t)"

definition set_measurement_state :: "string \<Rightarrow> target_stats \<Rightarrow> target_stats" where
  "set_measurement_state s t = t \<lparr> ts_measurement_state := s \<rparr>"

definition set_event_sink :: "bool \<Rightarrow> target_stats \<Rightarrow> target_stats" where
  "set_event_sink on t = t \<lparr> ts_event_sink := on \<rparr>"

section \<open>History samples\<close>

text \<open>A sample without a round trip marks a lost probe; samples without a wall time are left out.\<close>

record history_sample =
  hs_at :: gotime
  hs_rtt_ms :: "float64 option"

definition history_sample_at :: "target_stats \<Rightarrow> nat \<Rightarrow> history_sample list" where
  "history_sample_at t i =
     (let acc = ts_rtt t;
          idx = (a_idx acc - a_len acc + i) mod history_size
      in case ts_history_times t of
           None \<Rightarrow> []
         | Some tms \<Rightarrow>
             if tms ! idx = 0 then []
             else [\<lparr> hs_at = tms ! idx,
                     hs_rtt_ms = (let d = the (a_history acc) ! idx in
                        if d > 0 then Some (ms_of d) else None) \<rparr>])"

definition history_samples :: "target_stats \<Rightarrow> int \<Rightarrow> history_sample list" where
  "history_samples t n0 =
     (let len = a_len (ts_rtt t);
          n1 = (if n0 > int len then int len else n0);
          n = nat (if n1 < 0 then 0 else n1)
      in concat (map (history_sample_at t) [len - n..<len]))"

section \<open>Probes\<close>

text \<open>
  A probe belongs to one statistics window of one target, the epoch it was created in; the zero
  value belongs to none. \<open>update\<close> applies its function only in that window.
\<close>

record probe =
  pr_target :: "nat option"
  pr_epoch :: nat

definition zero_probe :: probe where
  "zero_probe = \<lparr> pr_target = None, pr_epoch = 0 \<rparr>"

definition new_probe :: "target_stats \<Rightarrow> probe" where
  "new_probe t = \<lparr> pr_target = Some (ts_id t), pr_epoch = ts_probe_epoch t \<rparr>"

text \<open>The updates a probe can make, on the target the probe points to.\<close>

datatype probe_update =
    PIncSent
  | POnSuccess duration int
  | POnFailure string
  | POnDuplicate
  | POnLateReply
  | POnCancelled

fun probe_effect :: "clock \<Rightarrow> probe_update \<Rightarrow> target_stats \<Rightarrow> target_stats" where
  "probe_effect clk PIncSent t = t \<lparr> ts_sent := ts_sent t + 1 \<rparr>"
| "probe_effect clk (POnSuccess rtt ttl) t = on_success_locked clk rtt ttl t"
| "probe_effect clk (POnFailure reason) t = on_failure_locked clk reason t"
| "probe_effect clk POnDuplicate t = t \<lparr> ts_duplicates := ts_duplicates t + 1 \<rparr>"
| "probe_effect clk POnLateReply t = t \<lparr> ts_late_replies := ts_late_replies t + 1 \<rparr>"
| "probe_effect clk POnCancelled t = t \<lparr> ts_cancelled := ts_cancelled t + 1 \<rparr>"

definition probe_apply :: "clock \<Rightarrow> probe \<Rightarrow> probe_update \<Rightarrow> target_stats \<Rightarrow> target_stats \<times> bool" where
  "probe_apply clk p u t =
     (if pr_target p \<noteq> Some (ts_id t) then (t, False)
      else if pr_epoch p \<noteq> ts_probe_epoch t then (t, False)
      else (probe_effect clk u t, True))"

section \<open>Bounded logs\<close>

interpretation event_log: bounded_log max_target_events push_event
  by unfold_locales (simp add: push_event_def lastn_def Let_def)

interpretation ip_log: bounded_log 64 push_ip_change
  by unfold_locales (simp add: push_ip_change_def lastn_def Let_def)

lemma fold_index_less: "fold_index k m es = Some j \<Longrightarrow> j < length es"
  by (induction es arbitrary: j) (auto split: if_splits)

lemma fold_index_match:
  "fold_index k m es = Some j \<Longrightarrow>
   ev_kind (es ! j) = k \<and> ev_message (es ! j) = m \<and> (\<forall>i<j. ev_kind (es ! i) = ''health'')"
  by (induction es arbitrary: j) (auto split: if_splits simp: nth_Cons split: nat.splits)

lemma deliver_events [simp]:
  "ts_events (deliver e t) = ts_events t" "ts_events_dropped (deliver e t) = ts_events_dropped t"
  by (simp_all add: deliver_def)

text \<open>What recording an event leaves alone: everything but the log and the deliveries.\<close>

definition same_but_events :: "target_stats \<Rightarrow> target_stats \<Rightarrow> bool" where
  "same_but_events t t' = (t' = t \<lparr> ts_events := ts_events t',
     ts_events_dropped := ts_events_dropped t', ts_delivered := ts_delivered t' \<rparr>)"

lemma record_event_same: "same_but_events t (record_event_locked now kind msg t)"
  by (simp add: same_but_events_def record_event_locked_def deliver_def Let_def split: option.split)

lemma same_but_events_fields:
  assumes "same_but_events t t'"
  shows "ts_id t' = ts_id t" "ts_host t' = ts_host t" "ts_started_at t' = ts_started_at t"
    "ts_window_started_at t' = ts_window_started_at t" "ts_ip_history t' = ts_ip_history t"
    "ts_ip_changes t' = ts_ip_changes t" "ts_cancelled t' = ts_cancelled t" "ts_ip t' = ts_ip t"
    "ts_asn t' = ts_asn t" "ts_country t' = ts_country t" "ts_org t' = ts_org t"
    "ts_ptr t' = ts_ptr t" "ts_dns_server t' = ts_dns_server t" "ts_iface_mtu t' = ts_iface_mtu t"
    "ts_path_mtu t' = ts_path_mtu t" "ts_port_results t' = ts_port_results t" "ts_mtr t' = ts_mtr t"
    "ts_sent t' = ts_sent t" "ts_recv t' = ts_recv t" "ts_loss t' = ts_loss t"
    "ts_duplicates t' = ts_duplicates t" "ts_late_replies t' = ts_late_replies t"
    "ts_last_rtt t' = ts_last_rtt t" "ts_last_ttl t' = ts_last_ttl t"
    "ts_last_loss_time t' = ts_last_loss_time t" "ts_last_error t' = ts_last_error t"
    "ts_rtt t' = ts_rtt t" "ts_jitter t' = ts_jitter t" "ts_probe_epoch t' = ts_probe_epoch t"
    "ts_display_name t' = ts_display_name t" "ts_resolve_address t' = ts_resolve_address t"
    "ts_health t' = ts_health t" "ts_history_times t' = ts_history_times t"
    "ts_measurement_state t' = ts_measurement_state t" "ts_event_sink t' = ts_event_sink t"
  by (subst assms [unfolded same_but_events_def], simp)+

lemmas record_event_fields [simp] = same_but_events_fields [OF record_event_same]

lemma record_event_log:
  "(\<exists>i<length (ts_events t).
      ts_events (record_event_locked now kind msg t) = (ts_events t)[i := (ts_events t ! i)
        \<lparr> ev_count := ev_count (ts_events t ! i) + 1, ev_last_at := now \<rparr>] \<and>
      ev_kind (ts_events t ! i) = kind \<and> ev_message (ts_events t ! i) = msg \<and> kind = ''ping'' \<and>
      (\<forall>j. i < j \<and> j < length (ts_events t) \<longrightarrow> ev_kind (ts_events t ! j) = ''health'') \<and>
      ts_events_dropped (record_event_locked now kind msg t) = ts_events_dropped t) \<or>
   (\<exists>e. ev_count e = 1 \<and> ev_at e = now \<and> ev_kind e = kind \<and> ev_message e = msg \<and>
      ts_events (record_event_locked now kind msg t) = push_event (ts_events t) e \<and>
      ts_events_dropped (record_event_locked now kind msg t) = ts_events_dropped t +
        (if length (ts_events t) < max_target_events then 0 else 1))"
proof (cases "if th_configured (ts_health t) \<and> kind = ''ping'' \<and> ts_events t \<noteq> []
    then fold_index kind msg (rev (ts_events t)) else None")
  case None
  define e where "e = \<lparr> ev_count = 1, ev_last_at = now, ev_at = now, ev_target_id = ts_id t,
    ev_kind = kind, ev_message = msg \<rparr>"
  have "ts_events (record_event_locked now kind msg t) = push_event (ts_events t) e"
    "ts_events_dropped (record_event_locked now kind msg t) = ts_events_dropped t +
      (if length (ts_events t) < max_target_events then 0 else 1)"
    using None by (simp_all add: record_event_locked_def Let_def e_def)
  then show ?thesis by (intro disjI2 exI [of _ e]) (simp add: e_def)
next
  case (Some j)
  then have c: "th_configured (ts_health t)" "kind = ''ping''" "ts_events t \<noteq> []"
    and f: "fold_index kind msg (rev (ts_events t)) = Some j" by (auto split: if_splits)
  let ?n = "length (ts_events t)"
  define i where "i = ?n - 1 - j"
  from fold_index_less [OF f] have j: "j < ?n" by simp
  then have ij: "rev (ts_events t) ! j = ts_events t ! i" "i < ?n"
    by (auto simp: rev_nth i_def)
  from fold_index_match [OF f] have m: "ev_kind (ts_events t ! i) = kind" "ev_message (ts_events t ! i) = msg"
    and h: "\<And>k. k < j \<Longrightarrow> ev_kind (rev (ts_events t) ! k) = ''health''" by (auto simp: ij)
  have "ev_kind (ts_events t ! k) = ''health''" if "i < k" "k < ?n" for k
    using h [of "?n - 1 - k"] that j by (auto simp: i_def rev_nth)
  moreover have "ts_events (record_event_locked now kind msg t) = (ts_events t)[i := (ts_events t ! i)
      \<lparr> ev_count := ev_count (ts_events t ! i) + 1, ev_last_at := now \<rparr>]"
    "ts_events_dropped (record_event_locked now kind msg t) = ts_events_dropped t"
    using c f by (simp_all add: record_event_locked_def Let_def i_def)
  ultimately show ?thesis using ij m c by blast
qed

section \<open>History alignment\<close>

text \<open>The ring of wall times, read as an accumulator that shares the write position.\<close>

definition times_ring :: "target_stats \<Rightarrow> rtt_acc" where
  "times_ring t = (ts_rtt t) \<lparr> a_history := ts_history_times t \<rparr>"

definition rings_ok :: "target_stats \<Rightarrow> bool" where
  "rings_ok t = (ring_inv history_size (ts_rtt t) \<and> ring_inv history_size (times_ring t))"

lemma append_history_locked_rings:
  "ts_rtt (append_history_locked rtt tm t) = append_history history_size (ts_rtt t) rtt"
  "times_ring (append_history_locked rtt tm t) = (append_history history_size (ts_rtt t) rtt)
     \<lparr> a_history := a_history (append_history history_size (times_ring t) tm) \<rparr>"
  by (simp_all add: append_history_locked_def times_ring_def append_history_def Let_def)

lemma snapshot_nth:
  assumes "ring_inv cap a" "k < a_len a"
  shows "history_snapshot a ! k = the (a_history a) ! ((a_idx a - a_len a + k) mod cap)"
proof (cases "a_history a")
  case None
  with assms show ?thesis by (simp add: ring_inv_def)
next
  case (Some buf)
  with assms have c: "length buf = cap" "a_len a = min (a_idx a) cap" "0 < cap" by (simp_all add: ring_inv_def)
  show ?thesis
  proof (cases "a_idx a < cap")
    case True
    with assms Some c show ?thesis by (simp add: snapshot_cases)
  next
    case False
    with c have l: "a_len a = cap" by simp
    define s where "s = a_idx a mod cap"
    have s: "s < cap" using c by (simp add: s_def)
    from False have "(a_idx a - cap + k) mod cap = (s + k) mod cap"
      unfolding s_def by (metis add.commute le_add_diff_inverse2 linorder_not_le mod_add_left_eq mod_add_self2)
    also have "\<dots> = (if s + k < cap then s + k else s + k - cap)"
      using s assms(2) l by (simp add: le_mod_geq)
    finally show ?thesis
      using assms Some c False l s
      by (simp add: snapshot_cases s_def [symmetric] nth_append) (auto intro: arg_cong)
  qed
qed

end
