(* ===== verification/Health_Judgment.thy ===== *)
theory Health_Judgment
  imports Target_Stats
begin

text \<open>
  What the health judgment of a target means (internal/stats/health.go, modelled in
  Target_Stats): the unavailable state refines a specification on the sequence of probe
  outcomes (hysteresis), and the ring of per-second buckets counts exactly the outcomes of the
  recent window.
\<close>

section \<open>What one outcome changes\<close>

definition outcome_run :: "target_stats \<Rightarrow> (gotime \<times> gotime \<times> bool) list \<Rightarrow> target_stats" where
  "outcome_run t os = foldl (\<lambda>t (event_now, now, ok). record_outcome event_now now ok t) t os"

lemma outcome_run_Nil [simp]: "outcome_run t [] = t"
  by (simp add: outcome_run_def)

lemma outcome_run_snoc:
  "outcome_run t (os @ [(e, now, ok)]) = record_outcome e now ok (outcome_run t os)"
  by (simp add: outcome_run_def)

text \<open>Lookups and evaluation read the policy and leave it alone.\<close>

lemma refresh_health_fields:
  "th_policy (refresh_health now g) = th_policy g"
  "th_configured (refresh_health now g) = th_configured g"
  "th_failures (refresh_health now g) = th_failures g"
  "th_successes (refresh_health now g) = th_successes g"
  "th_buckets (refresh_health now g) = th_buckets g"
  "th_last_probe (refresh_health now g) = th_last_probe g"
  "th_last_reply (refresh_health now g) = th_last_reply g"
  "th_recent_received (refresh_health now g) = fst (recent_health g now)"
  "th_recent_lost (refresh_health now g) = snd (recent_health g now)"
  "\<not> is_zero_time (th_last_probe g) \<Longrightarrow>
     th_down (refresh_health now g) = next_down (health_policy_of g) g"
  "is_zero_time (th_last_probe g) \<Longrightarrow> th_down (refresh_health now g) = th_down g"
  by (simp_all add: refresh_health_def Let_def next_down_def)

text \<open>Storing the status changes no more than the status, its reason and its start.\<close>

lemma evaluate_health_settles:
  "\<exists>status reason. ts_health (evaluate_health e now t)
     = settle_status now status reason (refresh_health now (ts_health t))"
  by (auto simp: evaluate_health_def Let_def)

lemma evaluate_health_fields:
  fixes t e now
  defines "h \<equiv> ts_health (evaluate_health e now t)" and "g \<equiv> ts_health t"
  shows "th_policy h = th_policy g" "th_configured h = th_configured g"
    "th_failures h = th_failures g" "th_successes h = th_successes g"
    "th_buckets h = th_buckets g" "th_last_probe h = th_last_probe g"
    "th_last_reply h = th_last_reply g"
    "th_recent_received h = fst (recent_health g now)" "th_recent_lost h = snd (recent_health g now)"
    "\<not> is_zero_time (th_last_probe g) \<Longrightarrow> th_down h = next_down (health_policy_of g) g"
    "is_zero_time (th_last_probe g) \<Longrightarrow> th_down h = th_down g"
proof -
  obtain status reason where "h = settle_status now status reason (refresh_health now g)"
    using evaluate_health_settles [of e now t] by (auto simp: h_def g_def)
  then have h: "h = (refresh_health now g) \<lparr> th_since := th_since h, th_status := status,
      th_reason := reason \<rparr>" by (simp add: settle_status_def Let_def)
  note fields = refresh_health_fields [where now = now and g = g]
  show "th_policy h = th_policy g" "th_configured h = th_configured g"
    "th_failures h = th_failures g" "th_successes h = th_successes g"
    "th_buckets h = th_buckets g" "th_last_probe h = th_last_probe g"
    "th_last_reply h = th_last_reply g"
    "th_recent_received h = fst (recent_health g now)" "th_recent_lost h = snd (recent_health g now)"
    "\<not> is_zero_time (th_last_probe g) \<Longrightarrow> th_down h = next_down (health_policy_of g) g"
    "is_zero_time (th_last_probe g) \<Longrightarrow> th_down h = th_down g"
    by (subst h, simp add: fields)+
qed

lemma count_outcome_fields:
  "th_policy (count_outcome now ok h) = th_policy h"
  "th_configured (count_outcome now ok h) = th_configured h"
  "th_failures (count_outcome now ok h) = (if ok then 0 else th_failures h + 1)"
  "th_successes (count_outcome now ok h) = (if ok then th_successes h + 1 else 0)"
  "th_last_probe (count_outcome now ok h) = now"
  "th_down (count_outcome now ok h) = th_down h"
  by (simp_all add: count_outcome_def Let_def)

lemma health_policy_of_cong: "th_policy h' = th_policy h \<Longrightarrow> health_policy_of h' = health_policy_of h"
  by (simp add: health_policy_of_def)

lemma record_outcome_fields:
  fixes t e now ok
  defines "h \<equiv> ts_health (record_outcome e now ok t)" and "g \<equiv> ts_health t"
  shows "th_policy h = th_policy g" "health_policy_of h = health_policy_of g"
    "th_failures h = (if ok then 0 else th_failures g + 1)"
    "th_successes h = (if ok then th_successes g + 1 else 0)"
    "th_buckets h = th_buckets (count_outcome now ok g)"
    "now \<noteq> zero_time \<Longrightarrow> th_down h = next_down (health_policy_of g) (count_outcome now ok g)"
    "th_recent_received h = fst (recent_health (count_outcome now ok g) now)"
    "th_recent_lost h = snd (recent_health (count_outcome now ok g) now)"
proof -
  have p: "health_policy_of (count_outcome now ok g) = health_policy_of g"
    by (rule health_policy_of_cong) (simp add: count_outcome_fields)
  show "th_policy h = th_policy g"
    by (simp add: h_def g_def record_outcome_def evaluate_health_fields count_outcome_fields)
  then show "health_policy_of h = health_policy_of g" by (rule health_policy_of_cong)
  show "now \<noteq> zero_time \<Longrightarrow> th_down h = next_down (health_policy_of g) (count_outcome now ok g)"
    using p by (simp add: h_def g_def record_outcome_def evaluate_health_fields(10)
        count_outcome_fields is_zero_time_def)
qed (simp_all add: h_def g_def record_outcome_def evaluate_health_fields count_outcome_fields)

section \<open>Hysteresis\<close>

text \<open>The length of the run of \<open>b\<close> that ends a sequence of outcomes.\<close>

definition trailing :: "bool \<Rightarrow> bool list \<Rightarrow> int" where
  "trailing b os = int (length (takeWhile (\<lambda>x. x = b) (rev os)))"

lemma trailing_snoc: "trailing b (os @ [x]) = (if x = b then trailing b os + 1 else 0)"
  by (simp add: trailing_def)

lemma trailing_Nil [simp]: "trailing b [] = 0"
  by (simp add: trailing_def)

lemma trailing_nonneg [simp]: "0 \<le> trailing b os"
  by (simp add: trailing_def)

text \<open>
  The specification: a target is unavailable when, at some point, \<open>f\<close> probes in a row had failed
  and since then there was no moment with \<open>r\<close> replies in a row.
\<close>

definition unavailable_spec :: "int \<Rightarrow> int \<Rightarrow> bool list \<Rightarrow> bool" where
  "unavailable_spec f r os = (\<exists>i\<le>length os. f \<le> trailing False (take i os) \<and>
     (\<forall>j. i \<le> j \<and> j \<le> length os \<longrightarrow> trailing True (take j os) < r))"

lemma unavailable_spec_Nil: "0 < f \<Longrightarrow> \<not> unavailable_spec f r []"
  by (simp add: unavailable_spec_def)

lemma unavailable_spec_snoc:
  assumes "0 < r"
  shows "unavailable_spec f r (os @ [x]) \<longleftrightarrow>
    (f \<le> trailing False (os @ [x]) \<or> unavailable_spec f r os) \<and> trailing True (os @ [x]) < r"
    (is "?L \<longleftrightarrow> ?R")
proof
  assume ?L
  then obtain i where i: "i \<le> Suc (length os)" "f \<le> trailing False (take i (os @ [x]))"
    and r: "\<And>j. i \<le> j \<Longrightarrow> j \<le> Suc (length os) \<Longrightarrow> trailing True (take j (os @ [x])) < r"
    by (auto simp: unavailable_spec_def)
  show ?R
  proof (cases "i = Suc (length os)")
    case True
    with i r [of "Suc (length os)"] show ?thesis by simp
  next
    case False
    with i have "i \<le> length os" by simp
    moreover have "trailing True (take j os) < r" if "i \<le> j" "j \<le> length os" for j
      using r [of j] that by simp
    ultimately have "unavailable_spec f r os" using i by (auto simp: unavailable_spec_def)
    with r [of "Suc (length os)"] i show ?thesis by simp
  qed
next
  assume R: ?R
  then have x: "trailing True (os @ [x]) < r" by simp
  from R consider "f \<le> trailing False (os @ [x])" | "unavailable_spec f r os" by blast
  then show ?L
  proof cases
    case 1
    with x show ?thesis
      unfolding unavailable_spec_def
      by (intro exI [of _ "Suc (length os)"]) (auto simp: le_antisym)
  next
    case 2
    then obtain i where "i \<le> length os" "f \<le> trailing False (take i os)"
      "\<forall>j. i \<le> j \<and> j \<le> length os \<longrightarrow> trailing True (take j os) < r"
      by (auto simp: unavailable_spec_def)
    with x show ?thesis
      unfolding unavailable_spec_def
      by (intro exI [of _ i]) (auto simp: le_Suc_eq)
  qed
qed

lemma hysteresis_run:
  assumes fresh: "th_failures (ts_health t) = 0" "th_successes (ts_health t) = 0" "\<not> th_down (ts_health t)"
    and p: "p = health_policy_of (ts_health t)" "0 < hp_failures p" "0 < hp_recoveries p"
    and times: "\<forall>(e, now, ok)\<in>set os. now \<noteq> zero_time"
  defines "h \<equiv> ts_health (outcome_run t os)" and "oks \<equiv> map (\<lambda>(e, now, ok). ok) os"
  shows "health_policy_of h = p \<and> th_failures h = trailing False oks \<and>
    th_successes h = trailing True oks \<and>
    th_down h = unavailable_spec (hp_failures p) (hp_recoveries p) oks"
  using times unfolding h_def oks_def
proof (induction os rule: rev_induct)
  case Nil
  with fresh p show ?case by (simp add: unavailable_spec_Nil)
next
  case (snoc x os)
  obtain e now ok where x: "x = (e, now, ok)" by (cases x)
  let ?h = "ts_health (outcome_run t os)"
  from snoc have IH: "health_policy_of ?h = p"
    "th_failures ?h = trailing False (map (\<lambda>(e, now, ok). ok) os)"
    "th_successes ?h = trailing True (map (\<lambda>(e, now, ok). ok) os)"
    "th_down ?h = unavailable_spec (hp_failures p) (hp_recoveries p) (map (\<lambda>(e, now, ok). ok) os)"
    and now: "now \<noteq> zero_time"
    by (auto simp: x)
  show ?case
    using IH now p(2,3)
    by (auto simp: x outcome_run_snoc record_outcome_fields(2,3,4,6) next_down_def Let_def
        count_outcome_fields trailing_snoc unavailable_spec_snoc)
qed

section \<open>The recent window\<close>

text \<open>The reference: the outcomes of one kind whose second satisfies a condition.\<close>

definition outcomes_in :: "(int \<Rightarrow> bool) \<Rightarrow> bool \<Rightarrow> (gotime \<times> gotime \<times> bool) list \<Rightarrow> int" where
  "outcomes_in w b os = int (length (filter (\<lambda>(e, now, ok). w (unix_seconds now) \<and> ok = b) os))"

abbreviation outcomes_at :: "int \<Rightarrow> bool \<Rightarrow> (gotime \<times> gotime \<times> bool) list \<Rightarrow> int" where
  "outcomes_at s \<equiv> outcomes_in (\<lambda>x. x = s)"

lemma outcomes_in_snoc: "outcomes_in w b (os @ [(e, now, ok)]) =
    outcomes_in w b os + (if w (unix_seconds now) \<and> ok = b then 1 else 0)"
  by (simp add: outcomes_in_def)

lemma outcomes_in_sum:
  "finite W \<Longrightarrow> outcomes_in (\<lambda>s. s \<in> W) b os = (\<Sum>s\<in>W. outcomes_at s b os)"
proof (induction os rule: rev_induct)
  case Nil
  then show ?case by (simp add: outcomes_in_def)
next
  case (snoc x os)
  obtain e now ok where x: "x = (e, now, ok)" by (cases x)
  from snoc show ?case
    by (cases "ok = b") (simp_all add: x outcomes_in_snoc sum.distrib sum.delta)
qed

lemma outcomes_at_later: "\<forall>(e, now, ok)\<in>set os. unix_seconds now < s \<Longrightarrow> outcomes_at s b os = 0"
  by (force simp: outcomes_in_def filter_empty_conv)

definition bucket_of :: "bool \<Rightarrow> outcome_bucket \<Rightarrow> int" where
  "bucket_of b ob = (if b then ob_replies ob else ob_losses ob)"

text \<open>
  What the ring of \<open>n\<close> buckets keeps after the outcomes \<open>os\<close>, none later than second \<open>last\<close>: a
  bucket is empty or holds the exact counts of one second that hashes to it, and every second of
  the last \<open>n\<close> that had an outcome still has its bucket.
\<close>

definition buckets_inv ::
  "nat \<Rightarrow> int \<Rightarrow> (gotime \<times> gotime \<times> bool) list \<Rightarrow> outcome_bucket list \<Rightarrow> bool" where
  "buckets_inv n lst os bs = (length bs = n \<and>
     (\<forall>(e, now, ok)\<in>set os. 1 \<le> unix_seconds now \<and> unix_seconds now \<le> lst) \<and>
     (\<forall>i<n. (\<forall>b. bucket_of b (bs ! i) = 0) \<and> ob_second (bs ! i) = 0 \<or>
        1 \<le> ob_second (bs ! i) \<and> ob_second (bs ! i) mod int n = int i \<and>
        (\<forall>b. bucket_of b (bs ! i) = outcomes_at (ob_second (bs ! i)) b os)) \<and>
     (\<forall>s b. lst - int n < s \<and> s \<le> lst \<and> outcomes_at s b os \<noteq> 0 \<longrightarrow>
        ob_second (bs ! nat (s mod int n)) = s))"

lemma mod_close_eq:
  assumes "(a::int) mod n = b mod n" "\<bar>a - b\<bar> < n"
  shows "a = b"
proof (rule ccontr)
  assume "a \<noteq> b"
  moreover have "n dvd a - b" using assms(1) by (simp add: mod_eq_dvd_iff)
  ultimately have "\<bar>n\<bar> \<le> \<bar>a - b\<bar>" by (intro dvd_imp_le_int) simp_all
  with assms(2) show False by simp
qed

text \<open>Counting one outcome, on the buckets alone.\<close>

definition bump_bucket :: "int \<Rightarrow> bool \<Rightarrow> outcome_bucket list \<Rightarrow> outcome_bucket list" where
  "bump_bucket sec ok bs =
     (let i = nat (sec mod int (length bs));
          b = (if ob_second (bs ! i) \<noteq> sec
               then \<lparr> ob_second = sec, ob_replies = 0, ob_losses = 0 \<rparr> else bs ! i)
      in bs[i := if ok then b \<lparr> ob_replies := ob_replies b + 1 \<rparr>
                 else b \<lparr> ob_losses := ob_losses b + 1 \<rparr>])"

lemma buckets_inv_step:
  assumes inv: "buckets_inv n lst os bs" and n: "0 < n"
    and sec: "sec = unix_seconds now" "1 \<le> sec" "lst \<le> sec"
  shows "buckets_inv n sec (os @ [(e, now, ok)]) (bump_bucket sec ok bs)"
proof -
  let ?os = "os @ [(e, now, ok)]"
  define i where "i = nat (sec mod int n)"
  have len: "length bs = n" and seen: "\<forall>(e, now, ok)\<in>set os. 1 \<le> unix_seconds now \<and> unix_seconds now \<le> lst"
    and cell: "\<And>j. j < n \<Longrightarrow> (\<forall>b. bucket_of b (bs ! j) = 0) \<and> ob_second (bs ! j) = 0 \<or>
        1 \<le> ob_second (bs ! j) \<and> ob_second (bs ! j) mod int n = int j \<and>
        (\<forall>b. bucket_of b (bs ! j) = outcomes_at (ob_second (bs ! j)) b os)"
    and kept: "\<And>s b. lst - int n < s \<Longrightarrow> s \<le> lst \<Longrightarrow> outcomes_at s b os \<noteq> 0 \<Longrightarrow>
        ob_second (bs ! nat (s mod int n)) = s"
    using inv by (auto simp: buckets_inv_def)
  have i: "i < n" "int i = sec mod int n" using n by (simp_all add: i_def nat_less_iff)
  define b' where "b' = (let b = (if ob_second (bs ! i) \<noteq> sec
      then \<lparr> ob_second = sec, ob_replies = 0, ob_losses = 0 \<rparr> else bs ! i) in
    if ok then b \<lparr> ob_replies := ob_replies b + 1 \<rparr> else b \<lparr> ob_losses := ob_losses b + 1 \<rparr>)"
  have bump: "bump_bucket sec ok bs = bs[i := b']"
    by (simp add: bump_bucket_def b'_def i_def len Let_def)
  have b's: "ob_second b' = sec" by (simp add: b'_def Let_def)
  have fresh: "outcomes_at sec b os = 0" if "ob_second (bs ! i) \<noteq> sec" for b
  proof (cases "sec = lst")
    case True
    with kept [of sec b] that n i show ?thesis by (auto simp: i_def)
  next
    case False
    with seen sec have "\<forall>(e, now, ok)\<in>set os. unix_seconds now < sec" by fastforce
    then show ?thesis by (rule outcomes_at_later)
  qed
  have b'c: "bucket_of b b' = outcomes_at sec b ?os" for b
  proof (cases "ob_second (bs ! i) = sec")
    case True
    with cell [OF i(1)] sec have "\<forall>b. bucket_of b (bs ! i) = outcomes_at sec b os" by auto
    with True sec show ?thesis
      by (cases b) (auto simp: b'_def bucket_of_def outcomes_in_snoc Let_def all_bool_eq)
  next
    case False
    with fresh sec show ?thesis by (auto simp: b'_def bucket_of_def outcomes_in_snoc Let_def)
  qed
  have other: "outcomes_at s b ?os = outcomes_at s b os" if "s \<noteq> sec" for s b
    using that sec by (simp add: outcomes_in_snoc)
  have "\<forall>(e, now, ok)\<in>set ?os. 1 \<le> unix_seconds now \<and> unix_seconds now \<le> sec"
    using seen sec by fastforce
  moreover have "(\<forall>b. bucket_of b (bs[i := b'] ! j) = 0) \<and> ob_second (bs[i := b'] ! j) = 0 \<or>
        1 \<le> ob_second (bs[i := b'] ! j) \<and> ob_second (bs[i := b'] ! j) mod int n = int j \<and>
        (\<forall>b. bucket_of b (bs[i := b'] ! j) = outcomes_at (ob_second (bs[i := b'] ! j)) b ?os)"
    if j: "j < n" for j
  proof (cases "j = i")
    case True
    with j len b's b'c sec i show ?thesis by simp
  next
    case False
    then have "ob_second (bs ! j) mod int n = int j \<Longrightarrow> ob_second (bs ! j) \<noteq> sec" using i by auto
    with cell [OF j] False j len show ?thesis by (auto simp: other)
  qed
  moreover have "ob_second (bs[i := b'] ! nat (s mod int n)) = s"
    if s: "sec - int n < s" "s \<le> sec" "outcomes_at s b ?os \<noteq> 0" for s b
  proof (cases "s = sec")
    case True
    with i len b's show ?thesis by (simp add: i_def)
  next
    case False
    have "s \<le> lst"
    proof (rule ccontr)
      assume "\<not> s \<le> lst"
      with seen have "\<forall>(e, now, ok)\<in>set os. unix_seconds now < s" by fastforce
      with outcomes_at_later other [OF False] s show False by metis
    qed
    with kept [of s b] s sec other [OF False] have "ob_second (bs ! nat (s mod int n)) = s" by simp
    moreover have "s mod int n \<noteq> sec mod int n"
      using mod_close_eq [of s "int n" sec] False s(1,2) by auto
    then have "nat (s mod int n) \<noteq> i" using n by (auto simp: i_def nat_eq_iff2)
    ultimately show ?thesis by simp
  qed
  ultimately show ?thesis using len by (auto simp: buckets_inv_def bump)
qed

text \<open>Reading: the buckets inside a window of at most \<open>n\<close> seconds count the outcomes in it.\<close>

lemma buckets_window_sum:
  assumes inv: "buckets_inv n hi os bs" and lo: "hi - int n \<le> lo" and n: "0 < n"
  shows "(\<Sum>i<n. if lo < ob_second (bs ! i) \<and> ob_second (bs ! i) \<le> hi then bucket_of b (bs ! i) else 0)
    = outcomes_in (\<lambda>s. lo < s \<and> s \<le> hi) b os"
proof -
  let ?g = "\<lambda>i. if lo < ob_second (bs ! i) \<and> ob_second (bs ! i) \<le> hi then bucket_of b (bs ! i) else 0"
  let ?f = "\<lambda>s. nat (s mod int n)"
  let ?W = "{lo<..hi}"
  have cell: "\<And>j. j < n \<Longrightarrow> (\<forall>b. bucket_of b (bs ! j) = 0) \<and> ob_second (bs ! j) = 0 \<or>
        1 \<le> ob_second (bs ! j) \<and> ob_second (bs ! j) mod int n = int j \<and>
        (\<forall>b. bucket_of b (bs ! j) = outcomes_at (ob_second (bs ! j)) b os)"
    and kept0: "\<And>s. hi - int n < s \<Longrightarrow> s \<le> hi \<Longrightarrow> outcomes_at s b os \<noteq> 0 \<Longrightarrow> ob_second (bs ! ?f s) = s"
    using inv unfolding buckets_inv_def by blast+
  have kept: "ob_second (bs ! ?f s) = s" if "s \<in> ?W" "outcomes_at s b os \<noteq> 0" for s
    using that lo by (intro kept0) auto
  have zero: "outcomes_at 0 b os = 0"
    using inv by (force simp: buckets_inv_def outcomes_in_def filter_empty_conv)
  have f: "?f s < n" "int (?f s) = s mod int n" for s using n by (simp_all add: nat_less_iff)
  have inj: "inj_on ?f ?W"
  proof (rule inj_onI)
    fix s s' assume s: "s \<in> ?W" "s' \<in> ?W" and eq: "?f s = ?f s'"
    from eq have "s mod int n = s' mod int n" using f(2) by metis
    then show "s = s'" by (rule mod_close_eq) (use s lo in auto)
  qed
  have g: "?g (?f s) = outcomes_at s b os" if s: "s \<in> ?W" for s
  proof (cases "ob_second (bs ! ?f s) = s")
    case True
    with cell [OF f(1), of s] s kept [OF s] zero show ?thesis by auto
  next
    case False
    with kept [OF s] have z: "outcomes_at s b os = 0" by blast
    have "ob_second (bs ! ?f s) \<notin> ?W \<or> bucket_of b (bs ! ?f s) = 0"
    proof (rule ccontr)
      assume "\<not> ?thesis"
      with cell [OF f(1), of s] have w: "ob_second (bs ! ?f s) \<in> ?W"
        "ob_second (bs ! ?f s) mod int n = int (?f s)" by auto
      from w(2) have "ob_second (bs ! ?f s) mod int n = s mod int n" by (simp only: f(2))
      then have "ob_second (bs ! ?f s) = s" by (rule mod_close_eq) (use s w lo in auto)
      with False show False by simp
    qed
    with z show ?thesis by auto
  qed
  have out: "?g i = 0" if "i \<in> {..<n} - ?f ` ?W" for i
  proof (rule ccontr)
    assume g: "?g i \<noteq> 0"
    with that cell [of i] have w: "ob_second (bs ! i) \<in> ?W" "ob_second (bs ! i) mod int n = int i"
      by (auto split: if_splits)
    then have "i = ?f (ob_second (bs ! i))" by simp
    with w(1) that show False by blast
  qed
  have "(\<Sum>i<n. ?g i) = (\<Sum>i\<in>?f ` ?W. ?g i)"
    using f out by (intro sum.mono_neutral_right) auto
  also have "\<dots> = (\<Sum>s\<in>?W. ?g (?f s))" using inj by (simp add: sum.reindex)
  also have "\<dots> = (\<Sum>s\<in>?W. outcomes_at s b os)" using g by (intro sum.cong) auto
  also have "\<dots> = outcomes_in (\<lambda>s. s \<in> ?W) b os" by (rule outcomes_in_sum [symmetric]) simp
  finally show ?thesis by (simp only: greaterThanAtMost_iff)
qed

lemma recent_health_sum:
  "recent_health h now =
    ((\<Sum>b\<leftarrow>th_buckets h. if in_window (health_policy_of h) now (ob_second b) then ob_replies b else 0),
     (\<Sum>b\<leftarrow>th_buckets h. if in_window (health_policy_of h) now (ob_second b) then ob_losses b else 0))"
proof -
  have "foldl (\<lambda>(received, lost) b. if P b then (received + ob_replies b, lost + ob_losses b)
        else (received, lost)) (r, l) bs
      = (r + (\<Sum>b\<leftarrow>bs. if P b then ob_replies b else 0), l + (\<Sum>b\<leftarrow>bs. if P b then ob_losses b else 0))"
    for P r l and bs :: "outcome_bucket list"
    by (induction bs arbitrary: r l) auto
  then show ?thesis by (simp add: recent_health_def)
qed

lemma sum_list_nth: "(\<Sum>b\<leftarrow>bs. g b) = (\<Sum>i<length bs. g (bs ! i))"
  by (simp add: sum_list_sum_nth atLeast0LessThan)

text \<open>The policy in force always has a window of at least a second.\<close>

lemma bucket_count_window:
  assumes "second \<le> hp_window p"
  shows "0 < bucket_count p" "unix_seconds now - int (bucket_count p) \<le> unix_seconds (now - hp_window p)"
proof -
  define w where "w = hp_window p"
  have w: "1000000000 \<le> w" using assms by (simp add: w_def)
  then have n: "int (bucket_count p) = w div 1000000000 + 2"
    by (simp add: bucket_count_def w_def [symmetric] sdiv_nonneg)
  then show "0 < bucket_count p" using w by linarith
  define q where "q = w div 1000000000"
  have "w < (q + 1) * 1000000000" unfolding q_def by presburger
  then have "now + (- (q + 1)) * 1000000000 \<le> now - w" by simp
  then have "(now + (- (q + 1)) * 1000000000) div 1000000000 \<le> (now - w) div 1000000000"
    by (rule zdiv_mono1) simp
  then have "now div 1000000000 - (q + 1) \<le> (now - w) div 1000000000"
    by (simp only: div_mult_self1)
  then show "unix_seconds now - int (bucket_count p) \<le> unix_seconds (now - hp_window p)"
    by (simp add: unix_seconds_def n w_def [symmetric] q_def [symmetric])
qed

lemma count_outcome_buckets:
  assumes "n = bucket_count (health_policy_of h)" "0 < n" "1 \<le> unix_seconds now"
  shows "th_buckets (count_outcome now ok h) = bump_bucket (unix_seconds now) ok
    (if length (th_buckets h) \<noteq> n then replicate n \<lparr> ob_second = 0, ob_replies = 0, ob_losses = 0 \<rparr>
     else th_buckets h)"
  using assms
  by (auto simp: count_outcome_def bump_bucket_def Let_def smod_nonneg)

lemma buckets_inv_fresh:
  "buckets_inv n lst [] (replicate n \<lparr> ob_second = 0, ob_replies = 0, ob_losses = 0 \<rparr>)"
  by (simp add: buckets_inv_def bucket_of_def outcomes_in_def)

text \<open>Outcomes come in the order of the clock, each at least a second after the epoch.\<close>

fun clock_order :: "int \<Rightarrow> (gotime \<times> gotime \<times> bool) list \<Rightarrow> bool" where
  "clock_order lst [] = True"
| "clock_order lst ((e, now, ok) # os) = (lst \<le> now \<and> clock_order now os)"

lemma clock_order_snoc:
  "clock_order lst (os @ [(e, now, ok)]) \<longleftrightarrow> clock_order lst os \<and>
     (if os = [] then lst else fst (snd (last os))) \<le> now"
  by (induction lst os rule: clock_order.induct) auto

lemma clock_order_last: "clock_order lst os \<Longrightarrow> os \<noteq> [] \<Longrightarrow> lst \<le> fst (snd (last os))"
  by (induction lst os rule: clock_order.induct) (auto split: if_splits)

lemma buckets_run:
  assumes fresh: "th_buckets (ts_health t) = []"
    and p: "p = health_policy_of (ts_health t)" "second \<le> hp_window p"
    and os: "clock_order second os" "os \<noteq> []"
  shows "health_policy_of (ts_health (outcome_run t os)) = p \<and>
    buckets_inv (bucket_count p) (unix_seconds (fst (snd (last os)))) os
      (th_buckets (ts_health (outcome_run t os)))"
  using os
proof (induction os rule: rev_induct)
  case (snoc x os)
  obtain e now ok where x: "x = (e, now, ok)" by (cases x)
  let ?h = "ts_health (outcome_run t os)"
  note n = bucket_count_window(1) [OF p(2)]
  define bs where "bs = (if length (th_buckets ?h) \<noteq> bucket_count p
    then replicate (bucket_count p) \<lparr> ob_second = 0, ob_replies = 0, ob_losses = 0 \<rparr> else th_buckets ?h)"
  define lst where "lst = (if os = [] then second else fst (snd (last os)))"
  have ord: "clock_order second os" "lst \<le> now"
    using snoc.prems(1) unfolding x clock_order_snoc lst_def by blast+
  have lst1: "second \<le> lst"
    using clock_order_last [OF ord(1)] by (simp add: lst_def)
  have pol: "health_policy_of ?h = p" and inv: "buckets_inv (bucket_count p) (unix_seconds lst) os bs"
    using snoc.IH ord(1) p fresh n
    by (cases "os = []"; simp add: bs_def lst_def buckets_inv_fresh; simp add: buckets_inv_def)+
  have sec: "1 \<le> unix_seconds now" "unix_seconds lst \<le> unix_seconds now"
    using ord(2) lst1 unix_seconds_mono [of second now] unix_seconds_mono [of lst now]
    by (simp_all add: unix_seconds_def)
  have "th_buckets (ts_health (outcome_run t (os @ [x]))) = bump_bucket (unix_seconds now) ok bs"
    using count_outcome_buckets [of "bucket_count p" ?h now ok] pol n sec
    by (simp add: x outcome_run_snoc record_outcome_fields bs_def)
  then show ?case
    using buckets_inv_step [OF inv n refl sec, of e ok] pol
    by (simp add: x outcome_run_snoc record_outcome_fields)
qed simp

section \<open>Properties\<close>

text \<open>The policy in force is valid: it passed validation or is the default one.\<close>

definition policy_ok :: "health_policy \<Rightarrow> bool" where
  "policy_ok p = (1 \<le> hp_failures p \<and> 1 \<le> hp_recoveries p \<and> second \<le> hp_window p)"

lemma policy_validate_ok: "policy_validate p = None \<Longrightarrow> policy_ok p"
  by (auto simp: policy_validate_def policy_ok_def split: if_splits)

lemma default_policy_fields [simp]:
  "hp_failures default_health_policy = 3" "hp_recoveries default_health_policy = 2"
  "hp_window default_health_policy = minute"
  by (simp_all add: default_health_policy_def)

lemma default_policy_ok: "policy_ok default_health_policy"
  by (simp add: policy_ok_def)

lemma configured_policy_ok: "policy_ok (health_policy_of (ts_health (configure_health clk p t)))"
proof -
  define q where "q = (case policy_validate p of None \<Rightarrow> p | Some _ \<Rightarrow> default_health_policy)"
  have "policy_ok q"
    by (cases "policy_validate p") (simp_all add: q_def policy_validate_ok default_policy_ok)
  moreover have "th_policy (ts_health (configure_health clk p t)) = q"
    by (simp add: configure_health_def Let_def evaluate_health_fields q_def)
  ultimately show ?thesis by (auto simp: health_policy_of_def default_policy_ok)
qed

text \<open>The start of a statistics window: a new target, or one just reset.\<close>

definition fresh_window :: "target_stats \<Rightarrow> bool" where
  "fresh_window t = (\<exists>p c. ts_health t = fresh_health p c)"

lemma fresh_window_new: "fresh_window (new_target_stats i now host)"
  by (auto simp: fresh_window_def new_target_stats_def)

lemma new_target_policy [simp]:
  "health_policy_of (ts_health (new_target_stats i now host)) = default_health_policy"
  by (simp add: new_target_stats_def fresh_health_def health_policy_of_def zero_policy_def)

lemma fresh_window_reset: "fresh_window (reset_stats clk t)"
  by (auto simp: fresh_window_def reset_stats_def Let_def)

text \<open>C3: The health judgment has the hysteresis its policy promises: after any outcomes in a
  statistics window, the target is unavailable exactly if at some point \<open>Failures\<close> probes in a row
  had failed and there have not been \<open>Recoveries\<close> replies in a row at any moment since; and the
  consecutive counts shown are the lengths of the runs that end the outcomes.\<close>

theorem health_hysteresis:
  assumes "fresh_window t" "policy_ok (health_policy_of (ts_health t))"
    "\<forall>(event_now, now, ok)\<in>set os. now \<noteq> zero_time"
  shows "th_down (ts_health (outcome_run t os)) =
      unavailable_spec (hp_failures (health_policy_of (ts_health t)))
        (hp_recoveries (health_policy_of (ts_health t))) (map (\<lambda>(e, now, ok). ok) os) \<and>
    th_failures (ts_health (outcome_run t os)) = trailing False (map (\<lambda>(e, now, ok). ok) os) \<and>
    th_successes (ts_health (outcome_run t os)) = trailing True (map (\<lambda>(e, now, ok). ok) os)"
  using assms hysteresis_run [OF _ _ _ refl, of t os]
  by (auto simp: fresh_window_def fresh_health_def policy_ok_def)

theorem health_hysteresis_witness:
  "th_down (ts_health (outcome_run (new_target_stats 1 second ''h'')
     [(5000000000, 5000000000, False), (6000000000, 6000000000, False), (7000000000, 7000000000, False),
      (8000000000, 8000000000, True)]))"
proof -
  have "unavailable_spec 3 2 [False, False, False, True]"
    unfolding unavailable_spec_def
    by (intro exI [of _ 3]) (auto simp: trailing_def le_Suc_eq numeral_eq_Suc)
  then show ?thesis
    using health_hysteresis [of "new_target_stats 1 second ''h''" "[(5000000000, 5000000000, False),
        (6000000000, 6000000000, False), (7000000000, 7000000000, False), (8000000000, 8000000000, True)]"]
    by (simp add: fresh_window_new default_policy_ok zero_time_def)
qed

text \<open>C10: The recent window counts exactly: with a clock that does not run backwards, the recent
  replies and losses of the last judgment are the numbers of replies and losses whose second lies
  in the policy's window before the last outcome, although the outcomes are kept only as counts
  in a ring of per-second buckets that is overwritten as time passes.\<close>

theorem recent_window_exact:
  assumes "fresh_window t" "policy_ok (health_policy_of (ts_health t))"
    "clock_order second os" "os \<noteq> []"
  shows "th_recent_received (ts_health (outcome_run t os)) =
      outcomes_in (in_window (health_policy_of (ts_health t)) (fst (snd (last os)))) True os \<and>
    th_recent_lost (ts_health (outcome_run t os)) =
      outcomes_in (in_window (health_policy_of (ts_health t)) (fst (snd (last os)))) False os"
proof -
  let ?p = "health_policy_of (ts_health t)" and ?h = "ts_health (outcome_run t os)"
  define now where "now = fst (snd (last os))"
  have fresh: "th_buckets (ts_health t) = []" using assms(1) by (auto simp: fresh_window_def fresh_health_def)
  have w: "second \<le> hp_window ?p" using assms(2) by (simp add: policy_ok_def)
  from buckets_run [OF fresh refl w assms(3,4)]
  have pol: "health_policy_of ?h = ?p"
    and inv: "buckets_inv (bucket_count ?p) (unix_seconds now) os (th_buckets ?h)"
    by (simp_all add: now_def)
  have len: "length (th_buckets ?h) = bucket_count ?p" using inv by (simp add: buckets_inv_def)
  note sums = buckets_window_sum [OF inv bucket_count_window(2) [OF w] bucket_count_window(1) [OF w]]
  have recent: "th_recent_received ?h = fst (recent_health ?h now)"
    "th_recent_lost ?h = snd (recent_health ?h now)"
  proof -
    obtain os' e ok where os: "os = os' @ [(e, now, ok)]"
      using assms(4) by (cases os rule: rev_cases) (auto simp: now_def)
    let ?g = "ts_health (outcome_run t os')"
    have "health_policy_of (count_outcome now ok ?g) = health_policy_of ?g"
      by (rule health_policy_of_cong) (rule count_outcome_fields(1))
    moreover have "health_policy_of ?h = health_policy_of ?g"
      by (simp add: os outcome_run_snoc record_outcome_fields(2))
    moreover have "th_buckets ?h = th_buckets (count_outcome now ok ?g)"
      by (simp add: os outcome_run_snoc record_outcome_fields(5))
    ultimately show "th_recent_received ?h = fst (recent_health ?h now)"
      "th_recent_lost ?h = snd (recent_health ?h now)"
      by (simp_all add: os outcome_run_snoc record_outcome_fields(7,8) recent_health_sum)
  qed
  have iw: "in_window ?p now = (\<lambda>s. unix_seconds (now - hp_window ?p) < s \<and> s \<le> unix_seconds now)"
    by (simp add: fun_eq_iff in_window_def)
  show ?thesis
    using sums [of True, unfolded bucket_of_def if_True] sums [of False, unfolded bucket_of_def if_False]
    by (simp add: recent recent_health_sum sum_list_nth len pol iw now_def [symmetric])
qed

theorem recent_window_exact_witness:
  "th_recent_lost (ts_health (outcome_run (new_target_stats 1 second ''h'')
     [(5000000000, 5000000000, False), (65000000000, 65000000000, False),
      (70000000000, 70000000000, True)])) = 1"
  using recent_window_exact [of "new_target_stats 1 second ''h''" "[(5000000000, 5000000000, False),
      (65000000000, 65000000000, False), (70000000000, 70000000000, True)]"]
  by (simp add: fresh_window_new default_policy_ok outcomes_in_def
      in_window_def unix_seconds_def)

end
