(* ===== verification/Target_View.thy ===== *)
theory Target_View
  imports Health_Judgment
begin

text \<open>
  The read side of a target (internal/stats/view.go, export.go) and the process-wide generation
  counter that tells readers whether anything changed (dirty.go). \<open>target_step\<close> dispatches every
  operation of a target and says how often it bumped the counter; a \<open>world\<close> is the counter with
  the targets of the process.
\<close>

section \<open>Views\<close>

record health_view =
  hw_unavailable :: bool
  hw_configured :: bool
  hw_status :: string
  hw_reason :: string
  hw_since :: gotime
  hw_last_probe_at :: gotime
  hw_last_reply_at :: gotime
  hw_consecutive_failures :: int
  hw_consecutive_successes :: int
  hw_recent_completed :: int
  hw_recent_loss :: int
  hw_recent_loss_pct :: float64
  hw_window_seconds :: float64
  hw_evaluated_at :: gotime

text \<open>\<open>Duration.Seconds()\<close> and the milliseconds of the export.\<close>

definition duration_seconds :: "duration \<Rightarrow> float64" where
  "duration_seconds d = f_of_int (d sdiv second) + f_of_int (d smod second) / f_of_int second"

definition duration_ms :: "duration \<Rightarrow> float64" where
  "duration_ms d = f_of_int (d sdiv microsecond) / Finite 1000"

definition health_view_locked :: "target_stats \<Rightarrow> health_view" where
  "health_view_locked t =
     (let h = ts_health t;
          received = th_recent_received h;
          lost = th_recent_lost h;
          (status, reason) = (if th_status h = [] then (''pending'', ''Waiting for a completed probe'')
                              else (th_status h, th_reason h))
      in \<lparr> hw_unavailable = th_down h, hw_configured = th_configured h, hw_status = status,
           hw_reason = reason, hw_since = th_since h, hw_last_probe_at = th_last_probe h,
           hw_last_reply_at = th_last_reply h, hw_consecutive_failures = th_failures h,
           hw_consecutive_successes = th_successes h, hw_recent_completed = received + lost,
           hw_recent_loss = lost, hw_recent_loss_pct = recent_loss_pct received lost,
           hw_window_seconds = duration_seconds (hp_window (health_policy_of h)),
           hw_evaluated_at = th_evaluated_at h \<rparr>)"

record target_view =
  tv_health :: health_view
  tv_thresholds :: thresholds
  tv_levels :: levels
  tv_measurement_state :: string
  tv_id :: nat
  tv_started_at :: gotime
  tv_window_started_at :: gotime
  tv_ip_history :: "ip_change list"
  tv_ip_changes :: int
  tv_cancelled :: int
  tv_host :: string
  tv_ip :: string
  tv_asn :: string
  tv_country :: string
  tv_org :: string
  tv_ptr :: string
  tv_dns_server :: string
  tv_iface_mtu :: int
  tv_pmtu :: int
  tv_path_mtu :: int
  tv_pmtu_source :: string
  tv_pmtu_status :: string
  tv_pmtu_bottleneck :: string
  tv_port_results :: "port_view list"
  tv_mtr_hops :: "hop_view list"
  tv_mtr_flap :: "int \<times> gotime \<times> string"
  tv_mtr_error :: string
  tv_sent :: int
  tv_recv :: int
  tv_loss :: int
  tv_duplicates :: int
  tv_late_replies :: int
  tv_last_rtt :: duration
  tv_min_rtt :: duration
  tv_max_rtt :: duration
  tv_avg_rtt :: duration
  tv_stddev :: "duration option"
  tv_jitter :: int
  tv_history :: "duration list"
  tv_last_ttl :: int
  tv_last_loss_time :: gotime
  tv_last_error :: string

text \<open>\<open>viewLocked\<close>, with the history its caller chose.\<close>

definition view_locked :: "(rtt_acc \<Rightarrow> duration list) \<Rightarrow> target_stats \<Rightarrow> target_view" where
  "view_locked history_fn t =
     (let avg = (if ts_recv t > 0 then a_sum (ts_rtt t) sdiv ts_recv t else 0);
          th = hp_thresholds (health_policy_of (ts_health t));
          (hops, flap, err) = (case ts_mtr t of
             None \<Rightarrow> ([], (0, zero_time, []), [])
           | Some m \<Rightarrow> (mtr_view m, flap_info m, mtr_error m))
      in \<lparr> tv_health = health_view_locked t, tv_thresholds = th,
           tv_levels = compute_levels th (ts_recv t) (ts_loss t) (ts_last_rtt t) (ts_jitter t),
           tv_measurement_state = ts_measurement_state t, tv_id = ts_id t,
           tv_started_at = ts_started_at t, tv_window_started_at = ts_window_started_at t,
           tv_ip_history = ts_ip_history t, tv_ip_changes = ts_ip_changes t,
           tv_cancelled = ts_cancelled t, tv_host = display_name_locked t, tv_ip = ts_ip t,
           tv_asn = ts_asn t, tv_country = ts_country t, tv_org = ts_org t, tv_ptr = ts_ptr t,
           tv_dns_server = ts_dns_server t, tv_iface_mtu = ts_iface_mtu t,
           tv_pmtu = pm_payload (ts_path_mtu t), tv_path_mtu = pm_mtu (ts_path_mtu t),
           tv_pmtu_source = pm_source (ts_path_mtu t), tv_pmtu_status = pm_status (ts_path_mtu t),
           tv_pmtu_bottleneck = pm_bottleneck (ts_path_mtu t),
           tv_port_results = map port_get_view (ts_port_results t),
           tv_mtr_hops = hops, tv_mtr_flap = flap, tv_mtr_error = err,
           tv_sent = ts_sent t, tv_recv = ts_recv t, tv_loss = ts_loss t,
           tv_duplicates = ts_duplicates t, tv_late_replies = ts_late_replies t,
           tv_last_rtt = ts_last_rtt t, tv_min_rtt = a_min (ts_rtt t), tv_max_rtt = a_max (ts_rtt t),
           tv_avg_rtt = avg, tv_stddev = acc_stddev (ts_rtt t), tv_jitter = ts_jitter t,
           tv_history = history_fn (ts_rtt t), tv_last_ttl = ts_last_ttl t,
           tv_last_loss_time = ts_last_loss_time t, tv_last_error = ts_last_error t \<rparr>)"

definition get_view :: "target_stats \<Rightarrow> target_view" where
  "get_view t = view_locked history_snapshot t"

definition get_view_window :: "int \<Rightarrow> target_stats \<Rightarrow> target_view" where
  "get_view_window n t = view_locked (\<lambda>a. history_snapshot_window a n) t"

definition report_data :: "target_stats \<Rightarrow> target_view \<times> event list \<times> int" where
  "report_data t = (view_locked history_snapshot t, ts_events t, ts_events_dropped t)"

section \<open>The operations of a target\<close>

datatype target_op =
    SetTargetIP string
  | SetASNInfo string string string
  | SetTargetPTR string
  | SetDNSServer string
  | SetIfaceMTU int
  | SetPathMTU path_mtu_info
  | SetPortResults "port_check list"
  | PortResult nat string duration
  | IncSent
  | OnSuccess duration int
  | OnDuplicate
  | OnLateReply
  | OnFailure string
  | ResetStats
  | SetDisplayName string
  | SetResolveAddress string
  | SetMeasurementState string
  | ConfigureHealth health_policy
  | RecordEvent string string
  | SetEventSink bool
  | GetMTR
  | HopOp mtr_op
  | ProbeOp probe probe_update

text \<open>How often an operation on the hops bumps the counter: always once, except that \<open>CheckFlap\<close>
  does so only when it found a flap.\<close>

definition mtr_bumps :: "mtr_op \<Rightarrow> mtr_stats \<Rightarrow> nat" where
  "mtr_bumps op m = (case op of
     CheckFlap prev now \<Rightarrow> (if fst (snd (check_flap m prev now)) then 1 else 0)
   | _ \<Rightarrow> 1)"

fun target_step :: "clock \<Rightarrow> target_op \<Rightarrow> target_stats \<Rightarrow> target_stats \<times> nat" where
  "target_step clk (SetTargetIP ip) t = (set_ip clk ip t, 1)"
| "target_step clk (SetASNInfo n c org) t = (set_asn_info n c org t, 1)"
| "target_step clk (SetTargetPTR s) t = (set_ptr s t, 1)"
| "target_step clk (SetDNSServer s) t = (set_dns_server s t, 1)"
| "target_step clk (SetIfaceMTU n) t = (set_iface_mtu n t, 1)"
| "target_step clk (SetPathMTU info) t = (set_path_mtu info t, 1)"
| "target_step clk (SetPortResults rs) t = (set_port_results rs t, 1)"
| "target_step clk (PortResult i s rtt) t =
     (if i < length (ts_port_results t)
      then (t \<lparr> ts_port_results := (ts_port_results t)
              [i := port_set_result (clk 0) (ts_port_results t ! i) s rtt] \<rparr>, 1)
      else (t, 0))"
| "target_step clk IncSent t = (inc_sent t, 1)"
| "target_step clk (OnSuccess rtt ttl) t = (on_success clk rtt ttl t, 1)"
| "target_step clk OnDuplicate t = (on_duplicate t, 1)"
| "target_step clk OnLateReply t = (on_late_reply t, 1)"
| "target_step clk (OnFailure reason) t = (on_failure clk reason t, 1)"
| "target_step clk ResetStats t =
     (reset_stats clk t, 1 + (case ts_mtr t of None \<Rightarrow> 0 | Some _ \<Rightarrow> 1))"
| "target_step clk (SetDisplayName name) t =
     (case set_display_name (clk 0) name t of (t', changed) \<Rightarrow> (t', if changed then 1 else 0))"
| "target_step clk (SetResolveAddress a) t = (set_resolve_address a t, 0)"
| "target_step clk (SetMeasurementState s) t = (set_measurement_state s t, 1)"
| "target_step clk (ConfigureHealth p) t = (configure_health clk p t, 1)"
| "target_step clk (RecordEvent kind msg) t = (record_event (clk 0) kind msg t, 1)"
| "target_step clk (SetEventSink on) t = (set_event_sink on t, 0)"
| "target_step clk GetMTR t = (ensure_mtr t, 0)"
| "target_step clk (HopOp op) t =
     (case ts_mtr t of None \<Rightarrow> (t, 0)
      | Some m \<Rightarrow> (t \<lparr> ts_mtr := Some (mtr_apply op m) \<rparr>, mtr_bumps op m))"
| "target_step clk (ProbeOp p u) t =
     (case probe_apply clk p u t of (t', done) \<Rightarrow> (t', if done then 1 else 0))"

record world =
  w_generation :: nat
  w_next_id :: nat
  w_targets :: "target_stats list"

datatype world_op = NewTarget gotime string | OnTarget nat clock target_op

fun world_step :: "world_op \<Rightarrow> world \<Rightarrow> world" where
  "world_step (NewTarget now host) w =
     w \<lparr> w_next_id := w_next_id w + 1,
         w_targets := w_targets w @ [new_target_stats (w_next_id w + 1) now host] \<rparr>"
| "world_step (OnTarget i clk op) w =
     (if i < length (w_targets w)
      then (case target_step clk op (w_targets w ! i) of (t', bumps) \<Rightarrow>
             w \<lparr> w_targets := (w_targets w)[i := t'], w_generation := w_generation w + bumps \<rparr>)
      else w)"

definition generation :: "world \<Rightarrow> nat" where
  "generation w = w_generation w"

section \<open>Quiet operations\<close>

lemma check_flap_quiet: "\<not> fst (snd (check_flap m prev now)) \<Longrightarrow> fst (check_flap m prev now) = m"
  by (auto simp: check_flap_def Let_def)

lemma mtr_quiet: "mtr_bumps op m = 0 \<Longrightarrow> mtr_apply op m = m"
  by (cases op) (auto simp: mtr_bumps_def check_flap_quiet split: if_splits)

lemma view_ensure_mtr: "view_locked f (ensure_mtr t) = view_locked f t"
  by (cases "ts_mtr t")
    (simp_all add: ensure_mtr_def view_locked_def health_view_locked_def display_name_locked_def
      new_mtr_stats_def mtr_view_def flap_info_def mtr_error_def)

lemma view_resolve_address: "view_locked f (set_resolve_address a t) = view_locked f t"
  by (simp add: set_resolve_address_def view_locked_def health_view_locked_def display_name_locked_def)

lemma view_event_sink: "view_locked f (set_event_sink on t) = view_locked f t"
  by (simp add: set_event_sink_def view_locked_def health_view_locked_def display_name_locked_def)

lemma target_step_quiet:
  assumes "snd (target_step clk op t) = 0"
  shows "view_locked f (fst (target_step clk op t)) = view_locked f t"
proof (cases op)
  case (SetDisplayName name)
  with assms show ?thesis by (auto simp: set_display_name_def split: if_splits)
next
  case (HopOp hop)
  show ?thesis
  proof (cases "ts_mtr t")
    case (Some m)
    with assms HopOp have "mtr_apply hop m = m" by (simp add: mtr_quiet)
    then have "fst (target_step clk op t) = t" using HopOp Some by simp
    then show ?thesis by simp
  qed (simp add: HopOp)
next
  case (ProbeOp p u)
  with assms show ?thesis by (auto simp: probe_apply_def split: if_splits)
next
  case (PortResult i s rtt)
  with assms show ?thesis by (simp split: if_splits)
qed (use assms in \<open>simp_all add: view_ensure_mtr view_resolve_address view_event_sink\<close>)

section \<open>The invariant of a target\<close>

definition target_ok :: "target_stats \<Rightarrow> bool" where
  "target_ok t = (length (ts_events t) \<le> max_target_events \<and> length (ts_ip_history t) \<le> 64 \<and>
     rings_ok t \<and> welford_inv (ts_rtt t) \<and> 0 \<le> ts_jitter t \<and>
     0 \<le> ts_sent t \<and> 0 \<le> ts_recv t \<and> 0 \<le> ts_loss t \<and> 0 \<le> ts_cancelled t)"

lemma record_event_bounded:
  "length (ts_events t) \<le> max_target_events \<Longrightarrow>
   length (ts_events (record_event_locked now kind msg t)) \<le> max_target_events"
  using record_event_log [of t now kind msg] event_log.push_bounded by auto

lemma rings_ok_cong:
  "rings_ok t \<Longrightarrow> ts_rtt t' = ts_rtt t \<Longrightarrow> ts_history_times t' = ts_history_times t \<Longrightarrow> rings_ok t'"
  by (simp add: rings_ok_def times_ring_def)

lemma rings_ok_empty: "ts_rtt t = empty_acc \<Longrightarrow> ts_history_times t = None \<Longrightarrow> rings_ok t"
  by (simp add: rings_ok_def times_ring_def ring_inv_def) (simp add: empty_acc_def)

lemma target_ok_record_event: "target_ok t \<Longrightarrow> target_ok (record_event_locked now kind msg t)"
  by (auto simp: target_ok_def record_event_bounded intro: rings_ok_cong)

lemma target_ok_cong:
  assumes "target_ok t" "ts_events t' = ts_events t" "ts_ip_history t' = ts_ip_history t"
    "ts_rtt t' = ts_rtt t" "ts_history_times t' = ts_history_times t" "ts_jitter t' = ts_jitter t"
    "ts_sent t \<le> ts_sent t'" "ts_recv t \<le> ts_recv t'" "ts_loss t \<le> ts_loss t'"
    "ts_cancelled t \<le> ts_cancelled t'"
  shows "target_ok t'"
  using assms rings_ok_cong [of t t'] by (auto simp: target_ok_def)

lemma target_ok_evaluate: "target_ok t \<Longrightarrow> target_ok (evaluate_health e now t)"
  by (auto simp: evaluate_health_def Let_def intro!: target_ok_record_event elim!: target_ok_cong)

lemma target_ok_outcome: "target_ok t \<Longrightarrow> target_ok (record_outcome e now ok t)"
  by (auto simp: record_outcome_def intro!: target_ok_evaluate elim!: target_ok_cong)

lemma ring_inv_history_cong:
  "a_history b = a_history a \<Longrightarrow> a_idx b = a_idx a \<Longrightarrow> a_len b = a_len a \<Longrightarrow> ring_inv c b = ring_inv c a"
  by (cases "a_history a") (simp_all add: ring_inv_def)

lemma rings_ok_append:
  assumes "rings_ok t"
  shows "rings_ok (append_history_locked rtt tm t)"
proof -
  let ?u = "append_history_locked rtt tm t"
  have "ring_inv history_size (times_ring ?u)
      = ring_inv history_size (append_history history_size (times_ring t) tm)"
    by (rule ring_inv_history_cong)
      (simp_all add: append_history_locked_rings, simp_all add: append_history_def times_ring_def Let_def)
  then show ?thesis
    using assms by (simp add: rings_ok_def append_history_locked_rings(1) ring_inv_append)
qed

lemma append_history_locked_fields [simp]:
  "ts_events (append_history_locked r tm t) = ts_events t"
  "ts_ip_history (append_history_locked r tm t) = ts_ip_history t"
  "ts_jitter (append_history_locked r tm t) = ts_jitter t"
  "ts_sent (append_history_locked r tm t) = ts_sent t"
  "ts_recv (append_history_locked r tm t) = ts_recv t"
  "ts_loss (append_history_locked r tm t) = ts_loss t"
  "ts_cancelled (append_history_locked r tm t) = ts_cancelled t"
  "ts_probe_epoch (append_history_locked r tm t) = ts_probe_epoch t"
  "ts_health (append_history_locked r tm t) = ts_health t"
  "ts_id (append_history_locked r tm t) = ts_id t"
  "ts_duplicates (append_history_locked r tm t) = ts_duplicates t"
  "ts_late_replies (append_history_locked r tm t) = ts_late_replies t"
  "ts_last_loss_time (append_history_locked r tm t) = ts_last_loss_time t"
  by (simp_all add: append_history_locked_def Let_def)

lemma welford_inv_append: "welford_inv (append_history c a r) = welford_inv a"
  by (simp add: welford_inv_def)

lemma target_ok_append: "target_ok t \<Longrightarrow> target_ok (append_history_locked r tm t)"
  by (simp add: target_ok_def rings_ok_append append_history_locked_rings(1) welford_inv_append)

lemma update_jitter_nonneg: "0 \<le> j \<Longrightarrow> 0 \<le> update_jitter j rtt prev"
  using update_jitter_between [of j rtt prev] by auto

lemma rings_ok_record_rtt:
  "rings_ok t \<Longrightarrow> ts_rtt t' = record_rtt (ts_rtt t) r \<Longrightarrow> ts_history_times t' = ts_history_times t \<Longrightarrow>
   rings_ok t'"
proof -
  assume t: "rings_ok t" "ts_rtt t' = record_rtt (ts_rtt t) r" "ts_history_times t' = ts_history_times t"
  have "ring_inv history_size (ts_rtt t') = ring_inv history_size (ts_rtt t)"
    by (rule ring_inv_history_cong) (simp_all add: t)
  moreover have "ring_inv history_size (times_ring t') = ring_inv history_size (times_ring t)"
    by (rule ring_inv_history_cong) (simp_all add: t times_ring_def)
  ultimately show ?thesis using t(1) by (simp add: rings_ok_def)
qed

lemma count_success_fields [simp]:
  "ts_events (count_success r l t) = ts_events t" "ts_ip_history (count_success r l t) = ts_ip_history t"
  "ts_history_times (count_success r l t) = ts_history_times t"
  "ts_rtt (count_success r l t) = record_rtt (ts_rtt t) r"
  "ts_jitter (count_success r l t) = (if ts_recv t > 0
     then update_jitter (ts_jitter t) r (ts_last_rtt t) else ts_jitter t)"
  "ts_sent (count_success r l t) = ts_sent t" "ts_recv (count_success r l t) = ts_recv t + 1"
  "ts_loss (count_success r l t) = ts_loss t" "ts_cancelled (count_success r l t) = ts_cancelled t"
  "ts_probe_epoch (count_success r l t) = ts_probe_epoch t" "ts_id (count_success r l t) = ts_id t"
  "ts_duplicates (count_success r l t) = ts_duplicates t"
  "ts_late_replies (count_success r l t) = ts_late_replies t"
  "ts_health (count_success r l t) = ts_health t"
  by (simp_all add: count_success_def)

lemma target_ok_count_success: "target_ok t \<Longrightarrow> target_ok (count_success r l t)"
proof -
  assume t: "target_ok t"
  have "rings_ok (count_success r l t)"
    by (rule rings_ok_record_rtt [of t]) (use t in \<open>simp_all add: target_ok_def\<close>)
  with t show ?thesis
    by (simp add: target_ok_def welford_inv_record update_jitter_nonneg)
qed

lemma target_ok_success: "target_ok t \<Longrightarrow> target_ok (on_success_locked clk rtt ttl t)"
proof -
  assume t: "target_ok t"
  define t1 where "t1 = (if ts_last_error t \<noteq> []
    then record_event_locked (clk 0) ''recovery'' ''Ping replies resumed'' t else t)"
  define t4 where "t4 = record_outcome (clk 2) (clk 1) True
    (append_history_locked rtt (clk 1) (count_success rtt ttl t1))"
  have "target_ok t1" using t by (simp add: t1_def target_ok_record_event)
  then have "target_ok t4"
    unfolding t4_def by (intro target_ok_outcome target_ok_append target_ok_count_success)
  then have "target_ok (t4 \<lparr> ts_last_error := [] \<rparr>)" by (rule target_ok_cong) simp_all
  then show ?thesis
    by (simp only: on_success_locked_def Let_def t1_def t4_def)
qed

lemma target_ok_failure: "target_ok t \<Longrightarrow> target_ok (on_failure_locked clk reason t)"
proof -
  assume t: "target_ok t"
  have "target_ok (t \<lparr> ts_loss := ts_loss t + 1, ts_last_loss_time := clk 0, ts_last_error := reason \<rparr>)"
    by (rule target_ok_cong [OF t]) simp_all
  note ok = target_ok_outcome [OF target_ok_append [OF target_ok_record_event [OF this]]]
  show ?thesis unfolding on_failure_locked_def Let_def by (rule ok)
qed

lemma target_ok_new: "target_ok (new_target_stats i now host)"
  by (auto simp: target_ok_def new_target_stats_def welford_inv_empty intro: rings_ok_empty)

lemma target_ok_reset: "target_ok t \<Longrightarrow> target_ok (reset_stats clk t)"
  by (auto simp: reset_stats_def Let_def target_ok_def welford_inv_empty
      intro!: record_event_bounded rings_ok_empty)

lemma target_ok_set_ip: "target_ok t \<Longrightarrow> target_ok (set_ip clk ip t)"
  using ip_log.push_bounded
  by (auto simp: set_ip_def Let_def target_ok_def record_event_bounded elim: rings_ok_cong)

lemma target_ok_display: "target_ok t \<Longrightarrow> target_ok (fst (set_display_name now name t))"
  by (auto simp: set_display_name_def intro!: target_ok_record_event elim!: target_ok_cong)

lemma target_ok_configure: "target_ok t \<Longrightarrow> target_ok (configure_health clk p t)"
  by (auto simp: configure_health_def Let_def intro!: target_ok_evaluate elim!: target_ok_cong)

lemma target_ok_probe_effect: "target_ok t \<Longrightarrow> target_ok (probe_effect clk u t)"
  by (cases u) (auto simp: target_ok_success target_ok_failure elim!: target_ok_cong)

lemmas target_setters = set_asn_info_def set_ptr_def set_dns_server_def set_iface_mtu_def
  set_path_mtu_def set_port_results_def inc_sent_def on_duplicate_def on_late_reply_def
  set_resolve_address_def set_measurement_state_def set_event_sink_def

lemma target_ok_step:
  assumes "target_ok t"
  shows "target_ok (fst (target_step clk op t))"
proof (cases op)
  case (SetDisplayName name)
  with target_ok_display [OF assms, of "clk 0" name] show ?thesis
    by (cases "set_display_name (clk 0) name t") simp
next
  case (ProbeOp p u)
  with assms show ?thesis by (simp add: probe_apply_def target_ok_probe_effect)
next
  case (HopOp hop)
  show ?thesis
    by (cases "ts_mtr t") (simp_all add: HopOp assms, rule target_ok_cong [OF assms], simp_all)
next
  case GetMTR
  show ?thesis
    by (cases "ts_mtr t") (simp_all add: GetMTR assms ensure_mtr_def, rule target_ok_cong [OF assms], simp_all)
next
  case (PortResult i s rtt)
  show ?thesis
    by (simp add: PortResult assms, intro impI, rule target_ok_cong [OF assms], simp_all)
qed (simp_all add: assms target_ok_set_ip target_ok_success target_ok_failure target_ok_reset
      target_ok_configure target_ok_record_event on_success_def on_failure_def record_event_def,
    (rule target_ok_cong [OF assms]; simp add: target_setters)+)

lemma probe_epoch_evaluate [simp]: "ts_probe_epoch (evaluate_health e now t) = ts_probe_epoch t"
  "ts_id (evaluate_health e now t) = ts_id t"
  by (simp_all add: evaluate_health_def Let_def)

lemma probe_epoch_record_outcome [simp]:
  "ts_probe_epoch (record_outcome e now ok t) = ts_probe_epoch t"
  "ts_id (record_outcome e now ok t) = ts_id t"
  by (simp_all add: record_outcome_def)

text \<open>Only a reset moves the epoch, by one; no operation changes the identity.\<close>

lemma target_step_epoch:
  "ts_probe_epoch (fst (target_step clk op t)) = ts_probe_epoch t + (if op = ResetStats then 1 else 0)"
  "ts_id (fst (target_step clk op t)) = ts_id t"
proof -
  have s: "ts_probe_epoch (on_success_locked clk r l t) = ts_probe_epoch t"
    "ts_id (on_success_locked clk r l t) = ts_id t" for r l
    by (simp_all add: on_success_locked_def Let_def)
  have f: "ts_probe_epoch (on_failure_locked clk m t) = ts_probe_epoch t"
    "ts_id (on_failure_locked clk m t) = ts_id t" for m
    by (simp_all add: on_failure_locked_def Let_def)
  have p: "ts_probe_epoch (probe_effect clk u t) = ts_probe_epoch t" "ts_id (probe_effect clk u t) = ts_id t" for u
    by (cases u; simp add: s f)+
  show "ts_probe_epoch (fst (target_step clk op t)) = ts_probe_epoch t + (if op = ResetStats then 1 else 0)"
    by (cases op) (simp_all add: s f p target_setters on_success_def on_failure_def record_event_def
        set_ip_def reset_stats_def configure_health_def set_display_name_def ensure_mtr_def
        probe_apply_def Let_def split: option.split)
  show "ts_id (fst (target_step clk op t)) = ts_id t"
    by (cases op) (simp_all add: s f p target_setters on_success_def on_failure_def record_event_def
        set_ip_def reset_stats_def configure_health_def set_display_name_def ensure_mtr_def
        probe_apply_def Let_def split: option.split)
qed

end
