(* ===== verification/Target_Properties.thy ===== *)
theory Target_Properties
  imports Target_View
begin

text \<open>
  What a ping target guarantees (the operations are modelled in Target_Stats and Target_View):
  the bounded logs and their invariant under every operation, probes that a reset invalidates,
  the generation counter, the alignment of the history with its wall times, and the address
  history.
\<close>

section \<open>History samples are the window of the outcomes\<close>

text \<open>A completed probe: a reply with its round trip, or a failure with its reason.\<close>

datatype completed = Reply duration int | Failure string

definition complete :: "clock \<times> completed \<Rightarrow> target_stats \<Rightarrow> target_stats" where
  "complete c t = (case c of (clk, o1) \<Rightarrow> (case o1 of
     Reply rtt ttl \<Rightarrow> on_success_locked clk rtt ttl t
   | Failure reason \<Rightarrow> on_failure_locked clk reason t))"

definition completed_run :: "target_stats \<Rightarrow> (clock \<times> completed) list \<Rightarrow> target_stats" where
  "completed_run t cs = foldl (\<lambda>t c. complete c t) t cs"

lemma completed_run_Nil [simp]: "completed_run t [] = t"
  by (simp add: completed_run_def)

lemma completed_run_snoc: "completed_run t (cs @ [c]) = complete c (completed_run t cs)"
  by (simp add: completed_run_def)

text \<open>The wall time and the round trip (0 for a failure) a completed probe leaves behind.\<close>

fun completed_time :: "clock \<times> completed \<Rightarrow> gotime" where
  "completed_time (clk, Reply rtt ttl) = clk 1"
| "completed_time (clk, Failure reason) = clk 0"

fun completed_rtt :: "clock \<times> completed \<Rightarrow> duration" where
  "completed_rtt (clk, Reply rtt ttl) = rtt"
| "completed_rtt (clk, Failure reason) = 0"

definition sample_of :: "gotime \<Rightarrow> duration \<Rightarrow> history_sample" where
  "sample_of at_time rtt = \<lparr> hs_at = at_time, hs_rtt_ms = (if rtt > 0 then Some (ms_of rtt) else None) \<rparr>"

text \<open>The two rings of a target, as the lists they hold.\<close>

definition rtts_of :: "target_stats \<Rightarrow> duration list" where
  "rtts_of t = history_snapshot (ts_rtt t)"

definition times_of :: "target_stats \<Rightarrow> gotime list" where
  "times_of t = history_snapshot (times_ring t)"

lemma evaluate_health_rings [simp]:
  "ts_rtt (evaluate_health e now t) = ts_rtt t"
  "ts_history_times (evaluate_health e now t) = ts_history_times t"
  by (simp_all add: evaluate_health_def Let_def)

lemma record_outcome_rings [simp]:
  "ts_rtt (record_outcome e now ok t) = ts_rtt t"
  "ts_history_times (record_outcome e now ok t) = ts_history_times t"
  by (simp_all add: record_outcome_def)

lemma snapshot_cong:
  "a_history b = a_history a \<Longrightarrow> a_idx b = a_idx a \<Longrightarrow> a_len b = a_len a \<Longrightarrow>
   history_snapshot b = history_snapshot a"
  by (simp add: history_snapshot_def)

lemma rings_append:
  assumes "rings_ok t"
  shows "rtts_of (append_history_locked r tm t) = lastn history_size (rtts_of t @ [r])"
    "times_of (append_history_locked r tm t) = lastn history_size (times_of t @ [tm])"
proof -
  have ok: "ring_inv history_size (ts_rtt t)" "ring_inv history_size (times_ring t)"
    using assms by (simp_all add: rings_ok_def)
  show "rtts_of (append_history_locked r tm t) = lastn history_size (rtts_of t @ [r])"
    by (simp add: rtts_of_def append_history_locked_rings(1) snapshot_append [OF ok(1)])
  have "times_of (append_history_locked r tm t)
      = history_snapshot (append_history history_size (times_ring t) tm)"
    unfolding times_of_def
    by (rule snapshot_cong)
      (simp_all add: append_history_locked_rings, simp_all add: append_history_def times_ring_def Let_def)
  then show "times_of (append_history_locked r tm t) = lastn history_size (times_of t @ [tm])"
    by (simp add: times_of_def snapshot_append [OF ok(2)])
qed

lemma rings_cong:
  "ts_rtt t' = ts_rtt t \<Longrightarrow> ts_history_times t' = ts_history_times t \<Longrightarrow>
   rtts_of t' = rtts_of t \<and> times_of t' = times_of t"
  by (simp add: rtts_of_def times_of_def times_ring_def)

lemma rings_record_rtt:
  assumes "ts_rtt t' = record_rtt (ts_rtt t) r" "ts_history_times t' = ts_history_times t"
  shows "rtts_of t' = rtts_of t \<and> times_of t' = times_of t"
proof
  show "rtts_of t' = rtts_of t"
    unfolding rtts_of_def by (rule snapshot_cong) (simp_all add: assms)
  show "times_of t' = times_of t"
    unfolding times_of_def by (rule snapshot_cong) (simp_all add: assms times_ring_def)
qed

lemma rings_complete:
  assumes "target_ok t"
  shows "rtts_of (complete c t) = lastn history_size (rtts_of t @ [completed_rtt c]) \<and>
    times_of (complete c t) = lastn history_size (times_of t @ [completed_time c])"
proof (cases c)
  case (Pair clk o1)
  show ?thesis
  proof (cases o1)
    case (Reply rtt ttl)
    define t1 where "t1 = (if ts_last_error t \<noteq> []
      then record_event_locked (clk 0) ''recovery'' ''Ping replies resumed'' t else t)"
    define t2 where "t2 = count_success rtt ttl t1"
    define t3 where "t3 = append_history_locked rtt (clk 1) t2"
    have c: "complete c t = (record_outcome (clk 2) (clk 1) True t3) \<lparr> ts_last_error := [] \<rparr>"
      by (simp add: complete_def Pair Reply on_success_locked_def Let_def t1_def t2_def t3_def)
    have "target_ok t1" using assms by (simp add: t1_def target_ok_record_event)
    then have ok: "rings_ok t2" unfolding t2_def
      using target_ok_count_success [of t1] by (simp add: target_ok_def)
    have "rtts_of t1 = rtts_of t \<and> times_of t1 = times_of t" by (rule rings_cong) (simp_all add: t1_def)
    moreover have "rtts_of t2 = rtts_of t1 \<and> times_of t2 = times_of t1"
      by (rule rings_record_rtt) (simp_all add: t2_def)
    moreover have "rtts_of (complete c t) = rtts_of t3 \<and> times_of (complete c t) = times_of t3"
      by (rule rings_cong) (simp_all add: c)
    ultimately show ?thesis
      using rings_append [OF ok, of rtt "clk 1"] by (simp add: t3_def Pair Reply)
  next
    case (Failure reason)
    define t1 where "t1 = t \<lparr> ts_loss := ts_loss t + 1, ts_last_loss_time := clk 0, ts_last_error := reason \<rparr>"
    define t2 where "t2 = record_event_locked (clk 1) ''ping'' reason t1"
    define t3 where "t3 = append_history_locked 0 (ts_last_loss_time t2) t2"
    have tm: "ts_last_loss_time t2 = clk 0" by (simp add: t2_def t1_def)
    have c: "complete c t = record_outcome (clk 2) (ts_last_loss_time t3) False t3"
      by (simp add: complete_def Pair Failure on_failure_locked_def Let_def t1_def t2_def t3_def)
    have r: "ts_rtt t2 = ts_rtt t" "ts_history_times t2 = ts_history_times t"
      by (simp_all add: t2_def t1_def)
    have ok: "rings_ok t2" by (rule rings_ok_cong [of t]) (use assms r in \<open>simp_all add: target_ok_def\<close>)
    have "rtts_of t2 = rtts_of t \<and> times_of t2 = times_of t" by (rule rings_cong) (simp_all add: r)
    moreover have "rtts_of (complete c t) = rtts_of t3 \<and> times_of (complete c t) = times_of t3"
      by (rule rings_cong) (simp_all add: c)
    ultimately show ?thesis
      using rings_append [OF ok, of 0 "clk 0"] by (simp add: t3_def Pair Failure tm)
  qed
qed

lemma target_ok_complete: "target_ok t \<Longrightarrow> target_ok (complete c t)"
  by (auto simp: complete_def target_ok_success target_ok_failure split: prod.split completed.split)

lemma rings_run:
  assumes "target_ok t" "rtts_of t = []" "times_of t = []"
  shows "target_ok (completed_run t cs) \<and>
    rtts_of (completed_run t cs) = lastn history_size (map completed_rtt cs) \<and>
    times_of (completed_run t cs) = lastn history_size (map completed_time cs)"
proof (induction cs rule: rev_induct)
  case Nil
  with assms show ?case by simp
next
  case (snoc c cs)
  then show ?case
    using rings_complete [of "completed_run t cs" c]
    by (simp add: completed_run_snoc target_ok_complete lastn_append_lastn)
qed

text \<open>Reading a sample reads both rings at the same place.\<close>

lemma history_sample_at_rings:
  assumes "rings_ok t" "i < a_len (ts_rtt t)"
  shows "history_sample_at t i =
    (if times_of t ! i = 0 then [] else [sample_of (times_of t ! i) (rtts_of t ! i)])"
proof -
  let ?idx = "(a_idx (ts_rtt t) - a_len (ts_rtt t) + i) mod history_size"
  have r: "rtts_of t ! i = the (a_history (ts_rtt t)) ! ?idx"
    unfolding rtts_of_def using assms by (intro snapshot_nth) (simp_all add: rings_ok_def)
  have "times_of t ! i = the (a_history (times_ring t)) ! ?idx"
    using snapshot_nth [of history_size "times_ring t" i] assms
    by (simp add: times_of_def rings_ok_def) (simp add: times_ring_def)
  moreover obtain tms where "ts_history_times t = Some tms"
    using assms by (cases "ts_history_times t") (auto simp: rings_ok_def ring_inv_def times_ring_def)
  ultimately show ?thesis
    using r by (simp add: history_sample_at_def Let_def sample_of_def times_ring_def)
qed

lemma map_upt_nth_lastn:
  "n \<le> length xs \<Longrightarrow> map (\<lambda>i. f (xs ! i)) [length xs - n..<length xs] = map f (lastn n xs)"
  by (rule nth_equalityI) (auto simp: lastn_def)

lemma lastn_map: "lastn n (map f xs) = map f (lastn n xs)"
  by (simp add: lastn_def drop_map)

lemma history_samples_rings:
  assumes ok: "rings_ok t" and tz: "\<forall>x\<in>set (times_of t). x \<noteq> 0"
  shows "history_samples t n = map (\<lambda>(tm, r). sample_of tm r)
    (lastn (nat n) (zip (times_of t) (rtts_of t)))"
proof -
  let ?l = "a_len (ts_rtt t)" and ?z = "zip (times_of t) (rtts_of t)"
  have inv: "ring_inv history_size (ts_rtt t)" "ring_inv history_size (times_ring t)"
    using ok by (simp_all add: rings_ok_def)
  have "a_len a = min (a_idx a) c" if "ring_inv c a" for c a
    using that by (cases "a_history a") (simp_all add: ring_inv_def)
  then have l: "?l = min (a_idx (ts_rtt t)) history_size" using inv by blast
  have lens: "length (rtts_of t) = ?l" "length (times_of t) = ?l"
    using snapshot_length [OF inv(1)] snapshot_length [OF inv(2)] l
    by (simp_all add: rtts_of_def times_of_def) (simp add: times_ring_def)
  then have z: "length ?z = ?l" "\<And>i. i < ?l \<Longrightarrow> ?z ! i = (times_of t ! i, rtts_of t ! i)" by simp_all
  define k where "k = nat (if (if n > int ?l then int ?l else n) < 0 then 0
    else (if n > int ?l then int ?l else n))"
  have k: "k \<le> ?l" "lastn (nat n) ?z = lastn k ?z"
    by (auto simp: k_def lastn_def lens)
  have kz: "k \<le> length ?z" using k(1) by (simp only: z(1))
  have s: "history_sample_at t i = [(\<lambda>(tm, r). sample_of tm r) (?z ! i)]" if "i < ?l" for i
    using that tz history_sample_at_rings [OF ok that] z \<open>length (times_of t) = ?l\<close> by auto
  have "history_samples t n = concat (map (history_sample_at t) [?l - k..<?l])"
    by (simp add: history_samples_def Let_def k_def)
  also have "map (history_sample_at t) [?l - k..<?l]
      = map (\<lambda>i. [(\<lambda>(tm, r). sample_of tm r) (?z ! i)]) [?l - k..<?l]"
    using s by (intro map_cong) auto
  also have "concat \<dots> = map (\<lambda>i. (\<lambda>(tm, r). sample_of tm r) (?z ! i)) [?l - k..<?l]"
    by (induction k) (simp_all add: concat_map_singleton)
  also have "\<dots> = map (\<lambda>(tm, r). sample_of tm r) (lastn k ?z)"
    using map_upt_nth_lastn [OF kz, of "\<lambda>(tm, r). sample_of tm r"] by (simp only: z(1))
  finally show ?thesis using k(2) by simp
qed

section \<open>Properties\<close>

text \<open>The history a reader gets is the tail of what happened: after any completed probes in a new
  statistics window, asking for \<open>n\<close> samples gives the last \<open>n\<close> of the (at most \<open>history_size\<close>)
  retained probes in order, each with its wall time and, for a reply, its round trip in
  milliseconds; a lost probe shows none.\<close>

theorem history_samples_tail:
  assumes "target_ok t" "ts_rtt t = empty_acc" "ts_history_times t = None"
    "\<forall>c\<in>set cs. completed_time c \<noteq> 0"
  shows "history_samples (completed_run t cs) n =
    map (\<lambda>c. sample_of (completed_time c) (completed_rtt c)) (lastn (min (nat n) history_size) cs)"
proof -
  have e: "rtts_of t = []" "times_of t = []"
    using assms(2,3) by (simp_all add: rtts_of_def times_of_def times_ring_def snapshot_none empty_acc_def)
  note r = rings_run [OF assms(1) e, of cs]
  have ok: "rings_ok (completed_run t cs)" using r by (simp add: target_ok_def)
  have nz: "\<forall>x\<in>set (times_of (completed_run t cs)). x \<noteq> 0"
    using assms(4) r set_lastn [of history_size "map completed_time cs"] by auto
  have z: "zip (times_of (completed_run t cs)) (rtts_of (completed_run t cs))
      = map (\<lambda>c. (completed_time c, completed_rtt c)) (lastn history_size cs)"
    using r by (simp add: lastn_map zip_map_map) (simp add: zip_same_conv_map comp_def)
  show ?thesis
    unfolding history_samples_rings [OF ok nz] z by (simp add: lastn_map comp_def)
qed

theorem history_samples_tail_witness:
  "history_samples (completed_run (new_target_stats 1 second ''h'')
     [(\<lambda>k. 5, Reply 3000000 64), (\<lambda>k. 7, Failure ''timeout'')]) 1 = [sample_of 7 0]"
  using history_samples_tail [of "new_target_stats 1 second ''h''"
      "[(\<lambda>k. 5, Reply 3000000 64), (\<lambda>k. 7, Failure ''timeout'')]" 1]
  by (simp add: target_ok_new history_size_def lastn_def) (simp add: new_target_stats_def)

definition steps :: "target_stats \<Rightarrow> (clock \<times> target_op) list \<Rightarrow> target_stats" where
  "steps t ops = foldl (\<lambda>t (clk, op). fst (target_step clk op t)) t ops"

lemma steps_epoch:
  "ts_probe_epoch t \<le> ts_probe_epoch (steps t ops) \<and> ts_id (steps t ops) = ts_id t \<and>
   (ResetStats \<in> snd ` set ops \<longrightarrow> ts_probe_epoch t < ts_probe_epoch (steps t ops))"
proof (induction ops rule: rev_induct)
  case Nil
  then show ?case by (simp add: steps_def)
next
  case (snoc c ops)
  obtain clk op where c: "c = (clk, op)" by (cases c)
  have "steps t (ops @ [c]) = fst (target_step clk op (steps t ops))" by (simp add: steps_def c)
  with snoc show ?case by (auto simp: target_step_epoch c)
qed

text \<open>A reset invalidates every probe captured before it: whatever operations come after the
  reset, an update through such a probe (a delayed send, reply, timeout or duplicate) changes
  nothing of the target and reports that it did not happen.\<close>

theorem stale_probe_is_ignored:
  assumes "ResetStats \<in> snd ` set ops"
  shows "probe_apply clk (new_probe t) u (steps t ops) = (steps t ops, False)"
  using steps_epoch [of t ops] assms by (auto simp: probe_apply_def new_probe_def)

theorem stale_probe_is_ignored_witness:
  "snd (probe_apply (\<lambda>k. 9) (new_probe (new_target_stats 1 second ''h'')) (POnSuccess 5 64)
     (steps (new_target_stats 1 second ''h'') [(\<lambda>k. 8, ResetStats)])) = False"
  using stale_probe_is_ignored [of "[(\<lambda>k. 8, ResetStats)]" "\<lambda>k. 9" "new_target_stats 1 second ''h''"
      "POnSuccess 5 64"] by simp

text \<open>Every target keeps its bounds under every sequence of operations: at most 128 events and
  64 address changes are retained, both history rings are well formed, the variance state is
  nonnegative and no counter or jitter is negative.\<close>

theorem target_invariant:
  "length (ts_events (steps (new_target_stats i now host) ops)) \<le> 128 \<and>
   length (ts_ip_history (steps (new_target_stats i now host) ops)) \<le> 64 \<and>
   target_ok (steps (new_target_stats i now host) ops)"
proof -
  have "target_ok (steps (new_target_stats i now host) ops)"
  proof (induction ops rule: rev_induct)
    case Nil
    then show ?case by (simp add: steps_def target_ok_new)
  next
    case (snoc c ops)
    then show ?case by (cases c) (simp add: steps_def target_ok_step)
  qed
  then show ?thesis by (simp add: target_ok_def max_target_events_def)
qed

text \<open>The event log loses nothing but its oldest entries and says how many: recording an event
  either folds it into the latest entry that is not a health event, which must be the same
  failure (one more occurrence, the new time), or appends it, dropping the oldest of 128 entries
  with one more counted as dropped; a listening sink is given exactly one event.\<close>

theorem event_log_step:
  assumes "length (ts_events t) \<le> 128"
  shows "length (ts_events (record_event_locked now kind msg t)) \<le> 128 \<and>
    ((\<exists>i<length (ts_events t). kind = ''ping'' \<and> ev_kind (ts_events t ! i) = ''ping'' \<and>
        ev_message (ts_events t ! i) = msg \<and>
        (\<forall>j. i < j \<and> j < length (ts_events t) \<longrightarrow> ev_kind (ts_events t ! j) = ''health'') \<and>
        ts_events (record_event_locked now kind msg t) = (ts_events t)[i := (ts_events t ! i)
          \<lparr> ev_count := ev_count (ts_events t ! i) + 1, ev_last_at := now \<rparr>] \<and>
        ts_events_dropped (record_event_locked now kind msg t) = ts_events_dropped t) \<or>
     (\<exists>e. ev_count e = 1 \<and> ev_at e = now \<and> ev_kind e = kind \<and> ev_message e = msg \<and>
        ts_events (record_event_locked now kind msg t) = lastn 128 (ts_events t @ [e]) \<and>
        ts_events_dropped (record_event_locked now kind msg t) = ts_events_dropped t + (if length (ts_events t) = 128 then 1 else 0))) \<and>
    length (ts_delivered (record_event_locked now kind msg t)) = length (ts_delivered t) + (if ts_event_sink t then 1 else 0)"
proof -
  define t' where "t' = record_event_locked now kind msg t"
  have d: "length (ts_delivered t') = length (ts_delivered t) + (if ts_event_sink t then 1 else 0)"
    by (simp add: t'_def record_event_locked_def deliver_def Let_def split: option.split)
  have b: "length (ts_events t') \<le> 128"
    using record_event_bounded [of t now kind msg] assms by (simp add: max_target_events_def t'_def)
  have full: "length (ts_events t) < max_target_events \<longleftrightarrow> length (ts_events t) \<noteq> 128"
    using assms(1) by (auto simp: max_target_events_def)
  have push: "push_event (ts_events t) e = lastn 128 (ts_events t @ [e])" for e
    by (simp add: event_log.push_spec) (simp add: max_target_events_def)
  show ?thesis
    using record_event_log [of t now kind msg] d b
    unfolding t'_def [symmetric] full push by auto
qed

theorem event_log_step_witness:
  "length (ts_events (record_event_locked 7 ''ping'' ''timeout'' (new_target_stats 1 second ''h''))) \<le> 128"
  using event_log_step [of "new_target_stats 1 second ''h''" 7 "''ping''" "''timeout''"]
  by (simp add: new_target_stats_def)

text \<open>Setting the resolved address keeps its history right: the address is the new one; an entry
  (of the at most 64 kept) is appended exactly when it differs from the old one, which counts as a
  change unless there was none before; and a path MTU estimate made for another address is
  cleared, any other kept.\<close>

theorem set_ip_history:
  "ts_ip (set_ip clk ip t) = ip \<and>
   ts_ip_history (set_ip clk ip t) = (if ts_ip t = ip then ts_ip_history t
      else lastn 64 (ts_ip_history t @ [\<lparr> ic_at = clk 1, ic_ip = ip \<rparr>])) \<and>
   ts_ip_changes (set_ip clk ip t) = ts_ip_changes t + (if ts_ip t = ip \<or> ts_ip t = [] then 0 else 1) \<and>
   ts_path_mtu (set_ip clk ip t) = (if pm_ip (ts_path_mtu t) = [] \<or> pm_ip (ts_path_mtu t) = ip
      then ts_path_mtu t else empty_path_mtu)"
  by (simp add: set_ip_def Let_def ip_log.push_spec)

text \<open>The generation counter misses nothing a reader shows: if it has the same value after an
  operation of any target, then every target that existed before has the same view (statistics,
  health, levels, route, checks, labels, history of whatever length).\<close>

theorem unchanged_generation_unchanged_views:
  assumes "generation (world_step op w) = generation w" "i < length (w_targets w)"
  shows "view_locked f (w_targets (world_step op w) ! i) = view_locked f (w_targets w ! i)"
proof (cases op)
  case (NewTarget now host)
  with assms(2) show ?thesis by (simp add: nth_append)
next
  case (OnTarget j clk top)
  show ?thesis
  proof (cases "j < length (w_targets w)")
    case True
    obtain t' n where st: "target_step clk top (w_targets w ! j) = (t', n)" by force
    from assms(1) True OnTarget st have "n = 0" by (simp add: generation_def)
    with st target_step_quiet [of clk top "w_targets w ! j" f]
    have "view_locked f t' = view_locked f (w_targets w ! j)" by simp
    with OnTarget True st assms(2) show ?thesis by (simp add: nth_list_update)
  next
    case False
    with OnTarget show ?thesis by simp
  qed
qed

theorem unchanged_generation_unchanged_views_witness:
  "view_locked history_snapshot (w_targets (world_step (OnTarget 0 (\<lambda>k. 5) (SetDisplayName ''h''))
     \<lparr> w_generation = 3, w_next_id = 1, w_targets = [new_target_stats 1 second ''h''] \<rparr>) ! 0)
   = view_locked history_snapshot (new_target_stats 1 second ''h'')"
  using unchanged_generation_unchanged_views [of "OnTarget 0 (\<lambda>k. 5) (SetDisplayName ''h'')"
      "\<lparr> w_generation = 3, w_next_id = 1, w_targets = [new_target_stats 1 second ''h''] \<rparr>" 0 history_snapshot]
  by (simp add: generation_def set_display_name_def display_name_locked_def new_target_stats_def)

end
