(* ===== verification/Probe_Wire.thy ===== *)
theory Probe_Wire
  imports Mping_Prelude "HOL-Library.Word"
begin

unbundle bit_operations_syntax

text \<open>
  Probes on the wire (internal/pinger): the payload with its signature and embedded send
  timestamp (worker.go, timestamp.go) and the recovery of identifier and sequence number from
  ICMP errors (icmp_errors.go). Bytes are 8-bit words. The ICMP codec of golang.org/x/net is not
  part of the repository: parsing is an argument of the definitions that use it, and
  \<open>parses_echo\<close> states the documented layout of an echo message that the code relies on.
\<close>

type_synonym byte = "8 word"

definition bytes_of :: "string \<Rightarrow> byte list" where
  "bytes_of s = map (\<lambda>c. word_of_nat (of_char c)) s"

section \<open>Big-endian integers\<close>

text \<open>\<open>binary.BigEndian\<close>: \<open>n\<close> bytes, most significant first.\<close>

fun put_uint :: "nat \<Rightarrow> nat \<Rightarrow> byte list" where
  "put_uint 0 v = []"
| "put_uint (Suc n) v = put_uint n (v div 256) @ [word_of_nat v]"

definition get_uint :: "byte list \<Rightarrow> nat" where
  "get_uint bs = foldl (\<lambda>acc b. acc * 256 + unat b) 0 bs"

lemma length_put_uint [simp]: "length (put_uint n v) = n"
  by (induction n arbitrary: v) simp_all

lemma get_uint_snoc: "get_uint (bs @ [b]) = get_uint bs * 256 + unat b"
  by (simp add: get_uint_def)

lemma get_put_uint: "get_uint (put_uint n v) = v mod 256 ^ n"
proof (induction n arbitrary: v)
  case 0
  then show ?case by (simp add: get_uint_def)
next
  case (Suc n)
  have "get_uint (put_uint (Suc n) v) = (v div 256) mod 256 ^ n * 256 + v mod 256"
    by (simp add: get_uint_snoc Suc unat_of_nat)
  also have "\<dots> = v mod (256 * 256 ^ n)" by (simp add: mod_mult2_eq)
  finally show ?case by simp
qed

section \<open>Payload and timestamp\<close>

definition payload_signature :: "byte list" where "payload_signature = bytes_of ''MPING''"
definition timestamp_size :: nat where "timestamp_size = 8"
definition timestamp_offset :: nat where "timestamp_offset = length payload_signature"
definition min_timestamp_payload_size :: nat where
  "min_timestamp_payload_size = timestamp_offset + timestamp_size"
definition seq_mask :: int where "seq_mask = 0xffff"

lemma wire_sizes [simp]:
  "length payload_signature = 5" "timestamp_offset = 5" "min_timestamp_payload_size = 13"
  by (simp_all add: payload_signature_def bytes_of_def timestamp_offset_def timestamp_size_def
      min_timestamp_payload_size_def)

definition build_payload :: "int \<Rightarrow> byte list" where
  "build_payload sz =
     (let payload = replicate (nat (if sz < 0 then 0 else sz)) (word_of_nat (of_char CHR ''A''))
      in if length payload \<ge> length payload_signature then copy_at 0 payload payload_signature
         else payload)"

text \<open>The nanoseconds since the start of the process, as the uint64 of the source.\<close>

definition embed_send_timestamp :: "gotime \<Rightarrow> byte list \<Rightarrow> gotime \<Rightarrow> byte list" where
  "embed_send_timestamp proc_start payload sent =
     (if length payload < min_timestamp_payload_size then payload
      else
        let elapsed = (word_of_int (sent - proc_start) :: 64 word)
        in copy_at timestamp_offset payload (put_uint timestamp_size (unat elapsed)))"

definition is_plausible_rtt :: "duration \<Rightarrow> duration \<Rightarrow> bool" where
  "is_plausible_rtt rtt timeout =
     (if rtt < 0 then False
      else if timeout > 0 \<and> rtt > 2 * timeout then False
      else True)"

definition extract_send_timestamp ::
  "gotime \<Rightarrow> byte list \<Rightarrow> gotime \<Rightarrow> duration \<Rightarrow> duration option" where
  "extract_send_timestamp proc_start data received timeout =
     (if length data < min_timestamp_payload_size then None
      else if go_slice 0 (length payload_signature) data \<noteq> payload_signature then None
      else
        let elapsed = (word_of_nat (get_uint (go_slice timestamp_offset
                         (timestamp_offset + timestamp_size) data)) :: 64 word);
            sent_at = proc_start + sint elapsed;
            rtt = received - sent_at
        in if is_plausible_rtt rtt timeout then Some rtt else None)"

section \<open>ICMP messages\<close>

text \<open>The type carries the protocol family, as the two distinct Go types do.\<close>

datatype icmp_type = ICMPv4 int | ICMPv6 int

definition v4_echo_reply :: icmp_type where "v4_echo_reply = ICMPv4 0"
definition v4_dest_unreachable :: icmp_type where "v4_dest_unreachable = ICMPv4 3"
definition v4_time_exceeded :: icmp_type where "v4_time_exceeded = ICMPv4 11"
definition v4_param_problem :: icmp_type where "v4_param_problem = ICMPv4 12"
definition v6_dest_unreachable :: icmp_type where "v6_dest_unreachable = ICMPv6 1"
definition v6_packet_too_big :: icmp_type where "v6_packet_too_big = ICMPv6 2"
definition v6_time_exceeded :: icmp_type where "v6_time_exceeded = ICMPv6 3"
definition v6_param_problem :: icmp_type where "v6_param_problem = ICMPv6 4"
definition v6_echo_reply :: icmp_type where "v6_echo_reply = ICMPv6 129"

lemmas icmp_types = v4_echo_reply_def v4_dest_unreachable_def v4_time_exceeded_def
  v4_param_problem_def v6_dest_unreachable_def v6_packet_too_big_def v6_time_exceeded_def
  v6_param_problem_def v6_echo_reply_def

datatype icmp_body =
    Echo int int "byte list"
  | DstUnreach "byte list"
  | TimeExceeded "byte list"
  | ParamProb "byte list"
  | PacketTooBig int "byte list"
  | OtherBody

record icmp_message =
  im_type :: icmp_type
  im_code :: int
  im_body :: icmp_body

type_synonym icmp_parser = "int \<Rightarrow> byte list \<Rightarrow> icmp_message option"

definition proto_icmp :: int where "proto_icmp = 1"
definition proto_icmpv6 :: int where "proto_icmpv6 = 58"

text \<open>
  The layout of an echo request or reply (RFC 792, RFC 4443): type, code, checksum, identifier
  and sequence number, then the data. The documented behaviour of \<open>icmp.ParseMessage\<close> on it.
\<close>

definition echo_bytes :: "int \<Rightarrow> int \<Rightarrow> byte list \<Rightarrow> int \<Rightarrow> int \<Rightarrow> byte list \<Rightarrow> byte list" where
  "echo_bytes mt code checksum ident sq data =
     [word_of_int mt, word_of_int code] @ checksum @ put_uint 2 (nat ident) @ put_uint 2 (nat sq) @ data"

definition parses_echo :: "icmp_parser \<Rightarrow> bool" where
  "parses_echo parse = (\<forall>proto mt code checksum ident sq data.
     (proto = proto_icmp \<and> (mt = 8 \<or> mt = 0) \<or> proto = proto_icmpv6 \<and> (mt = 128 \<or> mt = 129)) \<and>
     length checksum = 2 \<and> 0 \<le> ident \<and> ident < 65536 \<and> 0 \<le> sq \<and> sq < 65536 \<longrightarrow>
     (\<exists>m. parse proto (echo_bytes mt code checksum ident sq data) = Some m \<and>
          im_body m = Echo ident sq data))"

section \<open>Errors\<close>

definition lookup_icmp_code :: "(int \<times> string) list \<Rightarrow> int \<Rightarrow> string \<Rightarrow> string" where
  "lookup_icmp_code codes code fallback =
     (case map_of codes code of Some s \<Rightarrow> s | None \<Rightarrow> fallback)"

definition dest_unreach_codes :: "(int \<times> string) list" where
  "dest_unreach_codes =
    [(0, ''Destination Network Unreachable''), (1, ''Destination Host Unreachable''),
     (2, ''Destination Protocol Unreachable''), (3, ''Destination Port Unreachable''),
     (4, ''Fragmentation Needed''), (5, ''Source Route Failed''),
     (6, ''Destination Network Unknown''), (7, ''Destination Host Unknown''),
     (8, ''Source Host Isolated''), (9, ''Network Administratively Prohibited''),
     (10, ''Host Administratively Prohibited''), (11, ''Network Unreachable for ToS''),
     (12, ''Host Unreachable for ToS''), (13, ''Communication Administratively Prohibited''),
     (14, ''Host Precedence Violation''), (15, ''Precedence Cutoff in Effect'')]"

definition dest_unreach_v6_codes :: "(int \<times> string) list" where
  "dest_unreach_v6_codes =
    [(0, ''No Route to Destination''),
     (1, ''Communication with Destination Administratively Prohibited''),
     (2, ''Beyond Scope of Source Address''), (3, ''Address Unreachable''),
     (4, ''Port Unreachable''), (5, ''Source Address Failed Ingress/Egress Policy''),
     (6, ''Reject Route to Destination'')]"

definition time_exceeded_codes :: "(int \<times> string) list" where
  "time_exceeded_codes = [(0, ''Time Exceeded''), (1, ''Fragment Reassembly Time Exceeded'')]"

definition time_exceeded_v6_codes :: "(int \<times> string) list" where
  "time_exceeded_v6_codes =
    [(0, ''Hop Limit Exceeded in Transit''), (1, ''Fragment Reassembly Time Exceeded'')]"

definition param_problem_codes :: "(int \<times> string) list" where
  "param_problem_codes =
    [(0, ''Parameter Problem''), (1, ''Missing Required Option''), (2, ''Bad Length'')]"

definition param_problem_v6_codes :: "(int \<times> string) list" where
  "param_problem_v6_codes =
    [(0, ''Erroneous Header Field Encountered''), (1, ''Unrecognized Next Header Type Encountered''),
     (2, ''Unrecognized IPv6 Option Encountered'')]"

definition icmp_error_string :: "icmp_type \<Rightarrow> int \<Rightarrow> string" where
  "icmp_error_string mt code =
     (if mt = v4_dest_unreachable
        then lookup_icmp_code dest_unreach_codes code ''Destination Unreachable''
      else if mt = v4_time_exceeded
        then lookup_icmp_code time_exceeded_codes code ''Time Exceeded''
      else if mt = v4_param_problem
        then lookup_icmp_code param_problem_codes code ''Parameter Problem''
      else ''ICMP Error'')"

definition icmp_v6_error_string :: "icmp_type \<Rightarrow> int \<Rightarrow> string" where
  "icmp_v6_error_string mt code =
     (if mt = v6_dest_unreachable
        then lookup_icmp_code dest_unreach_v6_codes code ''Destination Unreachable''
      else if mt = v6_packet_too_big then ''Packet Too Big''
      else if mt = v6_time_exceeded
        then lookup_icmp_code time_exceeded_v6_codes code ''Time Exceeded''
      else if mt = v6_param_problem
        then lookup_icmp_code param_problem_v6_codes code ''Parameter Problem''
      else ''ICMPv6 Error'')"

definition packet_too_big_string :: "int \<Rightarrow> string" where
  "packet_too_big_string mtu = ''Packet Too Big (MTU='' @ int_str mtu @ '')''"

fun icmp_error_body_data :: "icmp_message \<Rightarrow> byte list option" where
  "icmp_error_body_data msg =
     (case im_body msg of
        DstUnreach data \<Rightarrow> Some data
      | TimeExceeded data \<Rightarrow> Some data
      | ParamProb data \<Rightarrow> Some data
      | PacketTooBig mtu data \<Rightarrow> Some data
      | _ \<Rightarrow> None)"

text \<open>The embedded IP header: the ICMP protocol number, the header length and the next header;
  None for a version or a length that does not parse.\<close>

definition inner_header :: "byte list \<Rightarrow> (int \<times> nat \<times> int) option" where
  "inner_header data =
     (let version = drop_bit 4 (data ! 0) in
      if version = 4 then
        (if length data < 20 then None
         else
           let ihl = unat (data ! 0 AND 0x0f) * 4
           in if ihl < 20 \<or> length data < ihl then None
              else Some (proto_icmp, ihl, uint (data ! 9)))
      else if version = 6 then
        (if length data < 40 then None
         else Some (proto_icmpv6, 40, uint (data ! 6)))
      else None)"

definition parse_inner_echo_id_seq :: "icmp_parser \<Rightarrow> byte list \<Rightarrow> (int \<times> int) option" where
  "parse_inner_echo_id_seq parse data =
     (if length data < 1 then None
      else case inner_header data of
        None \<Rightarrow> None
      | Some (proto, header_len, next_header) \<Rightarrow>
          let inner0 = drop header_len data;
              inner = (if next_header = proto then Some inner0
                       else if next_header = 17 then
                         (if length inner0 < 8 then None else Some (drop 8 inner0))
                       else None)
          in case inner of
               None \<Rightarrow> None
             | Some d \<Rightarrow>
                 (case parse proto d of
                    None \<Rightarrow> None
                  | Some m \<Rightarrow> (case im_body m of Echo ident sq payload \<Rightarrow> Some (ident, sq) | _ \<Rightarrow> None)))"

definition trace_signature :: "byte list" where "trace_signature = bytes_of ''TRC-''"

definition extract_echo_id_seq :: "icmp_parser \<Rightarrow> icmp_message \<Rightarrow> (int \<times> int) option" where
  "extract_echo_id_seq parse msg =
     (case icmp_error_body_data msg of
        None \<Rightarrow> None
      | Some data \<Rightarrow>
          (case parse_inner_echo_id_seq parse data of
             Some r \<Rightarrow> Some r
           | None \<Rightarrow>
               (case str_index data trace_signature of
                  Some i \<Rightarrow>
                    if i + 8 \<le> length data
                    then Some (int (get_uint (go_slice (i + 4) (i + 6) data)),
                               int (get_uint (go_slice (i + 6) (i + 8) data)))
                    else None
                | None \<Rightarrow> None)))"

section \<open>Lemmas\<close>

lemma length_build_payload: "length (build_payload n) = nat n"
  by (simp add: build_payload_def copy_at_def Let_def)

lemma build_payload_signature: "5 \<le> n \<Longrightarrow> go_slice 0 5 (build_payload n) = payload_signature"
  using nat_mono [of 5 n] by (simp add: build_payload_def copy_at_def go_slice_def Let_def)

lemma go_slice_copy_at:
  assumes "i + length src \<le> length dst"
  shows "go_slice i (i + length src) (copy_at i dst src) = src"
  using assms by (simp add: go_slice_def copy_at_def)

lemma go_slice_before_copy_at: "j \<le> i \<Longrightarrow> i \<le> length dst \<Longrightarrow> go_slice 0 j (copy_at i dst src) = go_slice 0 j dst"
  by (simp add: go_slice_def copy_at_def min_def)

lemma length_copy_at: "i + length src \<le> length dst \<Longrightarrow> length (copy_at i dst src) = length dst"
  by (simp add: copy_at_def)

lemma sint_timestamp:
  assumes "0 \<le> d" "d < 2 ^ 63"
  shows "sint (word_of_nat (unat (word_of_int d :: 64 word)) :: 64 word) = d"
proof -
  have "signed_take_bit 63 d = d" using assms by (intro signed_take_bit_int_eq_self) simp_all
  then show ?thesis by (simp add: sint_sbintrunc')
qed

lemma get_uint_timestamp: "get_uint (put_uint 8 (unat (w :: 64 word))) = unat w"
proof -
  have "unat w < 2 ^ 64" using unsigned_less [of w] by simp
  then show ?thesis by (simp add: get_put_uint)
qed

lemma embed_extract:
  assumes "13 \<le> length payload" "go_slice 0 5 payload = payload_signature"
    "0 \<le> sent - start" "sent - start < 2 ^ 63"
  shows "extract_send_timestamp start (embed_send_timestamp start payload sent) received timeout
    = (if is_plausible_rtt (received - sent) timeout then Some (received - sent) else None)"
proof -
  define ts where "ts = put_uint 8 (unat (word_of_int (sent - start) :: 64 word))"
  have e: "embed_send_timestamp start payload sent = copy_at 5 payload ts"
    using assms(1) by (simp add: embed_send_timestamp_def ts_def timestamp_size_def Let_def)
  have len: "length ts = 8" by (simp add: ts_def)
  have l: "length (copy_at 5 payload ts) = length payload"
    using assms(1) by (simp add: length_copy_at len)
  have sig: "go_slice 0 5 (copy_at 5 payload ts) = payload_signature"
    using assms by (simp add: go_slice_before_copy_at)
  have "go_slice 5 13 (copy_at 5 payload ts) = ts"
    using go_slice_copy_at [of 5 ts payload] assms(1) by (simp add: len)
  then have g: "get_uint (go_slice 5 13 (copy_at 5 payload ts)) = unat (word_of_int (sent - start) :: 64 word)"
    by (simp add: ts_def get_uint_timestamp)
  have "start + sint (word_of_nat (unat (word_of_int (sent - start) :: 64 word)) :: 64 word) = sent"
    using sint_timestamp [OF assms(3,4)] by simp
  then show ?thesis
    using assms(1) by (simp add: e extract_send_timestamp_def l sig timestamp_size_def g Let_def)
qed

lemma extract_plausible:
  "extract_send_timestamp start data received timeout = Some rtt \<Longrightarrow>
   0 \<le> rtt \<and> (0 < timeout \<longrightarrow> rtt \<le> 2 * timeout) \<and> go_slice 0 5 data = payload_signature"
  by (auto simp: extract_send_timestamp_def is_plausible_rtt_def Let_def split: if_splits)

text \<open>The packet a router quotes: an IP header, then (perhaps behind a UDP header) our probe.\<close>

definition ipv4_header :: "byte list \<Rightarrow> int \<Rightarrow> bool" where
  "ipv4_header h next_header = (drop_bit 4 (h ! 0) = 4 \<and> 20 \<le> length h \<and>
     length h = unat (h ! 0 AND 0x0f) * 4 \<and> uint (h ! 9) = next_header)"

definition ipv6_header :: "byte list \<Rightarrow> int \<Rightarrow> bool" where
  "ipv6_header h next_header = (drop_bit 4 (h ! 0) = 6 \<and> length h = 40 \<and> uint (h ! 6) = next_header)"

lemma inner_header_v4:
  "ipv4_header h n \<Longrightarrow> inner_header (h @ rest) = Some (proto_icmp, length h, n)"
  by (auto simp: ipv4_header_def inner_header_def nth_append Let_def)

lemma inner_header_v6:
  "ipv6_header h n \<Longrightarrow> inner_header (h @ rest) = Some (proto_icmpv6, 40, n)"
  by (auto simp: ipv6_header_def inner_header_def nth_append Let_def)

lemma parses_echoD:
  assumes "parses_echo parse" "length checksum = 2" "0 \<le> ident" "ident < 65536" "0 \<le> sq" "sq < 65536"
    "proto = proto_icmp \<and> (mt = 8 \<or> mt = 0) \<or> proto = proto_icmpv6 \<and> (mt = 128 \<or> mt = 129)"
  obtains m where "parse proto (echo_bytes mt code checksum ident sq data) = Some m" "im_body m = Echo ident sq data"
  using assms unfolding parses_echo_def by blast

text \<open>The quoted probe is found behind its headers.\<close>

lemma quoted_probe_id_seq:
  assumes parse: "parses_echo parse" and ck: "length checksum = 2"
    and ranges: "0 \<le> ident" "ident < 65536" "0 \<le> sq" "sq < 65536"
    and header: "ipv4_header hdr nh \<and> mt = 8 \<and> (nh = 1 \<and> udp = [] \<or> nh = 17 \<and> length udp = 8) \<or>
      ipv6_header hdr nh \<and> mt = 128 \<and> (nh = 58 \<and> udp = [] \<or> nh = 17 \<and> length udp = 8)"
    and body: "icmp_error_body_data msg = Some (hdr @ udp @ echo_bytes mt 0 checksum ident sq data)"
  shows "extract_echo_id_seq parse msg = Some (ident, sq)"
proof -
  let ?p = "echo_bytes mt 0 checksum ident sq data"
  have ne: "1 \<le> length (hdr @ udp @ ?p)" by (simp add: echo_bytes_def)
  define proto where "proto = (if mt = 8 then proto_icmp else proto_icmpv6)"
  have pt: "proto = proto_icmp \<and> (mt = 8 \<or> mt = 0) \<or> proto = proto_icmpv6 \<and> (mt = 128 \<or> mt = 129)"
    using header by (auto simp: proto_def)
  from parses_echoD [OF parse ck ranges pt] obtain m
    where m: "parse proto ?p = Some m" "im_body m = Echo ident sq data" by blast
  have hd: "inner_header (hdr @ udp @ ?p) = Some (proto, length hdr, nh)"
    using header inner_header_v4 [of hdr nh "udp @ ?p"] inner_header_v6 [of hdr nh "udp @ ?p"]
    by (auto simp: proto_def ipv6_header_def)
  have cases: "nh = proto \<and> udp = [] \<or> nh = 17 \<and> length udp = 8"
    using header by (auto simp: proto_def proto_icmp_def proto_icmpv6_def)
  have "parse_inner_echo_id_seq parse (hdr @ udp @ ?p) = Some (ident, sq)"
    using ne cases m
    by (auto simp: parse_inner_echo_id_seq_def hd Let_def proto_icmp_def proto_icmpv6_def
        proto_def split: if_splits)
  with body show ?thesis by (simp add: extract_echo_id_seq_def)
qed

section \<open>Properties\<close>

text \<open>The embedded send timestamp survives the trip: a probe payload with room for it (13 bytes)
  and sent within 292 years of the process start gives back exactly the time between sending and
  receiving, or nothing when that time is not plausible.\<close>

theorem timestamp_round_trip:
  assumes "13 \<le> n" "0 \<le> sent - start" "sent - start < 2 ^ 63"
  shows "extract_send_timestamp start (embed_send_timestamp start (build_payload n) sent) received timeout
    = (if is_plausible_rtt (received - sent) timeout then Some (received - sent) else None)"
  using assms by (intro embed_extract) (simp_all add: length_build_payload build_payload_signature)

theorem timestamp_round_trip_witness:
  "extract_send_timestamp 1000 (embed_send_timestamp 1000 (build_payload 56) 5000) 9000 second = Some 4000"
  using timestamp_round_trip [of 56 5000 1000 9000 second] by (simp add: is_plausible_rtt_def)

text \<open>A reply's payload is never trusted blindly: whatever bytes come back, a round trip taken from
  them is not negative, is at most twice the timeout (when there is one), and comes only from a
  payload that carries the signature.\<close>

theorem extracted_rtt_plausible:
  assumes "extract_send_timestamp start data received timeout = Some rtt"
  shows "0 \<le> rtt \<and> (0 < timeout \<longrightarrow> rtt \<le> 2 * timeout) \<and> go_slice 0 5 data = payload_signature"
  by (rule extract_plausible [OF assms])

theorem extracted_rtt_plausible_witness:
  "(4000::int) \<le> 2 * second"
  using extracted_rtt_plausible [of 1000 "embed_send_timestamp 1000 (build_payload 56) 5000" 9000 second 4000]
    embed_extract [of "build_payload 56" 5000 1000 9000 second]
  by (simp add: is_plausible_rtt_def length_build_payload build_payload_signature)

text \<open>An ICMP error is matched to the probe it quotes: with a codec that parses echo messages as
  documented, the identifier and sequence number of the probe are recovered from an error whose
  body quotes it behind an IPv4 header of any length or an IPv6 header, directly or behind a UDP
  header.\<close>

theorem quoted_probe_recovered:
  assumes parse: "parses_echo parse" and ck: "length checksum = 2"
    and ranges: "0 \<le> ident" "ident < 65536" "0 \<le> sq" "sq < 65536"
    and header: "ipv4_header hdr nh \<and> mt = 8 \<and> (nh = 1 \<and> udp = [] \<or> nh = 17 \<and> length udp = 8) \<or>
      ipv6_header hdr nh \<and> mt = 128 \<and> (nh = 58 \<and> udp = [] \<or> nh = 17 \<and> length udp = 8)"
    and body: "icmp_error_body_data msg = Some (hdr @ udp @ echo_bytes mt 0 checksum ident sq data)"
  shows "extract_echo_id_seq parse msg = Some (ident, sq)"
  using assms by (rule quoted_probe_id_seq)

text \<open>A parser with the documented behaviour exists: it reads the echo layout.\<close>

definition echo_parser :: icmp_parser where
  "echo_parser proto bs =
     (if length bs < 8 then None
      else Some \<lparr> im_type = (if proto = proto_icmp then ICMPv4 (uint (bs ! 0)) else ICMPv6 (uint (bs ! 0))),
                  im_code = uint (bs ! 1),
                  im_body = Echo (int (get_uint (go_slice 4 6 bs))) (int (get_uint (go_slice 6 8 bs))) (drop 8 bs) \<rparr>)"

lemma echo_parser_parses: "parses_echo echo_parser"
proof -
  have "\<exists>m. echo_parser proto (echo_bytes mt code checksum ident sq data) = Some m \<and>
      im_body m = Echo ident sq data"
    if ck: "length checksum = 2" and r: "0 \<le> ident" "ident < 65536" "0 \<le> sq" "sq < 65536"
    for proto mt code checksum ident sq data
  proof -
    let ?b = "echo_bytes mt code checksum ident sq data"
    have "go_slice 4 6 ?b = put_uint 2 (nat ident)" "go_slice 6 8 ?b = put_uint 2 (nat sq)" "drop 8 ?b = data"
      using ck by (simp_all add: echo_bytes_def go_slice_def)
    moreover have "int (get_uint (put_uint 2 (nat ident))) = ident" "int (get_uint (put_uint 2 (nat sq))) = sq"
      using r by (simp_all only: get_put_uint) (simp_all add: nat_less_iff)
    ultimately show ?thesis using ck by (simp add: echo_parser_def) (simp add: echo_bytes_def)
  qed
  then show ?thesis by (simp add: parses_echo_def)
qed

theorem quoted_probe_recovered_witness:
  "extract_echo_id_seq echo_parser \<lparr> im_type = v6_time_exceeded, im_code = 0, im_body = TimeExceeded
     ((0x60 # replicate 5 0 @ [58] @ replicate 33 0) @ [] @ echo_bytes 128 0 [0, 0] 7 9 [65]) \<rparr> = Some (7, 9)"
  by (rule quoted_probe_recovered [OF echo_parser_parses, where hdr = "0x60 # replicate 5 0 @ [58] @ replicate 33 0"
        and nh = 58 and mt = 128 and udp = "[]" and checksum = "[0, 0]" and data = "[65]"])
    (simp_all add: ipv6_header_def nth_append)

text \<open>A route probe is recognised without the inner header: when the quoted headers do not parse,
  the first trace signature in the quoted bytes gives the identifier and sequence number that
  follow it, and nothing is read beyond the end of the data.\<close>

theorem trace_signature_recovered:
  assumes "parse_inner_echo_id_seq parse (pre @ trace_signature @ put_uint 2 ident @ put_uint 2 sq @ post) = None"
    "str_index (pre @ trace_signature @ put_uint 2 ident @ put_uint 2 sq @ post) trace_signature = Some (length pre)"
    "ident < 65536" "sq < 65536"
    "icmp_error_body_data msg = Some (pre @ trace_signature @ put_uint 2 ident @ put_uint 2 sq @ post)"
  shows "extract_echo_id_seq parse msg = Some (int ident, int sq)"
proof -
  let ?d = "pre @ trace_signature @ put_uint 2 ident @ put_uint 2 sq @ post"
  have l: "length trace_signature = 4" by (simp add: trace_signature_def bytes_of_def)
  have "go_slice (length pre + 4) (length pre + 6) ?d = put_uint 2 ident"
    "go_slice (length pre + 6) (length pre + 8) ?d = put_uint 2 sq"
    by (simp_all add: go_slice_def l)
  then show ?thesis
    using assms by (simp add: extract_echo_id_seq_def l get_put_uint)
qed

theorem trace_signature_recovered_witness:
  "extract_echo_id_seq (\<lambda>_ _. None) \<lparr> im_type = v4_time_exceeded, im_code = 0,
     im_body = TimeExceeded ([0] @ trace_signature @ put_uint 2 300 @ put_uint 2 5 @ []) \<rparr> = Some (300, 5)"
  using trace_signature_recovered [of "\<lambda>_ _. None" "[0]" 300 5 "[]"
      "\<lparr> im_type = v4_time_exceeded, im_code = 0,
         im_body = TimeExceeded ([0] @ trace_signature @ put_uint 2 300 @ put_uint 2 5 @ []) \<rparr>"]
  by (simp add: parse_inner_echo_id_seq_def inner_header_def trace_signature_def bytes_of_def)

end
