(* ===== verification/Echo_Dispatch.thy ===== *)
theory Echo_Dispatch
  imports Probe_Wire
begin

text \<open>
  Who gets a reply (internal/pinger): the allocation of echo and route-probe identifiers
  (targets.go), the registration and removal of target workers, and the receiver that hands a
  message to the channel of its identifier or of its route probe (receiver.go). Channels are
  lists of what they hold; a send to a full one is dropped, as the source's select does.
\<close>

section \<open>Identifiers\<close>

definition id_partition_size :: int where "id_partition_size = 32768"

record id_allocator =
  ia_echo :: int
  ia_trace :: int
  ia_traces :: "int set"

definition new_allocator :: id_allocator where
  "new_allocator = \<lparr> ia_echo = 0, ia_trace = 0, ia_traces = {} \<rparr>"

datatype id_error = EchoIDsExhausted | WorkerIDsExhausted

definition echo_id :: "id_allocator \<Rightarrow> id_allocator \<times> (id_error + int)" where
  "echo_id a =
     (if ia_echo a \<ge> id_partition_size then (a, Inl EchoIDsExhausted)
      else (a \<lparr> ia_echo := ia_echo a + 1 \<rparr>, Inr (ia_echo a)))"

text \<open>The loop of \<open>traceID\<close>, with the number of its turns left.\<close>

fun trace_id_loop :: "nat \<Rightarrow> id_allocator \<Rightarrow> id_allocator \<times> int" where
  "trace_id_loop 0 a = (a, -1)"
| "trace_id_loop (Suc n) a =
     (let ident = id_partition_size + ia_trace a smod id_partition_size;
          a' = a \<lparr> ia_trace := ia_trace a + 1 \<rparr>
      in if ident \<notin> ia_traces a then (a' \<lparr> ia_traces := insert ident (ia_traces a') \<rparr>, ident)
         else trace_id_loop n a')"

definition trace_id :: "id_allocator \<Rightarrow> id_allocator \<times> int" where
  "trace_id a = trace_id_loop (nat id_partition_size) a"

definition release_trace :: "id_allocator \<Rightarrow> int \<Rightarrow> id_allocator" where
  "release_trace a ident = a \<lparr> ia_traces := ia_traces a - {ident} \<rparr>"

section \<open>The contract of a source of reusable identifiers\<close>

text \<open>
  What a probe may rely on: an acquired identifier is in range and held by nobody else, and
  acquisition fails (a negative result) only when all are held.
\<close>

locale id_source =
  fixes inv :: "'s \<Rightarrow> bool"
    and held :: "'s \<Rightarrow> int set"
    and acquire :: "'s \<Rightarrow> 's \<times> int"
    and release :: "'s \<Rightarrow> int \<Rightarrow> 's"
    and range :: "int set"
  assumes range_nonneg: "i \<in> range \<Longrightarrow> 0 \<le> i"
    and inv_held: "inv s \<Longrightarrow> held s \<subseteq> range"
    and inv_acquire: "inv s \<Longrightarrow> inv (fst (acquire s))"
    and inv_release: "inv s \<Longrightarrow> inv (release s i)"
    and acquire_ok: "inv s \<Longrightarrow> held s \<noteq> range \<Longrightarrow>
      snd (acquire s) \<in> range - held s \<and> held (fst (acquire s)) = insert (snd (acquire s)) (held s)"
    and acquire_full: "inv s \<Longrightarrow> held s = range \<Longrightarrow>
      snd (acquire s) < 0 \<and> held (fst (acquire s)) = held s"
    and release_held: "held (release s i) = held s - {i}"
begin

lemma acquire_fails_iff: "inv s \<Longrightarrow> snd (acquire s) < 0 \<longleftrightarrow> held s = range"
  using acquire_ok [of s] acquire_full [of s] range_nonneg [of "snd (acquire s)"] by force

lemma acquire_fresh: "inv s \<Longrightarrow> 0 \<le> snd (acquire s) \<Longrightarrow> snd (acquire s) \<in> range - held s"
  using acquire_ok [of s] acquire_full [of s] by force

text \<open>A probe that acquires, then releases, leaves the held identifiers as they were.\<close>

lemma acquire_release:
  "inv s \<Longrightarrow> 0 \<le> snd (acquire s) \<Longrightarrow> held (release (fst (acquire s)) (snd (acquire s))) = held s"
  using acquire_ok [of s] acquire_full [of s] by (force simp: release_held)

lemma held_monotone: "inv s \<Longrightarrow> held s \<subseteq> held (fst (acquire s))"
  using acquire_ok [of s] acquire_full [of s] by force

end

definition trace_ids :: "int set" where
  "trace_ids = {id_partition_size..<2 * id_partition_size}"

definition allocator_inv :: "id_allocator \<Rightarrow> bool" where
  "allocator_inv a = (0 \<le> ia_trace a \<and> ia_traces a \<subseteq> trace_ids)"

lemma trace_candidate: "0 \<le> t \<Longrightarrow> id_partition_size + t smod id_partition_size \<in> trace_ids"
  by (simp add: trace_ids_def id_partition_size_def smod_nonneg)

lemma trace_id_loop_spec:
  "0 \<le> ia_trace a \<Longrightarrow>
   (case trace_id_loop n a of (a', i) \<Rightarrow> ia_echo a' = ia_echo a \<and> ia_trace a \<le> ia_trace a' \<and>
     (if \<forall>k<n. id_partition_size + (ia_trace a + int k) smod id_partition_size \<in> ia_traces a
      then i = -1 \<and> ia_traces a' = ia_traces a
      else i \<in> trace_ids - ia_traces a \<and> ia_traces a' = insert i (ia_traces a)))"
proof (induction n arbitrary: a)
  case 0
  then show ?case by simp
next
  case (Suc n)
  let ?i = "id_partition_size + ia_trace a smod id_partition_size"
  show ?case
  proof (cases "?i \<in> ia_traces a")
    case False
    then show ?thesis using Suc.prems trace_candidate [of "ia_trace a"]
      by (auto simp: Let_def intro: exI [of _ 0])
  next
    case True
    have "(\<forall>k<n. id_partition_size + (ia_trace a + 1 + int k) smod id_partition_size \<in> ia_traces a)
      \<longleftrightarrow> (\<forall>k<Suc n. id_partition_size + (ia_trace a + int k) smod id_partition_size \<in> ia_traces a)"
      using True by (simp add: All_less_Suc2 add.assoc)
    moreover have "trace_id_loop (Suc n) a = trace_id_loop n (a \<lparr> ia_trace := ia_trace a + 1 \<rparr>)"
      using True by (simp add: Let_def)
    ultimately show ?thesis
      using Suc.IH [of "a \<lparr> ia_trace := ia_trace a + 1 \<rparr>"] Suc.prems
      by (auto simp del: trace_id_loop.simps split: prod.splits if_splits)
  qed
qed

lemma trace_ids_covered:
  assumes "0 \<le> t"
  shows "(\<forall>k<nat id_partition_size. id_partition_size + (t + int k) smod id_partition_size \<in> S)
    \<longleftrightarrow> trace_ids \<subseteq> S"
proof
  assume all: "\<forall>k<nat id_partition_size. id_partition_size + (t + int k) smod id_partition_size \<in> S"
  show "trace_ids \<subseteq> S"
  proof
    fix i assume i: "i \<in> trace_ids"
    define k where "k = nat ((i - t) mod id_partition_size)"
    have k: "k < nat id_partition_size" "int k = (i - t) mod id_partition_size"
      by (simp_all add: k_def id_partition_size_def nat_less_iff)
    have "(t + int k) smod id_partition_size = (t + (i - t) mod id_partition_size) mod id_partition_size"
      using assms by (subst smod_nonneg) (simp_all add: k id_partition_size_def)
    also have "\<dots> = i mod id_partition_size" by (simp add: mod_add_right_eq)
    also have "\<dots> = ((i - id_partition_size) + id_partition_size) mod id_partition_size" by simp
    also have "\<dots> = (i - id_partition_size) mod id_partition_size" by (rule mod_add_self2)
    also have "\<dots> = i - id_partition_size"
      using i by (intro mod_pos_pos_trivial) (simp_all add: trace_ids_def)
    finally show "i \<in> S" using all k(1) by (metis add.commute diff_add_cancel)
  qed
next
  assume "trace_ids \<subseteq> S"
  then show "\<forall>k<nat id_partition_size. id_partition_size + (t + int k) smod id_partition_size \<in> S"
    using trace_candidate assms by force
qed

lemma trace_id_spec:
  assumes "allocator_inv a"
  shows "case trace_id a of (a', i) \<Rightarrow> allocator_inv a' \<and> ia_echo a' = ia_echo a \<and>
    (if ia_traces a = trace_ids then i = -1 \<and> ia_traces a' = ia_traces a
     else i \<in> trace_ids - ia_traces a \<and> ia_traces a' = insert i (ia_traces a))"
proof -
  from assms have t: "0 \<le> ia_trace a" "ia_traces a \<subseteq> trace_ids" by (simp_all add: allocator_inv_def)
  then have "trace_ids \<subseteq> ia_traces a \<longleftrightarrow> ia_traces a = trace_ids" by blast
  with trace_id_loop_spec [OF t(1), of "nat id_partition_size"] trace_ids_covered [OF t(1), of "ia_traces a"] t
  show ?thesis
    by (auto simp: trace_id_def allocator_inv_def split: prod.splits if_splits)
qed

interpretation traces: id_source allocator_inv ia_traces trace_id release_trace trace_ids
proof
  fix s i
  show "i \<in> trace_ids \<Longrightarrow> 0 \<le> i" by (simp add: trace_ids_def id_partition_size_def)
  show "allocator_inv s \<Longrightarrow> ia_traces s \<subseteq> trace_ids" by (simp add: allocator_inv_def)
  show "allocator_inv s \<Longrightarrow> allocator_inv (fst (trace_id s))"
    using trace_id_spec [of s] by (auto split: prod.splits)
  show "allocator_inv s \<Longrightarrow> allocator_inv (release_trace s i)"
    by (auto simp: allocator_inv_def release_trace_def)
  show "allocator_inv s \<Longrightarrow> ia_traces s \<noteq> trace_ids \<Longrightarrow>
      snd (trace_id s) \<in> trace_ids - ia_traces s \<and>
      ia_traces (fst (trace_id s)) = insert (snd (trace_id s)) (ia_traces s)"
    using trace_id_spec [of s] by (auto split: prod.splits)
  show "allocator_inv s \<Longrightarrow> ia_traces s = trace_ids \<Longrightarrow>
      snd (trace_id s) < 0 \<and> ia_traces (fst (trace_id s)) = ia_traces s"
    using trace_id_spec [of s] by (auto split: prod.splits)
  show "ia_traces (release_trace s i) = ia_traces s - {i}" by (simp add: release_trace_def)
qed

section \<open>Workers and their channels\<close>

text \<open>
  The registration state of a pinger. A target is known by its identity; \<open>rg_ids\<close> is the
  allocator shared by the session, None for a pinger without one. \<open>rg_event\<close> is the coalescing
  notification that the last worker has finished.
\<close>

record reply =
  rp_rtt :: duration
  rp_ttl :: int
  rp_seq :: int
  rp_err :: string

definition reply_chan_buffer :: nat where "reply_chan_buffer = 100"
definition trace_chan_buffer :: nat where "trace_chan_buffer = 200"

definition offer :: "nat \<Rightarrow> 'a \<Rightarrow> 'a list \<Rightarrow> 'a list" where
  "offer cap x ch = (if length ch < cap then ch @ [x] else ch)"

record registry =
  rg_stopped :: bool
  rg_ids :: "id_allocator option"
  rg_base_id :: int
  rg_next_worker :: int
  rg_workers :: "nat \<Rightarrow> int option"
  rg_chans :: "int \<Rightarrow> reply list option"
  rg_addresses :: "nat \<Rightarrow> string option"
  rg_active :: int
  rg_event :: bool

definition allocate_worker_id :: "registry \<Rightarrow> registry \<times> (id_error + int)" where
  "allocate_worker_id r =
     (case rg_ids r of
        Some a \<Rightarrow> (case echo_id a of (a', res) \<Rightarrow> (r \<lparr> rg_ids := Some a' \<rparr>, res))
      | None \<Rightarrow>
          if rg_next_worker r \<ge> 65536 then (r, Inl WorkerIDsExhausted)
          else (r \<lparr> rg_next_worker := rg_next_worker r + 1 \<rparr>,
                Inr ((rg_base_id r + rg_next_worker r) mod 65536)))"

definition launch_target :: "nat \<Rightarrow> int \<Rightarrow> registry \<Rightarrow> registry" where
  "launch_target t ident r = r
     \<lparr> rg_workers := (rg_workers r)(t \<mapsto> ident), rg_chans := (rg_chans r)(ident \<mapsto> []),
       rg_active := rg_active r + 1 \<rparr>"

text \<open>What the goroutine of \<open>launchTarget\<close> does when its worker returns.\<close>

definition worker_returned :: "registry \<Rightarrow> registry" where
  "worker_returned r =
     (let r' = r \<lparr> rg_active := rg_active r - 1 \<rparr>
      in if rg_active r' = 0 then r' \<lparr> rg_event := True \<rparr> else r')"

datatype add_error = PingerStopped | AlreadyRegistered | NoIdentifier id_error

definition add_target :: "nat \<Rightarrow> string \<Rightarrow> registry \<Rightarrow> registry \<times> add_error option" where
  "add_target t address r =
     (if rg_stopped r then (r, Some PingerStopped)
      else if rg_workers r t \<noteq> None then (r, Some AlreadyRegistered)
      else
        case allocate_worker_id r of
          (r', Inl err) \<Rightarrow> (r', Some (NoIdentifier err))
        | (r', Inr ident) \<Rightarrow>
            (launch_target t ident (r' \<lparr> rg_addresses := (rg_addresses r')(t \<mapsto> address) \<rparr>), None))"

text \<open>\<open>RemoveTarget\<close>; \<open>running\<close> says whether its worker still ran, so that joining it also passes
  through the end of its goroutine.\<close>

definition remove_target :: "nat \<Rightarrow> bool \<Rightarrow> registry \<Rightarrow> registry" where
  "remove_target t running r =
     (case rg_workers r t of
        None \<Rightarrow> r
      | Some ident \<Rightarrow>
          let r1 = r \<lparr> rg_chans := (rg_chans r)(ident := None) \<rparr>;
              r2 = (if running then worker_returned r1 else r1)
          in r2 \<lparr> rg_workers := (rg_workers r2)(t := None),
                  rg_addresses := (rg_addresses r2)(t := None) \<rparr>)"

definition workers_finished :: "registry \<Rightarrow> bool" where
  "workers_finished r = (rg_active r = 0)"

section \<open>The receiver\<close>

definition extract_trace_id :: "icmp_parser \<Rightarrow> icmp_message \<Rightarrow> int option" where
  "extract_trace_id parse msg =
     (if im_type msg \<in> {v4_echo_reply, v6_echo_reply} then
        (case im_body msg of Echo ident sq data \<Rightarrow> Some ident | _ \<Rightarrow> None)
      else if im_type msg \<in> {v4_time_exceeded, v6_time_exceeded, v4_dest_unreachable, v6_dest_unreachable}
      then map_option fst (extract_echo_id_seq parse msg)
      else None)"

type_synonym trace_msg = "icmp_message \<times> string"

definition broadcast_trace ::
  "icmp_parser \<Rightarrow> icmp_message \<Rightarrow> string \<Rightarrow> (int \<Rightarrow> trace_msg list option) \<Rightarrow> (int \<Rightarrow> trace_msg list option)" where
  "broadcast_trace parse msg src chans =
     (case extract_trace_id parse msg of
        None \<Rightarrow> chans
      | Some ident \<Rightarrow>
          (case chans ident of
             None \<Rightarrow> chans
           | Some ch \<Rightarrow> chans(ident \<mapsto> offer trace_chan_buffer (msg, src) ch)))"

record receiver_config =
  rc_protocol :: int
  rc_echo_reply :: icmp_type
  rc_error_types :: "icmp_type list"
  rc_error_string :: "icmp_type \<Rightarrow> int \<Rightarrow> string"

definition receiver_v4_config :: receiver_config where
  "receiver_v4_config = \<lparr> rc_protocol = proto_icmp, rc_echo_reply = v4_echo_reply,
     rc_error_types = [v4_dest_unreachable, v4_time_exceeded, v4_param_problem],
     rc_error_string = icmp_error_string \<rparr>"

definition receiver_v6_config :: receiver_config where
  "receiver_v6_config = \<lparr> rc_protocol = proto_icmpv6, rc_echo_reply = v6_echo_reply,
     rc_error_types = [v6_dest_unreachable, v6_packet_too_big, v6_time_exceeded, v6_param_problem],
     rc_error_string = icmp_v6_error_string \<rparr>"

text \<open>The kernel filter derived from a configuration: the ICMPv6 types that pass.\<close>

definition icmpv6_filter_passes :: "receiver_config \<Rightarrow> int \<Rightarrow> bool" where
  "icmpv6_filter_passes cfg n =
     (rc_echo_reply cfg = ICMPv6 n \<or> ICMPv6 n \<in> set (rc_error_types cfg))"

definition handle_echo_reply ::
  "gotime \<Rightarrow> gotime \<Rightarrow> duration \<Rightarrow> icmp_message \<Rightarrow> int \<Rightarrow> (int \<Rightarrow> reply list option) \<Rightarrow>
   (int \<Rightarrow> reply list option)" where
  "handle_echo_reply start now timeout msg ttl chans =
     (case im_body msg of
        Echo ident sq data \<Rightarrow>
          (case chans ident of
             None \<Rightarrow> chans
           | Some ch \<Rightarrow>
               let rtt = (case extract_send_timestamp start data now timeout of
                            Some rtt \<Rightarrow> rtt | None \<Rightarrow> 0)
               in chans(ident \<mapsto> offer reply_chan_buffer
                    \<lparr> rp_rtt = rtt, rp_ttl = ttl, rp_seq = sq, rp_err = [] \<rparr> ch))
      | _ \<Rightarrow> chans)"

definition handle_icmp_error ::
  "icmp_parser \<Rightarrow> (icmp_type \<Rightarrow> int \<Rightarrow> string) \<Rightarrow> icmp_message \<Rightarrow> (int \<Rightarrow> reply list option) \<Rightarrow>
   (int \<Rightarrow> reply list option)" where
  "handle_icmp_error parse error_string msg chans =
     (case extract_echo_id_seq parse msg of
        None \<Rightarrow> chans
      | Some (ident, sq) \<Rightarrow>
          let err0 = error_string (im_type msg) (im_code msg);
              err = (case im_body msg of PacketTooBig mtu data \<Rightarrow> packet_too_big_string mtu | _ \<Rightarrow> err0)
          in (case chans ident of
                None \<Rightarrow> chans
              | Some ch \<Rightarrow> chans(ident \<mapsto> offer reply_chan_buffer
                   \<lparr> rp_rtt = 0, rp_ttl = 0, rp_seq = sq, rp_err = err \<rparr> ch)))"

text \<open>One packet through the loop of \<open>runReceiver\<close>: both kinds of channels afterwards.\<close>

definition receive_packet ::
  "receiver_config \<Rightarrow> icmp_parser \<Rightarrow> gotime \<Rightarrow> gotime \<Rightarrow> duration \<Rightarrow> byte list \<Rightarrow> int \<Rightarrow> string \<Rightarrow>
   (int \<Rightarrow> reply list option) \<times> (int \<Rightarrow> trace_msg list option) \<Rightarrow>
   (int \<Rightarrow> reply list option) \<times> (int \<Rightarrow> trace_msg list option)" where
  "receive_packet cfg parse start now timeout buf ttl src st =
     (case st of (chans, traces) \<Rightarrow>
        case parse (rc_protocol cfg) buf of
          None \<Rightarrow> (chans, traces)
        | Some msg \<Rightarrow>
            (if im_type msg = rc_echo_reply cfg
             then handle_echo_reply start now timeout msg ttl chans
             else if im_type msg \<in> set (rc_error_types cfg)
             then handle_icmp_error parse (rc_error_string cfg) msg chans
             else chans,
             broadcast_trace parse msg src traces))"

section \<open>Lemmas\<close>

lemma offer_length: "length ch \<le> cap \<Longrightarrow> length (offer cap x ch) \<le> cap"
  by (simp add: offer_def)

lemma offer_cases: "offer cap x ch = ch \<or> offer cap x ch = ch @ [x]"
  by (simp add: offer_def)

text \<open>The identifier a message is about.\<close>

definition message_id :: "icmp_parser \<Rightarrow> icmp_message \<Rightarrow> int option" where
  "message_id parse msg = (case im_body msg of
     Echo ident sq data \<Rightarrow> Some ident | _ \<Rightarrow> map_option fst (extract_echo_id_seq parse msg))"

lemma error_body_not_echo: "im_body msg = Echo i s d \<Longrightarrow> extract_echo_id_seq parse msg = None"
  by (simp add: extract_echo_id_seq_def)

lemma handle_echo_reply_other:
  "message_id parse msg \<noteq> Some i \<Longrightarrow> handle_echo_reply start now timeout msg ttl chans i = chans i"
  by (auto simp: handle_echo_reply_def message_id_def Let_def split: icmp_body.splits option.splits)

lemma handle_icmp_error_other:
  "message_id parse msg \<noteq> Some i \<Longrightarrow> handle_icmp_error parse es msg chans i = chans i"
  by (auto simp: handle_icmp_error_def message_id_def Let_def error_body_not_echo
      split: icmp_body.splits option.splits prod.splits)

lemma handle_echo_reply_one:
  "chans i = Some ch \<Longrightarrow> \<exists>x. handle_echo_reply start now timeout msg ttl chans i = Some (offer reply_chan_buffer x ch)
    \<or> handle_echo_reply start now timeout msg ttl chans i = Some ch"
  "chans i = None \<Longrightarrow> handle_echo_reply start now timeout msg ttl chans i = None"
  by (auto simp: handle_echo_reply_def Let_def split: icmp_body.splits option.splits)

lemma handle_icmp_error_one:
  "chans i = Some ch \<Longrightarrow> \<exists>x. handle_icmp_error parse es msg chans i = Some (offer reply_chan_buffer x ch)
    \<or> handle_icmp_error parse es msg chans i = Some ch"
  "chans i = None \<Longrightarrow> handle_icmp_error parse es msg chans i = None"
  by (auto simp: handle_icmp_error_def Let_def split: icmp_body.splits option.splits prod.splits)

section \<open>Histories of a registry\<close>

datatype registry_op = AddTarget nat string | RemoveTarget nat bool | WorkerReturned | StopPinger

fun registry_step :: "registry_op \<Rightarrow> registry \<Rightarrow> registry" where
  "registry_step (AddTarget t address) r = fst (add_target t address r)"
| "registry_step (RemoveTarget t running) r = remove_target t running r"
| "registry_step WorkerReturned r = worker_returned r"
| "registry_step StopPinger r = r \<lparr> rg_stopped := True \<rparr>"

text \<open>The identifier an operation assigned, with the target it went to.\<close>

fun assigned :: "registry_op \<Rightarrow> registry \<Rightarrow> (nat \<times> int) list" where
  "assigned (AddTarget t address) r =
     (case add_target t address r of
        (r', None) \<Rightarrow> (case rg_workers r' t of Some i \<Rightarrow> [(t, i)] | None \<Rightarrow> [])
      | _ \<Rightarrow> [])"
| "assigned _ r = []"

fun registry_run :: "registry_op list \<Rightarrow> registry \<Rightarrow> registry \<times> (nat \<times> int) list" where
  "registry_run [] r = (r, [])"
| "registry_run (op # ops) r =
     (case registry_run ops (registry_step op r) of (r', as) \<Rightarrow> (r', assigned op r @ as))"

definition session_registry :: registry where
  "session_registry = \<lparr> rg_stopped = False, rg_ids = Some new_allocator, rg_base_id = 0,
     rg_next_worker = 0, rg_workers = (\<lambda>_. None), rg_chans = (\<lambda>_. None),
     rg_addresses = (\<lambda>_. None), rg_active = 0, rg_event = False \<rparr>"

definition next_echo :: "registry \<Rightarrow> int" where
  "next_echo r = (case rg_ids r of Some a \<Rightarrow> ia_echo a | None \<Rightarrow> 0)"

lemma worker_returned_fields [simp]:
  "rg_ids (worker_returned r) = rg_ids r" "rg_workers (worker_returned r) = rg_workers r"
  "rg_chans (worker_returned r) = rg_chans r" "rg_stopped (worker_returned r) = rg_stopped r"
  by (simp_all add: worker_returned_def Let_def)

text \<open>What holds in every session: identifiers below the next one to be given, and a channel
  exactly for the identifiers of registered workers.\<close>

definition registry_inv :: "registry \<Rightarrow> bool" where
  "registry_inv r = (rg_ids r \<noteq> None \<and> 0 \<le> next_echo r \<and> next_echo r \<le> id_partition_size \<and>
     (\<forall>t i. rg_workers r t = Some i \<longrightarrow> 0 \<le> i \<and> i < next_echo r) \<and>
     (\<forall>t u i. rg_workers r t = Some i \<and> rg_workers r u = Some i \<longrightarrow> t = u) \<and>
     (\<forall>i. rg_chans r i \<noteq> None \<longleftrightarrow> (\<exists>t. rg_workers r t = Some i)))"

lemma registry_inv_session: "registry_inv session_registry"
  by (simp add: registry_inv_def session_registry_def next_echo_def new_allocator_def id_partition_size_def)

lemma add_target_cases:
  assumes "registry_inv r"
  shows "(snd (add_target t address r) \<noteq> None \<and> fst (add_target t address r) = r \<and>
      (rg_stopped r \<or> rg_workers r t \<noteq> None \<or> next_echo r = id_partition_size)) \<or>
    (add_target t address r = (launch_target t (next_echo r)
        (r \<lparr> rg_ids := Some ((the (rg_ids r)) \<lparr> ia_echo := next_echo r + 1 \<rparr>),
             rg_addresses := (rg_addresses r)(t \<mapsto> address) \<rparr>), None) \<and>
      next_echo r < id_partition_size \<and> rg_workers r t = None)"
proof -
  obtain a where a: "rg_ids r = Some a" using assms by (auto simp: registry_inv_def)
  then have n: "next_echo r = ia_echo a" by (simp add: next_echo_def)
  have le: "ia_echo a \<le> id_partition_size" using assms n by (simp add: registry_inv_def)
  have r: "r \<lparr> rg_ids := Some a \<rparr> = r" using a by (cases r) simp
  show ?thesis
    using a n le r
    by (auto simp: add_target_def allocate_worker_id_def echo_id_def split: if_splits)
qed

lemma registry_inv_launch:
  assumes inv: "registry_inv r" and free: "rg_workers r t = None" and lt: "next_echo r < id_partition_size"
  shows "registry_inv (launch_target t (next_echo r)
    (r \<lparr> rg_ids := Some ((the (rg_ids r)) \<lparr> ia_echo := next_echo r + 1 \<rparr>), rg_addresses := as \<rparr>))"
    (is "registry_inv ?r")
proof -
  have f: "next_echo ?r = next_echo r + 1" "rg_workers ?r = (rg_workers r)(t \<mapsto> next_echo r)"
    "rg_chans ?r = (rg_chans r)(next_echo r \<mapsto> [])" "rg_ids ?r \<noteq> None"
    by (simp_all add: launch_target_def next_echo_def)
  have old: "i < next_echo r" "0 \<le> i" if "rg_workers r u = Some i" for u i
    using inv that by (auto simp: registry_inv_def)
  show ?thesis
    unfolding registry_inv_def f(1-3)
  proof (intro conjI allI impI)
    show "rg_ids ?r \<noteq> None" by (rule f(4))
    show "0 \<le> next_echo r + 1" "next_echo r + 1 \<le> id_partition_size"
      using inv lt by (auto simp: registry_inv_def)
    fix u i assume u: "((rg_workers r)(t \<mapsto> next_echo r)) u = Some i"
    then show "0 \<le> i" "i < next_echo r + 1"
      using old inv by (force simp: registry_inv_def split: if_splits)+
  next
    fix u v i
    assume "((rg_workers r)(t \<mapsto> next_echo r)) u = Some i \<and> ((rg_workers r)(t \<mapsto> next_echo r)) v = Some i"
    then show "u = v" using old inv
      by (auto simp: registry_inv_def split: if_splits dest: old(1))
  next
    fix i
    have "(\<exists>u. ((rg_workers r)(t \<mapsto> next_echo r)) u = Some i) \<longleftrightarrow> i = next_echo r \<or> (\<exists>u. rg_workers r u = Some i)"
      using free by (metis fun_upd_apply option.distinct(1) option.inject)
    then show "(((rg_chans r)(next_echo r \<mapsto> [])) i \<noteq> None)
        = (\<exists>u. ((rg_workers r)(t \<mapsto> next_echo r)) u = Some i)"
      using inv by (simp add: registry_inv_def)
  qed
qed

lemma registry_inv_remove:
  assumes "registry_inv r"
  shows "registry_inv (remove_target t running r)"
proof (cases "rg_workers r t")
  case None
  with assms show ?thesis by (simp add: remove_target_def)
next
  case (Some i)
  let ?r = "remove_target t running r"
  have f: "rg_ids ?r = rg_ids r" "next_echo ?r = next_echo r"
    "rg_workers ?r = (rg_workers r)(t := None)" "rg_chans ?r = (rg_chans r)(i := None)"
    using Some by (simp_all add: remove_target_def Let_def next_echo_def)
  have "(\<exists>u. ((rg_workers r)(t := None)) u = Some j) \<longleftrightarrow> j \<noteq> i \<and> (\<exists>u. rg_workers r u = Some j)" for j
    using assms Some unfolding registry_inv_def
    by (metis fun_upd_apply option.distinct(1) option.inject)
  then show ?thesis using assms unfolding registry_inv_def f by (auto split: if_splits)
qed

lemma registry_step_inv: "registry_inv r \<Longrightarrow> registry_inv (registry_step op r)"
proof (cases op)
  case (AddTarget t address)
  assume "registry_inv r"
  with add_target_cases [OF this, of t address] registry_inv_launch [of r t] show ?thesis
    by (auto simp: AddTarget)
qed (simp_all add: registry_inv_remove, simp_all add: registry_inv_def next_echo_def)

lemma registry_step_next: "registry_inv r \<Longrightarrow>
    next_echo (registry_step op r) = next_echo r + int (length (assigned op r)) \<and>
    (\<forall>(t, i)\<in>set (assigned op r). i = next_echo r \<and> rg_workers (registry_step op r) t = Some i) \<and>
    length (assigned op r) \<le> 1"
proof (cases op)
  case (AddTarget t address)
  assume "registry_inv r"
  with add_target_cases [OF this, of t address] show ?thesis
    by (auto simp: AddTarget launch_target_def next_echo_def split: prod.splits option.splits)
next
  case (RemoveTarget t running)
  then show ?thesis by (simp add: remove_target_def next_echo_def Let_def split: option.split)
qed (simp_all add: next_echo_def)

lemma registry_run_spec:
  "registry_inv r \<Longrightarrow> case registry_run ops r of (r', as) \<Rightarrow>
     registry_inv r' \<and> next_echo r' = next_echo r + int (length as) \<and>
     map snd as = [next_echo r..next_echo r' - 1]"
proof (induction ops arbitrary: r)
  case Nil
  then show ?case by simp
next
  case (Cons op ops)
  obtain r' as where run: "registry_run ops (registry_step op r) = (r', as)" by force
  note step = registry_step_next [OF Cons.prems, of op]
  from Cons.IH [OF registry_step_inv [OF Cons.prems, of op]] run
  have IH: "registry_inv r'" "next_echo r' = next_echo (registry_step op r) + int (length as)"
    "map snd as = [next_echo (registry_step op r)..next_echo r' - 1]" by simp_all
  show ?case
  proof (cases "assigned op r")
    case Nil
    with run IH step show ?thesis by simp
  next
    case (Cons a rest)
    with step have a: "assigned op r = [a]" "snd a = next_echo r" by auto
    with step IH have "next_echo r \<le> next_echo r' - 1" by simp
    then have "[next_echo r..next_echo r' - 1] = next_echo r # [next_echo r + 1..next_echo r' - 1]"
      by (simp add: upto_rec1)
    with run IH step a show ?thesis by simp
  qed
qed

section \<open>Properties\<close>

text \<open>Echo identifiers are never recycled in a session: over any sequence of additions, removals,
  finished workers and a stop, the identifiers assigned are 0, 1, 2, ... without repetition and
  below 32768, so a late reply to a removed target is never handed to another; at every moment a
  channel exists exactly for the identifiers of the registered targets.\<close>

theorem echo_ids_never_recycled:
  "map snd (snd (registry_run ops session_registry))
     = [0..int (length (snd (registry_run ops session_registry))) - 1] \<and>
   distinct (map snd (snd (registry_run ops session_registry))) \<and>
   set (map snd (snd (registry_run ops session_registry))) \<subseteq> {0..<32768} \<and>
   (\<forall>i. rg_chans (fst (registry_run ops session_registry)) i \<noteq> None \<longleftrightarrow>
      (\<exists>t. rg_workers (fst (registry_run ops session_registry)) t = Some i))"
proof -
  obtain r as where run: "registry_run ops session_registry = (r, as)" by force
  have z: "next_echo session_registry = 0"
    by (simp add: session_registry_def next_echo_def new_allocator_def)
  from registry_run_spec [OF registry_inv_session, of ops] run z
  have inv: "registry_inv r" and n: "next_echo r = int (length as)" "map snd as = [0..next_echo r - 1]"
    by simp_all
  have "next_echo r \<le> 32768" using inv by (simp add: registry_inv_def id_partition_size_def)
  then have "set (map snd as) \<subseteq> {0..<32768}" unfolding n(2) by auto
  moreover have "distinct (map snd as)" unfolding n(2) by simp
  ultimately show ?thesis
    using inv n by (simp add: run registry_inv_def)
qed

text \<open>Route-probe identifiers are exclusive: taking one gives an identifier of the route half
  [32768, 65536) that no probe holds, so never one of an echo worker, and fails exactly when all
  of them are held; giving it back frees that one only.\<close>

theorem trace_ids_exclusive:
  assumes "allocator_inv a"
  shows "allocator_inv (fst (trace_id a)) \<and>
    (snd (trace_id a) < 0 \<longleftrightarrow> ia_traces a = trace_ids) \<and>
    (0 \<le> snd (trace_id a) \<longrightarrow> 32768 \<le> snd (trace_id a) \<and> snd (trace_id a) < 65536 \<and>
       snd (trace_id a) \<notin> ia_traces a \<and>
       ia_traces (release_trace (fst (trace_id a)) (snd (trace_id a))) = ia_traces a) \<and>
    ia_echo (fst (trace_id a)) = ia_echo a"
  using traces.inv_acquire [OF assms] traces.acquire_fails_iff [OF assms] traces.acquire_fresh [OF assms]
    traces.acquire_release [OF assms] trace_id_spec [OF assms]
  by (auto simp: trace_ids_def id_partition_size_def split: prod.splits)

theorem trace_ids_exclusive_witness:
  "ia_traces (release_trace (fst (trace_id new_allocator)) (snd (trace_id new_allocator))) = {} \<and>
   0 \<le> snd (trace_id new_allocator)"
proof -
  have "ia_traces new_allocator \<noteq> trace_ids"
    by (auto simp: new_allocator_def trace_ids_def id_partition_size_def)
  then show ?thesis
    using trace_ids_exclusive [of new_allocator] by (auto simp: allocator_inv_def new_allocator_def)
qed



end
