(* ===== verification/Recent_Seq.thy ===== *)
theory Recent_Seq
  imports Target_Stats
begin

text \<open>
  The bounded history of recently resolved wire sequence numbers (internal/pinger/worker.go,
  \<open>recentSeqHistory\<close>): a linked list in order of resolution with an index from sequence number to
  list node. The contract \<open>seq_history\<close> is what the worker relies on; the history is shown to
  refine an association list cut to its newest entries.
\<close>

section \<open>The data structure\<close>

datatype resolution = ResolvedAcked | ResolvedTimeout

record recent_entry =
  re_seq :: int
  re_kind :: resolution
  re_probe :: probe

text \<open>A node of the list is its address and its value; the index maps to addresses, and
  \<open>rs_next\<close> is the next address \<open>PushBack\<close> allocates.\<close>

record recent_history =
  rs_order :: "(nat \<times> recent_entry) list"
  rs_index :: "int \<Rightarrow> nat option"
  rs_next :: nat

definition recent_seq_history_cap :: nat where "recent_seq_history_cap = 512"

definition new_recent_history :: recent_history where
  "new_recent_history = \<lparr> rs_order = [], rs_index = (\<lambda>_. None), rs_next = 0 \<rparr>"

definition remove_node :: "nat \<Rightarrow> (nat \<times> recent_entry) list \<Rightarrow> (nat \<times> recent_entry) list" where
  "remove_node el order = filter (\<lambda>n. fst n \<noteq> el) order"

text \<open>The eviction loop of \<open>record\<close>.\<close>

function evict :: "recent_history \<Rightarrow> recent_history" where
  "evict h =
     (if length (rs_order h) > recent_seq_history_cap then
        (case rs_order h of
           [] \<Rightarrow> h
         | (oldest, entry) # rest \<Rightarrow>
             evict (h \<lparr> rs_order := rest,
               rs_index := (if rs_index h (re_seq entry) = Some oldest
                            then (rs_index h)(re_seq entry := None) else rs_index h) \<rparr>))
      else h)"
  by auto
termination
  by (relation "measure (\<lambda>h. length (rs_order h))") auto

declare evict.simps [simp del]

definition record_recent :: "int \<Rightarrow> resolution \<Rightarrow> probe \<Rightarrow> recent_history \<Rightarrow> recent_history" where
  "record_recent wire_seq kind p h =
     (let order1 = (case rs_index h wire_seq of
            Some el \<Rightarrow> remove_node el (rs_order h) | None \<Rightarrow> rs_order h);
          el = rs_next h;
          entry = \<lparr> re_seq = wire_seq, re_kind = kind, re_probe = p \<rparr>
      in evict (h \<lparr> rs_order := order1 @ [(el, entry)],
                   rs_index := (rs_index h)(wire_seq \<mapsto> el), rs_next := el + 1 \<rparr>))"

definition lookup_recent :: "int \<Rightarrow> recent_history \<Rightarrow> recent_entry option" where
  "lookup_recent wire_seq h =
     (case rs_index h wire_seq of
        None \<Rightarrow> None
      | Some el \<Rightarrow> map_of (rs_order h) el)"

section \<open>The contract\<close>

text \<open>
  What the worker relies on: the newest resolution of a number is found, another number is found
  as before unless it was the oldest of a full history, and the size is bounded.
\<close>

locale seq_history =
  fixes inv :: "'h \<Rightarrow> bool"
    and put :: "int \<Rightarrow> resolution \<Rightarrow> probe \<Rightarrow> 'h \<Rightarrow> 'h"
    and get :: "int \<Rightarrow> 'h \<Rightarrow> recent_entry option"
    and abs :: "'h \<Rightarrow> recent_entry list"
    and cap :: nat
  assumes cap_pos: "0 < cap"
    and inv_put: "inv h \<Longrightarrow> inv (put s k p h)"
    and abs_put: "inv h \<Longrightarrow> abs (put s k p h)
      = lastn cap (filter (\<lambda>e. re_seq e \<noteq> s) (abs h) @ [\<lparr> re_seq = s, re_kind = k, re_probe = p \<rparr>])"
    and get_abs: "inv h \<Longrightarrow> get s h = find (\<lambda>e. re_seq e = s) (abs h)"
    and abs_distinct: "inv h \<Longrightarrow> distinct (map re_seq (abs h))"
    and abs_bound: "inv h \<Longrightarrow> length (abs h) \<le> cap"
begin

lemma get_put: "inv h \<Longrightarrow> get s (put s k p h) = Some \<lparr> re_seq = s, re_kind = k, re_probe = p \<rparr>"
proof -
  assume h: "inv h"
  obtain c where c: "cap = Suc c" using cap_pos by (cases cap) auto
  let ?l = "lastn c (filter (\<lambda>e. re_seq e \<noteq> s) (abs h))"
    and ?e = "\<lparr> re_seq = s, re_kind = k, re_probe = p \<rparr>"
  have miss: "\<forall>x\<in>set ?l. \<not> re_seq x = s"
    using set_lastn [of c "filter (\<lambda>e. re_seq e \<noteq> s) (abs h)"] by auto
  have "get s (put s k p h) = find (\<lambda>e. re_seq e = s) (?l @ [?e])"
    by (simp only: get_abs [OF inv_put [OF h]] abs_put [OF h] c lastn_Suc_snoc)
  also have "\<dots> = find (\<lambda>e. re_seq e = s) [?e]" by (rule find_append_miss [OF miss])
  finally show ?thesis by simp
qed

text \<open>Another number keeps its entry, or was evicted from a full history.\<close>

lemma get_put_other:
  "inv h \<Longrightarrow> s' \<noteq> s \<Longrightarrow> get s' (put s k p h) = get s' h \<or>
     get s' (put s k p h) = None \<and> cap \<le> length (abs h)"
proof -
  assume h: "inv h" and ne: "s' \<noteq> s"
  obtain c where c: "cap = Suc c" using cap_pos by (cases cap) auto
  let ?f = "filter (\<lambda>e. re_seq e \<noteq> s) (abs h)" and ?e = "\<lparr> re_seq = s, re_kind = k, re_probe = p \<rparr>"
  have ab: "abs (put s k p h) = lastn c ?f @ [?e]" by (simp add: abs_put h c lastn_Suc_snoc)
  have same: "find (\<lambda>e. re_seq e = s') ?f = find (\<lambda>e. re_seq e = s') (abs h)"
    by (rule find_filter_other) (use ne in auto)
  have d: "distinct (map re_seq ?f)" using abs_distinct [OF h] by (simp add: distinct_map_filter)
  have "find (\<lambda>e. re_seq e = s') (lastn c ?f @ [?e]) = find (\<lambda>e. re_seq e = s') (lastn c ?f)"
    using ne by (simp add: find_append_other)
  moreover have "find (\<lambda>e. re_seq e = s') (lastn c ?f) = find (\<lambda>e. re_seq e = s') ?f \<or>
      find (\<lambda>e. re_seq e = s') (lastn c ?f) = None \<and> c < length ?f"
    by (rule find_lastn [OF d])
  moreover have "c < length ?f \<Longrightarrow> cap \<le> length (abs h)"
    using length_filter_le [of "\<lambda>e. re_seq e \<noteq> s" "abs h"] by (simp only: c)
  ultimately show ?thesis
    unfolding get_abs [OF h] get_abs [OF inv_put [OF h]] ab same by metis
qed

lemma put_bounded: "inv h \<Longrightarrow> length (abs (put s k p h)) \<le> cap"
  by (simp add: abs_bound inv_put)

end

section \<open>The linked list keeps the contract\<close>

text \<open>Each node stands at one address, each number has one node and the index points at it.\<close>

definition linked :: "recent_history \<Rightarrow> bool" where
  "linked h \<longleftrightarrow> distinct (map fst (rs_order h)) \<and> (\<forall>n\<in>set (rs_order h). fst n < rs_next h)
     \<and> distinct (map (re_seq \<circ> snd) (rs_order h))
     \<and> (\<forall>s. rs_index h s = map_of (map (\<lambda>n. (re_seq (snd n), fst n)) (rs_order h)) s)"

definition entries :: "recent_history \<Rightarrow> recent_entry list" where
  "entries h = map snd (rs_order h)"

definition recent_inv :: "recent_history \<Rightarrow> bool" where
  "recent_inv h \<longleftrightarrow> linked h \<and> length (rs_order h) \<le> recent_seq_history_cap"

lemma new_recent_inv: "recent_inv new_recent_history"
  by (simp add: recent_inv_def linked_def new_recent_history_def)

lemma map_of_notin: "s \<notin> set (map (re_seq \<circ> snd) xs) \<Longrightarrow>
    map_of (map (\<lambda>n. (re_seq (snd n), fst n)) xs) s = None"
  by (induction xs) auto

lemma evict_linked:
  "linked h \<Longrightarrow> linked (evict h) \<and> entries (evict h) = lastn recent_seq_history_cap (entries h)"
proof (induction h rule: evict.induct)
  case (1 h)
  show ?case
  proof (cases "recent_seq_history_cap < length (rs_order h)")
    case False
    then show ?thesis using "1.prems" by (simp add: evict.simps [of h] lastn_all entries_def)
  next
    case True
    then obtain a e rest where o: "rs_order h = (a, e) # rest" by (cases "rs_order h") auto
    let ?h = "h \<lparr> rs_order := rest, rs_index := (if rs_index h (re_seq e) = Some a
                then (rs_index h)(re_seq e := None) else rs_index h) \<rparr>"
    have ev: "evict h = evict ?h" using True by (simp add: evict.simps [of h] o)
    have "linked ?h"
      using "1.prems" map_of_notin [of "re_seq e" rest] by (auto simp: linked_def o)
    then have "linked (evict ?h) \<and> entries (evict ?h) = lastn recent_seq_history_cap (entries ?h)"
      by (rule "1.IH" [OF True o refl])
    moreover have "lastn recent_seq_history_cap (entries h) = lastn recent_seq_history_cap (entries ?h)"
      using True by (simp add: entries_def lastn_def o Suc_diff_le)
    ultimately show ?thesis by (simp only: ev)
  qed
qed

text \<open>Removing the indexed node is removing the number's entry.\<close>

lemma linked_index_iff:
  assumes "linked h"
  shows "rs_index h s = Some a \<longleftrightarrow> (\<exists>e. (a, e) \<in> set (rs_order h) \<and> re_seq e = s)"
proof -
  let ?m = "map (\<lambda>n. (re_seq (snd n), fst n)) (rs_order h)"
  have "distinct (map fst ?m)" using assms by (simp add: linked_def comp_def)
  then have "map_of ?m s = Some a \<longleftrightarrow> (s, a) \<in> set ?m" by (rule map_of_eq_Some_iff)
  moreover have "(s, a) \<in> set ?m \<longleftrightarrow> (\<exists>e. (a, e) \<in> set (rs_order h) \<and> re_seq e = s)"
    by (force simp: image_iff)
  moreover have "rs_index h s = map_of ?m s" using assms by (simp add: linked_def)
  ultimately show ?thesis by simp
qed

lemma linked_index_None:
  "linked h \<Longrightarrow> rs_index h s = None \<Longrightarrow> \<forall>n\<in>set (rs_order h). re_seq (snd n) \<noteq> s"
  using linked_index_iff [of h s] by (metis option.distinct(1) prod.collapse)

lemma distinct_fst_eq: "distinct (map fst xs) \<Longrightarrow> (a, x) \<in> set xs \<Longrightarrow> (a, y) \<in> set xs \<Longrightarrow> x = y"
  by (metis map_of_is_SomeI option.inject)

lemma remove_node_seq:
  assumes l: "linked h" and i: "rs_index h s = Some a"
  shows "remove_node a (rs_order h) = filter (\<lambda>n. re_seq (snd n) \<noteq> s) (rs_order h)"
proof -
  obtain e where e: "(a, e) \<in> set (rs_order h)" "re_seq e = s"
    using l i by (auto simp: linked_index_iff)
  have "fst n = a \<longleftrightarrow> re_seq (snd n) = s" if n: "n \<in> set (rs_order h)" for n
  proof
    assume "fst n = a"
    then have "(a, snd n) \<in> set (rs_order h)" using n by (cases n) simp
    moreover have "distinct (map fst (rs_order h))" using l by (simp add: linked_def)
    ultimately have "snd n = e" using distinct_fst_eq e(1) by metis
    then show "re_seq (snd n) = s" using e(2) by simp
  next
    assume "re_seq (snd n) = s"
    moreover from n have "(fst n, snd n) \<in> set (rs_order h)" by simp
    ultimately have "rs_index h s = Some (fst n)" using l linked_index_iff by blast
    with i show "fst n = a" by simp
  qed
  then show ?thesis unfolding remove_node_def by (intro filter_cong) auto
qed

lemma map_of_filter_snoc:
  "map_of (filter (\<lambda>kv. fst kv \<noteq> s) xs @ [(s, a)]) = (map_of xs)(s \<mapsto> a)"
  by (induction xs) (auto simp: fun_eq_iff map_of_eq_None_iff)

lemma record_recent_linked:
  assumes l: "linked h"
    and e_def: "e = \<lparr> re_seq = s, re_kind = k, re_probe = p \<rparr>"
  shows "linked (record_recent s k p h) \<and>
    entries (record_recent s k p h) = lastn recent_seq_history_cap (filter (\<lambda>e. re_seq e \<noteq> s) (entries h) @ [e])"
proof -
  let ?f = "filter (\<lambda>n. re_seq (snd n) \<noteq> s) (rs_order h)"
  let ?h = "h \<lparr> rs_order := ?f @ [(rs_next h, e)], rs_index := (rs_index h)(s \<mapsto> rs_next h),
      rs_next := rs_next h + 1 \<rparr>"
  have "(case rs_index h s of Some el \<Rightarrow> remove_node el (rs_order h) | None \<Rightarrow> rs_order h) = ?f"
  proof (cases "rs_index h s")
    case None
    then show ?thesis using linked_index_None [OF l None] by (simp add: filter_id_conv)
  next
    case (Some a)
    then show ?thesis by (simp add: remove_node_seq [OF l])
  qed
  then have r: "record_recent s k p h = evict ?h"
    by (simp add: record_recent_def Let_def e_def)
  have idx: "map_of (map (\<lambda>n. (re_seq (snd n), fst n)) (?f @ [(rs_next h, e)])) = (rs_index h)(s \<mapsto> rs_next h)"
  proof -
    have "map (\<lambda>n. (re_seq (snd n), fst n)) ?f
        = filter (\<lambda>kv. fst kv \<noteq> s) (map (\<lambda>n. (re_seq (snd n), fst n)) (rs_order h))"
      by (simp add: filter_map comp_def)
    moreover have "map_of (map (\<lambda>n. (re_seq (snd n), fst n)) (rs_order h)) = rs_index h"
      using l by (simp add: linked_def fun_eq_iff)
    ultimately show ?thesis using map_of_filter_snoc [of s _ "rs_next h"] by (simp add: e_def)
  qed
  have "linked ?h" using l idx by (auto simp: linked_def e_def distinct_map_filter comp_def)
  moreover have "entries ?h = filter (\<lambda>e. re_seq e \<noteq> s) (entries h) @ [e]"
    by (simp add: entries_def filter_map comp_def)
  ultimately show ?thesis using evict_linked [of ?h] by (simp add: r)
qed

lemma find_distinct: "distinct (map f xs) \<Longrightarrow> x \<in> set xs \<Longrightarrow> find (\<lambda>y. f y = f x) xs = Some x"
  by (induction xs) (auto simp: rev_image_eqI)

lemma lookup_recent_entries:
  assumes l: "linked h"
  shows "lookup_recent s h = find (\<lambda>e. re_seq e = s) (entries h)"
proof (cases "rs_index h s")
  case None
  then have "\<forall>n\<in>set (rs_order h). re_seq (snd n) \<noteq> s" by (rule linked_index_None [OF l])
  then show ?thesis by (auto simp: lookup_recent_def None entries_def find_None_iff [symmetric] eq_commute [of None] find_None_iff)
next
  case (Some a)
  then obtain e where e: "(a, e) \<in> set (rs_order h)" "re_seq e = s"
    using l by (auto simp: linked_index_iff)
  have "map_of (rs_order h) a = Some e" using l e by (simp add: linked_def)
  moreover have "e \<in> set (entries h)" "distinct (map re_seq (entries h))"
    using l e(1) by (force simp: linked_def entries_def)+
  then have "find (\<lambda>e. re_seq e = s) (entries h) = Some e"
    using find_distinct [of re_seq "entries h" e] e(2) by simp
  ultimately show ?thesis by (simp add: lookup_recent_def Some)
qed

interpretation recent: seq_history recent_inv record_recent lookup_recent entries recent_seq_history_cap
proof unfold_locales
  show "0 < recent_seq_history_cap" by (simp add: recent_seq_history_cap_def)
next
  fix h s k p assume h: "recent_inv h"
  then have l: "linked h" by (simp add: recent_inv_def)
  show r: "entries (record_recent s k p h) = lastn recent_seq_history_cap
      (filter (\<lambda>e. re_seq e \<noteq> s) (entries h) @ [\<lparr> re_seq = s, re_kind = k, re_probe = p \<rparr>])"
    using record_recent_linked [OF l refl] by simp
  have "length (rs_order (record_recent s k p h)) \<le> recent_seq_history_cap"
    using arg_cong [OF r, of length] by (simp add: entries_def)
  then show "recent_inv (record_recent s k p h)"
    using record_recent_linked [OF l refl] by (simp add: recent_inv_def)
next
  fix h s assume "recent_inv h"
  then show "lookup_recent s h = find (\<lambda>e. re_seq e = s) (entries h)"
    by (simp add: recent_inv_def lookup_recent_entries)
next
  fix h assume "recent_inv h"
  then show "distinct (map re_seq (entries h))" and "length (entries h) \<le> recent_seq_history_cap"
    by (simp_all add: recent_inv_def linked_def entries_def)
qed

section \<open>What the worker sees\<close>

text \<open>A history built by a sequence of \<open>record\<close> calls.\<close>

definition recorded :: "(int \<times> resolution \<times> probe) list \<Rightarrow> recent_history" where
  "recorded rs = fold (\<lambda>(s, k, p). record_recent s k p) rs new_recent_history"

lemma recorded_inv: "recent_inv (recorded rs)"
proof -
  have "recent_inv h \<Longrightarrow> recent_inv (fold (\<lambda>(s, k, p). record_recent s k p) rs h)" for h
    by (induction rs arbitrary: h) (auto simp: recent.inv_put)
  then show ?thesis by (simp add: recorded_def new_recent_inv)
qed

lemma recorded_snoc: "recorded (rs @ [(s, k, p)]) = record_recent s k p (recorded rs)"
  by (simp add: recorded_def)

text \<open>As long as every resolution has a number of its own, the history is the last 512 of them.\<close>

lemma recorded_entries:
  "distinct (map fst rs) \<Longrightarrow> entries (recorded rs) = lastn recent_seq_history_cap
     (map (\<lambda>(s, k, p). \<lparr> re_seq = s, re_kind = k, re_probe = p \<rparr>) rs)"
proof (induction rs rule: rev_induct)
  case Nil
  then show ?case by (simp add: recorded_def new_recent_history_def entries_def)
next
  case (snoc r rs)
  obtain s k p where r: "r = (s, k, p)" by (cases r) auto
  let ?g = "map (\<lambda>(s, k, p). \<lparr> re_seq = s, re_kind = k, re_probe = p \<rparr>)"
  have IH: "entries (recorded rs) = lastn recent_seq_history_cap (?g rs)" using snoc by simp
  have "\<forall>e\<in>set (?g rs). re_seq e \<noteq> s" using snoc.prems by (force simp: r)
  then have "filter (\<lambda>e. re_seq e \<noteq> s) (entries (recorded rs)) = entries (recorded rs)"
    unfolding IH filter_id_conv using set_lastn [of recent_seq_history_cap "?g rs"]
    by (meson subsetD)
  then show ?case
    by (simp add: r recorded_snoc recent.abs_put [OF recorded_inv] IH lastn_append_lastn)
qed

text \<open>\<open>record\<close> keeps what \<open>lookup\<close> needs to tell a duplicate from a late reply: after any calls,
  the number just recorded is found with its resolution and its probe, any other number is found
  exactly as before unless it is evicted, which happens only to a full history of 512 entries,
  and the size stays at most 512.\<close>

theorem recent_history_lookup:
  "lookup_recent s (record_recent s k p (recorded rs)) = Some \<lparr> re_seq = s, re_kind = k, re_probe = p \<rparr> \<and>
   (s' = s \<or> lookup_recent s' (record_recent s k p (recorded rs)) = lookup_recent s' (recorded rs) \<or>
      lookup_recent s' (record_recent s k p (recorded rs)) = None \<and> length (rs_order (recorded rs)) = 512) \<and>
   length (rs_order (record_recent s k p (recorded rs))) \<le> 512"
proof -
  have b: "length (rs_order (record_recent s k p (recorded rs))) \<le> 512"
    using recent.put_bounded [OF recorded_inv, of s k p rs]
    by (simp add: entries_def recent_seq_history_cap_def)
  have "length (rs_order (recorded rs)) \<le> 512"
    using recent.abs_bound [OF recorded_inv, of rs] by (simp add: entries_def recent_seq_history_cap_def)
  then show ?thesis
    using recent.get_put [OF recorded_inv, of s k p rs] b
      recent.get_put_other [OF recorded_inv, of s' s k p rs]
    by (auto simp: entries_def recent_seq_history_cap_def)
qed

text \<open>The history is large enough for what it is used for: a number resolved with fewer than 512
  resolutions of other numbers after it is still found, with its own resolution.\<close>

theorem recent_resolution_found:
  assumes "distinct (map fst (before @ (s, k, p) # after))" and "length after < 512"
  shows "lookup_recent s (recorded (before @ (s, k, p) # after))
    = Some \<lparr> re_seq = s, re_kind = k, re_probe = p \<rparr>"
proof -
  let ?g = "map (\<lambda>(s, k, p). \<lparr> re_seq = s, re_kind = k, re_probe = p \<rparr>)"
  let ?e = "\<lparr> re_seq = s, re_kind = k, re_probe = p \<rparr>"
  let ?h = "recorded (before @ (s, k, p) # after)"
  have e: "entries ?h = lastn recent_seq_history_cap (?g (before @ (s, k, p) # after))"
    using assms(1) by (rule recorded_entries)
  have "lastn 512 (?g before @ ?e # ?g after)
      = drop (length before + 1 + length after - 512) (?g before) @ ?e # ?g after"
    using assms(2) by (simp add: lastn_def)
  then have "?e \<in> set (entries ?h)" by (simp add: e recent_seq_history_cap_def)
  moreover have "distinct (map re_seq (entries ?h))" by (rule recent.abs_distinct [OF recorded_inv])
  ultimately have "find (\<lambda>e. re_seq e = re_seq ?e) (entries ?h) = Some ?e"
    by (intro find_distinct)
  then have f: "find (\<lambda>e. re_seq e = s) (entries ?h) = Some ?e" by (simp only: recent_entry.simps)
  show ?thesis by (subst recent.get_abs [OF recorded_inv]) (rule f)
qed

theorem recent_resolution_found_witness:
  "lookup_recent 2 (recorded ([(1, ResolvedAcked, zero_probe)] @
     (2, ResolvedTimeout, \<lparr> pr_target = Some 0, pr_epoch = 3 \<rparr>) # [(4, ResolvedAcked, \<lparr> pr_target = Some 0, pr_epoch = 3 \<rparr>)]))
   = Some \<lparr> re_seq = 2, re_kind = ResolvedTimeout, re_probe = \<lparr> pr_target = Some 0, pr_epoch = 3 \<rparr> \<rparr>"
  by (rule recent_resolution_found) simp_all

end
