(* ===== verification/Ping_Worker.thy ===== *)
theory Ping_Worker
  imports Target_View Echo_Dispatch Recent_Seq "HOL-Library.Word"
begin

text \<open>
  The worker that probes one target (internal/pinger/worker.go, with the resolution of the
  target's address from resolve.go): sending, settling replies, sweeping timeouts and the drain
  at the end of a bounded run. Each branch of the worker's \<open>select\<close> is an event; what other
  goroutines do to the target while the worker is inside a branch is a list of target operations
  the event carries. The network, the DNS lookup and the ICMP encoder are arguments.
\<close>

section \<open>Sending a probe\<close>

text \<open>An address as the code uses it: whether \<open>To4\<close> succeeds, and its text.\<close>

record ip_addr =
  ia_v4 :: bool
  ia_text :: string

record worker_config =
  wc_id :: int
  wc_address :: string
  wc_source :: string
  wc_count :: int
  wc_size :: int
  wc_timeout :: duration
  wc_initial_seq :: int
  wc_proc_start :: gotime
  wc_conn_v4 :: bool
  wc_conn_v6 :: bool
  wc_asn :: bool
  wc_ptr :: bool
  wc_marshal :: "icmp_message \<Rightarrow> byte list option"

definition get_write_func :: "worker_config \<Rightarrow> ip_addr \<Rightarrow> string + icmp_type" where
  "get_write_func c dst =
     (if ia_v4 dst then (if wc_conn_v4 c then Inr (ICMPv4 8) else Inl ''No IPv4 Conn'')
      else if wc_conn_v6 c then Inr (ICMPv6 128) else Inl ''No IPv6 Conn'')"

definition apply_last_err_source :: "string \<Rightarrow> string \<Rightarrow> string" where
  "apply_last_err_source source msg =
     (if source \<noteq> [] \<and> str_contains msg ''write ip 0.0.0.0->''
      then str_replace1 msg ''write ip 0.0.0.0->'' (''write ip '' @ source @ ''->'')
      else msg)"

text \<open>
  Operations of other goroutines on the target while the worker runs: every operation but the
  ones only a worker's probe performs.
\<close>

type_synonym env_ops = "(clock \<times> target_op) list"

fun env_op :: "target_op \<Rightarrow> bool" where
  "env_op IncSent = False"
| "env_op (OnSuccess rtt ttl) = False"
| "env_op OnDuplicate = False"
| "env_op OnLateReply = False"
| "env_op (OnFailure reason) = False"
| "env_op (ProbeOp p u) = False"
| "env_op op = True"

definition env_run :: "env_ops \<Rightarrow> target_stats \<Rightarrow> target_stats" where
  "env_run ops t = fold (\<lambda>(clk, op) t. fst (target_step clk op t)) ops t"

text \<open>
  \<open>sendProbeWithStats\<close>: the target, the payload buffer, the packet handed to the connection and
  the start time when it was written. \<open>write\<close> is the connection's answer (None: no error),
  \<open>mid\<close> what happens to the target between the creation of the probe and its outcome.
\<close>

record send_result =
  sr_target :: target_stats
  sr_payload :: "byte list"
  sr_packet :: "byte list option"
  sr_start :: "gotime option"

definition probe_message :: "icmp_type \<Rightarrow> int \<Rightarrow> int \<Rightarrow> byte list \<Rightarrow> icmp_message" where
  "probe_message ty ident sq payload =
     \<lparr> im_type = ty, im_code = 0, im_body = Echo ident (sq AND seq_mask) payload \<rparr>"

definition send_probe_with_stats ::
  "worker_config \<Rightarrow> clock \<Rightarrow> gotime \<Rightarrow> (byte list \<Rightarrow> string option) \<Rightarrow> env_ops \<Rightarrow> probe \<Rightarrow> int \<Rightarrow>
   byte list \<Rightarrow> ip_addr \<Rightarrow> target_stats \<Rightarrow> send_result" where
  "send_probe_with_stats c clk start write mid p sq payload dst t =
     (let t = env_run mid t in
      case get_write_func c dst of
        Inl err \<Rightarrow> \<lparr> sr_target = fst (probe_apply clk p (POnFailure err) t), sr_payload = payload,
                    sr_packet = None, sr_start = None \<rparr>
      | Inr ty \<Rightarrow>
          (let payload' = embed_send_timestamp (wc_proc_start c) payload start in
           case wc_marshal c (probe_message ty (wc_id c) sq payload') of
             None \<Rightarrow> \<lparr> sr_target = t, sr_payload = payload', sr_packet = None, sr_start = None \<rparr>
           | Some b \<Rightarrow>
               (case write b of
                  Some err \<Rightarrow>
                    \<lparr> sr_target = fst (probe_apply clk p
                         (POnFailure (apply_last_err_source (wc_source c) err)) t),
                      sr_payload = payload', sr_packet = Some b, sr_start = None \<rparr>
                | None \<Rightarrow>
                    \<lparr> sr_target = fst (probe_apply clk p PIncSent t), sr_payload = payload',
                      sr_packet = Some b, sr_start = Some start \<rparr>)))"

section \<open>Resolving the target\<close>

text \<open>
  What the bounded lookup can return: an address, no address and no error, an error, the error of
  a stopped pinger, or anything with the worker's context cancelled.
\<close>

datatype resolve_outcome = Resolved ip_addr | ResolvedNil | ResolveError | PingerStopped | ContextCancelled

datatype lookup = LookupASN string | LookupPTR string

text \<open>The lookups are the goroutines \<open>resolveTargetContext\<close> starts; \<open>mid\<close> happens during the query.\<close>

definition resolve_target ::
  "worker_config \<Rightarrow> clock \<Rightarrow> (string \<Rightarrow> resolve_outcome) \<Rightarrow> env_ops \<Rightarrow> target_stats \<Rightarrow>
   target_stats \<times> ip_addr option \<times> lookup list" where
  "resolve_target c clk query mid t =
     (let p = new_probe t;
          address = (if wc_address c = [] then resolve_address t else wc_address c);
          t = env_run mid t
      in case query address of
           ContextCancelled \<Rightarrow> (t, None, [])
         | PingerStopped \<Rightarrow> (t, None, [])
         | ResolveError \<Rightarrow> (fst (probe_apply clk p (POnFailure ''DNS Error'') t), None, [])
         | ResolvedNil \<Rightarrow> (fst (probe_apply clk p (POnFailure ''DNS Error'') t), None, [])
         | Resolved addr \<Rightarrow>
             (fst (target_step clk (SetTargetIP (ia_text addr)) t), Some addr,
              (if wc_asn c then [LookupASN (ia_text addr)] else []) @
              (if wc_ptr c then [LookupPTR (ia_text addr)] else [])))"

section \<open>Outstanding probes\<close>

record pending =
  pd_start :: gotime
  pd_probe :: probe

text \<open>The map of outstanding probes, as an association list with one entry per number.\<close>

type_synonym unacked = "(int \<times> pending) list"

definition un_del :: "int \<Rightarrow> unacked \<Rightarrow> unacked" where
  "un_del k un = filter (\<lambda>e. fst e \<noteq> k) un"

definition un_put :: "int \<Rightarrow> pending \<Rightarrow> unacked \<Rightarrow> unacked" where
  "un_put k v un = (k, v) # un_del k un"

definition next_expiry :: "unacked \<Rightarrow> duration \<Rightarrow> gotime option" where
  "next_expiry un timeout =
     fold (\<lambda>(k, pend) best.
        let d = pd_start pend + timeout
        in case best of None \<Rightarrow> Some d | Some e \<Rightarrow> (if d < e then Some d else best)) un None"

text \<open>The time the sweep timer is armed for.\<close>

definition rearm_sweep_timer :: "gotime \<Rightarrow> unacked \<Rightarrow> duration \<Rightarrow> gotime option" where
  "rearm_sweep_timer now un timeout = map_option (\<lambda>d. now + max (d - now) 0) (next_expiry un timeout)"

text \<open>\<open>settleReply\<close>; the last component says whether the deadlines may have moved.\<close>

definition settle_reply ::
  "clock \<Rightarrow> gotime \<Rightarrow> reply \<Rightarrow> unacked \<times> recent_history \<times> target_stats \<Rightarrow>
   (unacked \<times> recent_history \<times> target_stats) \<times> bool" where
  "settle_reply clk now r s =
     (case s of (un, hist, t) \<Rightarrow>
      (case map_of un (rp_seq r) of
         Some pend \<Rightarrow>
           (let un' = un_del (rp_seq r) un;
                rtt = (if rp_rtt r \<le> 0 then now - pd_start pend else rp_rtt r);
                u = (if rp_err r \<noteq> [] then POnFailure (rp_err r) else POnSuccess rtt (rp_ttl r))
            in ((un', record_recent (rp_seq r) ResolvedAcked (pd_probe pend) hist,
                 fst (probe_apply clk (pd_probe pend) u t)), True))
       | None \<Rightarrow>
           (case lookup_recent (rp_seq r) hist of
              None \<Rightarrow> ((un, hist, t), False)
            | Some e \<Rightarrow>
                (case re_kind e of
                   ResolvedAcked \<Rightarrow> ((un, hist, fst (probe_apply clk (re_probe e) POnDuplicate t)), False)
                 | ResolvedTimeout \<Rightarrow> ((un, hist, fst (probe_apply clk (re_probe e) POnLateReply t)), False)))))"

text \<open>
  \<open>sweepTimeouts\<close>: the map is walked in some order, which is an argument; \<open>clks i\<close> is the clock
  of the i-th entry's loss.
\<close>

fun sweep_loop ::
  "string \<Rightarrow> (nat \<Rightarrow> clock) \<Rightarrow> gotime \<Rightarrow> duration \<Rightarrow> nat \<Rightarrow> int list \<Rightarrow>
   unacked \<times> recent_history \<times> target_stats \<Rightarrow> unacked \<times> recent_history \<times> target_stats" where
  "sweep_loop source clks now timeout i [] s = s"
| "sweep_loop source clks now timeout i (k # order) (un, hist, t) =
     sweep_loop source clks now timeout (Suc i) order
       (case map_of un k of
          None \<Rightarrow> (un, hist, t)
        | Some pend \<Rightarrow>
            (if now - pd_start pend \<ge> timeout
             then (un_del k un, record_recent k ResolvedTimeout (pd_probe pend) hist,
                   fst (probe_apply (clks i) (pd_probe pend)
                     (POnFailure (apply_last_err_source source ''Timeout'')) t))
             else (un, hist, t)))"

definition sweep_timeouts ::
  "string \<Rightarrow> (nat \<Rightarrow> clock) \<Rightarrow> gotime \<Rightarrow> duration \<Rightarrow> int list \<Rightarrow>
   unacked \<times> recent_history \<times> target_stats \<Rightarrow> unacked \<times> recent_history \<times> target_stats" where
  "sweep_timeouts source clks now timeout order s = sweep_loop source clks now timeout 0 order s"

section \<open>The worker loop\<close>

text \<open>
  The local variables of \<open>runTargetWorker\<close>. The send timer is armed or not, the sweep timer is
  armed for a time or stopped; \<open>wk_reply_open\<close> is whether \<open>replyCh\<close> is the channel yet. The
  packets written and the lookups started are the worker's output.
\<close>

record worker =
  wk_dst :: "ip_addr option"
  wk_seq :: int
  wk_payload :: "byte list"
  wk_unacked :: unacked
  wk_hist :: recent_history
  wk_done_sending :: bool
  wk_reply_open :: bool
  wk_send_armed :: bool
  wk_sweep_at :: "gotime option"
  wk_returned :: bool
  wk_packets :: "byte list list"
  wk_lookups :: "lookup list"

datatype worker_event =
    WStop
  | WDns "string \<Rightarrow> resolve_outcome" env_ops
  | WSend "string \<Rightarrow> resolve_outcome" env_ops env_ops "byte list \<Rightarrow> string option"
  | WReply reply
  | WSweep "int list"
  | WEnv target_op

definition start_worker ::
  "worker_config \<Rightarrow> clock \<Rightarrow> (string \<Rightarrow> resolve_outcome) \<Rightarrow> env_ops \<Rightarrow> target_stats \<Rightarrow> worker \<times> target_stats" where
  "start_worker c clk query mid t =
     (case resolve_target c clk query mid t of (t', dst, started) \<Rightarrow>
        (\<lparr> wk_dst = dst, wk_seq = wc_initial_seq c, wk_payload = build_payload (wc_size c),
           wk_unacked = [], wk_hist = new_recent_history, wk_done_sending = False,
           wk_reply_open = False, wk_send_armed = True, wk_sweep_at = None, wk_returned = False,
           wk_packets = [], wk_lookups = started \<rparr>, t'))"

text \<open>The deferred cancellation of what is still outstanding.\<close>

definition finish_worker :: "worker \<times> target_stats \<Rightarrow> worker \<times> target_stats" where
  "finish_worker s = (case s of (w, t) \<Rightarrow>
     (w \<lparr> wk_returned := True \<rparr>,
      fold (\<lambda>(k, pend) t. fst (probe_apply (\<lambda>_. 0) (pd_probe pend) POnCancelled t)) (wk_unacked w) t))"

text \<open>The test at the end of the loop body.\<close>

definition loop_end :: "worker \<times> target_stats \<Rightarrow> worker \<times> target_stats" where
  "loop_end s = (if wk_done_sending (fst s) \<and> wk_unacked (fst s) = [] then finish_worker s else s)"

text \<open>The send case after the address is known.\<close>

definition send_case ::
  "worker_config \<Rightarrow> (nat \<Rightarrow> clock) \<Rightarrow> env_ops \<Rightarrow> (byte list \<Rightarrow> string option) \<Rightarrow> ip_addr \<Rightarrow>
   worker \<times> target_stats \<Rightarrow> worker \<times> target_stats" where
  "send_case c clks mid write dst s =
     (case s of (w, t) \<Rightarrow>
      (let sq = wk_seq w + 1;
           p = new_probe t;
           r = send_probe_with_stats c (clks 1) (clks 2 0) write mid p sq (wk_payload w) dst t;
           w1 = w \<lparr> wk_seq := sq, wk_payload := sr_payload r,
                    wk_packets := wk_packets w @ (case sr_packet r of None \<Rightarrow> [] | Some b \<Rightarrow> [b]) \<rparr>;
           w2 = (case sr_start r of
                   None \<Rightarrow> w1
                 | Some start \<Rightarrow>
                     (let un = un_put (sq AND seq_mask) \<lparr> pd_start = start, pd_probe = p \<rparr> (wk_unacked w1)
                      in w1 \<lparr> wk_unacked := un,
                              wk_sweep_at := rearm_sweep_timer (clks 3 0) un (wc_timeout c),
                              wk_reply_open := True \<rparr>));
           w3 = (if wc_count c > 0 \<and> sq \<ge> wc_count c then w2 \<lparr> wk_done_sending := True \<rparr>
                 else w2 \<lparr> wk_send_armed := True \<rparr>)
       in loop_end (w3, sr_target r)))"

text \<open>
  One turn of the \<open>select\<close>; None when the case is not ready (the channel is nil or the timer not
  due) or the worker has returned. A fired timer stays unarmed until it is reset.
\<close>

fun worker_step ::
  "worker_config \<Rightarrow> (nat \<Rightarrow> clock) \<Rightarrow> worker_event \<Rightarrow> worker \<times> target_stats \<Rightarrow> (worker \<times> target_stats) option" where
  "worker_step c clks (WEnv op) (w, t) =
     (if env_op op then Some (w, fst (target_step (clks 0) op t)) else None)"
| "worker_step c clks WStop (w, t) =
     (if wk_returned w then None else Some (finish_worker (w, t)))"
| "worker_step c clks (WDns query mid) (w, t) =
     (if wk_returned w then None
      else case resolve_target c (clks 0) query mid t of (t', dst, started) \<Rightarrow>
        Some (loop_end (w \<lparr> wk_dst := (case dst of None \<Rightarrow> wk_dst w | Some a \<Rightarrow> Some a),
                            wk_lookups := wk_lookups w @ started \<rparr>, t')))"
| "worker_step c clks (WSend query mid0 mid write) (w, t) =
     (if wk_returned w \<or> \<not> wk_send_armed w then None
      else
        let w0 = w \<lparr> wk_send_armed := False \<rparr> in
        if wk_done_sending w then Some (w0, t)
        else (case wk_dst w of
                Some dst \<Rightarrow> Some (send_case c clks mid write dst (w0, t))
              | None \<Rightarrow>
                  (case resolve_target c (clks 0) query mid0 t of (t', dst', started) \<Rightarrow>
                     (let w1 = w0 \<lparr> wk_dst := dst', wk_lookups := wk_lookups w @ started \<rparr> in
                      case dst' of
                        None \<Rightarrow> Some (w1 \<lparr> wk_send_armed := True \<rparr>, t')
                      | Some dst \<Rightarrow> Some (send_case c clks mid write dst (w1, t'))))))"
| "worker_step c clks (WReply r) (w, t) =
     (if wk_returned w \<or> \<not> wk_reply_open w then None
      else case settle_reply (clks 0) (clks 1 0) r (wk_unacked w, wk_hist w, t) of
        ((un, hist, t'), moved) \<Rightarrow>
          Some (loop_end (w \<lparr> wk_unacked := un, wk_hist := hist,
            wk_sweep_at := (if moved then rearm_sweep_timer (clks 2 0) un (wc_timeout c)
                            else wk_sweep_at w) \<rparr>, t')))"
| "worker_step c clks (WSweep order) (w, t) =
     (case wk_sweep_at w of
        None \<Rightarrow> None
      | Some due \<Rightarrow>
          (if wk_returned w \<or> clks 0 0 < due \<or> \<not> distinct order \<or> set order \<noteq> fst ` set (wk_unacked w)
           then None
           else case sweep_timeouts (wc_source c) (\<lambda>i. clks (i + 2)) (clks 0 0) (wc_timeout c) order
                  (wk_unacked w, wk_hist w, t) of
             (un, hist, t') \<Rightarrow>
               Some (loop_end (w \<lparr> wk_unacked := un, wk_hist := hist,
                 wk_sweep_at := rearm_sweep_timer (clks 1 0) un (wc_timeout c) \<rparr>, t'))))"

section \<open>The counters an operation moves\<close>

lemma evaluate_health_counters [simp]:
  "ts_sent (evaluate_health e now t) = ts_sent t" "ts_recv (evaluate_health e now t) = ts_recv t"
  "ts_loss (evaluate_health e now t) = ts_loss t" "ts_cancelled (evaluate_health e now t) = ts_cancelled t"
  "ts_duplicates (evaluate_health e now t) = ts_duplicates t"
  "ts_late_replies (evaluate_health e now t) = ts_late_replies t"
  by (simp_all add: evaluate_health_def Let_def)

lemma record_outcome_counters [simp]:
  "ts_sent (record_outcome e now ok t) = ts_sent t" "ts_recv (record_outcome e now ok t) = ts_recv t"
  "ts_loss (record_outcome e now ok t) = ts_loss t" "ts_cancelled (record_outcome e now ok t) = ts_cancelled t"
  "ts_duplicates (record_outcome e now ok t) = ts_duplicates t"
  "ts_late_replies (record_outcome e now ok t) = ts_late_replies t"
  by (simp_all add: record_outcome_def)

lemma on_success_counters [simp]:
  "ts_id (on_success_locked clk r l t) = ts_id t"
  "ts_probe_epoch (on_success_locked clk r l t) = ts_probe_epoch t"
  "ts_sent (on_success_locked clk r l t) = ts_sent t" "ts_recv (on_success_locked clk r l t) = ts_recv t + 1"
  "ts_loss (on_success_locked clk r l t) = ts_loss t" "ts_cancelled (on_success_locked clk r l t) = ts_cancelled t"
  "ts_duplicates (on_success_locked clk r l t) = ts_duplicates t"
  "ts_late_replies (on_success_locked clk r l t) = ts_late_replies t"
  by (simp_all add: on_success_locked_def Let_def)

lemma on_failure_counters [simp]:
  "ts_id (on_failure_locked clk m t) = ts_id t"
  "ts_probe_epoch (on_failure_locked clk m t) = ts_probe_epoch t"
  "ts_sent (on_failure_locked clk m t) = ts_sent t" "ts_recv (on_failure_locked clk m t) = ts_recv t"
  "ts_loss (on_failure_locked clk m t) = ts_loss t + 1" "ts_cancelled (on_failure_locked clk m t) = ts_cancelled t"
  "ts_duplicates (on_failure_locked clk m t) = ts_duplicates t"
  "ts_late_replies (on_failure_locked clk m t) = ts_late_replies t"
  by (simp_all add: on_failure_locked_def Let_def)

lemma probe_apply_ident [simp]:
  "ts_id (fst (probe_apply clk p u t)) = ts_id t"
  "ts_probe_epoch (fst (probe_apply clk p u t)) = ts_probe_epoch t"
  by (cases u; simp add: probe_apply_def)+

text \<open>A probe of the current window of its own target counts, any other changes nothing.\<close>

definition live :: "target_stats \<Rightarrow> probe \<Rightarrow> bool" where
  "live t p = (pr_target p = Some (ts_id t) \<and> pr_epoch p = ts_probe_epoch t)"

lemma probe_apply_dead [simp]: "\<not> live t p \<Longrightarrow> fst (probe_apply clk p u t) = t"
  by (auto simp: probe_apply_def live_def)

lemma probe_apply_live: "live t p \<Longrightarrow> fst (probe_apply clk p u t) = probe_effect clk u t"
  by (simp add: probe_apply_def live_def)

lemma live_cong: "ts_id t' = ts_id t \<Longrightarrow> ts_probe_epoch t' = ts_probe_epoch t \<Longrightarrow> live t' = live t"
  by (simp add: live_def fun_eq_iff)

definition live_count :: "target_stats \<Rightarrow> unacked \<Rightarrow> int" where
  "live_count t un = int (length (filter (\<lambda>e. live t (pd_probe (snd e))) un))"

lemma live_count_cong:
  "ts_id t' = ts_id t \<Longrightarrow> ts_probe_epoch t' = ts_probe_epoch t \<Longrightarrow> live_count t' un = live_count t un"
  by (simp add: live_count_def live_def)

lemma live_count_Cons [simp]:
  "live_count t (e # un) = live_count t un + (if live t (pd_probe (snd e)) then 1 else 0)"
  "live_count t [] = 0"
  by (simp_all add: live_count_def)

lemma live_count_nonneg [simp]: "0 \<le> live_count t un"
  by (simp add: live_count_def)

lemma un_del_miss: "map_of un k = None \<Longrightarrow> un_del k un = un"
  by (auto simp: un_del_def filter_id_conv map_of_eq_None_iff)

lemma un_del_distinct [simp]: "distinct (map fst un) \<Longrightarrow> distinct (map fst (un_del k un))"
  by (simp add: un_del_def distinct_map_filter)

lemma un_del_keys [simp]: "fst ` set (un_del k un) = fst ` set un - {k}"
  by (auto simp: un_del_def)

lemma un_put_distinct [simp]: "distinct (map fst un) \<Longrightarrow> distinct (map fst (un_put k v un))"
  by (auto simp: un_put_def un_del_def distinct_map_filter)

lemma live_count_del:
  assumes "distinct (map fst un)" and "map_of un k = Some pend"
  shows "live_count t un = live_count t (un_del k un) + (if live t (pd_probe pend) then 1 else 0)"
  using assms
proof (induction un)
  case (Cons e un)
  show ?case
  proof (cases "fst e = k")
    case True
    with Cons.prems have "k \<notin> fst ` set un" "snd e = pend" by auto
    then have "un_del k un = un" by (auto simp: un_del_def filter_id_conv)
    then show ?thesis using True \<open>snd e = pend\<close> by (simp add: un_del_def)
  next
    case False
    then show ?thesis using Cons by (simp add: un_del_def)
  qed
qed simp

lemma live_count_put:
  assumes "distinct (map fst un)"
  shows "live_count t (un_put k v un) = live_count t un + (if live t (pd_probe v) then 1 else 0)
    - (case map_of un k of Some old \<Rightarrow> (if live t (pd_probe old) then 1 else 0) | None \<Rightarrow> 0)"
  using live_count_del [OF assms] un_del_miss [of un k]
  by (auto simp: un_put_def split: option.split)

section \<open>The balance\<close>

text \<open>
  The outcomes of the current window against the probes sent in it: every probe sent is replied
  to, lost, cancelled, outstanding, or its wire number was taken over while it was outstanding.
\<close>

definition balanced :: "target_stats \<Rightarrow> int \<Rightarrow> nat \<Rightarrow> bool" where
  "balanced t out n \<longleftrightarrow> ts_recv t + ts_cancelled t + out \<le> ts_sent t \<and>
     ts_sent t \<le> ts_recv t + ts_cancelled t + out + ts_loss t + int n \<and>
     0 \<le> ts_recv t \<and> 0 \<le> ts_cancelled t \<and> 0 \<le> ts_loss t"

definition probes_ok :: "target_stats \<Rightarrow> unacked \<Rightarrow> bool" where
  "probes_ok t un \<longleftrightarrow> distinct (map fst un) \<and>
     (\<forall>(k, pend)\<in>set un. pr_target (pd_probe pend) = Some (ts_id t) \<and>
        pr_epoch (pd_probe pend) \<le> ts_probe_epoch t \<and> 0 \<le> k \<and> k < 65536)"

lemma probes_ok_distinct: "probes_ok t un \<Longrightarrow> distinct (map fst un)"
  by (simp add: probes_ok_def)

lemma probes_ok_mono:
  "probes_ok t un \<Longrightarrow> ts_id t' = ts_id t \<Longrightarrow> ts_probe_epoch t \<le> ts_probe_epoch t' \<Longrightarrow> probes_ok t' un"
  by (fastforce simp: probes_ok_def)

lemma probes_ok_del: "probes_ok t un \<Longrightarrow> probes_ok t (un_del k un)"
  by (auto simp: probes_ok_def distinct_map_filter un_del_def)

lemma probes_ok_put:
  "probes_ok t un \<Longrightarrow> pr_target (pd_probe v) = Some (ts_id t) \<Longrightarrow>
   pr_epoch (pd_probe v) \<le> ts_probe_epoch t \<Longrightarrow> 0 \<le> k \<Longrightarrow> k < 65536 \<Longrightarrow> probes_ok t (un_put k v un)"
  using probes_ok_del [of t un k] by (auto simp: probes_ok_def un_put_def un_del_def)

text \<open>An operation of another goroutine leaves the counters alone, or starts a new window.\<close>

lemma env_step_counters:
  fixes clk t
  assumes "env_op op"
  defines "t' \<equiv> fst (target_step clk op t)"
  shows "op = ResetStats \<and> ts_sent t' = 0 \<and> ts_recv t' = 0 \<and> ts_loss t' = 0 \<and> ts_cancelled t' = 0 \<or>
    op \<noteq> ResetStats \<and> ts_sent t' = ts_sent t \<and> ts_recv t' = ts_recv t \<and> ts_loss t' = ts_loss t \<and>
      ts_cancelled t' = ts_cancelled t"
  using assms
  by (cases op) (simp_all add: target_setters record_event_def set_ip_def reset_stats_def
      configure_health_def set_display_name_def ensure_mtr_def Let_def split: option.split)

text \<open>What holds before and after any turn of the worker or of another goroutine.\<close>

definition wk_ok :: "target_stats \<Rightarrow> unacked \<Rightarrow> nat \<Rightarrow> bool" where
  "wk_ok t un n \<longleftrightarrow> probes_ok t un \<and> balanced t (live_count t un) n"

lemma stale_live_count: "probes_ok t un \<Longrightarrow> ts_id t' = ts_id t \<Longrightarrow> ts_probe_epoch t < ts_probe_epoch t' \<Longrightarrow>
    live_count t' un = 0"
  by (fastforce simp: probes_ok_def live_count_def live_def filter_empty_conv)

lemma wk_ok_env:
  assumes "wk_ok t un n" and "env_op op"
  shows "wk_ok (fst (target_step clk op t)) un n"
proof -
  let ?t = "fst (target_step clk op t)"
  note e = target_step_epoch [of clk op t]
  have p: "probes_ok ?t un" using assms(1) e by (auto simp: wk_ok_def intro: probes_ok_mono)
  show ?thesis
  proof (cases "op = ResetStats")
    case True
    then have "live_count ?t un = 0" using assms(1) e by (intro stale_live_count) (auto simp: wk_ok_def)
    then show ?thesis using p env_step_counters [OF assms(2), of clk t] True
      by (simp add: wk_ok_def balanced_def)
  next
    case False
    then have "live_count ?t un = live_count t un" by (intro live_count_cong) (simp_all add: e)
    then show ?thesis using p env_step_counters [OF assms(2), of clk t] False assms(1)
      by (simp add: wk_ok_def balanced_def)
  qed
qed

definition env_ok :: "env_ops \<Rightarrow> bool" where
  "env_ok ops \<longleftrightarrow> (\<forall>(clk, op)\<in>set ops. env_op op)"

lemma env_run_simps [simp]:
  "env_run [] t = t"
  "env_run ((clk, op) # ops) t = env_run ops (fst (target_step clk op t))"
  by (simp_all add: env_run_def)

lemma wk_ok_env_run: "env_ok ops \<Longrightarrow> wk_ok t un n \<Longrightarrow> wk_ok (env_run ops t) un n"
  by (induction ops arbitrary: t) (auto simp: env_ok_def wk_ok_env)

lemma env_run_ident:
  "ts_id (env_run ops t) = ts_id t \<and> ts_probe_epoch t \<le> ts_probe_epoch (env_run ops t)"
proof (induction ops arbitrary: t)
  case (Cons a ops)
  then show ?case
    using Cons.IH [of "fst (target_step (fst a) (snd a) t)"]
    by (cases a) (simp add: target_step_epoch)
qed simp

text \<open>A failure that no written probe stands for.\<close>

lemma wk_ok_failure: "wk_ok t un n \<Longrightarrow> wk_ok (fst (probe_apply clk p (POnFailure m) t)) un n"
proof (cases "live t p")
  case True
  assume "wk_ok t un n"
  moreover have "live_count (on_failure_locked clk m t) un = live_count t un" by (rule live_count_cong) simp_all
  ultimately show ?thesis
    using True by (auto simp: wk_ok_def balanced_def probe_apply_live intro: probes_ok_mono)
qed simp

text \<open>A probe written, and stored under its wire number.\<close>

lemma wk_ok_sent:
  assumes t: "wk_ok t un n" and p: "pr_target p = Some (ts_id t)" "pr_epoch p \<le> ts_probe_epoch t"
    and k: "0 \<le> k" "k < 65536"
  shows "wk_ok (fst (probe_apply clk p PIncSent t)) (un_put k \<lparr> pd_start = start, pd_probe = p \<rparr> un)
    (n + (if map_of un k = None then 0 else 1))"
proof -
  let ?t = "fst (probe_apply clk p PIncSent t)" and ?v = "\<lparr> pd_start = start, pd_probe = p \<rparr>"
  have "probes_ok ?t (un_put k ?v un)"
    using t p k probes_ok_mono [of t un ?t] by (intro probes_ok_put) (auto simp: wk_ok_def)
  moreover have "live_count ?t (un_put k ?v un) = live_count t (un_put k ?v un)"
    by (rule live_count_cong) simp_all
  moreover have "balanced ?t (live_count t (un_put k ?v un)) (n + (if map_of un k = None then 0 else 1))"
    using t live_count_put [OF probes_ok_distinct, of t un t k ?v]
    by (cases "live t p") (auto simp: wk_ok_def balanced_def probe_apply_live split: option.splits if_splits)
  ultimately show ?thesis by (simp add: wk_ok_def)
qed

text \<open>An outstanding probe that is resolved.\<close>

lemma wk_ok_resolved:
  assumes t: "wk_ok t un n" and k: "map_of un k = Some pend"
    and u: "u = POnFailure m \<or> u = POnSuccess rtt ttl \<or> u = POnCancelled"
  shows "wk_ok (fst (probe_apply clk (pd_probe pend) u t)) (un_del k un) n"
proof -
  let ?t = "fst (probe_apply clk (pd_probe pend) u t)"
  have "probes_ok ?t (un_del k un)"
    using t by (intro probes_ok_del) (auto simp: wk_ok_def intro: probes_ok_mono)
  moreover have "live_count ?t (un_del k un) = live_count t (un_del k un)"
    by (rule live_count_cong) simp_all
  moreover have "balanced ?t (live_count t (un_del k un)) n"
    using t u live_count_del [OF probes_ok_distinct k, of t t]
    by (cases "live t (pd_probe pend)") (auto simp: wk_ok_def balanced_def probe_apply_live)
  ultimately show ?thesis by (simp add: wk_ok_def)
qed

lemma wk_ok_other:
  assumes "wk_ok t un n" and "u = POnDuplicate \<or> u = POnLateReply"
  shows "wk_ok (fst (probe_apply clk p u t)) un n"
proof -
  let ?t = "fst (probe_apply clk p u t)"
  have "probes_ok ?t un" using assms(1) by (auto simp: wk_ok_def intro: probes_ok_mono)
  moreover have "live_count ?t un = live_count t un" by (rule live_count_cong) simp_all
  moreover have "balanced ?t (live_count t un) n"
    using assms by (cases "live t p") (auto simp: wk_ok_def balanced_def probe_apply_live)
  ultimately show ?thesis by (simp add: wk_ok_def)
qed

section \<open>Every turn keeps the balance\<close>

lemma settle_reply_ok:
  assumes "settle_reply clk now r (un, hist, t) = ((un', hist', t'), moved)"
    and "wk_ok t un n" and "recent_inv hist"
  shows "wk_ok t' un' n \<and> recent_inv hist'"
proof (cases "map_of un (rp_seq r)")
  case (Some pend)
  then show ?thesis
    using assms wk_ok_resolved [OF assms(2) Some] recent.inv_put
    by (auto simp: settle_reply_def Let_def)
next
  case None
  then show ?thesis
    using assms wk_ok_other [OF assms(2)]
    by (auto simp: settle_reply_def split: option.splits resolution.splits)
qed

lemma sweep_loop_ok:
  assumes "sweep_loop source clks now timeout i order (un, hist, t) = (un', hist', t')"
    and "wk_ok t un n" and "recent_inv hist"
  shows "wk_ok t' un' n \<and> recent_inv hist'"
  using assms
proof (induction order arbitrary: i un hist t)
  case (Cons k order)
  then show ?case
  proof (cases "map_of un k")
    case (Some pend)
    note resolved = wk_ok_resolved [OF Cons.prems(2) Some]
    show ?thesis
      using Cons.prems Cons.IH resolved recent.inv_put [OF Cons.prems(3)]
      by (cases "timeout \<le> now - pd_start pend") (auto simp: Some)
  qed simp
qed simp

lemma finish_worker_unacked:
  "fold (\<lambda>(k, pend) t. fst (probe_apply (\<lambda>_. 0) (pd_probe pend) POnCancelled t)) un t = t' \<Longrightarrow>
   wk_ok t un n \<Longrightarrow> wk_ok t' [] n"
proof (induction un arbitrary: t)
  case (Cons e un)
  obtain k pend where e: "e = (k, pend)" by (cases e)
  have "wk_ok (fst (probe_apply (\<lambda>_. 0) (pd_probe pend) POnCancelled t)) (un_del k (e # un)) n"
    by (rule wk_ok_resolved [OF Cons.prems(2)]) (simp_all add: e)
  moreover have "un_del k (e # un) = un"
    using Cons.prems(2) by (auto simp: e un_del_def filter_id_conv wk_ok_def probes_ok_def)
  ultimately show ?case using Cons.IH Cons.prems(1) by (simp add: e)
qed simp

text \<open>The probes a worker still answers for.\<close>

definition outstanding :: "worker \<Rightarrow> unacked" where
  "outstanding w = (if wk_returned w then [] else wk_unacked w)"

definition worker_ok :: "worker_config \<Rightarrow> worker \<times> target_stats \<Rightarrow> nat \<Rightarrow> bool" where
  "worker_ok c s n \<longleftrightarrow> wk_ok (snd s) (outstanding (fst s)) n \<and> recent_inv (wk_hist (fst s)) \<and>
     int (length (wk_packets (fst s))) \<le> wk_seq (fst s) - wc_initial_seq c \<and>
     (0 < wc_count c \<longrightarrow> wk_seq (fst s) \<le> max (wc_initial_seq c + 1) (wc_count c) \<and>
        (\<not> wk_done_sending (fst s) \<longrightarrow>
           wk_seq (fst s) = wc_initial_seq c \<or> wk_seq (fst s) < wc_count c))"

lemma worker_ok_finish:
  assumes "worker_ok c s n" and "\<not> wk_returned (fst s)"
  shows "worker_ok c (finish_worker s) n"
  using assms finish_worker_unacked [OF refl, of "snd s" "wk_unacked (fst s)" n]
  by (auto simp: worker_ok_def finish_worker_def outstanding_def split: prod.splits)

lemma worker_ok_loop_end: "worker_ok c s n \<Longrightarrow> \<not> wk_returned (fst s) \<Longrightarrow> worker_ok c (loop_end s) n"
  by (simp add: loop_end_def worker_ok_finish)

lemma resolve_target_ok:
  assumes "resolve_target c clk query mid t = (t', dst, started)" and "env_ok mid" and "wk_ok t un n"
  shows "wk_ok t' un n"
proof -
  let ?t = "env_run mid t"
  have ok: "wk_ok ?t un n" using assms(2,3) by (rule wk_ok_env_run)
  have ip: "wk_ok (fst (target_step clk (SetTargetIP ip) ?t)) un n" for ip
    by (rule wk_ok_env [OF ok]) simp
  show ?thesis
    using assms(1) ok wk_ok_failure [OF ok] ip
    by (auto simp: resolve_target_def Let_def split: resolve_outcome.splits)
qed

text \<open>The wire numbers taken over while outstanding: a send under a number still in the map.\<close>

definition reused :: "worker_event \<Rightarrow> worker \<Rightarrow> nat" where
  "reused ev w = (case ev of
     WSend _ _ _ _ \<Rightarrow> (if map_of (wk_unacked w) ((wk_seq w + 1) AND seq_mask) = None then 0 else 1)
   | _ \<Rightarrow> 0)"

lemma seq_mask_range: "0 \<le> sq AND seq_mask \<and> sq AND seq_mask < 65536"
proof -
  have "sq AND seq_mask = take_bit 16 sq" by (simp add: seq_mask_def take_bit_eq_mask mask_eq_exp_minus_1)
  then show ?thesis using take_bit_int_less_exp [of 16 sq] by simp
qed

lemma balanced_mono: "balanced t k n \<Longrightarrow> n \<le> m \<Longrightarrow> balanced t k m"
  by (auto simp: balanced_def)

lemma wk_ok_mono: "wk_ok t un n \<Longrightarrow> n \<le> m \<Longrightarrow> wk_ok t un m"
  by (auto simp: wk_ok_def intro: balanced_mono)

lemma send_probe_ok:
  assumes r: "r = send_probe_with_stats c clk start write mid (new_probe t) sq payload dst t"
    and mid: "env_ok mid" and t: "wk_ok t un n" and k: "0 \<le> k" "k < 65536"
  shows "(sr_start r = None \<longrightarrow> wk_ok (sr_target r) un n) \<and>
    (\<forall>st. sr_start r = Some st \<longrightarrow> wk_ok (sr_target r)
       (un_put k \<lparr> pd_start = st, pd_probe = new_probe t \<rparr> un)
       (n + (if map_of un k = None then 0 else 1)))"
proof -
  let ?t = "env_run mid t"
  have ok: "wk_ok ?t un n" using mid t by (rule wk_ok_env_run)
  have p: "pr_target (new_probe t) = Some (ts_id ?t)" "pr_epoch (new_probe t) \<le> ts_probe_epoch ?t"
    using env_run_ident [of mid t] by (simp_all add: new_probe_def)
  note sent = wk_ok_sent [OF ok p k]
  show ?thesis
    using ok wk_ok_failure [OF ok] sent
    by (auto simp: r send_probe_with_stats_def Let_def split: sum.splits option.splits)
qed

lemma send_case_ok:
  assumes ok: "worker_ok c (w, t) n" and nr: "\<not> wk_returned w" and nd: "\<not> wk_done_sending w"
    and mid: "env_ok mid"
  shows "worker_ok c (send_case c clks mid write dst (w, t))
    (n + (if map_of (wk_unacked w) ((wk_seq w + 1) AND seq_mask) = None then 0 else 1))"
proof -
  let ?sq = "wk_seq w + 1"
  define r where "r = send_probe_with_stats c (clks 1) (clks 2 0) write mid (new_probe t) ?sq (wk_payload w) dst t"
  let ?n = "n + (if map_of (wk_unacked w) (?sq AND seq_mask) = None then 0 else 1)"
  have t: "wk_ok t (wk_unacked w) n" using ok nr by (simp add: worker_ok_def outstanding_def)
  note k = seq_mask_range [of ?sq]
  note sent = send_probe_ok [OF r_def mid t, of "?sq AND seq_mask"]
  have pk: "int (length (wk_packets w @ (case sr_packet r of None \<Rightarrow> [] | Some b \<Rightarrow> [b])))
      \<le> ?sq - wc_initial_seq c"
    using ok by (auto simp: worker_ok_def split: option.split)
  have cnt: "0 < wc_count c \<Longrightarrow> ?sq \<le> max (wc_initial_seq c + 1) (wc_count c)"
    using ok nd by (auto simp: worker_ok_def)
  have h: "recent_inv (wk_hist w)" using ok by (simp add: worker_ok_def)
  show ?thesis
  proof (cases "sr_start r")
    case None
    have "wk_ok (sr_target r) (wk_unacked w) ?n"
      using sent k None by (blast intro: wk_ok_mono [of _ _ n] le_add1)
    then show ?thesis
      unfolding send_case_def Let_def prod.case r_def [symmetric] None option.case
      by (intro worker_ok_loop_end) (use pk cnt h nr nd in \<open>auto simp: worker_ok_def outstanding_def\<close>)
  next
    case (Some st)
    have "wk_ok (sr_target r) (un_put (?sq AND seq_mask)
        \<lparr> pd_start = st, pd_probe = new_probe t \<rparr> (wk_unacked w)) ?n"
      using sent k Some by blast
    then show ?thesis
      unfolding send_case_def Let_def prod.case r_def [symmetric] Some option.case
      by (intro worker_ok_loop_end) (use pk cnt h nr nd in \<open>auto simp: worker_ok_def outstanding_def\<close>)
  qed
qed

text \<open>What other goroutines do inside an event is restricted as between events.\<close>

fun event_ok :: "worker_event \<Rightarrow> bool" where
  "event_ok (WDns query mid) = env_ok mid"
| "event_ok (WSend query mid0 mid write) = (env_ok mid0 \<and> env_ok mid)"
| "event_ok ev = True"

lemma worker_ok_target:
  "worker_ok c (w, t) n \<Longrightarrow> wk_ok t' (outstanding w) n \<Longrightarrow> worker_ok c (w, t') n"
  by (simp add: worker_ok_def)

lemma worker_ok_local:
  assumes "worker_ok c (w, t) n" and "wk_ok t' (outstanding w') n" and "recent_inv (wk_hist w')"
    and "wk_packets w' = wk_packets w" and "wk_seq w' = wk_seq w" and "wk_done_sending w' = wk_done_sending w"
  shows "worker_ok c (w', t') n"
  using assms by (simp add: worker_ok_def)

lemma worker_step_ok:
  assumes step: "worker_step c clks ev (w, t) = Some s'" and ok: "worker_ok c (w, t) n" and ev: "event_ok ev"
  shows "worker_ok c s' (n + reused ev w)"
proof (cases ev)
  case (WEnv op)
  let ?t = "fst (target_step (clks 0) op t)"
  have e: "env_op op" and s': "s' = (w, ?t)" using step WEnv by (simp_all split: if_splits)
  have "wk_ok ?t (outstanding w) n" using ok by (intro wk_ok_env e) (simp add: worker_ok_def)
  from worker_ok_target [OF ok this] show ?thesis by (simp add: s' reused_def WEnv)
next
  case WStop
  then show ?thesis using step worker_ok_finish [OF ok] by (auto simp: reused_def split: if_splits)
next
  case (WDns query mid)
  then have nr: "\<not> wk_returned w" using step by (auto split: if_splits)
  obtain t' dst started where r: "resolve_target c (clks 0) query mid t = (t', dst, started)"
    by (cases "resolve_target c (clks 0) query mid t")
  have "wk_ok t' (outstanding w) n"
    using resolve_target_ok [OF r] ev ok WDns by (auto simp: worker_ok_def)
  then have "worker_ok c (w \<lparr> wk_dst := (case dst of None \<Rightarrow> wk_dst w | Some a \<Rightarrow> Some a),
      wk_lookups := wk_lookups w @ started \<rparr>, t') n"
    by (intro worker_ok_local [OF ok]) (use ok nr in \<open>simp_all add: worker_ok_def outstanding_def\<close>)
  from worker_ok_loop_end [OF this] show ?thesis using step WDns nr r by (auto simp: reused_def)
next
  case (WReply r)
  then have nr: "\<not> wk_returned w" using step by (auto split: if_splits)
  obtain un hist t' moved where
    r': "settle_reply (clks 0) (clks 1 0) r (wk_unacked w, wk_hist w, t) = ((un, hist, t'), moved)"
    by (metis prod.collapse)
  have "wk_ok t' un n \<and> recent_inv hist"
    by (rule settle_reply_ok [OF r']) (use ok nr in \<open>auto simp: worker_ok_def outstanding_def\<close>)
  then have "worker_ok c (w \<lparr> wk_unacked := un, wk_hist := hist,
      wk_sweep_at := (if moved then rearm_sweep_timer (clks 2 0) un (wc_timeout c)
        else wk_sweep_at w) \<rparr>, t') n"
    by (intro worker_ok_local [OF ok]) (use nr in \<open>simp_all add: outstanding_def\<close>)
  from worker_ok_loop_end [OF this] show ?thesis
    using step WReply nr r' by (auto simp: reused_def split: if_splits)
next
  case (WSweep order)
  then have nr: "\<not> wk_returned w" using step by (auto split: if_splits option.splits)
  obtain un hist t' where r': "sweep_timeouts (wc_source c) (\<lambda>i. clks (i + 2)) (clks 0 0) (wc_timeout c) order
      (wk_unacked w, wk_hist w, t) = (un, hist, t')"
    by (metis prod.collapse)
  have "wk_ok t' un n \<and> recent_inv hist"
    by (rule sweep_loop_ok [OF r' [unfolded sweep_timeouts_def]])
      (use ok nr in \<open>auto simp: worker_ok_def outstanding_def\<close>)
  then have "worker_ok c (w \<lparr> wk_unacked := un, wk_hist := hist,
      wk_sweep_at := rearm_sweep_timer (clks 1 0) un (wc_timeout c) \<rparr>, t') n"
    by (intro worker_ok_local [OF ok]) (use nr in \<open>simp_all add: outstanding_def\<close>)
  from worker_ok_loop_end [OF this] show ?thesis
    using step WSweep nr r' by (auto simp: reused_def split: if_splits option.splits)
next
  case (WSend query mid0 mid wr)
  then have nr: "\<not> wk_returned w" using step by (auto split: if_splits)
  have mids: "env_ok mid0" "env_ok mid" using ev WSend by simp_all
  let ?w0 = "w \<lparr> wk_send_armed := False \<rparr>"
  let ?n = "n + reused ev w"
  have ok0: "worker_ok c (?w0, t) n" using ok nr by (simp add: worker_ok_def outstanding_def)
  consider (dn) "wk_done_sending w" | (dst) dst where "\<not> wk_done_sending w" "wk_dst w = Some dst"
    | (look) "\<not> wk_done_sending w" "wk_dst w = None" by (cases "wk_dst w") auto
  then show ?thesis
  proof cases
    case dn
    then show ?thesis using step WSend nr ok0
      by (auto simp: Let_def split: if_splits simp: worker_ok_def intro: wk_ok_mono)
  next
    case dst
    then show ?thesis using step WSend nr send_case_ok [OF ok0 _ _ mids(2)]
      by (auto simp: Let_def reused_def split: if_splits)
  next
    case look
    obtain t' dst' started where r: "resolve_target c (clks 0) query mid0 t = (t', dst', started)"
      by (cases "resolve_target c (clks 0) query mid0 t")
    let ?w1 = "?w0 \<lparr> wk_dst := dst', wk_lookups := wk_lookups w @ started \<rparr>"
    have t': "wk_ok t' (outstanding ?w1) n"
      using resolve_target_ok [OF r mids(1)] ok nr by (auto simp: worker_ok_def outstanding_def)
    have ok1: "worker_ok c (?w1, t') n"
      by (rule worker_ok_local [OF ok0 t']) (use ok nr in \<open>simp_all add: worker_ok_def outstanding_def\<close>)
    show ?thesis
    proof (cases dst')
      case None
      then show ?thesis using step WSend nr look r ok1
        by (auto simp: Let_def split: if_splits simp: worker_ok_def outstanding_def intro: wk_ok_mono)
    next
      case (Some dst)
      then show ?thesis using step WSend nr look r send_case_ok [OF ok1 _ _ mids(2)]
        by (auto simp: Let_def reused_def split: if_splits)
    qed
  qed
qed

section \<open>What a run of the worker guarantees\<close>

text \<open>
  A run: the worker starts on a target other goroutines may already have used, and takes any
  number of turns; the number counts the sends under a wire number that was still outstanding.
\<close>

inductive worker_run :: "worker_config \<Rightarrow> worker \<times> target_stats \<Rightarrow> nat \<Rightarrow> bool" for c where
  started: "env_ok before \<Longrightarrow> env_ok mid \<Longrightarrow>
    worker_run c (start_worker c clk query mid (env_run before (new_target_stats i now host))) 0"
| turn: "worker_run c s n \<Longrightarrow> event_ok ev \<Longrightarrow> worker_step c clks ev s = Some s' \<Longrightarrow>
    worker_run c s' (n + reused ev (fst s))"

lemma wk_ok_new: "wk_ok (new_target_stats i now host) [] 0"
  by (simp add: wk_ok_def probes_ok_def balanced_def new_target_stats_def)

lemma worker_ok_start:
  assumes "env_ok mid" and "wk_ok t [] 0"
  shows "worker_ok c (start_worker c clk query mid t) 0"
proof -
  obtain t' dst started where r: "resolve_target c clk query mid t = (t', dst, started)"
    by (cases "resolve_target c clk query mid t")
  have "wk_ok t' [] 0" using resolve_target_ok [OF r assms] .
  then show ?thesis
    by (auto simp: start_worker_def r worker_ok_def outstanding_def new_recent_inv)
qed

lemma worker_run_ok: "worker_run c s n \<Longrightarrow> worker_ok c s n"
proof (induction rule: worker_run.induct)
  case (started before mid clk query i now host)
  then show ?case by (intro worker_ok_start wk_ok_env_run wk_ok_new)
next
  case (turn s n ev clks s')
  then show ?case using worker_step_ok [of c clks ev "fst s" "snd s" s' n] by simp
qed

text \<open>C1: A worker never counts an outcome it did not send for, and loses none: at any moment the
  probes replied to, cancelled or still outstanding in the current statistics window are at most
  the probes sent, and every probe sent is replied to, cancelled, outstanding or lost, except
  those whose 16-bit wire number was reused while they were outstanding. This holds through
  resets, failed lookups, failed writes, duplicates, late replies, timeouts and the drain.\<close>

theorem worker_accounts_for_every_probe:
  assumes "worker_run c (w, t) n"
  shows "ts_recv t + ts_cancelled t + live_count t (outstanding w) \<le> ts_sent t \<and>
    ts_sent t \<le> ts_recv t + ts_cancelled t + live_count t (outstanding w) + ts_loss t + int n"
  using worker_run_ok [OF assms] by (simp add: worker_ok_def wk_ok_def balanced_def)

text \<open>A worker with a count hands at most that many packets to the network (one when the first
  number is already past the count), and it stores at most one outstanding probe per 16-bit wire
  number.\<close>

theorem worker_sends_at_most_count:
  assumes "worker_run c (w, t) n" and "0 < wc_count c"
  shows "int (length (wk_packets w)) \<le> max 1 (wc_count c - wc_initial_seq c) \<and>
    distinct (map fst (outstanding w)) \<and> (\<forall>k\<in>fst ` set (outstanding w). 0 \<le> k \<and> k < 65536)"
  using worker_run_ok [OF assms(1)] assms(2)
  by (fastforce simp: worker_ok_def wk_ok_def probes_ok_def)

text \<open>When the worker returns, of its own accord or stopped, nothing is left in the air: every
  probe of the current window is replied to, lost or cancelled.\<close>

theorem returned_worker_is_settled:
  assumes "worker_run c (w, t) n" and "wk_returned w"
  shows "ts_recv t + ts_cancelled t \<le> ts_sent t \<and>
    ts_sent t \<le> ts_recv t + ts_cancelled t + ts_loss t + int n"
  using worker_run_ok [OF assms(1)] assms(2)
  by (simp add: worker_ok_def wk_ok_def balanced_def outstanding_def)

section \<open>Classifying replies\<close>

text \<open>One probe is counted once. A reply that matches an outstanding probe of the current
  window counts as one success or one loss, and a second reply with the same number is a
  duplicate: it changes no other counter.\<close>

theorem replies_count_once:
  assumes "map_of un (rp_seq r) = Some pend" and "live t (pd_probe pend)"
    and "distinct (map fst un)" and "recent_inv hist"
    and "settle_reply clk now r (un, hist, t) = ((un1, hist1, t1), moved1)"
    and "settle_reply clk2 now2 r2 (un1, hist1, t1) = ((un2, hist2, t2), moved2)" and "rp_seq r2 = rp_seq r"
  shows "ts_recv t1 = ts_recv t + (if rp_err r = [] then 1 else 0) \<and>
    ts_loss t1 = ts_loss t + (if rp_err r = [] then 0 else 1) \<and> moved1 \<and>
    ts_recv t2 = ts_recv t1 \<and> ts_loss t2 = ts_loss t1 \<and> ts_sent t2 = ts_sent t \<and>
    ts_duplicates t2 = ts_duplicates t + 1 \<and> ts_late_replies t2 = ts_late_replies t \<and> \<not> moved2"
proof -
  note look = recent.get_put [OF assms(4)]
  have first: "un1 = un_del (rp_seq r) un"
    "hist1 = record_recent (rp_seq r) ResolvedAcked (pd_probe pend) hist" "moved1"
    "t1 = fst (probe_apply clk (pd_probe pend) (if rp_err r \<noteq> [] then POnFailure (rp_err r)
      else POnSuccess (if rp_rtt r \<le> 0 then now - pd_start pend else rp_rtt r) (rp_ttl r)) t)"
    using assms(5) by (simp_all add: settle_reply_def assms(1) Let_def)
  have c1: "ts_recv t1 = ts_recv t + (if rp_err r = [] then 1 else 0)"
    "ts_loss t1 = ts_loss t + (if rp_err r = [] then 0 else 1)" "ts_sent t1 = ts_sent t"
    "ts_duplicates t1 = ts_duplicates t" "ts_late_replies t1 = ts_late_replies t"
    using assms(2) by (simp_all add: first probe_apply_live)
  have "live t1 (pd_probe pend)" using assms(2) by (simp add: first live_def)
  moreover have "map_of un1 (rp_seq r) = None" by (simp add: first map_of_eq_None_iff)
  ultimately have "t2 = probe_effect clk2 POnDuplicate t1 \<and> \<not> moved2"
    using assms(6,7) by (auto simp: settle_reply_def first look probe_apply_live)
  then show ?thesis using c1 first(3) by auto
qed

section \<open>Timeouts\<close>

definition expired :: "gotime \<Rightarrow> duration \<Rightarrow> int \<times> pending \<Rightarrow> bool" where
  "expired now timeout e = (timeout \<le> now - pd_start (snd e))"

lemma un_del_filter:
  "distinct (map fst un) \<Longrightarrow> map_of un k = Some pend \<Longrightarrow>
   (if expired now timeout (k, pend) then un_del k un else un)
     = filter (\<lambda>e. fst e = k \<longrightarrow> \<not> expired now timeout e) un"
proof -
  assume d: "distinct (map fst un)" and m: "map_of un k = Some pend"
  have "fst e = k \<Longrightarrow> e \<in> set un \<Longrightarrow> e = (k, pend)" for e
    using d m by (cases e) (auto dest: map_of_is_SomeI)
  then show ?thesis unfolding un_del_def
    by (auto simp: filter_id_conv intro!: filter_cong [OF refl] sym [OF iffD2 [OF filter_id_conv]])
qed

lemma live_count_split:
  "distinct (map fst un) \<Longrightarrow> map_of un k = Some pend \<Longrightarrow> distinct (k # order) \<Longrightarrow>
   live_count t (filter (\<lambda>e. fst e \<in> set (k # order) \<and> expired now timeout e) un)
     = (if expired now timeout (k, pend) \<and> live t (pd_probe pend) then 1 else 0)
       + live_count t (filter (\<lambda>e. fst e \<in> set order \<and> expired now timeout e) un)"
proof (induction un)
  case (Cons e un)
  show ?case
  proof (cases "fst e = k")
    case True
    with Cons.prems have "k \<notin> fst ` set un" "e = (k, pend)" by (cases e; auto)+
    then have "filter (\<lambda>e. fst e \<in> set (k # order) \<and> expired now timeout e) un
        = filter (\<lambda>e. fst e \<in> set order \<and> expired now timeout e) un"
      by (auto intro!: filter_cong)
    then show ?thesis using Cons.prems(3) \<open>e = (k, pend)\<close> by simp
  next
    case False
    then show ?thesis using Cons by auto
  qed
qed simp

lemma sweep_loop_exact:
  assumes "sweep_loop source clks now timeout i order (un, hist, t) = (un', hist', t')"
    and "probes_ok t un" and "distinct order"
  shows "un' = filter (\<lambda>e. fst e \<in> set order \<longrightarrow> \<not> expired now timeout e) un \<and>
    ts_id t' = ts_id t \<and> ts_probe_epoch t' = ts_probe_epoch t \<and> ts_recv t' = ts_recv t \<and>
    ts_sent t' = ts_sent t \<and> ts_cancelled t' = ts_cancelled t \<and>
    ts_loss t' = ts_loss t + live_count t (filter (\<lambda>e. fst e \<in> set order \<and> expired now timeout e) un)"
  using assms
proof (induction order arbitrary: i un hist t)
  case Nil
  then show ?case by simp
next
  case (Cons k order)
  note d = probes_ok_distinct [OF Cons.prems(2)]
  show ?case
  proof (cases "map_of un k")
    case None
    then have "\<forall>e\<in>set un. fst e \<noteq> k" by (auto simp: map_of_eq_None_iff)
    then have "filter (\<lambda>e. fst e \<in> set (k # order) \<longrightarrow> \<not> expired now timeout e) un
        = filter (\<lambda>e. fst e \<in> set order \<longrightarrow> \<not> expired now timeout e) un"
      "filter (\<lambda>e. fst e \<in> set (k # order) \<and> expired now timeout e) un
        = filter (\<lambda>e. fst e \<in> set order \<and> expired now timeout e) un"
      by (auto intro!: filter_cong)
    then show ?thesis using Cons.IH [of "Suc i" un hist t] Cons.prems None by simp
  next
    case (Some pend)
    define t1 where "t1 = (if expired now timeout (k, pend) then fst (probe_apply (clks i) (pd_probe pend)
      (POnFailure (apply_last_err_source source ''Timeout'')) t) else t)"
    define un1 where "un1 = filter (\<lambda>e. fst e = k \<longrightarrow> \<not> expired now timeout e) un"
    define hist1 where "hist1 = (if expired now timeout (k, pend)
      then record_recent k ResolvedTimeout (pd_probe pend) hist else hist)"
    have f: "filter P (filter Q xs) = filter (\<lambda>x. Q x \<and> P x) xs" for P Q and xs :: unacked by simp
    have un1': "un1 = (if expired now timeout (k, pend) then un_del k un else un)"
      unfolding un1_def by (rule un_del_filter [OF d Some, symmetric])
    have step: "sweep_loop source clks now timeout (Suc i) order (un1, hist1, t1) = (un', hist', t')"
      using Cons.prems(1) by (auto simp: Some un1' t1_def hist1_def expired_def)
    have ident: "ts_id t1 = ts_id t" "ts_probe_epoch t1 = ts_probe_epoch t" by (simp_all add: t1_def)
    have ok: "probes_ok t1 un1"
      using Cons.prems(2) by (auto simp: un1' intro!: probes_ok_mono [OF _ ident(1)] probes_ok_del simp: ident)
    note IH = Cons.IH [OF step ok] Cons.prems(3)
    have l: "live_count t1 = live_count t" using ident by (auto simp: live_count_def live_def)
    have loss: "ts_loss t1 = ts_loss t + (if expired now timeout (k, pend) \<and> live t (pd_probe pend) then 1 else 0)"
      and same: "ts_recv t1 = ts_recv t" "ts_sent t1 = ts_sent t" "ts_cancelled t1 = ts_cancelled t"
      by (cases "live t (pd_probe pend)"; simp add: t1_def probe_apply_live)+
    have keys: "filter (\<lambda>e. fst e \<in> set order \<and> expired now timeout e) un1
        = filter (\<lambda>e. fst e \<in> set order \<and> expired now timeout e) un"
      using Cons.prems(3) by (auto simp: un1_def f intro!: filter_cong)
    have "live_count t (filter (\<lambda>e. fst e \<in> set (k # order) \<and> expired now timeout e) un)
        = (if expired now timeout (k, pend) \<and> live t (pd_probe pend) then 1 else 0)
          + live_count t (filter (\<lambda>e. fst e \<in> set order \<and> expired now timeout e) un)"
      using d Some Cons.prems(3) by (intro live_count_split)
    moreover have "un' = filter (\<lambda>e. fst e \<in> set (k # order) \<longrightarrow> \<not> expired now timeout e) un"
      using IH by (auto simp: un1_def f intro!: filter_cong)
    moreover have "ts_loss t' = ts_loss t1 + live_count t (filter (\<lambda>e. fst e \<in> set order \<and> expired now timeout e) un)"
      using IH by (simp add: keys l)
    ultimately show ?thesis using IH loss same ident by simp
  qed
qed

text \<open>A sweep times out exactly the probes that have waited the full timeout, in whatever order
  the map is walked: they leave the outstanding probes and count one loss each when they belong
  to the current window, no younger probe is touched and no other counter moves.\<close>

theorem sweep_times_out_exactly:
  assumes "probes_ok t un" and "distinct order" and "set order = fst ` set un"
    and "sweep_timeouts source clks now timeout order (un, hist, t) = (un', hist', t')"
  shows "un' = filter (\<lambda>e. now - pd_start (snd e) < timeout) un \<and>
    ts_loss t' = ts_loss t + live_count t (filter (\<lambda>e. timeout \<le> now - pd_start (snd e)) un) \<and>
    ts_recv t' = ts_recv t \<and> ts_sent t' = ts_sent t \<and> ts_cancelled t' = ts_cancelled t"
proof -
  have f: "filter (\<lambda>e. fst e \<in> set order \<longrightarrow> \<not> expired now timeout e) un
      = filter (\<lambda>e. now - pd_start (snd e) < timeout) un"
    "filter (\<lambda>e. fst e \<in> set order \<and> expired now timeout e) un
      = filter (\<lambda>e. timeout \<le> now - pd_start (snd e)) un"
    using assms(3) by (auto simp: expired_def intro!: filter_cong)
  show ?thesis
    using sweep_loop_exact [OF assms(4) [unfolded sweep_timeouts_def] assms(1,2)] by (simp add: f)
qed

section \<open>The drain ends\<close>

text \<open>A worker that has stopped sending waits for something, and its sweep timer is armed.\<close>

definition armed :: "worker \<Rightarrow> bool" where
  "armed w \<longleftrightarrow> wk_returned w \<or> (wk_done_sending w \<longrightarrow> wk_unacked w \<noteq> []) \<and>
     (wk_unacked w \<noteq> [] \<longrightarrow> wk_sweep_at w \<noteq> None)"

lemma fold_Some: "(\<And>x e. \<exists>y. f e (Some x) = Some y) \<Longrightarrow> \<exists>y. fold f un (Some x) = Some y"
proof (induction un arbitrary: x)
  case (Cons e un)
  then show ?case by (metis fold_simps(2))
qed simp

lemma rearm_Some: "un \<noteq> [] \<Longrightarrow> \<exists>y. rearm_sweep_timer now un timeout = Some y"
proof -
  define f :: "int \<times> pending \<Rightarrow> gotime option \<Rightarrow> gotime option" where
    "f = (\<lambda>(k, pend) best. let d = pd_start pend + timeout
      in case best of None \<Rightarrow> Some d | Some e \<Rightarrow> (if d < e then Some d else best))"
  have "\<exists>y. f e (Some x) = Some y" for x e by (cases e) (simp add: f_def Let_def)
  then have "\<exists>y. fold f un (Some x) = Some y" for un x by (rule fold_Some)
  moreover have "f e None = Some (pd_start (snd e) + timeout)" for e by (cases e) (simp add: f_def)
  moreover assume "un \<noteq> []"
  ultimately show ?thesis by (cases un) (simp_all add: rearm_sweep_timer_def next_expiry_def f_def [symmetric])
qed

lemma armed_loop_end: "(wk_unacked w \<noteq> [] \<longrightarrow> wk_sweep_at w \<noteq> None) \<Longrightarrow> armed (fst (loop_end (w, t)))"
  by (auto simp: armed_def loop_end_def finish_worker_def)

lemma armed_send_case: "(wk_unacked w \<noteq> [] \<longrightarrow> wk_sweep_at w \<noteq> None) \<Longrightarrow>
    armed (fst (send_case c clks mid wr dst (w, t)))"
  unfolding send_case_def Let_def prod.case
  by (intro armed_loop_end) (auto simp: un_put_def rearm_Some split: option.split)

lemma settle_reply_not_moved:
  "settle_reply clk now r (un, hist, t) = ((un', hist', t'), False) \<Longrightarrow> un' = un"
  by (auto simp: settle_reply_def Let_def split: option.splits resolution.splits)

lemma armed_step:
  assumes "worker_step c clks ev (w, t) = Some s'" and "armed w"
  shows "armed (fst s')"
proof (cases "wk_returned w")
  case True
  then show ?thesis using assms by (cases ev) (auto split: if_splits option.splits)
next
  case False
  then have a: "wk_unacked w \<noteq> [] \<longrightarrow> wk_sweep_at w \<noteq> None"
    and d: "wk_done_sending w \<longrightarrow> wk_unacked w \<noteq> []" using assms(2) by (auto simp: armed_def)
  show ?thesis
  proof (cases ev)
    case (WReply r)
    then show ?thesis using assms(1) False a
      by (auto simp: rearm_Some split: if_splits prod.splits intro!: armed_loop_end
          dest: settle_reply_not_moved)
  next
    case (WSend query mid0 mid wr)
    have "wk_sweep_at w = None \<Longrightarrow> wk_unacked w = []" using a by auto
    then show ?thesis using assms(1) False a d WSend
      by (auto simp: Let_def split: if_splits option.splits prod.splits intro!: armed_send_case)
        (auto simp: armed_def)
  qed (use assms(1) False a d in \<open>auto simp: rearm_Some armed_def [of "wk_returned_update _ _"]
      finish_worker_def intro!: armed_loop_end split: if_splits option.splits prod.splits\<close>,
      auto simp: armed_def)
qed

lemma worker_run_armed: "worker_run c s n \<Longrightarrow> armed (fst s)"
proof (induction rule: worker_run.induct)
  case (started before mid clk query i now host)
  then show ?case by (auto simp: start_worker_def armed_def split: prod.splits)
next
  case (turn s n ev clks s')
  then show ?case using armed_step [of c clks ev "fst s" "snd s" s'] by simp
qed

text \<open>C4: The drain of a bounded run ends. A worker that has sent its last probe and has not returned
  still waits for a probe and its sweep timer is armed; a sweep once every outstanding deadline
  has passed makes it return, whatever the network does.\<close>

theorem drain_ends:
  assumes "worker_run c (w, t) n" and "wk_done_sending w" and "\<not> wk_returned w"
    and "\<forall>e\<in>set (wk_unacked w). pd_start (snd e) + wc_timeout c \<le> clks 0 0"
    and "\<forall>due. wk_sweep_at w = Some due \<longrightarrow> due \<le> clks 0 0"
    and "distinct order" and "set order = fst ` set (wk_unacked w)"
  shows "wk_unacked w \<noteq> [] \<and>
    (\<exists>w' t'. worker_step c clks (WSweep order) (w, t) = Some (w', t') \<and> wk_returned w')"
proof -
  have ne: "wk_unacked w \<noteq> []" using worker_run_armed [OF assms(1)] assms(2,3) by (auto simp: armed_def)
  then obtain due where due: "wk_sweep_at w = Some due" "due \<le> clks 0 0"
    using worker_run_armed [OF assms(1)] assms(3,5) by (auto simp: armed_def)
  obtain un hist t' where r: "sweep_timeouts (wc_source c) (\<lambda>i. clks (i + 2)) (clks 0 0) (wc_timeout c) order
      (wk_unacked w, wk_hist w, t) = (un, hist, t')"
    by (metis prod.collapse)
  have "probes_ok t (wk_unacked w)"
    using worker_run_ok [OF assms(1)] assms(3) by (simp add: worker_ok_def outstanding_def wk_ok_def)
  then have "un = filter (\<lambda>e. fst e \<in> set order \<longrightarrow> \<not> expired (clks 0 0) (wc_timeout c) e) (wk_unacked w)"
    using sweep_loop_exact [OF r [unfolded sweep_timeouts_def] _ assms(6)] by blast
  also have "\<dots> = []" using assms(4,7) by (force simp: filter_empty_conv expired_def)
  finally have "un = []" .
  then show ?thesis using ne due assms(2,3,6,7) r
    by (simp add: loop_end_def finish_worker_def)
qed

section \<open>A concrete run\<close>

text \<open>A worker with a count of one that resolves its target and writes its probe.\<close>

definition example_config :: worker_config where
  "example_config = \<lparr> wc_id = 7, wc_address = [], wc_source = [], wc_count = 1, wc_size = 20,
     wc_timeout = second, wc_initial_seq = 0, wc_proc_start = 0, wc_conn_v4 = True,
     wc_conn_v6 = False, wc_asn = False, wc_ptr = False, wc_marshal = (\<lambda>m. Some [8, 0]) \<rparr>"

definition example_query :: "string \<Rightarrow> resolve_outcome" where
  "example_query host = Resolved \<lparr> ia_v4 = True, ia_text = ''192.0.2.1'' \<rparr>"

definition example_start :: "worker \<times> target_stats" where
  "example_start = start_worker example_config (\<lambda>_. 5) example_query [] (new_target_stats 1 1 ''h'')"

definition example_sent :: "worker \<times> target_stats" where
  "example_sent = the (worker_step example_config (\<lambda>_ _. 10) (WSend example_query [] [] (\<lambda>_. None)) example_start)"

definition example_stopped :: "worker \<times> target_stats" where
  "example_stopped = the (worker_step example_config (\<lambda>_ _. 20) WStop example_sent)"

lemma example_started: "wk_returned (fst example_start) = False" "wk_send_armed (fst example_start)"
  "wk_done_sending (fst example_start) = False" "wk_unacked (fst example_start) = []"
  "wk_seq (fst example_start) = 0" "wk_packets (fst example_start) = []"
  "wk_dst (fst example_start) = Some \<lparr> ia_v4 = True, ia_text = ''192.0.2.1'' \<rparr>"
  by (simp_all add: example_start_def start_worker_def resolve_target_def example_query_def
      example_config_def Let_def)

lemma worker_step_ready:
  "\<not> wk_returned (fst s) \<Longrightarrow> wk_send_armed (fst s) \<Longrightarrow> \<not> wk_done_sending (fst s) \<Longrightarrow>
   wk_dst (fst s) = Some dst \<Longrightarrow> worker_step c clks (WSend query mid0 mid wr) s
     = Some (send_case c clks mid wr dst (fst s \<lparr> wk_send_armed := False \<rparr>, snd s))"
  "\<not> wk_returned (fst s) \<Longrightarrow> worker_step c clks WStop s = Some (finish_worker s)"
  by (cases s; simp add: Let_def)+

lemma example_sent_step:
  "worker_step example_config (\<lambda>_ _. 10) (WSend example_query [] [] (\<lambda>_. None)) example_start = Some example_sent"
  by (simp add: example_sent_def worker_step_ready example_started)

lemma example_run: "worker_run example_config example_sent 0"
proof -
  have "worker_run example_config (start_worker example_config (\<lambda>_. 5) example_query []
      (env_run [] (new_target_stats 1 1 ''h''))) 0"
    by (rule worker_run.started) (simp_all add: env_ok_def)
  then have "worker_run example_config example_start 0" by (simp add: example_start_def)
  from worker_run.turn [OF this _ example_sent_step] show ?thesis
    by (simp add: env_ok_def reused_def example_started)
qed

lemma example_sent_fields: "wk_returned (fst example_sent) = False" "wk_done_sending (fst example_sent)"
  "wk_packets (fst example_sent) = [[8, 0]]"
  "wk_sweep_at (fst example_sent) = Some (second + 10)"
  "map (\<lambda>e. (fst e, pd_start (snd e))) (wk_unacked (fst example_sent)) = [(1, 10)]"
proof -
  have m: "(1::int) AND seq_mask = 1" by (simp add: seq_mask_def)
  let ?r = "send_probe_with_stats example_config (\<lambda>_. 10) 10 (\<lambda>_. None) [] (new_probe (snd example_start))
    1 (wk_payload (fst example_start)) \<lparr> ia_v4 = True, ia_text = ''192.0.2.1'' \<rparr> (snd example_start)"
  have r: "sr_start ?r = Some 10" "sr_packet ?r = Some [8, 0]"
    by (simp_all add: send_probe_with_stats_def get_write_func_def example_config_def Let_def)
  have eq: "example_sent = send_case example_config (\<lambda>_ _. 10) [] (\<lambda>_. None) \<lparr> ia_v4 = True, ia_text = ''192.0.2.1'' \<rparr>
      (fst example_start \<lparr> wk_send_armed := False \<rparr>, snd example_start)"
    by (simp add: example_sent_def worker_step_ready example_started)
  have c: "wc_count example_config = 1" "wc_timeout example_config = second"
    by (simp_all add: example_config_def)
  show "wk_returned (fst example_sent) = False" "wk_done_sending (fst example_sent)"
    "wk_packets (fst example_sent) = [[8, 0]]"
    "wk_sweep_at (fst example_sent) = Some (second + 10)"
    "map (\<lambda>e. (fst e, pd_start (snd e))) (wk_unacked (fst example_sent)) = [(1, 10)]"
    by (simp_all add: eq c send_case_def Let_def example_started r loop_end_def m un_put_def un_del_def
        rearm_sweep_timer_def next_expiry_def)
qed

lemma example_stopped_run: "worker_run example_config example_stopped 0" "wk_returned (fst example_stopped)"
proof -
  have s: "worker_step example_config (\<lambda>_ _. 20) WStop example_sent = Some example_stopped"
    by (simp add: example_stopped_def worker_step_ready example_sent_fields)
  from worker_run.turn [OF example_run _ s] show "worker_run example_config example_stopped 0"
    by (simp add: reused_def)
  show "wk_returned (fst example_stopped)"
    by (simp add: example_stopped_def worker_step_ready example_sent_fields finish_worker_def
        split: prod.split)
qed

theorem worker_accounts_for_every_probe_witness:
  "ts_recv (snd example_sent) + ts_cancelled (snd example_sent)
     + live_count (snd example_sent) (outstanding (fst example_sent)) \<le> ts_sent (snd example_sent) \<and>
   ts_sent (snd example_sent) \<le> ts_recv (snd example_sent) + ts_cancelled (snd example_sent)
     + live_count (snd example_sent) (outstanding (fst example_sent)) + ts_loss (snd example_sent) + int 0"
  by (rule worker_accounts_for_every_probe [of example_config]) (simp add: example_run)

theorem worker_sends_at_most_count_witness:
  "int (length (wk_packets (fst example_sent))) \<le> max 1 (1 - 0) \<and>
   distinct (map fst (outstanding (fst example_sent)))"
  using worker_sends_at_most_count [of example_config "fst example_sent" "snd example_sent" 0]
  by (simp add: example_run) (simp add: example_config_def)

theorem returned_worker_is_settled_witness:
  "ts_recv (snd example_stopped) + ts_cancelled (snd example_stopped) \<le> ts_sent (snd example_stopped) \<and>
   ts_sent (snd example_stopped) \<le> ts_recv (snd example_stopped) + ts_cancelled (snd example_stopped)
     + ts_loss (snd example_stopped) + int 0"
  by (rule returned_worker_is_settled [of example_config "fst example_stopped"])
    (simp_all add: example_stopped_run)

theorem drain_ends_witness:
  "\<exists>w' t'. worker_step example_config (\<lambda>_ _. 2 * second) (WSweep [1]) example_sent = Some (w', t') \<and> wk_returned w'"
proof -
  have u: "\<exists>p. wk_unacked (fst example_sent) = [(1, \<lparr> pd_start = 10, pd_probe = p \<rparr>)]"
  proof -
    obtain e where e: "wk_unacked (fst example_sent) = [e]" "fst e = 1" "pd_start (snd e) = 10"
      using example_sent_fields(5) by (auto simp: map_eq_Cons_conv)
    then show ?thesis by (cases e; cases "snd e") auto
  qed
  then show ?thesis
    using drain_ends [of example_config "fst example_sent" "snd example_sent" 0 "\<lambda>_ _. 2 * second" "[1]"]
    by (auto simp: example_run example_sent_fields) (auto simp: example_config_def)
qed

definition example_pending :: pending where
  "example_pending = \<lparr> pd_start = 0, pd_probe = new_probe (new_target_stats 1 1 ''h'') \<rparr>"

theorem sweep_times_out_exactly_witness:
  "fst (sweep_timeouts [] (\<lambda>_ _. 9) 9 5 [1] ([(1, example_pending)], new_recent_history, new_target_stats 1 1 ''h'')) = [] \<and>
   ts_loss (snd (snd (sweep_timeouts [] (\<lambda>_ _. 9) 9 5 [1]
     ([(1, example_pending)], new_recent_history, new_target_stats 1 1 ''h'')))) = 1"
proof -
  obtain un h t where r: "sweep_timeouts [] (\<lambda>_ _. 9) 9 5 [1]
      ([(1, example_pending)], new_recent_history, new_target_stats 1 1 ''h'') = (un, h, t)"
    by (metis prod.collapse)
  have "probes_ok (new_target_stats 1 1 ''h'') [(1, example_pending)]"
    by (simp add: probes_ok_def example_pending_def new_probe_def)
  moreover have "live (new_target_stats 1 1 ''h'') (pd_probe example_pending)"
    "pd_start example_pending = 0" "ts_loss (new_target_stats 1 1 ''h'') = 0"
    by (simp_all add: example_pending_def live_def new_probe_def) (simp add: new_target_stats_def)
  ultimately show ?thesis using sweep_times_out_exactly [OF _ _ _ r] unfolding r by simp
qed

theorem replies_count_once_witness:
  "\<exists>un1 h1 t1 un2 h2 t2. settle_reply (\<lambda>_. 9) 9 \<lparr> rp_rtt = 5, rp_ttl = 64, rp_seq = 1, rp_err = [] \<rparr>
       ([(1, example_pending)], new_recent_history, new_target_stats 1 1 ''h'') = ((un1, h1, t1), True) \<and>
     settle_reply (\<lambda>_. 9) 9 \<lparr> rp_rtt = 5, rp_ttl = 64, rp_seq = 1, rp_err = [] \<rparr> (un1, h1, t1)
       = ((un2, h2, t2), False) \<and> ts_recv t2 = 1 \<and> ts_duplicates t2 = 1"
proof -
  let ?r = "\<lparr> rp_rtt = 5, rp_ttl = 64, rp_seq = 1, rp_err = [] \<rparr>" and ?t = "new_target_stats 1 1 ''h''"
  obtain un1 h1 t1 m1 where a: "settle_reply (\<lambda>_. 9) 9 ?r ([(1, example_pending)], new_recent_history, ?t)
      = ((un1, h1, t1), m1)" by (metis prod.collapse)
  obtain un2 h2 t2 m2 where b: "settle_reply (\<lambda>_. 9) 9 ?r (un1, h1, t1) = ((un2, h2, t2), m2)"
    by (metis prod.collapse)
  have l: "live ?t (pd_probe example_pending)" by (simp add: example_pending_def live_def new_probe_def)
  have z: "ts_recv ?t = 0" "ts_duplicates ?t = 0" by (simp_all add: new_target_stats_def)
  show ?thesis
    using replies_count_once [OF _ l _ new_recent_inv a b] a b z by auto
qed

end
