(* ===== verification/Hop_Probe.thy ===== *)
theory Hop_Probe
  imports Echo_Dispatch
begin

text \<open>
  Route probes (internal/pinger/mtr_probe.go): reserving a trace identifier, the TTL-limited echo
  with its signature, which packets answer it and the two ways replies are received. Sockets,
  the encoder and the lookup are arguments; the packets that arrive are a list in order.
\<close>

section \<open>Identifiers of probes\<close>

record trace_source =
  tr_ids :: "id_allocator option"
  tr_base_id :: int
  tr_counter :: int

definition acquire_trace_id :: "trace_source \<Rightarrow> trace_source \<times> int" where
  "acquire_trace_id s =
     (case tr_ids s of
        Some a \<Rightarrow> (case trace_id a of (a', ident) \<Rightarrow> (s \<lparr> tr_ids := Some a' \<rparr>, ident))
      | None \<Rightarrow> (s \<lparr> tr_counter := tr_counter s + 1 \<rparr>,
                 (tr_base_id s + 0x1234 + (tr_counter s + 1)) AND 0xffff))"

definition release_trace_id :: "int \<Rightarrow> trace_source \<Rightarrow> trace_source" where
  "release_trace_id ident s =
     (case tr_ids s of
        Some a \<Rightarrow> (if ident \<ge> 0 then s \<lparr> tr_ids := Some (release_trace a ident) \<rparr> else s)
      | None \<Rightarrow> s)"

definition held_traces :: "trace_source \<Rightarrow> int set" where
  "held_traces s = (case tr_ids s of Some a \<Rightarrow> ia_traces a | None \<Rightarrow> {})"

lemma release_acquired:
  assumes "acquire_trace_id s = (s', ident)"
    and "\<forall>a. tr_ids s = Some a \<longrightarrow> allocator_inv a"
  shows "held_traces (release_trace_id ident s') = held_traces s"
proof (cases "tr_ids s")
  case None
  then show ?thesis using assms by (auto simp: acquire_trace_id_def release_trace_id_def held_traces_def)
next
  case (Some a)
  have inv: "allocator_inv a" using assms(2) Some by simp
  have s': "s' = s \<lparr> tr_ids := Some (fst (trace_id a)) \<rparr>" "ident = snd (trace_id a)"
    using assms(1) Some by (auto simp: acquire_trace_id_def split: prod.splits)
  show ?thesis
  proof (cases "0 \<le> ident")
    case True
    then show ?thesis using traces.acquire_release [OF inv]
      by (simp add: s' release_trace_id_def held_traces_def Some)
  next
    case False
    then have "ia_traces a = trace_ids" using traces.acquire_fails_iff [OF inv] by (simp add: s')
    then show ?thesis using False traces.acquire_full [OF inv]
      by (simp add: s' release_trace_id_def held_traces_def Some)
  qed
qed

section \<open>Replies\<close>

record hop_reply_result =
  hr_src :: string
  hr_rtt :: duration
  hr_reached :: bool
  hr_responded :: bool

definition no_hop_reply :: hop_reply_result where
  "no_hop_reply = \<lparr> hr_src = [], hr_rtt = 0, hr_reached = False, hr_responded = False \<rparr>"

text \<open>The addresses \<open>extractSrcIP\<close> distinguishes, with the text of their IP or of the address.\<close>

datatype src_addr = NilAddr | IPAddr string | UDPAddr string | OtherAddr string

fun extract_src_ip :: "src_addr \<Rightarrow> string" where
  "extract_src_ip NilAddr = []"
| "extract_src_ip (IPAddr ip) = ip"
| "extract_src_ip (UDPAddr ip) = ip"
| "extract_src_ip (OtherAddr s) = s"

text \<open>\<open>acceptHopPacket\<close>; None for a packet that is not about this probe.\<close>

definition accept_hop_packet ::
  "icmp_parser \<Rightarrow> icmp_message \<Rightarrow> src_addr \<Rightarrow> int \<Rightarrow> int \<Rightarrow> hop_reply_result option" where
  "accept_hop_packet parse msg src tid ttl =
     (let ip = extract_src_ip src;
          hop = no_hop_reply \<lparr> hr_src := ip, hr_responded := True \<rparr>
      in if im_type msg \<in> {v4_echo_reply, v6_echo_reply} then
           (case im_body msg of
              Echo ident sq data \<Rightarrow>
                (if ident = tid \<and> sq = ttl then Some (hop \<lparr> hr_reached := True \<rparr>) else None)
            | _ \<Rightarrow> None)
         else if im_type msg \<in> {v4_time_exceeded, v6_time_exceeded} then
           (if extract_echo_id_seq parse msg = Some (tid, ttl) then Some hop else None)
         else if im_type msg \<in> {v4_dest_unreachable, v6_dest_unreachable} then
           (if extract_echo_id_seq parse msg = Some (tid, ttl)
            then Some (hop \<lparr> hr_reached := True \<rparr>) else None)
         else None)"

datatype hop_error =
    IdsExhausted
  | ResolveFailed string
  | MarshalFailed string
  | SendFailed int string
  | DeadlineFailed string
  | HopCancelled string

text \<open>
  What the \<open>select\<close> of \<open>receiveViaTraceChan\<close> sees, in order; a message comes with the time it is
  read. The timer fires at the end of the list.
\<close>

datatype chan_event = ChanCancelled string | ChanClosed | ChanMessage gotime icmp_message src_addr

fun receive_via_trace_chan ::
  "(icmp_message \<Rightarrow> src_addr \<Rightarrow> hop_reply_result option) \<Rightarrow> gotime \<Rightarrow> chan_event list \<Rightarrow>
   hop_error + hop_reply_result" where
  "receive_via_trace_chan accept sent [] = Inr no_hop_reply"
| "receive_via_trace_chan accept sent (ChanCancelled err # evs) = Inl (HopCancelled err)"
| "receive_via_trace_chan accept sent (ChanClosed # evs) = Inr no_hop_reply"
| "receive_via_trace_chan accept sent (ChanMessage now msg src # evs) =
     (case accept msg src of
        Some r \<Rightarrow> Inr (r \<lparr> hr_rtt := now - sent \<rparr>)
      | None \<Rightarrow> receive_via_trace_chan accept sent evs)"

text \<open>Reads of \<open>receiveViaSocket\<close>: cancelled before the read, a read error (also the deadline, at
  the end of the list) or a packet.\<close>

datatype sock_event = SockCancelled string | SockError | SockPacket gotime "byte list" src_addr

fun receive_via_socket ::
  "icmp_parser \<Rightarrow> int \<Rightarrow> (icmp_message \<Rightarrow> src_addr \<Rightarrow> hop_reply_result option) \<Rightarrow> gotime \<Rightarrow>
   sock_event list \<Rightarrow> hop_error + hop_reply_result" where
  "receive_via_socket parse proto accept sent [] = Inr no_hop_reply"
| "receive_via_socket parse proto accept sent (SockCancelled err # evs) = Inl (HopCancelled err)"
| "receive_via_socket parse proto accept sent (SockError # evs) = Inr no_hop_reply"
| "receive_via_socket parse proto accept sent (SockPacket now b src # evs) =
     (case parse proto b of
        None \<Rightarrow> receive_via_socket parse proto accept sent evs
      | Some msg \<Rightarrow>
          (case accept msg src of
             Some r \<Rightarrow> Inr (r \<lparr> hr_rtt := now - sent \<rparr>)
           | None \<Rightarrow> receive_via_socket parse proto accept sent evs))"

section \<open>Sending a probe\<close>

text \<open>
  What a probe meets: the family of its socket, whether the shared receivers run, the encoder, the
  answer of the write, the deadline of a socket of its own, and what arrives.
\<close>

record hop_env =
  he_v4 :: bool
  he_conn_v4 :: bool
  he_conn_v6 :: bool
  he_marshal :: "icmp_message \<Rightarrow> string + byte list"
  he_write :: "int \<Rightarrow> byte list \<Rightarrow> string option"
  he_sent :: gotime
  he_deadline :: "string option"
  he_chan :: "chan_event list"
  he_sock :: "sock_event list"

definition hop_payload :: "int \<Rightarrow> int \<Rightarrow> byte list" where
  "hop_payload tid ttl = (let payload = replicate 8 0;
      payload = copy_at 0 payload trace_signature;
      payload = copy_at 4 payload (put_uint 2 (nat (tid mod 65536)))
    in copy_at 6 payload (put_uint 2 (nat (ttl mod 65536))))"

definition hop_message :: "bool \<Rightarrow> int \<Rightarrow> int \<Rightarrow> icmp_message" where
  "hop_message v4 tid ttl =
     \<lparr> im_type = (if v4 then ICMPv4 8 else ICMPv6 128), im_code = 0,
       im_body = Echo tid ttl (hop_payload tid ttl) \<rparr>"

text \<open>
  \<open>probeHopAddr\<close>: the registered trace channels when the packet is written (the channel of this
  probe is there before a fast reply can arrive), the channels afterwards, and the result.
\<close>

definition probe_hop_addr ::
  "icmp_parser \<Rightarrow> hop_env \<Rightarrow> int \<Rightarrow> int \<Rightarrow> (int \<Rightarrow> trace_msg list option) \<Rightarrow>
   (int \<Rightarrow> trace_msg list option) option \<times> (int \<Rightarrow> trace_msg list option) \<times> (hop_error + hop_reply_result)" where
  "probe_hop_addr parse e ttl tid chans =
     (case he_marshal e (hop_message (he_v4 e) tid ttl) of
        Inl err \<Rightarrow> (None, chans, Inl (MarshalFailed err))
      | Inr b \<Rightarrow>
          (let shared = (he_v4 e \<and> he_conn_v4 e \<or> \<not> he_v4 e \<and> he_conn_v6 e);
               chans1 = (if shared then chans(tid \<mapsto> []) else chans);
               chans2 = (if shared then chans1(tid := None) else chans1);
               accept = (\<lambda>m src. accept_hop_packet parse m src tid ttl)
           in (Some chans1, chans2,
               case he_write e ttl b of
                 Some err \<Rightarrow> Inl (SendFailed ttl err)
               | None \<Rightarrow>
                   (if shared then receive_via_trace_chan accept (he_sent e) (he_chan e)
                    else case he_deadline e of
                      Some err \<Rightarrow> Inl (DeadlineFailed err)
                    | None \<Rightarrow> receive_via_socket parse (if he_v4 e then proto_icmp else proto_icmpv6)
                        accept (he_sent e) (he_sock e)))))"

definition probe_hop ::
  "icmp_parser \<Rightarrow> string option \<Rightarrow> hop_env \<Rightarrow> int \<Rightarrow> int \<Rightarrow> (int \<Rightarrow> trace_msg list option) \<Rightarrow> trace_source \<Rightarrow>
   (int \<Rightarrow> trace_msg list option) \<times> trace_source \<times> (hop_error + hop_reply_result)" where
  "probe_hop parse resolve_err e ttl tid chans s =
     (if tid < 0 then (chans, s, Inl IdsExhausted)
      else case resolve_err of
        Some err \<Rightarrow> (chans, release_trace_id tid s, Inl (ResolveFailed err))
      | None \<Rightarrow>
          (case probe_hop_addr parse e ttl tid chans of
             (written, chans', r) \<Rightarrow> (chans', release_trace_id tid s, r)))"

section \<open>Properties\<close>

lemma accept_hop_packet_about:
  "accept_hop_packet parse msg src tid ttl = Some r \<Longrightarrow>
   hr_responded r \<and> hr_src r = extract_src_ip src \<and>
   ((im_type msg \<in> {v4_echo_reply, v6_echo_reply} \<and> (\<exists>data. im_body msg = Echo tid ttl data) \<and> hr_reached r) \<or>
    (im_type msg \<in> {v4_time_exceeded, v6_time_exceeded} \<and> extract_echo_id_seq parse msg = Some (tid, ttl) \<and> \<not> hr_reached r) \<or>
    (im_type msg \<in> {v4_dest_unreachable, v6_dest_unreachable} \<and> extract_echo_id_seq parse msg = Some (tid, ttl) \<and> hr_reached r))"
  by (auto simp: accept_hop_packet_def no_hop_reply_def Let_def split: if_splits icmp_body.splits)

lemma chan_reply_origin:
  "receive_via_trace_chan accept sent evs = Inr r \<Longrightarrow> hr_responded r \<Longrightarrow>
   \<exists>now msg src r0. ChanMessage now msg src \<in> set evs \<and> accept msg src = Some r0 \<and>
     r = r0 \<lparr> hr_rtt := now - sent \<rparr>"
  by (induction accept sent evs rule: receive_via_trace_chan.induct)
    (auto simp: no_hop_reply_def split: option.splits)

text \<open>A route probe reports only answers to itself: when a hop is reported to have responded, a
  message arrived whose echo, or whose quoted probe, carries this probe's identifier and this
  TTL, the address reported is its source, the time is measured from the send, and the
  destination is reported reached exactly when the message is not a time exceeded.\<close>

theorem hop_answer_is_to_this_probe:
  assumes "receive_via_trace_chan (\<lambda>m src. accept_hop_packet parse m src tid ttl) sent evs = Inr r"
    and "hr_responded r"
  shows "\<exists>now msg src. ChanMessage now msg src \<in> set evs \<and> hr_src r = extract_src_ip src \<and>
    hr_rtt r = now - sent \<and>
    ((\<exists>data. im_body msg = Echo tid ttl data) \<or> extract_echo_id_seq parse msg = Some (tid, ttl)) \<and>
    (hr_reached r \<longleftrightarrow> im_type msg \<notin> {v4_time_exceeded, v6_time_exceeded})"
proof -
  obtain now msg src r0 where m: "ChanMessage now msg src \<in> set evs"
    "accept_hop_packet parse msg src tid ttl = Some r0" "r = r0 \<lparr> hr_rtt := now - sent \<rparr>"
    using chan_reply_origin [OF assms] by blast
  from accept_hop_packet_about [OF m(2)] show ?thesis
    by (intro exI [of _ now] exI [of _ msg] exI [of _ src]) (auto simp: m icmp_types)
qed

theorem hop_answer_is_to_this_probe_witness:
  "\<exists>now msg src. ChanMessage now msg src \<in> set [ChanMessage 9
       \<lparr> im_type = v4_echo_reply, im_code = 0, im_body = Echo 40000 3 [] \<rparr> (IPAddr ''192.0.2.9'')] \<and>
     ''192.0.2.9'' = extract_src_ip src \<and> now - 2 = (7::int)"
proof -
  let ?m = "\<lparr> im_type = v4_echo_reply, im_code = 0, im_body = Echo 40000 3 [] \<rparr>"
  have "receive_via_trace_chan (\<lambda>m src. accept_hop_packet (\<lambda>_ _. None) m src 40000 3) 2
      [ChanMessage 9 ?m (IPAddr ''192.0.2.9'')]
    = Inr \<lparr> hr_src = ''192.0.2.9'', hr_rtt = 7, hr_reached = True, hr_responded = True \<rparr>"
    by (simp add: accept_hop_packet_def no_hop_reply_def Let_def)
  from hop_answer_is_to_this_probe [OF this] show ?thesis by auto
qed

text \<open>The probe a router quotes back is accepted by the probe that sent it, as a hop on the way:
  the packet written carries the identifier and the TTL, and a time exceeded that quotes it behind
  an IP header is recognised, whatever the payload after it.\<close>

theorem quoted_hop_probe_accepted:
  assumes "parses_echo parse" and "length checksum = 2"
    and "0 \<le> tid" and "tid < 65536" and "0 \<le> ttl" and "ttl < 65536"
    and "v4 \<and> ipv4_header hdr 1 \<or> \<not> v4 \<and> ipv6_header hdr 58"
    and "msg = \<lparr> im_type = (if v4 then v4_time_exceeded else v6_time_exceeded), im_code = 0,
      im_body = TimeExceeded (hdr @ echo_bytes (if v4 then 8 else 128) 0 checksum tid ttl (hop_payload tid ttl)) \<rparr>"
  shows "im_body (hop_message v4 tid ttl) = Echo tid ttl (hop_payload tid ttl) \<and>
    accept_hop_packet parse msg (IPAddr ip) tid ttl
      = Some \<lparr> hr_src = ip, hr_rtt = 0, hr_reached = False, hr_responded = True \<rparr>"
proof -
  have h: "ipv4_header hdr (if v4 then 1 else 58) \<and> (if v4 then 8 else 128) = (8::int) \<and>
      ((if v4 then 1 else 58) = (1::int) \<and> [] = ([]::byte list) \<or> (if v4 then 1 else 58) = (17::int) \<and> length ([]::byte list) = 8) \<or>
    ipv6_header hdr (if v4 then 1 else 58) \<and> (if v4 then 8 else 128) = (128::int) \<and>
      ((if v4 then 1 else 58) = (58::int) \<and> [] = ([]::byte list) \<or> (if v4 then 1 else 58) = (17::int) \<and> length ([]::byte list) = 8)"
    using assms(7) by auto
  have b: "icmp_error_body_data msg = Some (hdr @ [] @ echo_bytes (if v4 then 8 else 128) 0 checksum tid ttl (hop_payload tid ttl))"
    using assms(8) by simp
  have "extract_echo_id_seq parse msg = Some (tid, ttl)"
    by (rule quoted_probe_id_seq [OF assms(1-6) h b])
  then show ?thesis
    by (cases v4) (simp_all add: accept_hop_packet_def hop_message_def assms(8) no_hop_reply_def icmp_types Let_def)
qed

theorem quoted_hop_probe_accepted_witness:
  "accept_hop_packet echo_parser \<lparr> im_type = v6_time_exceeded, im_code = 0, im_body = TimeExceeded
     ((0x60 # replicate 5 0 @ [58] @ replicate 33 0) @ echo_bytes 128 0 [0, 0] 40000 5 (hop_payload 40000 5)) \<rparr>
     (IPAddr ''2001:db8::1'') 40000 5
   = Some \<lparr> hr_src = ''2001:db8::1'', hr_rtt = 0, hr_reached = False, hr_responded = True \<rparr>"
proof -
  have "ipv6_header (0x60 # replicate 5 0 @ [58] @ replicate 33 0) 58"
    by (simp add: ipv6_header_def nth_append)
  with quoted_hop_probe_accepted [OF echo_parser_parses, of "[0, 0]" 40000 5 False
      "0x60 # replicate 5 0 @ [58] @ replicate 33 0" _ "''2001:db8::1''"]
  show ?thesis by simp
qed

text \<open>A route probe gives back what it took on every path: reserving an identifier and probing with
  it leaves exactly the identifiers held before, and its channel is no longer registered, whether
  the probe was answered, timed out, was cancelled or failed.\<close>

theorem probe_hop_releases:
  assumes "acquire_trace_id s = (s1, tid)" and "\<forall>a. tr_ids s = Some a \<longrightarrow> allocator_inv a"
    and "chans tid = None" and "probe_hop parse resolve_err e ttl tid chans s1 = (chans', s', r)"
  shows "held_traces s' = held_traces s \<and> chans' = chans"
proof -
  have rel: "held_traces (release_trace_id tid s1) = held_traces s" by (rule release_acquired [OF assms(1,2)])
  have "tid < 0 \<Longrightarrow> release_trace_id tid s1 = s1" by (simp add: release_trace_id_def split: option.split)
  moreover have "chans(tid := None) = chans" using assms(3) by auto
  ultimately show ?thesis
    using assms(4) rel
    by (auto simp: probe_hop_def probe_hop_addr_def Let_def split: if_splits option.splits sum.splits)
qed

definition example_hop_env :: hop_env where
  "example_hop_env = \<lparr> he_v4 = True, he_conn_v4 = True, he_conn_v6 = False, he_marshal = (\<lambda>m. Inr [8]),
     he_write = (\<lambda>ttl b. None), he_sent = 0, he_deadline = None, he_chan = [], he_sock = [] \<rparr>"

theorem probe_hop_releases_witness:
  "held_traces (fst (snd (probe_hop (\<lambda>_ _. None) (Some ''no route'') example_hop_env 1
     (snd (acquire_trace_id \<lparr> tr_ids = Some new_allocator, tr_base_id = 0, tr_counter = 0 \<rparr>)) (\<lambda>_. None)
     (fst (acquire_trace_id \<lparr> tr_ids = Some new_allocator, tr_base_id = 0, tr_counter = 0 \<rparr>))))) = {}"
proof -
  let ?s = "\<lparr> tr_ids = Some new_allocator, tr_base_id = 0, tr_counter = 0 \<rparr>"
  obtain s1 tid where a: "acquire_trace_id ?s = (s1, tid)" by (cases "acquire_trace_id ?s")
  obtain chans' s' r where p: "probe_hop (\<lambda>_ _. None) (Some ''no route'') example_hop_env 1 tid (\<lambda>_. None) s1 = (chans', s', r)"
    by (metis prod.collapse)
  have "allocator_inv new_allocator" by (simp add: allocator_inv_def new_allocator_def)
  with probe_hop_releases [OF a _ _ p] show ?thesis
    by (simp add: a p held_traces_def) (simp add: new_allocator_def)
qed

end
