(* ===== verification/Pmtu_Search.thy ===== *)
theory Pmtu_Search
  imports Hop_Probe Target_Stats
begin

text \<open>
  Path MTU discovery (internal/pinger/pmtu.go, pmtu_ipv6.go): the binary search over payload sizes
  with don't-fragment echoes for IPv4, and the loop over the kernel's estimate for IPv6. What a
  single probe meets is an argument; its waiting loop is a function of the packets that arrive.
\<close>

section \<open>One IPv4 probe\<close>

text \<open>A system error: whether it is EMSGSIZE, and its text.\<close>

record os_error =
  oe_emsgsize :: bool
  oe_text :: string

definition is_mtu_too_large :: "os_error \<Rightarrow> bool" where
  "is_mtu_too_large e = (if oe_emsgsize e then True
     else str_contains (oe_text e) ''message too long'' \<or> str_contains (oe_text e) ''EMSGSIZE'')"

datatype raw_read = RawReadError | RawPacket "string option" "byte list"

text \<open>\<open>waitIPv4PMTUReply\<close> on the reads before its deadline: passed or not, and the router that said no.\<close>

fun wait_ipv4_pmtu_reply :: "icmp_parser \<Rightarrow> int \<Rightarrow> raw_read list \<Rightarrow> bool \<times> string" where
  "wait_ipv4_pmtu_reply parse tid [] = (False, [])"
| "wait_ipv4_pmtu_reply parse tid (RawReadError # reads) = (False, [])"
| "wait_ipv4_pmtu_reply parse tid (RawPacket src b # reads) =
     (case parse proto_icmp b of
        None \<Rightarrow> wait_ipv4_pmtu_reply parse tid reads
      | Some msg \<Rightarrow>
          if im_type msg = v4_echo_reply then
            (case im_body msg of
               Echo ident sq data \<Rightarrow>
                 (if ident = tid \<and> sq = 0 then (True, []) else wait_ipv4_pmtu_reply parse tid reads)
             | _ \<Rightarrow> wait_ipv4_pmtu_reply parse tid reads)
          else if im_type msg = v4_dest_unreachable \<and> im_code msg = 4 then
            (if extract_echo_id_seq parse msg = Some (tid, 0)
             then (False, case src of None \<Rightarrow> [] | Some ip \<Rightarrow> ip)
             else wait_ipv4_pmtu_reply parse tid reads)
          else wait_ipv4_pmtu_reply parse tid reads)"

text \<open>
  What \<open>canSendPayload\<close> meets: the encoder, the socket it opens (or why not), the header-included
  write and the reads after it.
\<close>

record send_env =
  se_marshal :: "icmp_message \<Rightarrow> string + byte list"
  se_socket :: "string option"
  se_write :: "byte list \<Rightarrow> os_error option"
  se_reads :: "raw_read list"

datatype send_answer = SendError string | SendOk | SendTooLarge string

definition pmtu_message :: "int \<Rightarrow> int \<Rightarrow> icmp_message" where
  "pmtu_message payload_len tid =
     \<lparr> im_type = ICMPv4 8, im_code = 0,
       im_body = Echo tid 0 (build_payload (if payload_len < 0 then 0 else payload_len)) \<rparr>"

definition can_send_payload :: "icmp_parser \<Rightarrow> send_env \<Rightarrow> int \<Rightarrow> int \<Rightarrow> send_answer" where
  "can_send_payload parse e payload_len tid =
     (case se_marshal e (pmtu_message payload_len tid) of
        Inl err \<Rightarrow> SendError err
      | Inr b \<Rightarrow>
          (case se_socket e of
             Some err \<Rightarrow> SendError err
           | None \<Rightarrow>
               (case se_write e b of
                  Some err \<Rightarrow> (if is_mtu_too_large err then SendTooLarge [] else SendError (oe_text err))
                | None \<Rightarrow>
                    (case wait_ipv4_pmtu_reply parse tid (se_reads e) of
                       (ok, hop) \<Rightarrow> if ok then SendOk else SendTooLarge hop))))"

section \<open>The IPv4 search\<close>

datatype pmtu_error =
    StartNotPositive
  | PmtuCancelled
  | PmtuIdsExhausted
  | PmtuProbeFailed string
  | NoReply string

text \<open>
  \<open>send k size\<close> is the answer of the k-th probe (the baseline is probe 0) and \<open>cancelled k\<close> what the
  k-th look at the context finds: before the baseline, after it, and before each further probe.
  The result is the payload, the bottleneck, the error and the log lines.
\<close>

record pmtu4_result =
  p4_payload :: int
  p4_hop :: string
  p4_error :: "pmtu_error option"
  p4_log :: "string list"

lemma sdiv_mid: "(low::int) < high \<Longrightarrow> low < (low + high + 1) sdiv 2 \<and> (low + high + 1) sdiv 2 \<le> high"
  by (cases "low + high + 1 < 0") (auto simp: sdiv_neg sdiv_nonneg)

function pmtu4_loop ::
  "(nat \<Rightarrow> int \<Rightarrow> send_answer) \<Rightarrow> (nat \<Rightarrow> bool) \<Rightarrow> nat \<Rightarrow> int \<Rightarrow> int \<Rightarrow> string \<Rightarrow> string list \<Rightarrow> pmtu4_result" where
  "pmtu4_loop send cancelled k low high hop lg =
     (if low < high then
        (if cancelled (Suc k) then \<lparr> p4_payload = 0, p4_hop = [], p4_error = Some PmtuCancelled, p4_log = lg \<rparr>
         else
           (let mid = (low + high + 1) sdiv 2 in
            case send k mid of
              SendError err \<Rightarrow>
                \<lparr> p4_payload = 0, p4_hop = [], p4_error = Some (PmtuProbeFailed err), p4_log = lg \<rparr>
            | SendOk \<Rightarrow>
                pmtu4_loop send cancelled (Suc k) mid high hop
                  (lg @ [''[PMTU] payload='' @ int_str mid @ '' OK''])
            | SendTooLarge hop_ip \<Rightarrow>
                (let hop' = (if hop_ip \<noteq> [] then hop_ip else hop) in
                 pmtu4_loop send cancelled (Suc k) low (mid - 1) hop'
                   (lg @ [''[PMTU] payload='' @ int_str mid @
                     (if hop' \<noteq> [] then '' FAIL (mtu mismatch: '' @ hop' @ '')'' else '' FAIL'')]))))
      else \<lparr> p4_payload = low, p4_hop = hop, p4_error = None,
             p4_log = lg @ (if hop \<noteq> [] then [''[PMTU] mtu mismatch at: '' @ hop] else []) \<rparr>)"
  by pat_completeness auto
termination
proof (relation "measure (\<lambda>(send, cancelled, k, low, high, hop, lg). nat (high - low))", goal_cases)
  case 1
  then show ?case by simp
next
  case (2 send cancelled k low high hop lg mid)
  then show ?case using sdiv_mid [of low high] by simp
next
  case (3 send cancelled k low high hop lg mid hop_ip hop')
  then show ?case using sdiv_mid [of low high] by simp
qed

declare pmtu4_loop.simps [simp del]

definition discover_ipv4_max_payload ::
  "(nat \<Rightarrow> int \<Rightarrow> int \<Rightarrow> send_answer) \<Rightarrow> (nat \<Rightarrow> bool) \<Rightarrow> int \<Rightarrow> int \<Rightarrow> trace_source \<Rightarrow> pmtu4_result \<times> trace_source" where
  "discover_ipv4_max_payload send cancelled start min_payload s =
     (let fail = (\<lambda>hop err. \<lparr> p4_payload = 0, p4_hop = hop, p4_error = Some err, p4_log = [] \<rparr>);
          low0 = max min_payload 0;
          low = (if low0 > start then start else low0)
      in if start \<le> 0 then (fail [] StartNotPositive, s)
         else if cancelled 0 then (fail [] PmtuCancelled, s)
         else case acquire_trace_id s of (s1, tid) \<Rightarrow>
           if tid < 0 then (fail [] PmtuIdsExhausted, s1)
           else
             (case send 0 low tid of
                SendError err \<Rightarrow> fail [] (PmtuProbeFailed err)
              | SendOk \<Rightarrow>
                  (if cancelled 1 then fail [] PmtuCancelled
                   else pmtu4_loop (\<lambda>k size. send k size tid) cancelled 1 low start [] [])
              | SendTooLarge hop \<Rightarrow>
                  (if cancelled 1 then fail hop PmtuCancelled else fail hop (NoReply hop)),
              release_trace_id tid s1))"

section \<open>The IPv6 estimate\<close>

definition icmp_echo_header_len :: int where "icmp_echo_header_len = 8"
definition ipv4_echo_overhead :: int where "ipv4_echo_overhead = 20 + icmp_echo_header_len"
definition ipv6_echo_overhead :: int where "ipv6_echo_overhead = 40 + icmp_echo_header_len"
definition ipv6_minimum_mtu :: int where "ipv6_minimum_mtu = 1280"
definition pmtu_max_attempts :: nat where "pmtu_max_attempts = 8"
definition receiver_buffer_size :: int where "receiver_buffer_size = 65535"
definition max_probe_mtu :: int where "max_probe_mtu = receiver_buffer_size + 40"

text \<open>A read of \<open>waitIPv6PMTUReply\<close>: the context is looked at before it and after a read error.\<close>

datatype read6 = R6Cancelled | R6Timeout | R6Error os_error | R6Packet "byte list"

fun wait_ipv6_pmtu_reply ::
  "icmp_parser \<Rightarrow> int \<Rightarrow> int \<Rightarrow> byte list \<Rightarrow> read6 list \<Rightarrow> pmtu_error + bool" where
  "wait_ipv6_pmtu_reply parse tid sq payload [] = Inr False"
| "wait_ipv6_pmtu_reply parse tid sq payload (R6Cancelled # reads) = Inl PmtuCancelled"
| "wait_ipv6_pmtu_reply parse tid sq payload (R6Timeout # reads) = Inr False"
| "wait_ipv6_pmtu_reply parse tid sq payload (R6Error err # reads) =
     (if is_mtu_too_large err then Inr False else Inl (PmtuProbeFailed (oe_text err)))"
| "wait_ipv6_pmtu_reply parse tid sq payload (R6Packet b # reads) =
     (case parse proto_icmpv6 b of
        None \<Rightarrow> wait_ipv6_pmtu_reply parse tid sq payload reads
      | Some msg \<Rightarrow>
          if im_type msg = v6_echo_reply \<and> im_body msg = Echo tid sq payload then Inr True
          else if im_type msg = v6_packet_too_big \<and> extract_echo_id_seq parse msg = Some (tid, sq) then Inr False
          else wait_ipv6_pmtu_reply parse tid sq payload reads)"

text \<open>
  What attempt \<open>sq\<close> meets: the context, the kernel's estimate before and after (an error text or
  the value), the clock that marks the payload, the encoder, the deadline, the write, the reads.
\<close>

record attempt6 =
  a6_cancelled :: bool
  a6_path_mtu :: "string + int"
  a6_clock :: gotime
  a6_marshal :: "icmp_message \<Rightarrow> string + byte list"
  a6_deadline :: "string option"
  a6_write :: "os_error option"
  a6_reads :: "read6 list"
  a6_next_mtu :: "string + int"

definition pmtu6_payload :: "int \<Rightarrow> int \<Rightarrow> nat \<Rightarrow> gotime \<Rightarrow> byte list" where
  "pmtu6_payload mtu tid sq now =
     copy_at 0 (replicate (nat (min mtu max_probe_mtu - ipv6_echo_overhead)) 0)
       (bytes_of (''MPING-PMTU-'' @ int_str tid @ ''-'' @ nat_str sq @ ''-'' @ int_str now))"

datatype pmtu6_error =
    P6Cancelled | P6IdsExhausted | P6Query string | P6Invalid int | P6Failed string | P6Wait pmtu_error

definition with_mtu :: "int \<Rightarrow> path_mtu_info \<Rightarrow> path_mtu_info" where
  "with_mtu mtu r = r \<lparr> pm_mtu := mtu, pm_payload := mtu - ipv6_echo_overhead \<rparr>"

text \<open>The loop, with the number of attempts left.\<close>

fun pmtu6_loop ::
  "icmp_parser \<Rightarrow> (nat \<Rightarrow> attempt6) \<Rightarrow> int \<Rightarrow> nat \<Rightarrow> nat \<Rightarrow> path_mtu_info \<Rightarrow> path_mtu_info \<times> pmtu6_error option" where
  "pmtu6_loop parse env tid 0 sq r = (r, None)"
| "pmtu6_loop parse env tid (Suc n) sq r =
     (if a6_cancelled (env sq) then (r, Some P6Cancelled)
      else case a6_path_mtu (env sq) of
        Inl err \<Rightarrow> (r, Some (P6Query err))
      | Inr mtu \<Rightarrow>
          (if mtu < ipv6_minimum_mtu then (r, Some (P6Invalid mtu))
           else
             let r1 = with_mtu mtu r;
                 payload = pmtu6_payload mtu tid sq (a6_clock (env sq));
                 msg = \<lparr> im_type = ICMPv6 128, im_code = 0, im_body = Echo tid (int sq) payload \<rparr>;
                 continue = (case a6_next_mtu (env sq) of
                     Inl err \<Rightarrow> (r1, Some (P6Query err))
                   | Inr nxt \<Rightarrow>
                       (if nxt \<ge> mtu then (r1, None)
                        else if nxt < ipv6_minimum_mtu then (r1, Some (P6Invalid nxt))
                        else pmtu6_loop parse env tid n (Suc sq) (with_mtu nxt r1)))
             in case a6_marshal (env sq) msg of
                  Inl err \<Rightarrow> (r1, Some (P6Failed err))
                | Inr packet \<Rightarrow>
                    (case a6_deadline (env sq) of
                       Some err \<Rightarrow> (r1, Some (P6Failed err))
                     | None \<Rightarrow>
                         (case a6_write (env sq) of
                            Some err \<Rightarrow>
                              (if is_mtu_too_large err then continue else (r1, Some (P6Failed (oe_text err))))
                          | None \<Rightarrow>
                              (case wait_ipv6_pmtu_reply parse tid (int sq) payload (a6_reads (env sq)) of
                                 Inl err \<Rightarrow> (r1, Some (P6Wait err))
                               | Inr matched \<Rightarrow>
                                   (if matched
                                    then (if mtu \<le> max_probe_mtu then r1 \<lparr> pm_status := ''confirmed'' \<rparr> else r1, None)
                                    else continue))))))"

definition discover_ipv6_path_mtu ::
  "icmp_parser \<Rightarrow> (nat \<Rightarrow> attempt6) \<Rightarrow> string \<Rightarrow> trace_source \<Rightarrow>
   (path_mtu_info \<times> pmtu6_error option) \<times> trace_source" where
  "discover_ipv6_path_mtu parse env dst s =
     (let r = empty_path_mtu \<lparr> pm_ip := dst, pm_source := ''os'', pm_status := ''estimated'' \<rparr> in
      case acquire_trace_id s of (s1, tid) \<Rightarrow>
        if tid < 0 then ((r, Some P6IdsExhausted), s1)
        else (pmtu6_loop parse env tid pmtu_max_attempts 1 r, release_trace_id tid s1))"

section \<open>Both families\<close>

datatype dispatch_error = DispatchResolve string | DispatchV4 pmtu_error | DispatchSocket string | DispatchV6 pmtu6_error

text \<open>\<open>DiscoverPathMTU\<close> after the lookup: \<open>v4\<close> and \<open>dst\<close> are the address it selected. An IPv6 failure
  comes with the result so far.\<close>

definition discover_path_mtu ::
  "icmp_parser \<Rightarrow> bool \<Rightarrow> string \<Rightarrow> (nat \<Rightarrow> int \<Rightarrow> int \<Rightarrow> send_answer) \<Rightarrow> (nat \<Rightarrow> bool) \<Rightarrow> int \<Rightarrow> int \<Rightarrow>
   string option \<Rightarrow> (nat \<Rightarrow> attempt6) \<Rightarrow> trace_source \<Rightarrow> (path_mtu_info \<times> dispatch_error option) \<times> trace_source" where
  "discover_path_mtu parse v4 dst send cancelled start min_payload socket_err env s =
     (if v4 then
        (case discover_ipv4_max_payload send cancelled start min_payload s of
           (r, s') \<Rightarrow>
             (case p4_error r of
                Some err \<Rightarrow> ((empty_path_mtu, Some (DispatchV4 err)), s')
              | None \<Rightarrow> ((empty_path_mtu \<lparr> pm_ip := dst, pm_mtu := p4_payload r + ipv4_echo_overhead,
                   pm_payload := p4_payload r, pm_source := ''probe'', pm_status := ''probed'',
                   pm_bottleneck := p4_hop r \<rparr>, None), s')))
      else
        (case socket_err of
           Some err \<Rightarrow> ((empty_path_mtu, Some (DispatchSocket err)), s)
         | None \<Rightarrow>
             (case discover_ipv6_path_mtu parse env dst s of
                ((r, err), s') \<Rightarrow> ((r, map_option DispatchV6 err), s'))))"

section \<open>The search is exact\<close>

lemma pmtu4_loop_sound:
  "p4_error (pmtu4_loop send cancelled k low high hop lg) = None \<Longrightarrow> low \<le> high \<Longrightarrow>
   low \<le> p4_payload (pmtu4_loop send cancelled k low high hop lg) \<and>
   p4_payload (pmtu4_loop send cancelled k low high hop lg) \<le> high \<and>
   (p4_payload (pmtu4_loop send cancelled k low high hop lg) = low \<or>
    (\<exists>j. send j (p4_payload (pmtu4_loop send cancelled k low high hop lg)) = SendOk))"
proof (induction send cancelled k low high hop lg rule: pmtu4_loop.induct)
  case (1 send cancelled k low high hop lg)
  let ?mid = "(low + high + 1) sdiv 2"
  show ?case
  proof (cases "low < high \<and> \<not> cancelled (Suc k)")
    case False
    then show ?thesis using "1.prems" by (auto simp: pmtu4_loop.simps [of send])
  next
    case True
    note mid = sdiv_mid [of low high]
    show ?thesis
    proof (cases "send k ?mid")
      case (SendError err)
      then show ?thesis using "1.prems" True by (simp add: pmtu4_loop.simps [of send cancelled k low])
    next
      case SendOk
      have "pmtu4_loop send cancelled k low high hop lg = pmtu4_loop send cancelled (Suc k) ?mid high hop
          (lg @ [''[PMTU] payload='' @ int_str ?mid @ '' OK''])"
        using True SendOk by (subst pmtu4_loop.simps) (simp add: Let_def)
      then show ?thesis using "1.IH"(1) [OF _ _ refl SendOk] "1.prems" True mid SendOk by fastforce
    next
      case (SendTooLarge hop_ip)
      let ?hop = "if hop_ip \<noteq> [] then hop_ip else hop"
      have "pmtu4_loop send cancelled k low high hop lg = pmtu4_loop send cancelled (Suc k) low (?mid - 1) ?hop
          (lg @ [''[PMTU] payload='' @ int_str ?mid @
             (if ?hop \<noteq> [] then '' FAIL (mtu mismatch: '' @ ?hop @ '')'' else '' FAIL'')])"
        using True SendTooLarge by (subst pmtu4_loop.simps) (simp add: Let_def)
      then show ?thesis using "1.IH"(2) [OF _ _ refl SendTooLarge refl] "1.prems" True mid by force
    qed
  qed
qed

text \<open>A path that lets exactly the payloads up to \<open>M\<close> through, however often it is asked.\<close>

definition path_limit :: "(nat \<Rightarrow> int \<Rightarrow> send_answer) \<Rightarrow> int \<Rightarrow> bool" where
  "path_limit send M \<longleftrightarrow> (\<forall>k size. (if size \<le> M then send k size = SendOk
     else (\<exists>hop. send k size = SendTooLarge hop)))"

lemma half_less: "low < high \<Longrightarrow> high - low < 2 * d \<Longrightarrow>
    high - (low + high + 1) sdiv 2 < d \<and> (low + high + 1) sdiv 2 - 1 - low < (d::int)"
  by (cases "low + high + 1 < 0") (auto simp: sdiv_neg sdiv_nonneg)

lemma pmtu4_loop_exact:
  assumes "path_limit send M" and "\<forall>k. \<not> cancelled k" and "low \<le> M" and "low \<le> high"
    and "high - low < 2 ^ n"
  shows "p4_error (pmtu4_loop send cancelled k low high hop lg) = None \<and>
    p4_payload (pmtu4_loop send cancelled k low high hop lg) = min M high \<and>
    length (p4_log (pmtu4_loop send cancelled k low high hop lg)) \<le> length lg + n + 1"
  using assms
proof (induction n arbitrary: k low high hop lg)
  case 0
  then show ?case by (simp add: pmtu4_loop.simps [of send])
next
  case (Suc n)
  let ?mid = "(low + high + 1) sdiv 2"
  show ?case
  proof (cases "low < high")
    case False
    then show ?thesis using Suc.prems by (simp add: pmtu4_loop.simps [of send])
  next
    case True
    note mid = sdiv_mid [OF True] half_less [OF True, of "2 ^ n"]
    have nc: "\<not> cancelled (Suc k)" using Suc.prems(2) by simp
    show ?thesis
    proof (cases "?mid \<le> M")
      case le: True
      then have ok: "send k ?mid = SendOk" using Suc.prems(1) by (simp add: path_limit_def)
      define lg' where "lg' = lg @ [''[PMTU] payload='' @ int_str ?mid @ '' OK'']"
      have e: "pmtu4_loop send cancelled k low high hop lg = pmtu4_loop send cancelled (Suc k) ?mid high hop lg'"
        using True nc ok by (subst pmtu4_loop.simps) (simp add: Let_def lg'_def)
      have l: "length lg' = Suc (length lg)" by (simp add: lg'_def)
      show ?thesis unfolding e
        using Suc.IH [OF Suc.prems(1,2) le, of high "Suc k" hop lg'] Suc.prems(5) mid l by simp
    next
      case gt: False
      then obtain hop_ip where tl: "send k ?mid = SendTooLarge hop_ip"
        using Suc.prems(1) by (force simp: path_limit_def)
      define hop' where "hop' = (if hop_ip \<noteq> [] then hop_ip else hop)"
      define lg' where "lg' = lg @ [''[PMTU] payload='' @ int_str ?mid @
             (if hop' \<noteq> [] then '' FAIL (mtu mismatch: '' @ hop' @ '')'' else '' FAIL'')]"
      have e: "pmtu4_loop send cancelled k low high hop lg
          = pmtu4_loop send cancelled (Suc k) low (?mid - 1) hop' lg'"
        using True nc tl by (subst pmtu4_loop.simps) (simp add: Let_def hop'_def lg'_def)
      have l: "length lg' = Suc (length lg)" by (simp add: lg'_def)
      have "min M high = min M (?mid - 1)" using gt mid by simp
      then show ?thesis unfolding e
        using Suc.IH [OF Suc.prems(1,2,3), of "?mid - 1" "Suc k" hop' lg'] Suc.prems(3,5) mid gt l by simp
    qed
  qed
qed

lemma low_clamp: "(if start < max m 0 then start else max m 0) = min (max m 0) (start::int)"
  by (auto simp: min_def max_def)

text \<open>An IPv4 path MTU is never invented: a result without an error is a payload between the
  smallest the caller accepts and the largest it asks for, and a don't-fragment echo of exactly
  that size was answered.\<close>

theorem pmtu4_result_was_answered:
  assumes "discover_ipv4_max_payload send cancelled start min_payload s = (r, s')" and "p4_error r = None"
  shows "min (max min_payload 0) start \<le> p4_payload r \<and> p4_payload r \<le> start \<and>
    (\<exists>k tid. send k (p4_payload r) tid = SendOk)"
proof -
  define low where "low = min (max min_payload 0) start"
  obtain s1 tid where a: "acquire_trace_id s = (s1, tid)" by (cases "acquire_trace_id s")
  note D = discover_ipv4_max_payload_def [of send cancelled start min_payload s,
      unfolded Let_def low_clamp a prod.case, folded low_def]
  have d: "\<not> start \<le> 0" "\<not> cancelled 0" "\<not> tid < 0" "send 0 low tid = SendOk" "\<not> cancelled 1"
    "r = pmtu4_loop (\<lambda>k size. send k size tid) cancelled 1 low start [] []"
    using assms unfolding D by (auto
        split: if_splits send_answer.splits)
  have "low \<le> start" by (simp add: low_def)
  moreover have "p4_error (pmtu4_loop (\<lambda>k size. send k size tid) cancelled 1 low start [] []) = None"
    using assms(2) d(6) by simp
  ultimately have "low \<le> p4_payload r \<and> p4_payload r \<le> start \<and>
      (p4_payload r = low \<or> (\<exists>j. send j (p4_payload r) tid = SendOk))"
    using pmtu4_loop_sound [of "\<lambda>k size. send k size tid" cancelled 1 low start "[]" "[]"] d(6) by simp
  then show ?thesis unfolding low_def [symmetric] using d(4) by metis
qed

text \<open>C9: The IPv4 search is exact and logarithmic: on a path that carries exactly the payloads up to a
  limit no smaller than the first one tried, it returns the largest payload not above the start
  that gets through, and where start and first size differ by less than 2^n it sends at most n
  probes after the first (each logs a line, and one more line may name the bottleneck).\<close>

theorem pmtu4_search_exact:
  assumes "\<forall>tid. path_limit (\<lambda>k size. send k size tid) M" and "\<forall>k. \<not> cancelled k"
    and "0 < start" and "min (max min_payload 0) start \<le> M"
    and "start - min (max min_payload 0) start < 2 ^ n"
    and "0 \<le> snd (acquire_trace_id s)"
  shows "p4_error (fst (discover_ipv4_max_payload send cancelled start min_payload s)) = None \<and>
    p4_payload (fst (discover_ipv4_max_payload send cancelled start min_payload s)) = min M start \<and>
    length (p4_log (fst (discover_ipv4_max_payload send cancelled start min_payload s))) \<le> n + 1"
proof -
  define low where "low = min (max min_payload 0) start"
  obtain s1 tid where a: "acquire_trace_id s = (s1, tid)" by (cases "acquire_trace_id s")
  have l: "path_limit (\<lambda>k size. send k size tid) M" using assms(1) by blast
  have ok: "send 0 low tid = SendOk" using l assms(4) by (simp add: path_limit_def low_def)
  note D = discover_ipv4_max_payload_def [of send cancelled start min_payload s,
      unfolded Let_def low_clamp a prod.case, folded low_def]
  have "fst (discover_ipv4_max_payload send cancelled start min_payload s)
      = pmtu4_loop (\<lambda>k size. send k size tid) cancelled 1 low start [] []"
    using assms(2,3,6) ok by (simp add: D a)
  then show ?thesis
    using pmtu4_loop_exact [OF l assms(2), of low start n 1 "[]" "[]"] assms(4,5) by (simp add: low_def)
qed

definition limited_path :: "nat \<Rightarrow> int \<Rightarrow> int \<Rightarrow> send_answer" where
  "limited_path k sz tid = (if sz \<le> 1400 then SendOk else SendTooLarge ''192.0.2.1'')"

definition one_pinger :: trace_source where
  "one_pinger = \<lparr> tr_ids = None, tr_base_id = 5, tr_counter = 0 \<rparr>"

lemma one_pinger_id: "snd (acquire_trace_id one_pinger) = 0x123A"
  by (simp add: acquire_trace_id_def one_pinger_def)

theorem pmtu4_search_exact_witness:
  "p4_payload (fst (discover_ipv4_max_payload limited_path (\<lambda>_. False) 1472 500 one_pinger)) = 1400 \<and>
   length (p4_log (fst (discover_ipv4_max_payload limited_path (\<lambda>_. False) 1472 500 one_pinger))) \<le> 10 + 1"
  using pmtu4_search_exact [of limited_path 1400 "\<lambda>_. False" 1472 500 10 one_pinger]
  by (simp add: one_pinger_id path_limit_def limited_path_def)

theorem pmtu4_result_was_answered_witness:
  "\<exists>r s'. discover_ipv4_max_payload limited_path (\<lambda>_. False) 3 3 one_pinger = (r, s') \<and>
     (\<exists>k tid. limited_path k (p4_payload r) tid = SendOk)"
proof -
  obtain r s' where d: "discover_ipv4_max_payload limited_path (\<lambda>_. False) 3 3 one_pinger = (r, s')"
    by (cases "discover_ipv4_max_payload limited_path (\<lambda>_. False) 3 3 one_pinger")
  obtain s1 where a: "acquire_trace_id one_pinger = (s1, 0x123A)"
    using one_pinger_id by (cases "acquire_trace_id one_pinger") auto
  have "p4_error r = None"
    using d by (auto simp: discover_ipv4_max_payload_def Let_def a limited_path_def pmtu4_loop.simps)
  from pmtu4_result_was_answered [OF d this] d show ?thesis by blast
qed

section \<open>The IPv6 estimate is confirmed by an echo of its size\<close>

lemma wait6_matched:
  "wait_ipv6_pmtu_reply parse tid sq payload reads = Inr True \<Longrightarrow>
   \<exists>b m. R6Packet b \<in> set reads \<and> parse proto_icmpv6 b = Some m \<and> im_type m = v6_echo_reply \<and>
     im_body m = Echo tid sq payload"
  by (induction parse tid sq payload reads rule: wait_ipv6_pmtu_reply.induct)
    (auto split: if_splits option.splits)

lemma with_mtu_fields [simp]: "pm_status (with_mtu m r) = pm_status r" "pm_mtu (with_mtu m r) = m"
  "pm_payload (with_mtu m r) = m - ipv6_echo_overhead" "pm_ip (with_mtu m r) = pm_ip r"
  by (simp_all add: with_mtu_def)

text \<open>An attempt of which the result is the confirmed one.\<close>

definition confirmed_by :: "icmp_parser \<Rightarrow> attempt6 \<Rightarrow> int \<Rightarrow> nat \<Rightarrow> int \<Rightarrow> bool" where
  "confirmed_by parse a tid sq mtu \<longleftrightarrow> a6_path_mtu a = Inr mtu \<and> a6_write a = None \<and> mtu \<le> max_probe_mtu \<and>
     (\<exists>b m. R6Packet b \<in> set (a6_reads a) \<and> parse proto_icmpv6 b = Some m \<and>
        im_type m = v6_echo_reply \<and> im_body m = Echo tid (int sq) (pmtu6_payload mtu tid sq (a6_clock a)))"

lemma pmtu6_loop_result:
  assumes "pmtu6_loop parse env tid n sq r = (r', err)" and "pm_status r = ''estimated''"
    and "ipv6_minimum_mtu \<le> pm_mtu r \<and> pm_payload r = pm_mtu r - ipv6_echo_overhead \<or> err = None \<and> 0 < n"
  shows "(err = None \<longrightarrow> ipv6_minimum_mtu \<le> pm_mtu r' \<and> pm_payload r' = pm_mtu r' - ipv6_echo_overhead) \<and>
    pm_ip r' = pm_ip r \<and>
    (pm_status r' = ''estimated'' \<or> err = None \<and> pm_status r' = ''confirmed'' \<and>
      (\<exists>k. sq \<le> k \<and> k < sq + n \<and> confirmed_by parse (env k) tid k (pm_mtu r')))"
  using assms
proof (induction n arbitrary: sq r)
  case 0
  then show ?case by auto
next
  case (Suc n)
  show ?case
  proof (cases "a6_cancelled (env sq) \<or> (\<exists>e. a6_path_mtu (env sq) = Inl e) \<or>
      (\<exists>m. a6_path_mtu (env sq) = Inr m \<and> m < ipv6_minimum_mtu)")
    case True
    then show ?thesis using Suc.prems by (auto split: if_splits)
  next
    case False
    then obtain mtu where m: "a6_path_mtu (env sq) = Inr mtu" "\<not> mtu < ipv6_minimum_mtu"
      and nc: "\<not> a6_cancelled (env sq)" by (cases "a6_path_mtu (env sq)") auto
    let ?r1 = "with_mtu mtu r"
    let ?p = "pmtu6_payload mtu tid sq (a6_clock (env sq))"
    define continue where "continue = (case a6_next_mtu (env sq) of
        Inl err \<Rightarrow> (?r1, Some (P6Query err))
      | Inr nxt \<Rightarrow>
          (if nxt \<ge> mtu then (?r1, None)
           else if nxt < ipv6_minimum_mtu then (?r1, Some (P6Invalid nxt))
           else pmtu6_loop parse env tid n (Suc sq) (with_mtu nxt ?r1)))"
    have ok1: "ipv6_minimum_mtu \<le> pm_mtu ?r1 \<and> pm_payload ?r1 = pm_mtu ?r1 - ipv6_echo_overhead"
      using m by simp
    have cont: ?thesis if c: "continue = (r', err)"
    proof (cases "a6_next_mtu (env sq)")
      case (Inl e)
      then show ?thesis using c Suc.prems(2) ok1 by (auto simp: continue_def)
    next
      case (Inr nxt)
      consider (stay) "nxt \<ge> mtu" | (bad) "nxt < mtu" "nxt < ipv6_minimum_mtu"
        | (again) "nxt < mtu" "\<not> nxt < ipv6_minimum_mtu" by linarith
      then show ?thesis
      proof cases
        case again
        then have "pmtu6_loop parse env tid n (Suc sq) (with_mtu nxt ?r1) = (r', err)"
          using c Inr by (simp add: continue_def)
        note IH = Suc.IH [OF this, unfolded with_mtu_fields, OF Suc.prems(2)]
        have "ipv6_minimum_mtu \<le> nxt \<and> nxt - ipv6_echo_overhead = nxt - ipv6_echo_overhead" using again by simp
        with IH have "(err = None \<longrightarrow> ipv6_minimum_mtu \<le> pm_mtu r' \<and> pm_payload r' = pm_mtu r' - ipv6_echo_overhead) \<and>
            pm_ip r' = pm_ip r \<and> (pm_status r' = ''estimated'' \<or> err = None \<and> pm_status r' = ''confirmed'' \<and>
            (\<exists>k. Suc sq \<le> k \<and> k < Suc sq + n \<and> confirmed_by parse (env k) tid k (pm_mtu r')))"
          by blast
        moreover have "Suc sq \<le> k \<and> k < Suc sq + n \<Longrightarrow> sq \<le> k \<and> k < sq + Suc n" for k by simp
        ultimately show ?thesis by meson
      qed (use c Inr Suc.prems(2) ok1 in \<open>auto simp: continue_def\<close>)
    qed
    have step: "pmtu6_loop parse env tid (Suc n) sq r =
      (case a6_marshal (env sq) \<lparr> im_type = ICMPv6 128, im_code = 0, im_body = Echo tid (int sq) ?p \<rparr> of
         Inl err \<Rightarrow> (?r1, Some (P6Failed err))
       | Inr packet \<Rightarrow>
          (case a6_deadline (env sq) of
             Some err \<Rightarrow> (?r1, Some (P6Failed err))
           | None \<Rightarrow>
              (case a6_write (env sq) of
                 Some err \<Rightarrow> (if is_mtu_too_large err then continue else (?r1, Some (P6Failed (oe_text err))))
               | None \<Rightarrow>
                  (case wait_ipv6_pmtu_reply parse tid (int sq) ?p (a6_reads (env sq)) of
                     Inl err \<Rightarrow> (?r1, Some (P6Wait err))
                   | Inr matched \<Rightarrow>
                       (if matched
                        then (if mtu \<le> max_probe_mtu then ?r1 \<lparr> pm_status := ''confirmed'' \<rparr> else ?r1, None)
                        else continue)))))"
      unfolding continue_def using m nc by (simp add: Let_def split del: if_split)
    show ?thesis
    proof (cases "a6_write (env sq) = None \<and>
        wait_ipv6_pmtu_reply parse tid (int sq) ?p (a6_reads (env sq)) = Inr True")
      case True
      then obtain b msg where w: "R6Packet b \<in> set (a6_reads (env sq))" "parse proto_icmpv6 b = Some msg"
        "im_type msg = v6_echo_reply" "im_body msg = Echo tid (int sq) ?p"
        using wait6_matched by blast
      then have "mtu \<le> max_probe_mtu \<Longrightarrow> confirmed_by parse (env sq) tid sq mtu"
        using True m by (auto simp: confirmed_by_def)
      then show ?thesis using Suc.prems(1,2) True ok1 unfolding step
        by (auto split: sum.splits option.splits if_splits intro!: exI [of _ sq])
    next
      case False
      then show ?thesis using Suc.prems(1,2) ok1 cont unfolding step
        by (auto split: sum.splits option.splits if_splits)
    qed
  qed
qed

text \<open>A failure leaves the estimate unconfirmed.\<close>

lemma pmtu6_loop_failed:
  "pmtu6_loop parse env tid n sq r = (r', Some err) \<Longrightarrow> pm_status r' = pm_status r \<and> pm_ip r' = pm_ip r"
proof (induction n arbitrary: sq r)
  case (Suc n)
  then show ?case
    by (fastforce simp: Let_def split: if_splits sum.splits option.splits)
qed simp

text \<open>An IPv6 path MTU is reported as confirmed only when, in one of at most eight attempts, an echo
  reply came back with the whole payload of an unfragmented probe of that very size; every other
  result stays an estimate, and a result without an error is at least the IPv6 minimum of 1280
  with the payload it leaves room for.\<close>

theorem pmtu6_confirmed_by_echo:
  assumes "discover_ipv6_path_mtu parse env dst s = ((r, err), s')"
  shows "(err = None \<longrightarrow> 1280 \<le> pm_mtu r \<and> pm_payload r = pm_mtu r - 48) \<and> pm_ip r = dst \<and>
    (pm_status r = ''estimated'' \<or>
     err = None \<and> pm_status r = ''confirmed'' \<and>
     (\<exists>k tid. 1 \<le> k \<and> k \<le> 8 \<and> confirmed_by parse (env k) tid k (pm_mtu r)))"
proof -
  obtain s1 tid where a: "acquire_trace_id s = (s1, tid)" by (cases "acquire_trace_id s")
  let ?r = "empty_path_mtu \<lparr> pm_ip := dst, pm_source := ''os'', pm_status := ''estimated'' \<rparr>"
  show ?thesis
  proof (cases "tid < 0")
    case True
    then show ?thesis using assms by (auto simp: discover_ipv6_path_mtu_def Let_def a)
  next
    case False
    then have l: "pmtu6_loop parse env tid 8 1 ?r = (r, err)"
      using assms by (simp add: discover_ipv6_path_mtu_def Let_def a pmtu_max_attempts_def)
    show ?thesis
    proof (cases err)
      case None
      have "(err = None \<longrightarrow> ipv6_minimum_mtu \<le> pm_mtu r \<and> pm_payload r = pm_mtu r - ipv6_echo_overhead) \<and>
          pm_ip r = pm_ip ?r \<and> (pm_status r = ''estimated'' \<or> err = None \<and> pm_status r = ''confirmed'' \<and>
          (\<exists>k. 1 \<le> k \<and> k < 1 + 8 \<and> confirmed_by parse (env k) tid k (pm_mtu r)))"
        by (rule pmtu6_loop_result [OF l]) (simp_all add: None)
      then show ?thesis
        by (auto simp: ipv6_minimum_mtu_def ipv6_echo_overhead_def icmp_echo_header_len_def)
    next
      case (Some e)
      have "pm_ip r = dst \<and> pm_status r = ''estimated''"
        using pmtu6_loop_failed [OF l [unfolded Some]] by simp
      then show ?thesis using Some by simp
    qed
  qed
qed

definition answered_attempt :: attempt6 where
  "answered_attempt = \<lparr> a6_cancelled = False, a6_path_mtu = Inr 1500, a6_clock = 0,
     a6_marshal = (\<lambda>m. Inr [128]), a6_deadline = None, a6_write = None, a6_reads = [R6Packet [129]],
     a6_next_mtu = Inr 1500 \<rparr>"

definition answering_parser :: icmp_parser where
  "answering_parser proto b = Some \<lparr> im_type = v6_echo_reply, im_code = 0,
     im_body = Echo 0x123A 1 (pmtu6_payload 1500 0x123A 1 0) \<rparr>"

theorem pmtu6_confirmed_by_echo_witness:
  "\<exists>r s'. discover_ipv6_path_mtu answering_parser (\<lambda>_. answered_attempt) ''2001:db8::1'' one_pinger = ((r, None), s') \<and>
     pm_mtu r = 1500 \<and> pm_status r = ''confirmed'' \<and>
     (\<exists>k tid. 1 \<le> k \<and> k \<le> 8 \<and> confirmed_by answering_parser answered_attempt tid k 1500)"
proof -
  obtain s1 where a: "acquire_trace_id one_pinger = (s1, 0x123A)"
    using one_pinger_id by (cases "acquire_trace_id one_pinger") auto
  let ?r = "empty_path_mtu \<lparr> pm_ip := ''2001:db8::1'', pm_source := ''os'', pm_status := ''estimated'' \<rparr>"
  have n: "pmtu_max_attempts = Suc 7" by (simp add: pmtu_max_attempts_def)
  have l: "pmtu6_loop answering_parser (\<lambda>_. answered_attempt) 0x123A (Suc n) 1 r
      = (with_mtu 1500 r \<lparr> pm_status := ''confirmed'' \<rparr>, None)" for n r
    by (simp add: Let_def answered_attempt_def answering_parser_def
        ipv6_minimum_mtu_def max_probe_mtu_def receiver_buffer_size_def)
  have d: "discover_ipv6_path_mtu answering_parser (\<lambda>_. answered_attempt) ''2001:db8::1'' one_pinger
      = ((with_mtu 1500 ?r \<lparr> pm_status := ''confirmed'' \<rparr>, None), release_trace_id 0x123A s1)"
    unfolding discover_ipv6_path_mtu_def Let_def a prod.case n l by simp
  from pmtu6_confirmed_by_echo [OF d] d show ?thesis by auto
qed

end
