(* ===== verification/Export_Summary.thy ===== *)
theory Export_Summary
  imports Target_View
begin

text \<open>
  The statistics export (internal/stats/export.go): the summaries of targets, hops, ports and HTTP
  checks that the JSON report and the web API serialise. A JSON field the code omits when empty
  is the empty value here.
\<close>

section \<open>Summaries\<close>

record hop_summary =
  hs_ttl :: int
  hs_ip :: string
  hs_asn :: string
  hs_country :: string
  hs_org :: string
  hs_ptr :: string
  hs_sent :: int
  hs_recv :: int
  hs_loss_pct :: float64
  hs_loss_level :: level
  hs_last_rtt_ms :: float64
  hs_avg_rtt_ms :: float64
  hs_min_rtt_ms :: float64
  hs_max_rtt_ms :: float64
  hs_jitter_ms :: float64

record port_summary =
  ps_port :: int
  ps_protocol :: string
  ps_status :: string
  ps_level :: level
  ps_rtt_ms :: float64
  ps_open :: int
  ps_closed :: int

record http_summary =
  ht_url :: string
  ht_status :: string
  ht_level :: level
  ht_status_code :: int
  ht_last_rtt_ms :: float64
  ht_min_rtt_ms :: float64
  ht_avg_rtt_ms :: float64
  ht_max_rtt_ms :: float64
  ht_up :: int
  ht_down :: int

record target_summary =
  te_health :: health_view
  te_levels :: levels
  te_measurement_state :: string
  te_id :: nat
  te_started_at :: gotime
  te_cancelled :: int
  te_host :: string
  te_ip :: string
  te_asn :: string
  te_country :: string
  te_org :: string
  te_ptr :: string
  te_sent :: int
  te_recv :: int
  te_loss :: int
  te_duplicates :: int
  te_late_replies :: int
  te_loss_rate_pct :: float64
  te_min_rtt_ms :: float64
  te_avg_rtt_ms :: float64
  te_max_rtt_ms :: float64
  te_last_rtt_ms :: float64
  te_jitter_ms :: float64
  te_last_ttl :: int
  te_last_error :: string
  te_last_loss_time :: "gotime option"
  te_port_results :: "port_summary list"
  te_pmtu :: int
  te_path_mtu :: int
  te_pmtu_source :: string
  te_pmtu_status :: string
  te_pmtu_bottleneck :: string
  te_mtr_hops :: "hop_summary list"
  te_mtr_error :: string

definition port_summaries :: "port_view list \<Rightarrow> port_summary list" where
  "port_summaries = map (\<lambda>p. \<lparr> ps_port = pv_port p, ps_protocol = pv_protocol p, ps_status = pv_status p,
     ps_level = port_status_level (pv_status p), ps_rtt_ms = duration_ms (pv_rtt p),
     ps_open = pv_open p, ps_closed = pv_closed p \<rparr>)"

definition hop_summaries :: "hop_view list \<Rightarrow> thresholds \<Rightarrow> hop_summary list" where
  "hop_summaries hops th = map (\<lambda>h. \<lparr> hs_ttl = hv_ttl h, hs_ip = hv_ip h, hs_asn = hv_asn h,
     hs_country = hv_country h, hs_org = hv_org h, hs_ptr = hv_ptr h, hs_sent = hv_sent h,
     hs_recv = hv_recv h, hs_loss_pct = hv_loss_pct h, hs_loss_level = hop_loss_level th (hv_loss_pct h),
     hs_last_rtt_ms = duration_ms (hv_last_rtt h), hs_avg_rtt_ms = duration_ms (hv_avg_rtt h),
     hs_min_rtt_ms = duration_ms (hv_min_rtt h), hs_max_rtt_ms = duration_ms (hv_max_rtt h),
     hs_jitter_ms = duration_ms (hv_jitter h) \<rparr>) hops"

definition http_check_summaries :: "http_view list \<Rightarrow> http_summary list" where
  "http_check_summaries = map (\<lambda>v. \<lparr> ht_url = hv_url v, ht_status = hv_status v,
     ht_level = http_status_level (hv_status v), ht_status_code = hv_status_code v,
     ht_last_rtt_ms = duration_ms (hv_rtt v), ht_min_rtt_ms = duration_ms (hv_min v),
     ht_avg_rtt_ms = duration_ms (hv_avg v), ht_max_rtt_ms = duration_ms (hv_max v),
     ht_up = hv_up v, ht_down = hv_down v \<rparr>)"

definition target_summary_from_view :: "target_view \<Rightarrow> target_summary" where
  "target_summary_from_view v =
     \<lparr> te_health = tv_health v, te_levels = tv_levels v, te_measurement_state = tv_measurement_state v,
       te_id = tv_id v, te_started_at = tv_started_at v, te_cancelled = tv_cancelled v,
       te_host = tv_host v, te_ip = tv_ip v, te_asn = tv_asn v, te_country = tv_country v,
       te_org = tv_org v, te_ptr = tv_ptr v, te_sent = tv_sent v, te_recv = tv_recv v,
       te_loss = tv_loss v, te_duplicates = tv_duplicates v, te_late_replies = tv_late_replies v,
       te_loss_rate_pct = (if tv_sent v > 0
          then f_of_int (tv_loss v) / f_of_int (tv_sent v) * Finite 100 else 0),
       te_min_rtt_ms = duration_ms (tv_min_rtt v), te_avg_rtt_ms = duration_ms (tv_avg_rtt v),
       te_max_rtt_ms = duration_ms (tv_max_rtt v), te_last_rtt_ms = duration_ms (tv_last_rtt v),
       te_jitter_ms = duration_ms (tv_jitter v), te_last_ttl = tv_last_ttl v,
       te_last_error = tv_last_error v,
       te_last_loss_time = (if is_zero_time (tv_last_loss_time v) then None else Some (tv_last_loss_time v)),
       te_port_results = port_summaries (tv_port_results v), te_pmtu = tv_pmtu v,
       te_path_mtu = tv_path_mtu v, te_pmtu_source = tv_pmtu_source v,
       te_pmtu_status = tv_pmtu_status v, te_pmtu_bottleneck = tv_pmtu_bottleneck v,
       te_mtr_hops = hop_summaries (tv_mtr_hops v) (tv_thresholds v), te_mtr_error = tv_mtr_error v \<rparr>"

record export_snapshot =
  es_timestamp :: gotime
  es_targets :: "target_summary list"
  es_http_checks :: "http_summary list"

definition build_snapshot_from_views :: "gotime \<Rightarrow> target_view list \<Rightarrow> http_view list \<Rightarrow> export_snapshot" where
  "build_snapshot_from_views now targets https =
     \<lparr> es_timestamp = now, es_targets = map target_summary_from_view targets,
       es_http_checks = http_check_summaries https \<rparr>"

definition build_snapshot :: "gotime \<Rightarrow> target_stats list \<Rightarrow> http_check list \<Rightarrow> export_snapshot" where
  "build_snapshot now targets https =
     build_snapshot_from_views now (map (\<lambda>t. get_view_window 0 t) targets) (map http_get_view https)"

section \<open>The exported loss rate\<close>

lemma view_counters [simp]:
  "tv_sent (view_locked f t) = ts_sent t" "tv_recv (view_locked f t) = ts_recv t"
  "tv_loss (view_locked f t) = ts_loss t" "tv_id (view_locked f t) = ts_id t"
  by (simp_all add: view_locked_def Let_def split: prod.split)

lemma summary_counters [simp]:
  "te_id (target_summary_from_view v) = tv_id v" "te_sent (target_summary_from_view v) = tv_sent v"
  "te_recv (target_summary_from_view v) = tv_recv v" "te_loss (target_summary_from_view v) = tv_loss v"
  "te_loss_rate_pct (target_summary_from_view v) = (if tv_sent v > 0
     then f_of_int (tv_loss v) / f_of_int (tv_sent v) * Finite 100 else 0)"
  by (simp_all add: target_summary_from_view_def)

text \<open>The exported loss rate is a percentage as long as no more probes were lost than sent, and
  zero before the first send; every target of a snapshot is summarised once, in order, with its
  own counters and identity.\<close>

theorem exported_loss_rate:
  assumes "\<forall>t\<in>set targets. 0 \<le> ts_loss t \<and> ts_loss t \<le> ts_sent t"
  shows "map te_id (es_targets (build_snapshot now targets https)) = map ts_id targets \<and>
    map (\<lambda>s. (te_sent s, te_recv s, te_loss s)) (es_targets (build_snapshot now targets https))
      = map (\<lambda>t. (ts_sent t, ts_recv t, ts_loss t)) targets \<and>
    (\<forall>s\<in>set (es_targets (build_snapshot now targets https)).
       \<exists>p. te_loss_rate_pct s = Finite p \<and> 0 \<le> p \<and> p \<le> 100 \<and> (te_sent s = 0 \<longrightarrow> p = 0))"
proof -
  have "\<exists>p. te_loss_rate_pct (target_summary_from_view (get_view_window 0 t)) = Finite p \<and> 0 \<le> p \<and>
      p \<le> 100 \<and> (ts_sent t = 0 \<longrightarrow> p = 0)" if t: "0 \<le> ts_loss t" "ts_loss t \<le> ts_sent t" for t
  proof (cases "ts_sent t = 0")
    case True
    then show ?thesis
      by (simp add: get_view_window_def zero_float64_def)
  next
    case False
    then have "(1::rat) \<le> of_int (ts_sent t)" using t by simp
    then have "1 \<le> rnd (of_int (ts_sent t))" using f64.one by (intro f64.above)
    moreover have "(0::rat) \<le> of_int (ts_loss t)" "(of_int (ts_loss t) :: rat) \<le> of_int (ts_sent t)"
      using t by simp_all
    ultimately show ?thesis using False t f64.percent_bounds
      by (simp add: get_view_window_def f_of_int_def)
  qed
  then show ?thesis using assms
    by (auto simp: build_snapshot_def build_snapshot_from_views_def get_view_window_def simp del: summary_counters(5))
qed

theorem exported_loss_rate_witness:
  "map (\<lambda>s. (te_id s, te_sent s, te_loss s, te_loss_rate_pct s))
      (es_targets (build_snapshot 5 [new_target_stats 1 1 ''h''] [])) = [(1, 0, 0, Finite 0)]"
  using exported_loss_rate [of "[new_target_stats 1 1 ''h'']" 5 "[]"]
  by (auto simp: new_target_stats_def map_eq_Cons_conv)

text \<open>The operations of a worker that sent one probe, lost it and could not write the next one.\<close>

definition unsent_failure :: "clock \<Rightarrow> target_stats" where
  "unsent_failure clk =
     (let t = new_target_stats 1 1 ''h''; p = new_probe t;
          t = fst (target_step clk (ProbeOp p PIncSent) t);
          t = fst (target_step clk (ProbeOp p (POnFailure ''Timeout'')) t)
      in fst (target_step clk (ProbeOp p (POnFailure ''No IPv4 Conn'')) t))"


end
