(* ===== verification/Mtr_Engine.thy ===== *)
theory Mtr_Engine
  imports Mtr_Stats Hop_Probe
begin

text \<open>
  Route discovery and per-hop monitoring of a target (internal/mtr/engine.go) with the background
  annotation of hop addresses (internal/mtr/annotate.go). The probes of a round run concurrently:
  a round takes the completed probes in the order their results are recorded, each TTL at most
  once (\<open>fan_out_ok\<close>). Opening the socket, the probes and the lookups are arguments.
\<close>

section \<open>Configuration\<close>

record engine_config =
  ec_path_only :: bool
  ec_max_hops :: int
  ec_probe_interval :: duration
  ec_hop_timeout :: duration
  ec_rediscover_every :: duration
  ec_max_concurrent_probes :: int
  ec_annotation_retry :: duration

definition default_annotation_retry :: duration where "default_annotation_retry = 30 * second"

definition with_defaults :: "engine_config \<Rightarrow> engine_config" where
  "with_defaults c =
     (let c = (if ec_max_hops c \<le> 0 then c \<lparr> ec_max_hops := 30 \<rparr> else c);
          c = (if ec_probe_interval c \<le> 0 then c \<lparr> ec_probe_interval := second \<rparr> else c);
          c = (if ec_hop_timeout c \<le> 0 then c \<lparr> ec_hop_timeout := second \<rparr> else c);
          c = (if ec_rediscover_every c \<le> 0 then c \<lparr> ec_rediscover_every := 10 * minute \<rparr> else c);
          c = (if ec_max_concurrent_probes c \<le> 0 then c \<lparr> ec_max_concurrent_probes := 50 \<rparr> else c)
      in (if ec_annotation_retry c \<le> 0 then c \<lparr> ec_annotation_retry := default_annotation_retry \<rparr> else c))"

section \<open>Annotations\<close>

record asn_info =
  as_number :: string
  as_country :: string
  as_org :: string

definition no_annotation :: hop_annotation where
  "no_annotation = \<lparr> ha_asn = [], ha_country = [], ha_org = [], ha_ptr = [] \<rparr>"

record hop_info =
  hi_ann :: hop_annotation
  hi_complete :: bool
  hi_retry_at :: gotime

text \<open>\<open>an_inflight\<close> holds the addresses with a lookup goroutine.\<close>

record annotator =
  an_retry :: duration
  an_closed :: bool
  an_known :: "string \<Rightarrow> hop_info option"
  an_inflight :: "string set"

definition new_annotator :: "duration \<Rightarrow> annotator" where
  "new_annotator retry = \<lparr> an_retry = (if retry \<le> 0 then default_annotation_retry else retry),
     an_closed = False, an_known = (\<lambda>_. None), an_inflight = {} \<rparr>"

definition known_ann :: "annotator \<Rightarrow> string \<Rightarrow> hop_annotation" where
  "known_ann a ip = (case an_known a ip of None \<Rightarrow> no_annotation | Some info \<Rightarrow> hi_ann info)"

definition cached :: "annotator \<Rightarrow> string \<Rightarrow> hop_annotation" where
  "cached a ip = known_ann a ip"

text \<open>\<open>note\<close>: the lookup goroutine it starts is the address's membership in the in-flight set.\<close>

definition note_ip :: "gotime \<Rightarrow> string \<Rightarrow> annotator \<Rightarrow> annotator" where
  "note_ip now ip a =
     (if ip = [] then a
      else if an_closed a \<or> ip \<in> an_inflight a then a
      else if (case an_known a ip of None \<Rightarrow> False
               | Some info \<Rightarrow> hi_complete info \<or> now < hi_retry_at info) then a
      else a \<lparr> an_inflight := insert ip (an_inflight a) \<rparr>)"

definition remember :: "gotime \<Rightarrow> string \<Rightarrow> asn_info \<Rightarrow> string \<Rightarrow> annotator \<Rightarrow> annotator \<times> hop_annotation" where
  "remember now ip asn ptr a =
     (let merged = known_ann a ip;
          merged = (if as_number asn \<noteq> []
                    then merged \<lparr> ha_asn := as_number asn, ha_country := as_country asn, ha_org := as_org asn \<rparr>
                    else merged);
          merged = (if ptr \<noteq> [] then merged \<lparr> ha_ptr := ptr \<rparr> else merged)
      in (a \<lparr> an_known := (an_known a)(ip \<mapsto> \<lparr> hi_ann = merged,
               hi_complete = (ha_asn merged \<noteq> [] \<and> ha_ptr merged \<noteq> []), hi_retry_at = now + an_retry a \<rparr>) \<rparr>,
          merged))"

text \<open>
  The end of a lookup goroutine: \<open>result\<close> is None when it was cancelled before asking, and
  \<open>cancelled\<close> whether the context was cancelled when it came back.
\<close>

definition finish_lookup ::
  "gotime \<Rightarrow> bool \<Rightarrow> string \<Rightarrow> (asn_info \<times> string) option \<Rightarrow> annotator \<times> mtr_stats \<Rightarrow> annotator \<times> mtr_stats" where
  "finish_lookup now cancelled ip result s =
     (case s of (a, m) \<Rightarrow>
      (case result of
         None \<Rightarrow> (a \<lparr> an_inflight := an_inflight a - {ip} \<rparr>, m)
       | Some (asn, ptr) \<Rightarrow>
           (if an_closed a \<or> cancelled then (a \<lparr> an_inflight := an_inflight a - {ip} \<rparr>, m)
            else case remember now ip asn ptr a of (a', merged) \<Rightarrow>
              (a' \<lparr> an_inflight := an_inflight a' - {ip} \<rparr>,
               annotate_ip m ip (ha_asn merged) (ha_country merged) (ha_org merged) (ha_ptr merged)))))"

definition close_annotator :: "annotator \<Rightarrow> annotator" where
  "close_annotator a = a \<lparr> an_closed := True, an_inflight := {} \<rparr>"

section \<open>A round of probes\<close>

type_synonym round = "(int \<times> hop_reply_result) list"

definition fan_out_ok :: "int \<Rightarrow> round \<Rightarrow> bool" where
  "fan_out_ok n results \<longleftrightarrow> distinct (map fst results) \<and> (\<forall>ttl\<in>fst ` set results. 1 \<le> ttl \<and> ttl \<le> n)"

text \<open>\<open>firstReachedTTL\<close> over the recorded results.\<close>

definition first_reached :: "int \<Rightarrow> round \<Rightarrow> int" where
  "first_reached max_hops results =
     foldl (\<lambda>least (ttl, reply). if hr_reached reply \<and> ttl < least then ttl else least) (max_hops + 1) results"

definition register_hop ::
  "(int \<Rightarrow> gotime) \<Rightarrow> int \<Rightarrow> mtr_stats \<times> annotator \<Rightarrow> int \<times> hop_reply_result \<Rightarrow> mtr_stats \<times> annotator" where
  "register_hop clk hop_count s res =
     (case s of (m, a) \<Rightarrow> case res of (ttl, reply) \<Rightarrow>
        if ttl \<le> hop_count then
          (let ip = hr_src reply in
           if hr_responded reply \<and> ip \<noteq> [] then (set_ip_annotated m ttl ip (cached a ip), note_ip (clk ttl) ip a)
           else (m, a))
        else (m, a))"

text \<open>\<open>discover\<close>; \<open>cancelled\<close> is the context after the round, \<open>clk ttl\<close> the clock of the annotator when
  it is told the address of that hop.\<close>

definition discover ::
  "engine_config \<Rightarrow> bool \<Rightarrow> (int \<Rightarrow> gotime) \<Rightarrow> round \<Rightarrow> mtr_stats \<times> annotator \<Rightarrow> int \<times> mtr_stats \<times> annotator" where
  "discover c cancelled clk results s =
     (case s of (m, a) \<Rightarrow>
      if cancelled then (0, m, a)
      else
        (let hop_count = min (first_reached (ec_max_hops c) results) (ec_max_hops c);
             m1 = ensure_len (truncate_len m hop_count) hop_count
         in (hop_count, foldl (register_hop clk hop_count) (m1, a) results)))"

definition record_hop ::
  "(int \<Rightarrow> gotime) \<Rightarrow> mtr_stats \<times> annotator \<Rightarrow> int \<times> hop_reply_result \<Rightarrow> mtr_stats \<times> annotator" where
  "record_hop clk s res =
     (case s of (m, a) \<Rightarrow> case res of (ttl, reply) \<Rightarrow>
        if hr_responded reply
        then (record_reply_annotated m ttl (hr_src reply) (cached a (hr_src reply)) (hr_rtt reply),
              note_ip (clk ttl) (hr_src reply) a)
        else (record_loss m ttl, a))"

text \<open>\<open>probe\<close>: one monitoring round.\<close>

definition probe_round :: "(int \<Rightarrow> gotime) \<Rightarrow> round \<Rightarrow> mtr_stats \<times> annotator \<Rightarrow> mtr_stats \<times> annotator" where
  "probe_round clk results s = foldl (record_hop clk) s results"

section \<open>The monitor of one target\<close>

text \<open>\<open>sock\<close> is None before the first successful open; closed sockets are counted, and the
  descriptions passed to \<open>OnFlap\<close> are kept.\<close>

record monitor =
  mo_sock :: bool
  mo_dest :: string
  mo_hop_count :: int
  mo_mtr :: mtr_stats
  mo_ann :: annotator
  mo_closed :: nat
  mo_flaps :: "string list"
  mo_done :: bool

definition start_monitor :: "engine_config \<Rightarrow> mtr_stats \<Rightarrow> monitor" where
  "start_monitor c m = \<lparr> mo_sock = False, mo_dest = [], mo_hop_count = 0, mo_mtr = m,
     mo_ann = new_annotator (ec_annotation_retry c), mo_closed = 0, mo_flaps = [], mo_done = False \<rparr>"

text \<open>
  What a rediscovery meets: the target's address now, the answer of opening a socket (an error
  text), the context then, the round and the context after it (as \<open>discover\<close> and then
  \<open>rediscover\<close> read it), and the clock of the flap.
\<close>

record round_env =
  re_current :: string
  re_open_error :: "string option"
  re_open_cancelled :: bool
  re_round :: round
  re_cancelled :: bool
  re_cancelled_later :: bool
  re_clk :: "int \<Rightarrow> gotime"
  re_now :: gotime

text \<open>The socket part of \<open>rediscover\<close>: None when it returns early.\<close>

definition open_for_round :: "round_env \<Rightarrow> monitor \<Rightarrow> monitor \<times> bool" where
  "open_for_round e s =
     (if \<not> mo_sock s \<or> re_current e \<noteq> mo_dest s then
        (case re_open_error e of
           Some err \<Rightarrow> ((if re_open_cancelled e then s else s \<lparr> mo_mtr := set_mtr_error (mo_mtr s) err \<rparr>), False)
         | None \<Rightarrow>
             (s \<lparr> mo_closed := mo_closed s + (if mo_sock s then 1 else 0), mo_sock := True,
                  mo_dest := re_current e \<rparr>, True))
      else (s, True))"

definition rediscover :: "engine_config \<Rightarrow> round_env \<Rightarrow> monitor \<Rightarrow> monitor" where
  "rediscover c e s0 =
     (case open_for_round e s0 of (s, go) \<Rightarrow>
      if \<not> go then s
      else
        (let prev = route_snapshot (mo_mtr s) in
         case discover c (re_cancelled e) (re_clk e) (re_round e) (mo_mtr s, mo_ann s) of
           (n, m, a) \<Rightarrow>
             (let s1 = s \<lparr> mo_mtr := m, mo_ann := a \<rparr> in
              if n = 0 \<or> re_cancelled_later e then s1
              else
                (let s2 = s1 \<lparr> mo_mtr := set_mtr_error m [], mo_hop_count := n \<rparr> in
                 if mo_hop_count s = 0 then s2
                 else case check_flap (mo_mtr s2) prev (re_now e) of
                   (m', changed, desc) \<Rightarrow>
                     s2 \<lparr> mo_mtr := m', mo_flaps := mo_flaps s @ (if changed then [desc] else []) \<rparr>))))"

datatype monitor_event =
    MRediscover round_env
  | MProbe "int \<Rightarrow> gotime" round
  | MLookup gotime bool string "(asn_info \<times> string) option"
  | MHops mtr_op
  | MStop

text \<open>One turn of \<open>runTarget\<close> or of what runs beside it: lookups, and operations on the hops by
  others (a reset). Stopping closes the annotator and the socket.\<close>

fun monitor_step :: "engine_config \<Rightarrow> monitor_event \<Rightarrow> monitor \<Rightarrow> monitor" where
  "monitor_step c (MRediscover e) s = (if mo_done s then s else rediscover c e s)"
| "monitor_step c (MProbe clk results) s =
     (if mo_done s \<or> ec_path_only c \<or> mo_hop_count s \<le> 0 then s
      else case probe_round clk results (mo_mtr s, mo_ann s) of (m, a) \<Rightarrow> s \<lparr> mo_mtr := m, mo_ann := a \<rparr>)"
| "monitor_step c (MLookup now cancelled ip result) s =
     (if ip \<in> an_inflight (mo_ann s)
      then case finish_lookup now cancelled ip result (mo_ann s, mo_mtr s) of
        (a, m) \<Rightarrow> s \<lparr> mo_ann := a, mo_mtr := m \<rparr>
      else s)"
| "monitor_step c (MHops op) s = s \<lparr> mo_mtr := mtr_apply op (mo_mtr s) \<rparr>"
| "monitor_step c MStop s =
     (if mo_done s then s
      else s \<lparr> mo_done := True, mo_ann := close_annotator (mo_ann s),
               mo_closed := mo_closed s + (if mo_sock s then 1 else 0), mo_sock := False \<rparr>)"

section \<open>The engine\<close>

text \<open>\<open>AddTarget\<close> starts a monitor unless the target has one, \<open>RemoveTarget\<close> cancels and joins it.\<close>

definition engine_add :: "engine_config \<Rightarrow> nat \<Rightarrow> mtr_stats \<Rightarrow> (nat \<Rightarrow> monitor option) \<Rightarrow> (nat \<Rightarrow> monitor option)" where
  "engine_add c t m runs = (case runs t of Some _ \<Rightarrow> runs | None \<Rightarrow> runs(t \<mapsto> start_monitor c m))"

definition engine_remove :: "nat \<Rightarrow> (nat \<Rightarrow> monitor option) \<Rightarrow> (nat \<Rightarrow> monitor option)" where
  "engine_remove t runs = runs(t := None)"

definition engine_start :: "engine_config \<Rightarrow> (nat \<times> mtr_stats) list \<Rightarrow> (nat \<Rightarrow> monitor option)" where
  "engine_start c targets = foldl (\<lambda>runs (t, m). engine_add (with_defaults c) t m runs) (\<lambda>_. None) targets"

section \<open>Discovery registers the route\<close>

lemma first_reached_least:
  "first_reached mx results \<le> mx + 1 \<and>
   (\<forall>(ttl, r)\<in>set results. hr_reached r \<longrightarrow> first_reached mx results \<le> ttl) \<and>
   (first_reached mx results = mx + 1 \<or> (\<exists>r. (first_reached mx results, r) \<in> set results \<and> hr_reached r))"
proof (induction results rule: rev_induct)
  case Nil
  then show ?case by (simp add: first_reached_def)
next
  case (snoc x xs)
  obtain ttl r where x: "x = (ttl, r)" by (cases x)
  have "first_reached mx (xs @ [x]) = (if hr_reached r \<and> ttl < first_reached mx xs then ttl else first_reached mx xs)"
    by (simp add: first_reached_def x)
  then show ?case using snoc.IH by (force simp: x)
qed

lemma first_reached_pos: "fan_out_ok mx results \<Longrightarrow> 1 \<le> mx \<Longrightarrow> 1 \<le> first_reached mx results"
  using first_reached_least [of mx results] by (force simp: fan_out_ok_def)

lemma update_hop_length [simp]: "length (m_hops (update_hop m ttl f)) = length (m_hops m)"
  by (simp add: update_hop_def split: option.split)

lemma set_ip_annotated_route:
  "ip \<noteq> [] \<Longrightarrow> i < length (m_hops m) \<Longrightarrow>
   h_route_ip (m_hops (set_ip_annotated m ttl ip a) ! i)
     = (if ttl = int i + 1 then ip else h_route_ip (m_hops m ! i))"
  by (auto simp: set_ip_annotated_def update_hop_def hop_at_def Let_def split: option.split if_splits)

lemma register_hop_length [simp]: "length (m_hops (fst (register_hop clk n s res))) = length (m_hops (fst s))"
  by (simp add: register_hop_def set_ip_annotated_def Let_def split: prod.split)

lemma register_hops_length: "length (m_hops (fst (foldl (register_hop clk n) s rs))) = length (m_hops (fst s))"
  by (induction rs arbitrary: s) simp_all

text \<open>The address a round gives a hop, if any.\<close>

definition round_ip :: "round \<Rightarrow> int \<Rightarrow> string option" where
  "round_ip results ttl = (case map_of results ttl of
     Some r \<Rightarrow> (if hr_responded r \<and> hr_src r \<noteq> [] then Some (hr_src r) else None) | None \<Rightarrow> None)"

lemma register_hop_route:
  "i < length (m_hops (fst s)) \<Longrightarrow> h_route_ip (m_hops (fst (register_hop clk n s (ttl, r))) ! i)
     = (if ttl = int i + 1 \<and> ttl \<le> n \<and> hr_responded r \<and> hr_src r \<noteq> [] then hr_src r
        else h_route_ip (m_hops (fst s) ! i))"
  by (auto simp: register_hop_def Let_def set_ip_annotated_route split: prod.split)

lemma register_hops_route:
  "distinct (map fst rs) \<Longrightarrow> i < length (m_hops (fst s)) \<Longrightarrow> int i + 1 \<le> n \<Longrightarrow>
   h_route_ip (m_hops (fst (foldl (register_hop clk n) s rs)) ! i)
     = (case round_ip rs (int i + 1) of Some ip \<Rightarrow> ip | None \<Rightarrow> h_route_ip (m_hops (fst s) ! i))"
proof (induction rs arbitrary: s)
  case Nil
  then show ?case by (simp add: round_ip_def)
next
  case (Cons x rs)
  obtain ttl r where x: "x = (ttl, r)" by (cases x)
  have IH: "h_route_ip (m_hops (fst (foldl (register_hop clk n) (register_hop clk n s x) rs)) ! i)
     = (case round_ip rs (int i + 1) of Some ip \<Rightarrow> ip
        | None \<Rightarrow> h_route_ip (m_hops (fst (register_hop clk n s x)) ! i))"
    using Cons by simp
  have "ttl = int i + 1 \<Longrightarrow> round_ip rs (int i + 1) = None"
    using Cons.prems(1) by (auto simp: x round_ip_def map_of_eq_None_iff split: option.split dest: map_of_SomeD intro: rev_image_eqI)
  moreover have "round_ip (x # rs) (int i + 1) = (if ttl = int i + 1
      then (if hr_responded r \<and> hr_src r \<noteq> [] then Some (hr_src r) else None) else round_ip rs (int i + 1))"
    by (simp add: round_ip_def x)
  ultimately show ?case
    using IH Cons.prems by (auto simp: x register_hop_route split: option.split)
qed

lemma resized_hops:
  assumes "1 \<le> n"
  shows "length (m_hops (ensure_len (truncate_len m n) n)) = nat n \<and>
    (\<forall>i<nat n. h_route_ip (m_hops (ensure_len (truncate_len m n) n) ! i)
      = (if i < length (m_hops m) then h_route_ip (m_hops m ! i) else []))"
proof -
  let ?h = "m_hops (truncate_len m n)"
  have h: "?h = take (nat n) (m_hops m)" using assms by (simp add: truncate_len_def)
  have "max (length ?h) (nat n) = nat n" by (simp add: h)
  then have e: "m_hops (ensure_len (truncate_len m n) n)
      = take (nat n) (m_hops m) @ map (\<lambda>i. new_hop (int i + 1)) [length ?h..<nat n]"
    by (simp add: ensure_len_def ensure_hops_spec h)
  show ?thesis by (auto simp: e nth_append h new_hop_def)
qed

text \<open>C16: Discovery finds the route. A round that was not cancelled leaves exactly as many hops as the
  smallest TTL that reached the destination (the maximum when none did), and the route through
  them is what the round heard: a hop whose probe was answered from an address has that address,
  and only a silent hop keeps the one it had. A cancelled round changes nothing.\<close>

theorem discovery_finds_route:
  assumes "fan_out_ok (ec_max_hops c) results" and "1 \<le> ec_max_hops c"
    and "discover c cancelled clk results (m, a) = (n, m', a')"
  shows "(cancelled \<longrightarrow> n = 0 \<and> m' = m \<and> a' = a) \<and>
    (\<not> cancelled \<longrightarrow> 1 \<le> n \<and> n \<le> ec_max_hops c \<and> int (length (m_hops m')) = n \<and>
      (\<forall>(ttl, r)\<in>set results. hr_reached r \<longrightarrow> n \<le> ttl) \<and>
      (n < ec_max_hops c \<longrightarrow> (\<exists>r. (n, r) \<in> set results \<and> hr_reached r)) \<and>
      (\<forall>i<nat n. route_snapshot m' ! i = (case round_ip results (int i + 1) of Some ip \<Rightarrow> ip
         | None \<Rightarrow> if i < length (m_hops m) then route_snapshot m ! i else [])))"
proof (cases cancelled)
  case True
  then show ?thesis using assms(3) by (simp add: discover_def)
next
  case False
  define f where "f = first_reached (ec_max_hops c) results"
  define m1 where "m1 = ensure_len (truncate_len m n) n"
  have n: "n = min f (ec_max_hops c)" and m': "m' = fst (foldl (register_hop clk n) (m1, a) results)"
    using assms(3) False by (auto simp: discover_def Let_def f_def m1_def split: prod.splits)
  note least = first_reached_least [of "ec_max_hops c" results, folded f_def]
  have n1: "1 \<le> n" using first_reached_pos [OF assms(1,2)] assms(2) by (simp add: n f_def)
  have len: "length (m_hops m1) = nat n" using resized_hops [OF n1, of m] by (simp add: m1_def)
  then have len': "length (m_hops m') = nat n" by (simp add: m' register_hops_length)
  have route: "\<forall>i<nat n. route_snapshot m' ! i = (case round_ip results (int i + 1) of Some ip \<Rightarrow> ip
         | None \<Rightarrow> if i < length (m_hops m) then route_snapshot m ! i else [])"
  proof (intro allI impI)
    fix i assume i: "i < nat n"
    have d: "distinct (map fst results)" using assms(1) by (simp add: fan_out_ok_def)
    have "h_route_ip (m_hops m' ! i) = (case round_ip results (int i + 1) of Some ip \<Rightarrow> ip
        | None \<Rightarrow> h_route_ip (m_hops m1 ! i))"
      unfolding m' using register_hops_route [OF d, of i "(m1, a)" n clk, unfolded fst_conv] i len by auto
    moreover have "h_route_ip (m_hops m1 ! i) = (if i < length (m_hops m) then h_route_ip (m_hops m ! i) else [])"
      using resized_hops [OF n1, of m] i by (simp add: m1_def)
    ultimately show "route_snapshot m' ! i = (case round_ip results (int i + 1) of Some ip \<Rightarrow> ip
         | None \<Rightarrow> if i < length (m_hops m) then route_snapshot m ! i else [])"
      using i len' by (simp add: route_snapshot_def split: option.split)
  qed
  have "n < ec_max_hops c \<longrightarrow> (\<exists>r. (n, r) \<in> set results \<and> hr_reached r)"
    using least by (auto simp: n min_def split: if_splits)
  moreover have "\<forall>(ttl, r)\<in>set results. hr_reached r \<longrightarrow> n \<le> ttl" using least by (fastforce simp: n)
  ultimately show ?thesis using False n1 len' route by (simp add: n)
qed

theorem discovery_finds_route_witness:
  "\<exists>n m' a'. discover (with_defaults \<lparr> ec_path_only = False, ec_max_hops = 3, ec_probe_interval = 0,
       ec_hop_timeout = 0, ec_rediscover_every = 0, ec_max_concurrent_probes = 0, ec_annotation_retry = 0 \<rparr>)
     False (\<lambda>_. 0)
     [(2, \<lparr> hr_src = ''192.0.2.2'', hr_rtt = 5, hr_reached = True, hr_responded = True \<rparr>), (1, no_hop_reply)]
     (new_mtr_stats, new_annotator 0) = (n, m', a') \<and> n \<le> 2 \<and> int (length (m_hops m')) = n"
proof -
  let ?c = "with_defaults \<lparr> ec_path_only = False, ec_max_hops = 3, ec_probe_interval = 0,
       ec_hop_timeout = 0, ec_rediscover_every = 0, ec_max_concurrent_probes = 0, ec_annotation_retry = 0 \<rparr>"
  let ?r = "[(2, \<lparr> hr_src = ''192.0.2.2'', hr_rtt = 5, hr_reached = True, hr_responded = True \<rparr>), (1, no_hop_reply)]"
  obtain n m' a' where d: "discover ?c False (\<lambda>_. 0) ?r (new_mtr_stats, new_annotator 0) = (n, m', a')"
    by (metis prod.collapse)
  have "fan_out_ok (ec_max_hops ?c) ?r" "1 \<le> ec_max_hops ?c"
    by (simp_all add: fan_out_ok_def with_defaults_def Let_def)
  from discovery_finds_route [OF this d] d show ?thesis by auto
qed

section \<open>Flaps\<close>

text \<open>Between two rediscoveries the route only changes by what others do to the hops.\<close>

lemma open_for_round_hops:
  "open_for_round e s = (s', go) \<Longrightarrow> m_hops (mo_mtr s') = m_hops (mo_mtr s) \<and>
   m_flap_count (mo_mtr s') = m_flap_count (mo_mtr s) \<and> mo_ann s' = mo_ann s \<and>
   mo_hop_count s' = mo_hop_count s \<and> mo_flaps s' = mo_flaps s \<and> (go \<longrightarrow> mo_mtr s' = mo_mtr s)"
  by (auto simp: open_for_round_def set_mtr_error_def split: if_splits option.splits)

lemma register_hops_flaps:
  "m_flap_count (fst (foldl (register_hop clk n) s rs)) = m_flap_count (fst s)"
proof (induction rs arbitrary: s)
  case (Cons x rs)
  have "m_flap_count (fst (register_hop clk n s x)) = m_flap_count (fst s)"
    by (simp add: register_hop_def set_ip_annotated_def update_hop_def Let_def split: prod.split option.split)
  then show ?case using Cons by simp
qed simp

lemma discover_flaps:
  "discover c cancelled clk rs (m, a) = (n, m', a') \<Longrightarrow> m_flap_count m' = m_flap_count m"
proof -
  assume d: "discover c cancelled clk rs (m, a) = (n, m', a')"
  have tr: "m_flap_count (ensure_len (truncate_len m k) k) = m_flap_count m" for k
    by (simp add: ensure_len_def truncate_len_def Let_def)
  show ?thesis
  proof (cases cancelled)
    case False
    define k where "k = min (first_reached (ec_max_hops c) rs) (ec_max_hops c)"
    have "m' = fst (foldl (register_hop clk k) (ensure_len (truncate_len m k) k, a) rs)"
      using d False by (auto simp: discover_def Let_def k_def [symmetric])
    then show ?thesis using register_hops_flaps tr by simp
  qed (use d in \<open>simp add: discover_def\<close>)
qed

text \<open>A flap is reported exactly when a route that was already known has changed. After a
  rediscovery the flap count has grown, by one and with one description handed to the callback,
  only if the target had been discovered before, the socket opened, the round was not cancelled
  and the route now differs from the route before; a failed or cancelled rediscovery reports
  nothing and keeps the hop count.\<close>

theorem flap_only_on_known_route_change:
  assumes "1 \<le> ec_max_hops c" and "fan_out_ok (ec_max_hops c) (re_round e)"
  shows "(if snd (open_for_round e s) \<and> \<not> re_cancelled e \<and> \<not> re_cancelled_later e then
      0 < mo_hop_count (rediscover c e s) \<and> mtr_error (mo_mtr (rediscover c e s)) = [] \<and>
      (if mo_hop_count s \<noteq> 0 \<and> route_snapshot (mo_mtr (rediscover c e s)) \<noteq> route_snapshot (mo_mtr s)
       then m_flap_count (mo_mtr (rediscover c e s)) = m_flap_count (mo_mtr s) + 1 \<and>
         (\<exists>desc. desc \<noteq> [] \<and> mo_flaps (rediscover c e s) = mo_flaps s @ [desc])
       else m_flap_count (mo_mtr (rediscover c e s)) = m_flap_count (mo_mtr s) \<and>
         mo_flaps (rediscover c e s) = mo_flaps s)
    else m_flap_count (mo_mtr (rediscover c e s)) = m_flap_count (mo_mtr s) \<and>
      mo_flaps (rediscover c e s) = mo_flaps s \<and> mo_hop_count (rediscover c e s) = mo_hop_count s)"
proof -
  obtain s1 go where o1: "open_for_round e s = (s1, go)" by (cases "open_for_round e s")
  note keep = open_for_round_hops [OF o1]
  obtain n m a where d: "discover c (re_cancelled e) (re_clk e) (re_round e) (mo_mtr s1, mo_ann s1) = (n, m, a)"
    by (metis prod.collapse)
  note fl = discover_flaps [OF d]
  show ?thesis
  proof (cases "go \<and> \<not> re_cancelled e \<and> \<not> re_cancelled_later e")
    case True
    then have go: "go" "\<not> re_cancelled e" "\<not> re_cancelled_later e" by simp_all
    have n: "1 \<le> n"
      using first_reached_pos [OF assms(2,1)] assms(1) d go by (auto simp: discover_def Let_def)
    define m0 where "m0 = set_mtr_error m []"
    obtain m2 changed desc where f: "check_flap m0 (route_snapshot (mo_mtr s1)) (re_now e) = (m2, changed, desc)"
      by (metis prod.collapse)
    have f': "m_hops m2 = m_hops m0" "changed = (route_snapshot (mo_mtr s1) \<noteq> route_snapshot m0)"
      "m_flap_count m2 = m_flap_count m0 + (if changed then 1 else 0)" "m_last_err m2 = m_last_err m0"
      "changed \<Longrightarrow> desc \<noteq> []"
      using f build_flap_desc_nonempty by (auto simp: check_flap_def Let_def split: if_splits)
    have m0: "m_last_err m0 = []" "m_hops m0 = m_hops m" "m_flap_count m0 = m_flap_count m"
      by (simp_all add: m0_def set_mtr_error_def)
    have same: "mo_mtr s1 = mo_mtr s" "mo_hop_count s1 = mo_hop_count s" "mo_flaps s1 = mo_flaps s"
      using keep go by simp_all
    have r: "rediscover c e s = (if mo_hop_count s = 0
        then s1 \<lparr> mo_mtr := m0, mo_ann := a, mo_hop_count := n \<rparr>
        else s1 \<lparr> mo_mtr := m2, mo_ann := a, mo_hop_count := n, mo_flaps := mo_flaps s @ (if changed then [desc] else []) \<rparr>)"
      using go n d by (simp add: rediscover_def o1 Let_def m0_def [symmetric] f same(2,3))
    show ?thesis
      using True n fl f' m0
      by (auto simp: o1 r same mtr_error_def route_snapshot_def)
  next
    case False
    then have "rediscover c e s = s1 \<or> rediscover c e s = s1 \<lparr> mo_mtr := m, mo_ann := a \<rparr>"
      using d by (auto simp: rediscover_def o1 Let_def discover_def)
    then show ?thesis using False fl keep by (auto simp: o1)
  qed
qed

section \<open>Lookups\<close>

text \<open>Annotation is well behaved: a lookup is started for an address only if none runs, the
  monitor is not closing and there is no complete or still fresh result; a finished lookup never
  forgets what an earlier one found, marks the result complete exactly when both names are known
  and relabels only hops that answer from that address; and once closed, nothing is annotated or
  started again.\<close>

theorem annotator_well_behaved:
  assumes "finish_lookup now False ip (Some (asn, ptr)) (a, m) = (a', m')" and "\<not> an_closed a"
  shows "(ip2 \<in> an_inflight (note_ip now2 ip2 a) \<and> ip2 \<notin> an_inflight a \<longrightarrow>
      (\<forall>info. an_known a ip2 = Some info \<longrightarrow> \<not> hi_complete info \<and> hi_retry_at info \<le> now2)) \<and>
    ip \<notin> an_inflight a' \<and>
    (ha_asn (cached a ip) \<noteq> [] \<longrightarrow> ha_asn (cached a' ip) \<noteq> []) \<and>
    (ha_ptr (cached a ip) \<noteq> [] \<longrightarrow> ha_ptr (cached a' ip) \<noteq> []) \<and>
    (\<exists>info. an_known a' ip = Some info \<and> hi_retry_at info = now + an_retry a \<and>
       (hi_complete info \<longleftrightarrow> ha_asn (cached a' ip) \<noteq> [] \<and> ha_ptr (cached a' ip) \<noteq> [])) \<and>
    (\<forall>other. other \<noteq> ip \<longrightarrow> an_known a' other = an_known a other) \<and>
    (\<forall>i<length (m_hops m). h_ip (m_hops m ! i) \<noteq> ip \<longrightarrow> m_hops m' ! i = m_hops m ! i) \<and>
    note_ip now2 ip2 (close_annotator a) = close_annotator a \<and>
    snd (finish_lookup now False ip (Some (asn, ptr)) (close_annotator a, m)) = m"
proof -
  obtain a1 merged where r: "remember now ip asn ptr a = (a1, merged)" by (cases "remember now ip asn ptr a")
  have a': "a' = a1 \<lparr> an_inflight := an_inflight a1 - {ip} \<rparr>"
    and m': "m' = annotate_ip m ip (ha_asn merged) (ha_country merged) (ha_org merged) (ha_ptr merged)"
    using assms by (simp_all add: finish_lookup_def r)
  have known: "an_known a1 = (an_known a)(ip \<mapsto> \<lparr> hi_ann = merged,
      hi_complete = (ha_asn merged \<noteq> [] \<and> ha_ptr merged \<noteq> []), hi_retry_at = now + an_retry a \<rparr>)"
    and keep: "ha_asn (known_ann a ip) \<noteq> [] \<Longrightarrow> ha_asn merged \<noteq> []"
      "ha_ptr (known_ann a ip) \<noteq> [] \<Longrightarrow> ha_ptr merged \<noteq> []"
    using r by (auto simp: remember_def Let_def split: if_splits)
  have other: "\<forall>i<length (m_hops m). h_ip (m_hops m ! i) \<noteq> ip \<longrightarrow> m_hops m' ! i = m_hops m ! i"
    by (simp add: m' annotate_ip_def)
  have started: "ip2 \<in> an_inflight (note_ip now2 ip2 a) \<and> ip2 \<notin> an_inflight a \<longrightarrow>
      (\<forall>info. an_known a ip2 = Some info \<longrightarrow> \<not> hi_complete info \<and> hi_retry_at info \<le> now2)"
    by (auto simp: note_ip_def split: if_splits option.splits)
  have closed: "note_ip now2 ip2 (close_annotator a) = close_annotator a"
    "snd (finish_lookup now False ip (Some (asn, ptr)) (close_annotator a, m)) = m"
    by (simp_all add: note_ip_def finish_lookup_def close_annotator_def)
  show ?thesis
    using started closed other keep by (simp add: a' known cached_def known_ann_def)
qed

theorem annotator_well_behaved_witness:
  "ha_ptr (cached (fst (finish_lookup 9 False ''192.0.2.1'' (Some (\<lparr> as_number = [], as_country = [], as_org = [] \<rparr>, []))
     (fst (remember 3 ''192.0.2.1'' \<lparr> as_number = [], as_country = [], as_org = [] \<rparr> ''r1.example'' (new_annotator 0)),
      new_mtr_stats))) ''192.0.2.1'') \<noteq> []"
proof -
  let ?none = "\<lparr> as_number = [], as_country = [], as_org = [] \<rparr>"
  let ?a = "fst (remember 3 ''192.0.2.1'' ?none ''r1.example'' (new_annotator 0))"
  obtain a' m' where f: "finish_lookup 9 False ''192.0.2.1'' (Some (?none, [])) (?a, new_mtr_stats) = (a', m')"
    by (metis prod.collapse)
  have "\<not> an_closed ?a" "ha_ptr (cached ?a ''192.0.2.1'') \<noteq> []"
    by (simp_all add: remember_def new_annotator_def cached_def known_ann_def Let_def)
  with annotator_well_behaved [OF f] show ?thesis unfolding f by simp
qed

definition example_engine :: engine_config where
  "example_engine = \<lparr> ec_path_only = False, ec_max_hops = 3, ec_probe_interval = second,
     ec_hop_timeout = second, ec_rediscover_every = minute, ec_max_concurrent_probes = 50,
     ec_annotation_retry = minute \<rparr>"

definition answered_round :: "string \<Rightarrow> round_env" where
  "answered_round ip = \<lparr> re_current = ''192.0.2.9'', re_open_error = None, re_open_cancelled = False,
     re_round = [(1, \<lparr> hr_src = ip, hr_rtt = 5, hr_reached = True, hr_responded = True \<rparr>)],
     re_cancelled = False, re_cancelled_later = False, re_clk = (\<lambda>_. 0), re_now = 7 \<rparr>"

theorem flap_only_on_known_route_change_witness:
  "0 < mo_hop_count (rediscover example_engine (answered_round ''192.0.2.9'')
     (start_monitor example_engine new_mtr_stats))"
  using flap_only_on_known_route_change [of example_engine "answered_round ''192.0.2.9''"
      "start_monitor example_engine new_mtr_stats"]
  by (simp add: answered_round_def example_engine_def fan_out_ok_def open_for_round_def start_monitor_def)

end
