(* ===== verification/Go_Text.thy ===== *)
theory Go_Text
  imports Mping_Prelude
begin

text \<open>
  What the program uses of Go's \<open>strconv\<close>, \<open>strings\<close> and \<open>fmt\<close> on text it reads: decimal
  numbers with the range of \<open>int\<close>, zero padding, trimming and case folding. Strings are lists of
  bytes. The lemmas relate printing and reading of decimal numbers.
\<close>

section \<open>Machine integers\<close>

definition max_int64 :: int where "max_int64 = 9223372036854775807"

text \<open>The value an \<open>int\<close> has after an operation whose exact result is \<open>i\<close>.\<close>

definition wrap64 :: "int \<Rightarrow> int" where
  "wrap64 i = (i + 9223372036854775808) mod 18446744073709551616 - 9223372036854775808"

lemma wrap64_id: "- 9223372036854775808 \<le> i \<Longrightarrow> i \<le> max_int64 \<Longrightarrow> wrap64 i = i"
  by (simp add: wrap64_def max_int64_def)

lemma wrap64_range: "- 9223372036854775808 \<le> wrap64 i \<and> wrap64 i \<le> max_int64"
  by (simp add: wrap64_def max_int64_def)

section \<open>Decimal numbers\<close>

definition is_digit :: "char \<Rightarrow> bool" where
  "is_digit c = (48 \<le> (of_char c :: nat) \<and> (of_char c :: nat) \<le> 57)"

definition digit_val :: "char \<Rightarrow> nat" where
  "digit_val c = of_char c - 48"

definition digits_val :: "string \<Rightarrow> nat" where
  "digits_val ds = foldl (\<lambda>v c. 10 * v + digit_val c) 0 ds"

text \<open>\<open>strconv.Atoi\<close>: a sign, decimal digits, and the range of int64; None is any error.\<close>

definition atoi :: "string \<Rightarrow> int option" where
  "atoi s =
     (let neg = (s \<noteq> [] \<and> hd s = CHR ''-'');
          ds = (if s \<noteq> [] \<and> (hd s = CHR ''-'' \<or> hd s = CHR ''+'') then tl s else s);
          v = (if neg then - int (digits_val ds) else int (digits_val ds))
      in if ds = [] \<or> \<not> list_all is_digit ds then None
         else if v < - 9223372036854775808 \<or> v > max_int64 then None
         else Some v)"

text \<open>\<open>fmt.Sprintf("%0*d", width, n)\<close>.\<close>

definition pad0 :: "nat \<Rightarrow> int \<Rightarrow> string" where
  "pad0 width n =
     (let ds = nat_str (nat \<bar>n\<bar>);
          w = (if n < 0 then width - 1 else width);
          body = replicate (w - length ds) (CHR ''0'') @ ds
      in if n < 0 then CHR ''-'' # body else body)"

text \<open>\<open>strings.ContainsAny\<close> and the position of the last occurrence of a byte.\<close>

definition contains_any :: "string \<Rightarrow> string \<Rightarrow> bool" where
  "contains_any s chars = list_ex (\<lambda>c. c \<in> set chars) s"

fun last_index :: "char \<Rightarrow> string \<Rightarrow> nat option" where
  "last_index c [] = None"
| "last_index c (x # xs) =
     (case last_index c xs of Some i \<Rightarrow> Some (Suc i) | None \<Rightarrow> if x = c then Some 0 else None)"

section \<open>White space and case\<close>

text \<open>
  The code points that \<open>unicode.IsSpace\<close> accepts, in UTF-8. \<open>strings.TrimSpace\<close> removes them from
  both ends; an encoding is found from the right as from the left, because each starts with the
  only byte of it that can start a character.
\<close>

definition space_encodings :: "string list" where
  "space_encodings = map (\<lambda>n. [char_of (n::nat)]) [9, 10, 11, 12, 13, 32] @
     map (map char_of) [[0xC2, 0x85], [0xC2, 0xA0], [0xE1, 0x9A, 0x80 :: nat]] @
     map (\<lambda>n. map char_of [0xE2, 0x80, n])
       [0x80, 0x81, 0x82, 0x83, 0x84, 0x85, 0x86, 0x87, 0x88, 0x89, 0x8A, 0xA8, 0xA9, 0xAF :: nat] @
     map (map char_of) [[0xE2, 0x81, 0x9F], [0xE3, 0x80, 0x80 :: nat]]"

text \<open>Removes one of the encodings from the front, as often as one is there.\<close>

function strip_front :: "string list \<Rightarrow> string \<Rightarrow> string" where
  "strip_front encs s =
     (case find (\<lambda>e. e \<noteq> [] \<and> is_prefix_of e s) encs of
        None \<Rightarrow> s
      | Some e \<Rightarrow> strip_front encs (drop (length e) s))"
  by auto
termination
proof (relation "measure (\<lambda>(encs, s). length s)", goal_cases)
  case (2 encs s e)
  then have "e \<noteq> [] \<and> is_prefix_of e s" by (metis (mono_tags, lifting) find_Some_iff)
  then show ?case by (auto simp: is_prefix_of_iff)
qed simp

declare strip_front.simps [simp del]

definition trim_space :: "string \<Rightarrow> string" where
  "trim_space s = rev (strip_front (map rev space_encodings) (rev (strip_front space_encodings s)))"

text \<open>
  \<open>strings.ToLower\<close> as far as ASCII results go: the ASCII capitals, and the two characters beyond
  ASCII with an ASCII lower case (U+0130 and U+212A). Every other character beyond ASCII stays
  one, which is all that a comparison with an ASCII word sees.
\<close>

definition lower_char :: "char \<Rightarrow> char" where
  "lower_char c = (let n = of_char c :: nat in if 65 \<le> n \<and> n \<le> 90 then char_of (n + 32) else c)"

fun to_lower :: "string \<Rightarrow> string" where
  "to_lower [] = []"
| "to_lower (c # cs) =
     (if is_prefix_of [CHR 0xC4, CHR 0xB0] (c # cs) then CHR ''i'' # to_lower (drop 1 cs)
      else if is_prefix_of [CHR 0xE2, CHR 0x84, CHR 0xAA] (c # cs) then CHR ''k'' # to_lower (drop 2 cs)
      else lower_char c # to_lower cs)"

section \<open>Lemmas\<close>

lemma digit_char_digit: "d < 10 \<Longrightarrow> is_digit (digit_char d) \<and> digit_val (digit_char d) = d"
  by (auto simp: is_digit_def digit_val_def digit_char_def)

lemma digits_val_append_digit: "digits_val (ds @ [c]) = 10 * digits_val ds + digit_val c"
  by (simp add: digits_val_def)

lemma nat_str_digits: "list_all is_digit (nat_str n)"
proof (induction n rule: nat_str.induct)
  case (1 n)
  then show ?case by (subst nat_str.simps) (auto simp: digit_char_digit)
qed

lemma digits_val_nat_str [simp]: "digits_val (nat_str n) = n"
proof (induction n rule: nat_str.induct)
  case (1 n)
  show ?case
  proof (cases "n < 10")
    case True
    then show ?thesis by (subst nat_str.simps) (simp add: digits_val_def digit_char_digit)
  next
    case False
    with 1 show ?thesis
      by (subst nat_str.simps) (simp add: digits_val_append_digit digit_char_digit)
  qed
qed

lemma is_digit_not: "is_digit c \<Longrightarrow> c \<notin> {CHR ''-'', CHR ''+'', CHR ''.'', CHR ''{'', CHR ''}'', CHR ''/'', CHR '':'', CHR ''%''}"
  by (auto simp: is_digit_def)

lemma nat_str_hd: "is_digit (hd (nat_str n))"
  using nat_str_digits [of n] nat_str_nonempty [of n] by (cases "nat_str n") auto

lemma atoi_digits:
  "ds \<noteq> [] \<Longrightarrow> list_all is_digit ds \<Longrightarrow>
   atoi ds = (if int (digits_val ds) > max_int64 then None else Some (int (digits_val ds)))"
  using is_digit_not [of "hd ds"] by (cases ds) (auto simp: atoi_def Let_def)

lemma digits_val_zeros: "digits_val (replicate k (CHR ''0'') @ ds) = digits_val ds"
  by (induction k) (simp_all add: digits_val_def digit_val_def)

lemma pad0_digits:
  assumes "0 \<le> n"
  shows "list_all is_digit (pad0 w n)" "int (digits_val (pad0 w n)) = n" "pad0 w n \<noteq> []"
    "length (pad0 w n) = max w (length (nat_str (nat n)))"
  using assms nat_str_digits [of "nat n"]
  by (auto simp: pad0_def Let_def digits_val_zeros list_all_iff is_digit_def max_def)

lemma pad0_inj: "0 \<le> m \<Longrightarrow> 0 \<le> n \<Longrightarrow> pad0 w m = pad0 w n \<Longrightarrow> m = n"
  by (metis pad0_digits(2))

lemma last_index_None: "last_index c s = None \<longleftrightarrow> c \<notin> set s"
  by (induction s) (auto split: option.splits)

lemma last_index_SomeD:
  "last_index c s = Some i \<Longrightarrow> i < length s \<and> s ! i = c \<and> c \<notin> set (drop (Suc i) s)"
  by (induction s arbitrary: i) (auto split: option.splits if_splits simp: last_index_None)
  
end
