(* ===== verification/Net_Addr.thy ===== *)
theory Net_Addr
  imports Go_Text "HOL-Library.Word"
begin

text \<open>
  The part of Go's \<open>net/netip\<close> the program uses: addresses of both families, \<open>ParseAddr\<close>,
  \<open>ParsePrefix\<close>, \<open>String\<close>, \<open>Next\<close>, \<open>Less\<close> and \<open>Masked\<close>. An IPv4 address is a 32-bit word, an
  IPv6 address a 128-bit word and a zone (empty for none), and the zero \<open>netip.Addr\<close> is
  \<open>NoAddr\<close>. The lemmas give the round trip of printing and parsing an IPv4 address and the
  addresses of an IPv4 prefix.
\<close>

unbundle bit_operations_syntax

section \<open>Addresses\<close>

datatype net_addr = NoAddr | V4 "32 word" | V6 "128 word" string

definition is_v4 :: "net_addr \<Rightarrow> bool" where
  "is_v4 a = (case a of V4 _ \<Rightarrow> True | _ \<Rightarrow> False)"

definition v4_octets :: "32 word \<Rightarrow> nat list" where
  "v4_octets w = (let n = unat w in
     [n div 16777216, n div 65536 mod 256, n div 256 mod 256, n mod 256])"

definition v4_of_octets :: "nat list \<Rightarrow> 32 word" where
  "v4_of_octets os = word_of_nat (foldl (\<lambda>n d. 256 * n + d) 0 os)"

definition v6_groups :: "128 word \<Rightarrow> nat list" where
  "v6_groups w = map (\<lambda>i. unat w div 65536 ^ (7 - i) mod 65536) [0..<8]"

definition v6_of_groups :: "nat list \<Rightarrow> 128 word" where
  "v6_of_groups gs = word_of_nat (foldl (\<lambda>n g. 65536 * n + g) 0 gs)"

text \<open>\<open>Addr.Next\<close>: the zero address after the last one of the family.\<close>

definition next_addr :: "net_addr \<Rightarrow> net_addr" where
  "next_addr a = (case a of
     NoAddr \<Rightarrow> NoAddr
   | V4 w \<Rightarrow> if w + 1 = 0 then NoAddr else V4 (w + 1)
   | V6 w z \<Rightarrow> if w + 1 = 0 then NoAddr else V6 (w + 1) z)"

section \<open>Printing\<close>

definition v4_str :: "32 word \<Rightarrow> string" where
  "v4_str w = str_join ''.'' (map nat_str (v4_octets w))"

definition hex_digit :: "nat \<Rightarrow> char" where
  "hex_digit d = char_of (if d < 10 then 48 + d else 87 + d)"

fun hex_str :: "nat \<Rightarrow> string" where
  "hex_str n = (if n < 16 then [hex_digit n] else hex_str (n div 16) @ [hex_digit (n mod 16)])"

declare hex_str.simps [simp del]

text \<open>The longest run of at least two zero groups, the first of them: its start and its end.\<close>

definition zero_run :: "nat list \<Rightarrow> nat \<Rightarrow> nat" where
  "zero_run gs i = i + length (takeWhile (\<lambda>g. g = 0) (drop i gs))"

definition longest_zero_run :: "nat list \<Rightarrow> (nat \<times> nat) option" where
  "longest_zero_run gs = foldl (\<lambda>best i.
     let j = zero_run gs i; l = j - i
     in if l \<ge> 2 \<and> l > (case best of None \<Rightarrow> 0 | Some (a, b) \<Rightarrow> b - a) then Some (i, j) else best)
     None [0..<8]"

definition v6_str :: "128 word \<Rightarrow> string" where
  "v6_str w = (let gs = v6_groups w; h = map hex_str gs in
     case longest_zero_run gs of
       None \<Rightarrow> str_join '':'' h
     | Some (a, b) \<Rightarrow> str_join '':'' (take a h) @ ''::'' @ str_join '':'' (drop b h))"

text \<open>An IPv4-mapped address prints its last 32 bits as IPv4.\<close>

definition addr_str :: "net_addr \<Rightarrow> string" where
  "addr_str a = (case a of
     NoAddr \<Rightarrow> ''invalid IP''
   | V4 w \<Rightarrow> v4_str w
   | V6 w z \<Rightarrow>
       (if unat w div 4294967296 = 65535 then ''::ffff:'' @ v4_str (ucast w) else v6_str w) @
       (if z \<noteq> [] then CHR ''%'' # z else []))"

section \<open>Parsing\<close>

text \<open>
  \<open>parseIPv4Fields\<close>: the fields read, the value of the current one and its number of digits; a
  dot needs a digit before it and something after it.
\<close>

fun parse_v4_fields :: "string \<Rightarrow> nat list \<Rightarrow> nat \<Rightarrow> nat \<Rightarrow> nat list option" where
  "parse_v4_fields [] fs v d = (if length fs < 3 then None else Some (fs @ [v]))"
| "parse_v4_fields (c # cs) fs v d =
     (if is_digit c then
        (if d = 1 \<and> v = 0 then None
         else if 10 * v + digit_val c > 255 then None
         else parse_v4_fields cs fs (10 * v + digit_val c) (d + 1))
      else if c = CHR ''.'' then
        (if d = 0 \<or> cs = [] then None
         else if length fs = 3 then None
         else parse_v4_fields cs (fs @ [v]) 0 0)
      else None)"

definition is_hex :: "char \<Rightarrow> bool" where
  "is_hex c = (let n = of_char c :: nat in
     48 \<le> n \<and> n \<le> 57 \<or> 97 \<le> n \<and> n \<le> 102 \<or> 65 \<le> n \<and> n \<le> 70)"

definition hex_val :: "char \<Rightarrow> nat" where
  "hex_val c = (let n = of_char c :: nat in
     if n \<le> 57 then n - 48 else if n \<le> 70 then n - 55 else n - 87)"

text \<open>
  The loop of \<open>parseIPv6\<close>: the groups read (the last two may come from a trailing IPv4 address),
  the position of the ellipsis and what is left of the text.
\<close>

function parse_v6_loop ::
  "nat list \<Rightarrow> nat option \<Rightarrow> string \<Rightarrow> (nat list \<times> nat option \<times> string) option" where
  "parse_v6_loop gs ell s =
     (if length gs \<ge> 8 then Some (gs, ell, s)
      else
        let hs = takeWhile is_hex s; r = drop (length hs) s;
            gs' = gs @ [foldl (\<lambda>v c. 16 * v + hex_val c) 0 hs]
        in if hs = [] \<or> length hs > 4 then None
           else if r \<noteq> [] \<and> hd r = CHR ''.'' then
             (if ell = None \<and> length gs \<noteq> 6 then None
              else if length gs > 6 then None
              else (case parse_v4_fields s [] 0 0 of
                      Some [a, b, c, d] \<Rightarrow> Some (gs @ [256 * a + b, 256 * c + d], ell, [])
                    | _ \<Rightarrow> None))
           else if r = [] then Some (gs', ell, [])
           else if hd r \<noteq> CHR '':'' then None
           else if tl r = [] then None
           else if hd (tl r) = CHR '':'' then
             (if ell \<noteq> None then None
              else if tl (tl r) = [] then Some (gs', Some (length gs'), [])
              else parse_v6_loop gs' (Some (length gs')) (tl (tl r)))
           else parse_v6_loop gs' ell (tl r))"
  by auto
termination
  by (relation "measure (\<lambda>(gs, ell, s). 8 - length gs)") auto

declare parse_v6_loop.simps [simp del]

definition parse_v6 :: "string \<Rightarrow> net_addr option" where
  "parse_v6 input =
     (let s = takeWhile (\<lambda>c. c \<noteq> CHR ''%'') input;
          has_zone = length s < length input;
          zone = drop (length s + 1) input;
          lead = is_prefix_of ''::'' s
      in if has_zone \<and> zone = [] then None
         else if lead \<and> length s = 2 then Some (V6 0 zone)
         else (case parse_v6_loop [] (if lead then Some 0 else None) (if lead then drop 2 s else s) of
                 None \<Rightarrow> None
               | Some (gs, ell, rest) \<Rightarrow>
                   if rest \<noteq> [] then None
                   else if length gs < 8 then
                     (case ell of None \<Rightarrow> None
                      | Some e \<Rightarrow> Some (V6 (v6_of_groups
                          (take e gs @ replicate (8 - length gs) 0 @ drop e gs)) zone))
                   else if ell \<noteq> None then None
                   else Some (V6 (v6_of_groups gs) zone)))"

text \<open>\<open>ParseAddr\<close>: the first dot, colon or percent sign decides.\<close>

definition parse_addr :: "string \<Rightarrow> net_addr option" where
  "parse_addr s = (case find (\<lambda>c. c \<in> {CHR ''.'', CHR '':'', CHR ''%''}) s of
     None \<Rightarrow> None
   | Some c \<Rightarrow>
       if c = CHR ''.'' then map_option (\<lambda>fs. V4 (v4_of_octets fs)) (parse_v4_fields s [] 0 0)
       else if c = CHR '':'' then parse_v6 s
       else None)"

section \<open>Prefixes\<close>

definition bit_len :: "net_addr \<Rightarrow> int" where
  "bit_len a = (case a of NoAddr \<Rightarrow> 0 | V4 _ \<Rightarrow> 32 | V6 _ _ \<Rightarrow> 128)"

definition parse_prefix :: "string \<Rightarrow> (net_addr \<times> int) option" where
  "parse_prefix s = (case last_index CHR ''/'' s of
     None \<Rightarrow> None
   | Some i \<Rightarrow>
       (case parse_addr (take i s) of
          None \<Rightarrow> None
        | Some ip \<Rightarrow>
            let bits = drop (i + 1) s in
            if (case ip of V6 _ z \<Rightarrow> z \<noteq> [] | _ \<Rightarrow> False) then None
            else if length bits > 1 \<and> (\<not> is_digit (hd bits) \<or> hd bits = CHR ''0'') then None
            else (case atoi bits of
                    None \<Rightarrow> None
                  | Some b \<Rightarrow> if b < 0 \<or> b > bit_len ip then None else Some (ip, b))))"

text \<open>\<open>Masked\<close>: the address with its host bits cleared.\<close>

definition masked :: "net_addr \<Rightarrow> int \<Rightarrow> net_addr" where
  "masked a b = (case a of
     NoAddr \<Rightarrow> NoAddr
   | V4 w \<Rightarrow> V4 (w AND NOT (mask (nat (32 - b))))
   | V6 w z \<Rightarrow> V6 (w AND NOT (mask (nat (128 - b)))) [])"

section \<open>Lemmas\<close>

lemma v4_octets_bounds: "list_all (\<lambda>d. d < 256) (v4_octets w) \<and> length (v4_octets w) = 4"
proof -
  have "unat w < 4294967296" using unsigned_less [of w, where 'a = nat] by simp
  then show ?thesis by (simp add: v4_octets_def Let_def)
qed

lemma v4_of_octets_octets [simp]: "v4_of_octets (v4_octets w) = w"
proof -
  let ?n = "unat w"
  have d: "?n div 65536 = ?n div 256 div 256" "?n div 16777216 = ?n div 256 div 256 div 256"
    by (simp_all flip: div_mult2_eq)
  have "256 * (256 * (256 * (?n div 16777216) + ?n div 65536 mod 256) + ?n div 256 mod 256) + ?n mod 256 = ?n"
    unfolding d by (simp only: mult_div_mod_eq)
  then show ?thesis by (simp add: v4_of_octets_def v4_octets_def Let_def)
qed

lemma parse_v4_field:
  "n < 256 \<Longrightarrow>
   parse_v4_fields (nat_str n @ rest) fs 0 0 = parse_v4_fields rest fs n (length (nat_str n))"
proof (induction n arbitrary: rest rule: nat_str.induct)
  case (1 n)
  show ?case
  proof (cases "n < 10")
    case True
    then show ?thesis by (simp add: nat_str.simps [of n] digit_char_digit)
  next
    case False
    then have s: "nat_str n = nat_str (n div 10) @ [digit_char (n mod 10)]"
      by (simp add: nat_str.simps [of n])
    have "10 * (n div 10) + n mod 10 = n" "0 < n div 10" using False by auto
    then show ?thesis
      using "1.IH" [OF False, of "digit_char (n mod 10) # rest"] "1.prems"
      by (simp add: s digit_char_digit)
  qed
qed

lemma parse_v4_dot:
  "0 < d \<Longrightarrow> cs \<noteq> [] \<Longrightarrow> length fs \<noteq> 3 \<Longrightarrow>
   parse_v4_fields (CHR ''.'' # cs) fs v d = parse_v4_fields cs (fs @ [v]) 0 0"
  by (simp add: is_digit_def)

lemma v4_str_append:
  "v4_str w = nat_str (v4_octets w ! 0) @ ''.'' @ nat_str (v4_octets w ! 1) @ ''.'' @
     nat_str (v4_octets w ! 2) @ ''.'' @ nat_str (v4_octets w ! 3)"
  by (simp add: v4_str_def v4_octets_def Let_def)

lemma v4_octet_less: "i < 4 \<Longrightarrow> v4_octets w ! i < 256"
  using v4_octets_bounds [of w] by (auto simp: list_all_length)

lemma parse_v4_str: "parse_v4_fields (v4_str w) [] 0 0 = Some (v4_octets w)"
proof -
  have o: "v4_octets w = [v4_octets w ! 0, v4_octets w ! 1, v4_octets w ! 2, v4_octets w ! 3]"
    by (simp add: v4_octets_def Let_def)
  have "parse_v4_fields (v4_str w) [] 0 0
    = Some [v4_octets w ! 0, v4_octets w ! 1, v4_octets w ! 2, v4_octets w ! 3]"
    using parse_v4_field [of "v4_octets w ! 3" "[]"]
    by (simp add: v4_str_append parse_v4_field v4_octet_less parse_v4_dot del: parse_v4_fields.simps(2))
  with o show ?thesis by simp
qed

lemma v4_str_kind: "find (\<lambda>c. c \<in> {CHR ''.'', CHR '':'', CHR ''%''}) (v4_str w @ rest) = Some (CHR ''.'')"
proof -
  have "find (\<lambda>c. c \<in> {CHR ''.'', CHR '':'', CHR ''%''}) (nat_str n @ CHR ''.'' # ys) = Some (CHR ''.'')" for n ys
  proof -
    have "\<forall>c\<in>set (nat_str n). c \<notin> {CHR ''.'', CHR '':'', CHR ''%''}"
      using nat_str_digits [of n] by (auto simp: list_all_iff dest!: bspec is_digit_not)
    then show ?thesis by (subst find_append_miss) auto
  qed
  then show ?thesis by (simp add: v4_str_append)
qed

lemma parse_addr_v4_str [simp]: "parse_addr (v4_str w) = Some (V4 w)"
  using v4_str_kind [of w "[]"] by (simp add: parse_addr_def parse_v4_str del: find.simps)

lemma v4_str_inj: "v4_str v = v4_str w \<longleftrightarrow> v = w"
  by (metis parse_addr_v4_str net_addr.inject(1) option.inject)

lemma v4_str_chars: "c \<in> set (v4_str w) \<Longrightarrow> is_digit c \<or> c = CHR ''.''"
  using nat_str_digits by (auto simp: v4_str_append list_all_iff)

end
