(* ===== verification/Host_Patterns.thy ===== *)
theory Host_Patterns
  imports Net_Addr "HOL-Library.Monad_Syntax"
begin

text \<open>
  Host patterns of the hosts file (internal/hostsfile/expand.go): numeric braces, CIDR blocks and
  IPv4 ranges become lists of hosts, and the entries that carry them.

  A result is an option of a sum: None is a call that never returns, \<open>Inl\<close> an error (or the panic
  of \<open>make\<close> with a negative capacity), \<open>Inr\<close> the hosts. The numbers of a brace range are int64, so
  the size of a range and the loop over it wrap around. The texts of the errors are not modelled;
  a constructor stands for each.
\<close>

section \<open>Model\<close>

datatype expand_error =
    TooLarge
  | BraceNumber string string
  | BraceOrder string string
  | BraceUnsupported
  | CidrInvalid
  | RangeIPv6
  | RangeMixed
  | RangeEnd
  | RangeOrder
  | MakePanic

type_synonym 'a outcome = "(expand_error + 'a) option"

definition max_pattern_expansion :: int where "max_pattern_expansion = 1024"
definition max_hosts_file_targets :: nat where "max_hosts_file_targets = 4096"

text \<open>
  The leftmost match of \<open>{(d+)..(d+)}\<close>: what is before it, the two numbers, what is after it.
\<close>

definition brace_at :: "string \<Rightarrow> (string \<times> string \<times> string) option" where
  "brace_at s =
     (if s = [] \<or> hd s \<noteq> CHR ''{'' then None
      else
        let lo = takeWhile is_digit (tl s); r = dropWhile is_digit (tl s);
            hi = takeWhile is_digit (drop 2 r); r2 = dropWhile is_digit (drop 2 r)
        in if lo \<noteq> [] \<and> is_prefix_of ''..'' r \<and> hi \<noteq> [] \<and> r2 \<noteq> [] \<and> hd r2 = CHR ''}''
           then Some (lo, hi, tl r2) else None)"

fun find_brace :: "string \<Rightarrow> (string \<times> string \<times> string \<times> string) option" where
  "find_brace [] = None"
| "find_brace (c # cs) =
     (case brace_at (c # cs) of
        Some (lo, hi, rest) \<Rightarrow> Some ([], lo, hi, rest)
      | None \<Rightarrow> map_option (\<lambda>(pre, lo, hi, rest). (c # pre, lo, hi, rest)) (find_brace cs))"

text \<open>\<open>for n := start; n <= end; n++\<close>, as the values of \<open>n\<close>.\<close>

partial_function (option) brace_numbers :: "int \<Rightarrow> int \<Rightarrow> int list option" where
  "brace_numbers n end =
     (if n \<le> end then
        do { ns \<leftarrow> brace_numbers (wrap64 (n + 1)) end; Some (n # ns) }
      else Some [])"

declare brace_numbers.simps [code]

definition brace_width :: "string \<Rightarrow> string \<Rightarrow> nat" where
  "brace_width lo hi =
     (if length lo > 1 \<and> hd lo = CHR ''0'' \<or> length hi > 1 \<and> hd hi = CHR ''0''
      then max (length lo) (length hi) else 0)"

lemma find_brace_split:
  "find_brace s = Some (pre, lo, hi, rest) \<Longrightarrow>
   s = pre @ ''{'' @ lo @ ''..'' @ hi @ ''}'' @ rest \<and> lo \<noteq> [] \<and> hi \<noteq> [] \<and>
   list_all is_digit lo \<and> list_all is_digit hi"
proof (induction s arbitrary: pre)
  case (Cons c cs)
  show ?case
  proof (cases "brace_at (c # cs)")
    case None
    with Cons show ?thesis by auto
  next
    case (Some m)
    with Cons.prems have m: "m = (lo, hi, rest)" "pre = []" by (auto split: prod.splits)
    obtain r r2 where r: "r = dropWhile is_digit cs" "r2 = dropWhile is_digit (drop 2 r)" by simp
    from Some m have b: "c = CHR ''{''" "lo = takeWhile is_digit cs" "hi = takeWhile is_digit (drop 2 r)"
      "lo \<noteq> []" "hi \<noteq> []" "is_prefix_of ''..'' r" "r2 \<noteq> []" "hd r2 = CHR ''}''" "rest = tl r2"
      by (auto simp: brace_at_def Let_def r split: if_splits)
    obtain q where q: "r = ''..'' @ q" using b(6) unfolding is_prefix_of_iff by blast
    have "cs = lo @ r" by (simp add: b(2) r(1))
    moreover have "q = hi @ r2" using q by (simp add: b(3) r(2))
    moreover have "r2 = CHR ''}'' # rest" using b(7,8,9) by (cases r2) simp_all
    moreover have "list_all is_digit lo" "list_all is_digit hi"
      unfolding b(2,3) list_all_iff by (auto dest: set_takeWhileD)
    ultimately show ?thesis by (simp add: b(1,4,5) m(2) q)
  qed
qed simp

lemma find_brace_shorter: "find_brace s = Some (pre, lo, hi, rest) \<Longrightarrow> length rest < length s"
  by (drule find_brace_split) auto

text \<open>
  \<open>expandBraces\<close>. The size of the range and the capacity of the result are int64; \<open>make\<close> panics
  when the capacity is negative.
\<close>

function expand_braces :: "string \<Rightarrow> string list outcome" where
  "expand_braces s =
     (case find_brace s of
        None \<Rightarrow> Some (Inr [s])
      | Some (prefix, lo, hi, rest) \<Rightarrow>
          (case (atoi lo, atoi hi) of
             (Some start, Some end) \<Rightarrow>
               if start > end then Some (Inl (BraceOrder lo hi))
               else if wrap64 (end - start + 1) > max_pattern_expansion then Some (Inl TooLarge)
               else
                 (case expand_braces rest of
                    None \<Rightarrow> None
                  | Some (Inl e) \<Rightarrow> Some (Inl e)
                  | Some (Inr tails) \<Rightarrow>
                      let c = wrap64 (wrap64 (end - start + 1) * int (length tails))
                      in if c > max_pattern_expansion then Some (Inl TooLarge)
                         else if c < 0 then Some (Inl MakePanic)
                         else
                           do { ns \<leftarrow> brace_numbers start end;
                                Some (Inr (concat (map (\<lambda>n. map (\<lambda>t. prefix @
                                  pad0 (brace_width lo hi) n @ t) tails) ns))) })
           | _ \<Rightarrow> Some (Inl (BraceNumber lo hi))))"
  by pat_completeness auto
termination
  by (relation "measure length") (auto dest!: sym [of "Some _"] find_brace_shorter)

declare expand_braces.simps [simp del]

text \<open>\<open>for range n { out = append(out, addr.String()); addr = addr.Next() }\<close>.\<close>

primrec addrs_from :: "nat \<Rightarrow> net_addr \<Rightarrow> string list" where
  "addrs_from 0 a = []"
| "addrs_from (Suc n) a = addr_str a # addrs_from n (next_addr a)"

definition expand_cidr :: "string \<Rightarrow> expand_error + string list" where
  "expand_cidr s =
     (case parse_prefix s of
        None \<Rightarrow> Inl CidrInvalid
      | Some (ip, bits) \<Rightarrow>
          let base = masked ip bits; host_bits = bit_len base - bits in
          if host_bits > 10 then Inl TooLarge
          else
            let n0 = 2 ^ nat host_bits;
                drops = (is_v4 base \<and> bits \<le> 30);
                a = (if drops then next_addr base else base);
                n = (if drops then n0 - 2 else n0)
            in if int n > max_pattern_expansion then Inl TooLarge
               else Inr (addrs_from n a))"

text \<open>\<open>parseOctet\<close>: one to three digits up to 255.\<close>

definition parse_octet :: "string \<Rightarrow> nat option" where
  "parse_octet s =
     (if s = [] \<or> length s > 3 \<or> \<not> list_all is_digit s then None
      else case atoi s of None \<Rightarrow> None | Some n \<Rightarrow> if n > 255 then None else Some (nat n))"

text \<open>\<open>for addr := start; ; addr = addr.Next()\<close> up to \<open>end\<close>.\<close>

partial_function (option) addrs_between :: "net_addr \<Rightarrow> net_addr \<Rightarrow> string list option" where
  "addrs_between a end =
     (if a = end then Some [addr_str a]
      else do { xs \<leftarrow> addrs_between (next_addr a) end; Some (addr_str a # xs) })"

declare addrs_between.simps [code]

definition expand_ipv4_range :: "32 word \<Rightarrow> string \<Rightarrow> string list outcome" where
  "expand_ipv4_range start end_str =
     (let end = (case parse_addr end_str of
            Some a \<Rightarrow> (case a of V4 w \<Rightarrow> Inr w | _ \<Rightarrow> Inl RangeMixed)
          | None \<Rightarrow> (case parse_octet end_str of
                Some o4 \<Rightarrow> Inr (v4_of_octets ((v4_octets start)[3 := o4]))
              | None \<Rightarrow> Inl RangeEnd))
      in case end of
           Inl e \<Rightarrow> Some (Inl e)
         | Inr w \<Rightarrow>
             if w < start then Some (Inl RangeOrder)
             else if unat w - unat start + 1 > nat max_pattern_expansion then Some (Inl TooLarge)
             else do { xs \<leftarrow> addrs_between (V4 start) (V4 w); Some (Inr xs) })"

definition expand_address_pattern :: "string \<Rightarrow> string list outcome" where
  "expand_address_pattern s =
     (if CHR ''/'' \<in> set s then Some (expand_cidr s)
      else case last_index CHR ''-'' s of
        None \<Rightarrow> Some (Inr [s])
      | Some i \<Rightarrow>
          if i = 0 then Some (Inr [s])
          else case parse_addr (take i s) of
            None \<Rightarrow> Some (Inr [s])
          | Some (V4 start) \<Rightarrow> expand_ipv4_range start (drop (i + 1) s)
          | Some _ \<Rightarrow> Some (Inl RangeIPv6))"

fun expand_all :: "string list \<Rightarrow> string list \<Rightarrow> string list outcome" where
  "expand_all [] out = Some (Inr out)"
| "expand_all (s # ss) out =
     (if contains_any s ''{}'' then Some (Inl BraceUnsupported)
      else case expand_address_pattern s of
        None \<Rightarrow> None
      | Some (Inl e) \<Rightarrow> Some (Inl e)
      | Some (Inr addrs) \<Rightarrow>
          if int (length out + length addrs) > max_pattern_expansion then Some (Inl TooLarge)
          else expand_all ss (out @ addrs))"

definition expand_host_pattern :: "string \<Rightarrow> string list outcome" where
  "expand_host_pattern pattern =
     (case expand_braces pattern of
        None \<Rightarrow> None
      | Some (Inl e) \<Rightarrow> Some (Inl e)
      | Some (Inr braced) \<Rightarrow> expand_all braced [])"


section \<open>Loops\<close>

lemma brace_numbers_total:
  assumes "end < max_int64" "- 9223372036854775808 \<le> n"
  shows "brace_numbers n end = Some [n..end]"
  using assms(2)
proof (induction "nat (end + 1 - n)" arbitrary: n)
  case 0
  then show ?case by (subst brace_numbers.simps) simp
next
  case (Suc k)
  then have n: "n \<le> end" by linarith
  then have w: "wrap64 (n + 1) = n + 1" using Suc.prems assms(1) by (intro wrap64_id) simp_all
  have "brace_numbers (n + 1) end = Some [n + 1..end]"
    using Suc by (intro Suc.hyps(1)) simp_all
  with n w show ?case by (subst brace_numbers.simps) (simp add: upto_rec1)
qed

lemma brace_numbers_returns: "brace_numbers n end = Some ns \<Longrightarrow> n \<le> max_int64 \<Longrightarrow> end < max_int64"
proof (induction rule: brace_numbers.raw_induct [rotated, consumes 1])
  case (1 f n m ns)
  show ?case
  proof (cases "n \<le> m")
    case True
    with 1 show ?thesis using wrap64_range [of "n + 1"] by (auto split: bind_splits)
  qed (use 1 in simp)
qed

lemma next_v4: "w \<noteq> - 1 \<Longrightarrow> next_addr (V4 w) = V4 (w + 1)"
  by (simp add: next_addr_def add_eq_0_iff2)

lemma unat_Suc: "unat (w::32 word) < 4294967295 \<Longrightarrow> unat (w + 1) = unat w + 1 \<and> w \<noteq> - 1"
proof
  assume w: "unat w < 4294967295"
  then show "unat (w + 1) = unat w + 1" by (simp add: unat_word_ariths)
  have "unat (- 1 :: 32 word) = 4294967295"
    by (simp add: unsigned_minus_1_eq_mask mask_eq_exp_minus_1)
  with w show "w \<noteq> - 1" by auto
qed

text \<open>The addresses from \<open>w\<close> on: \<open>v4_run n w\<close> has \<open>n\<close> of them.\<close>

definition v4_run :: "nat \<Rightarrow> 32 word \<Rightarrow> 32 word list" where
  "v4_run n w = map (\<lambda>i. w + of_nat i) [0..<n]"

lemma v4_run_Suc: "v4_run (Suc n) w = w # v4_run n (w + 1)"
  by (simp add: v4_run_def upt_conv_Cons map_Suc_upt [symmetric] ac_simps del: upt_Suc)

lemma addrs_from_v4: "unat w + n \<le> 4294967296 \<Longrightarrow> addrs_from n (V4 w) = map v4_str (v4_run n w)"
proof (induction n arbitrary: w)
  case 0
  then show ?case by (simp add: v4_run_def)
next
  case (Suc n)
  show ?case
  proof (cases n)
    case 0
    then show ?thesis by (simp add: v4_run_def addr_str_def)
  next
    case (Suc m)
    with Suc.prems have "unat w < 4294967295" by simp
    with Suc.IH [of "w + 1"] Suc.prems show ?thesis
      by (simp add: v4_run_Suc addr_str_def next_v4 unat_Suc)
  qed
qed

lemma addrs_between_v4:
  "unat a \<le> unat b \<Longrightarrow>
   addrs_between (V4 a) (V4 b) = Some (map v4_str (v4_run (Suc (unat b - unat a)) a))"
proof (induction "unat b - unat a" arbitrary: a)
  case 0
  then have "a = b" by (simp add: word_unat_eq_iff)
  then show ?case by (subst addrs_between.simps) (simp add: addr_str_def v4_run_def)
next
  case (Suc k)
  have "unat b < 4294967296" using unsigned_less [of b, where 'a = nat] by simp
  with Suc have lt: "unat a < unat b" and a: "unat (a + 1) = unat a + 1" "a \<noteq> - 1"
    using unat_Suc [of a] by linarith+
  with Suc have "addrs_between (V4 (a + 1)) (V4 b) = Some (map v4_str (v4_run (unat b - unat a) (a + 1)))"
    by (simp add: Suc_diff_Suc)
  with lt a show ?case
    by (subst addrs_between.simps) (auto simp: next_v4 addr_str_def v4_run_Suc)
qed

lemma set_v4_run: "unat w + n \<le> 4294967296 \<Longrightarrow> set (v4_run n w) = {v. unat w \<le> unat v \<and> unat v < unat w + n}"
  and sorted_v4_run: "unat w + n \<le> 4294967296 \<Longrightarrow> sorted (map unat (v4_run n w)) \<and> distinct (v4_run n w)"
  and v4_run_unat: "unat w + n \<le> 4294967296 \<Longrightarrow> map unat (v4_run n w) = [unat w..<unat w + n]"
proof -
  assume n: "unat w + n \<le> 4294967296"
  have u: "unat (w + of_nat i) = unat w + i" if "i < n" for i
    using that n by (simp add: unat_word_ariths unat_of_nat take_bit_eq_mod)
  show m: "map unat (v4_run n w) = [unat w..<unat w + n]"
    by (rule nth_equalityI) (auto simp: v4_run_def u)
  then have s: "unat ` set (v4_run n w) = {unat w..<unat w + n}"
    by (metis list.set_map set_upt)
  show "set (v4_run n w) = {v. unat w \<le> unat v \<and> unat v < unat w + n}"
  proof (intro set_eqI iffI)
    fix v :: "32 word" assume "v \<in> {v. unat w \<le> unat v \<and> unat v < unat w + n}"
    then have "unat v \<in> unat ` set (v4_run n w)" unfolding s by simp
    then show "v \<in> set (v4_run n w)" by (metis imageE word_unat_eq_iff)
  qed (use s in auto)
  show "sorted (map unat (v4_run n w)) \<and> distinct (v4_run n w)"
    unfolding m by (metis distinct_map distinct_upt m sorted_upt)
qed


lemma length_addrs_from [simp]: "length (addrs_from n a) = n"
  by (induction n arbitrary: a) simp_all

section \<open>Bounds\<close>

lemma expand_cidr_bounds: "expand_cidr s = Inr hs \<Longrightarrow> hs \<noteq> [] \<and> int (length hs) \<le> max_pattern_expansion"
proof -
  assume "expand_cidr s = Inr hs"
  then obtain ip b where p: "parse_prefix s = Some (ip, b)"
    and h: "bit_len (masked ip b) - b \<le> 10"
    and hs: "hs = (if is_v4 (masked ip b) \<and> b \<le> 30
        then addrs_from (2 ^ nat (bit_len (masked ip b) - b) - 2) (next_addr (masked ip b))
        else addrs_from (2 ^ nat (bit_len (masked ip b) - b)) (masked ip b))"
    and le: "int (length hs) \<le> max_pattern_expansion"
    by (auto simp: expand_cidr_def Let_def split: option.splits prod.splits if_splits)
  have "length hs > 0"
  proof (cases "is_v4 (masked ip b) \<and> b \<le> 30")
    case True
    then have "2 \<le> nat (bit_len (masked ip b) - b)"
      by (auto simp: is_v4_def bit_len_def split: net_addr.splits)
    then have "(2::nat) ^ 2 \<le> 2 ^ nat (bit_len (masked ip b) - b)" by (rule power_increasing) simp
    with True hs show ?thesis by simp
  qed (use hs in \<open>simp only: if_False length_addrs_from; simp\<close>)
  with le show ?thesis by auto
qed

lemma expand_range_bounds:
  assumes "expand_ipv4_range a s = Some (Inr hs)"
  shows "hs \<noteq> [] \<and> int (length hs) \<le> max_pattern_expansion"
proof -
  obtain w where "\<not> w < a" "unat w - unat a + 1 \<le> nat max_pattern_expansion"
    "addrs_between (V4 a) (V4 w) = Some hs"
    using assms
    by (auto simp: expand_ipv4_range_def Let_def split: option.splits net_addr.splits if_splits bind_splits)
  then show ?thesis
    using addrs_between_v4 [of a w]
    by (auto simp: word_le_nat_alt linorder_not_less v4_run_def max_pattern_expansion_def simp del: upt_Suc)
qed

lemma expand_address_pattern_bounds:
  "expand_address_pattern s = Some (Inr hs) \<Longrightarrow> hs \<noteq> [] \<and> int (length hs) \<le> max_pattern_expansion"
  by (auto simp: expand_address_pattern_def max_pattern_expansion_def [symmetric]
      dest: expand_cidr_bounds expand_range_bounds split: if_splits option.splits net_addr.splits)
    (simp_all add: max_pattern_expansion_def)

lemma expand_all_bounds:
  "expand_all ss out = Some (Inr hs) \<Longrightarrow> int (length out) \<le> max_pattern_expansion \<Longrightarrow>
   int (length hs) \<le> max_pattern_expansion \<and> length out + length ss \<le> length hs"
proof (induction ss arbitrary: out)
  case (Cons s ss)
  then obtain addrs where a: "expand_address_pattern s = Some (Inr addrs)"
    "int (length (out @ addrs)) \<le> max_pattern_expansion" "expand_all ss (out @ addrs) = Some (Inr hs)"
    by (auto split: if_splits option.splits sum.splits)
  with Cons.IH [OF a(3,2)] expand_address_pattern_bounds [OF a(1)] show ?case
    by (cases addrs) auto
qed simp

lemma expand_braces_bounds:
  "expand_braces s = Some (Inr hs) \<Longrightarrow> hs \<noteq> [] \<and> int (length hs) \<le> max_pattern_expansion"
proof (induction s arbitrary: hs rule: expand_braces.induct)
  case (1 s)
  show ?case
  proof (cases "find_brace s")
    case None
    with "1.prems" show ?thesis by (subst (asm) expand_braces.simps) (auto simp: max_pattern_expansion_def)
  next
    case (Some f)
    obtain pre lo hi rest where f: "f = (pre, lo, hi, rest)" by (metis prod_cases4)
    from "1.prems" Some obtain a b tails ns where
      n: "atoi lo = Some a" "atoi hi = Some b" "a \<le> b" "wrap64 (b - a + 1) \<le> max_pattern_expansion"
      "expand_braces rest = Some (Inr tails)" "brace_numbers a b = Some ns"
      "wrap64 (wrap64 (b - a + 1) * int (length tails)) \<le> max_pattern_expansion"
      "hs = concat (map (\<lambda>n. map (\<lambda>t. pre @ pad0 (brace_width lo hi) n @ t) tails) ns)"
      by (subst (asm) expand_braces.simps)
        (auto simp: f Let_def split: option.splits if_splits sum.splits bind_splits)
    have d: "0 \<le> a" "b \<le> max_int64"
      using n(1,2) find_brace_split [OF Some [unfolded f]] by (auto simp: atoi_digits split: if_splits)
    then have b: "b < max_int64" using brace_numbers_returns [OF n(6)] n(3) by simp
    then have ns: "ns = [a..b]" using brace_numbers_total [of b a] d n(6) by simp
    have w: "wrap64 (b - a + 1) = b - a + 1" using d b n(3) by (intro wrap64_id) simp_all
    have t: "tails \<noteq> []" "int (length tails) \<le> 1024"
      using "1.IH" [OF Some f [symmetric] refl refl refl n(1,2) _ _ n(5)] n(3,4)
      by (auto simp: max_pattern_expansion_def)
    have "wrap64 ((b - a + 1) * int (length tails)) = (b - a + 1) * int (length tails)"
    proof (rule wrap64_id)
      have "(b - a + 1) * int (length tails) \<le> 1024 * 1024"
        using t n(3,4) w by (intro mult_mono) (simp_all add: max_pattern_expansion_def)
      then show "(b - a + 1) * int (length tails) \<le> max_int64" by (simp add: max_int64_def)
      show "- 9223372036854775808 \<le> (b - a + 1) * int (length tails)"
        using n(3) by (smt (verit) mult_nonneg_nonneg of_nat_0_le_iff)
    qed
    with n(7) w have "(b - a + 1) * int (length tails) \<le> max_pattern_expansion" by simp
    moreover have "int (length hs) = (b - a + 1) * int (length tails)"
      using n(3) by (simp add: n(8) ns length_concat o_def sum_list_triv)
    moreover have "hs \<noteq> []" using t(1) n(3) by (auto simp: n(8) ns upto_rec1)
    ultimately show ?thesis by simp
  qed
qed

lemma expand_host_pattern_bounds:
  assumes "expand_host_pattern p = Some (Inr hs)"
  shows "hs \<noteq> [] \<and> length hs \<le> 1024"
proof -
  obtain bs where b: "expand_braces p = Some (Inr bs)" "expand_all bs [] = Some (Inr hs)"
    using assms by (auto simp: expand_host_pattern_def split: option.splits sum.splits)
  with expand_all_bounds [OF b(2)] expand_braces_bounds [OF b(1)] show ?thesis
    by (cases bs) (auto simp: max_pattern_expansion_def)
qed


lemma wrap64_small: "int k \<le> 1024 \<Longrightarrow> wrap64 (int k) = int k"
  by (rule wrap64_id) (simp_all add: max_int64_def)

section \<open>Brace ranges as products\<close>

text \<open>
  The specification of a pattern: literal pieces and ranges, each range with the two numbers as
  they are written. \<open>products\<close> are the hosts it stands for, in the order of the code.
\<close>

datatype piece = Lit string | Range string string

fun render :: "piece list \<Rightarrow> string" where
  "render [] = []"
| "render (Lit l # ps) = l @ render ps"
| "render (Range lo hi # ps) = ''{'' @ lo @ ''..'' @ hi @ ''}'' @ render ps"

definition starts_zero :: "string \<Rightarrow> bool" where
  "starts_zero s = (length s > 1 \<and> hd s = CHR ''0'')"

definition range_values :: "string \<Rightarrow> string \<Rightarrow> string list" where
  "range_values lo hi =
     map (\<lambda>n. if starts_zero lo \<or> starts_zero hi then pad0 (max (length lo) (length hi)) n else pad0 0 n)
       [int (digits_val lo)..int (digits_val hi)]"

lemma range_values_width:
  "range_values lo hi = map (pad0 (brace_width lo hi)) [int (digits_val lo)..int (digits_val hi)]"
  by (auto simp: range_values_def brace_width_def starts_zero_def)

fun products :: "piece list \<Rightarrow> string list" where
  "products [] = [[]]"
| "products (Lit l # ps) = map (append l) (products ps)"
| "products (Range lo hi # ps) =
     concat (map (\<lambda>v. map (append v) (products ps)) (range_values lo hi))"

definition piece_ok :: "piece \<Rightarrow> bool" where
  "piece_ok p = (case p of
     Lit l \<Rightarrow> CHR ''{'' \<notin> set l
   | Range lo hi \<Rightarrow> lo \<noteq> [] \<and> hi \<noteq> [] \<and> list_all is_digit lo \<and> list_all is_digit hi \<and>
       digits_val lo \<le> digits_val hi \<and> int (digits_val hi) < max_int64)"

lemma find_brace_lit: "CHR ''{'' \<notin> set l \<Longrightarrow>
  find_brace (l @ s) = map_option (\<lambda>(pre, lo, hi, rest). (l @ pre, lo, hi, rest)) (find_brace s)"
  by (induction l) (auto simp: brace_at_def option.map_comp o_def case_prod_unfold map_option.id [unfolded id_def])

lemma takeWhile_digits: "list_all is_digit ds \<Longrightarrow> r \<noteq> [] \<Longrightarrow> \<not> is_digit (hd r) \<Longrightarrow>
  takeWhile is_digit (ds @ r) = ds \<and> dropWhile is_digit (ds @ r) = r"
  by (induction ds) (cases r, auto)

lemma brace_at_range:
  assumes "lo \<noteq> []" "hi \<noteq> []" "list_all is_digit lo" "list_all is_digit hi"
  shows "brace_at (''{'' @ lo @ ''..'' @ hi @ ''}'' @ rest) = Some (lo, hi, rest)"
  using assms takeWhile_digits [of lo "''..'' @ hi @ ''}'' @ rest"] takeWhile_digits [of hi "''}'' @ rest"]
  by (simp add: brace_at_def Let_def is_digit_def)

lemma range_values_nonempty: "digits_val lo \<le> digits_val hi \<Longrightarrow> range_values lo hi \<noteq> []"
  by (simp add: range_values_width)

lemma products_nonempty: "list_all piece_ok ps \<Longrightarrow> products ps \<noteq> []"
proof (induction ps rule: products.induct)
  case (3 lo hi ps)
  then obtain v where "v \<in> set (range_values lo hi)"
    using range_values_nonempty [of lo hi] by (cases "range_values lo hi") (auto simp: piece_ok_def)
  with 3 show ?case by auto
qed simp_all

lemma expand_braces_product:
  assumes "list_all piece_ok ps" "length (products ps) \<le> 1024" "CHR ''{'' \<notin> set pre"
  shows "expand_braces (pre @ render ps) = Some (Inr (map (append pre) (products ps)))"
  using assms
proof (induction ps arbitrary: pre rule: products.induct)
  case 1
  then have "find_brace pre = None" using find_brace_lit [of pre "[]"] by simp
  then show ?case by (subst expand_braces.simps) simp
next
  case (2 l ps)
  then show ?case using "2.IH" [of "pre @ l"] by (simp add: piece_ok_def o_def)
next
  case (3 lo hi ps)
  let ?a = "int (digits_val lo)" and ?b = "int (digits_val hi)"
  let ?m = "length (products ps)" and ?n = "digits_val hi - digits_val lo + 1"
  from 3 have r: "lo \<noteq> []" "hi \<noteq> []" "list_all is_digit lo" "list_all is_digit hi"
    "digits_val lo \<le> digits_val hi" "?b < max_int64"
    by (auto simp: piece_ok_def)
  have f: "find_brace (pre @ render (Range lo hi # ps)) = Some (pre, lo, hi, render ps)"
    using "3.prems"(3) brace_at_range [OF r(1-4), of "render ps"] by (simp add: find_brace_lit)
  have len: "length (products (Range lo hi # ps)) = ?n * ?m"
  proof -
    have "length [?a..?b] = ?n" using r(5) by simp
    then show ?thesis by (simp add: range_values_width length_concat o_def sum_list_triv del: length_upto)
  qed
  have m: "0 < ?m" using "3.prems"(1) products_nonempty [of ps] by simp
  have prod: "?n * ?m \<le> 1024" using "3.prems"(2) len by simp
  have nm: "?n \<le> 1024" "?m \<le> 1024"
    using prod m le_trans [OF _ prod] by (metis mult.right_neutral mult_le_mono2 One_nat_def Suc_leI)
      (use le_trans [OF _ prod, of ?m] in simp)
  have tails: "expand_braces (render ps) = Some (Inr (products ps))"
  proof -
    obtain v where "v \<in> set (range_values lo hi)"
      using range_values_nonempty [OF r(5)] by (cases "range_values lo hi") auto
    from "3.IH" [OF this, of "[]"] "3.prems"(1) nm(2) show ?thesis by (simp add: map_idI)
  qed
  have at: "atoi lo = Some ?a" "atoi hi = Some ?b"
    using r by (simp_all add: atoi_digits)
  have w: "wrap64 (?b - ?a + 1) = int ?n"
    using r(5,6) by (subst wrap64_id) (simp_all add: of_nat_diff)
  have w2: "wrap64 (int ?n * int ?m) = int (?n * ?m)"
  proof -
    have "int (?n * ?m) \<le> 1024" using prod by linarith
    then show ?thesis unfolding of_nat_mult [symmetric] by (rule wrap64_small)
  qed
  have "brace_numbers ?a ?b = Some [?a..?b]" using r(6) by (intro brace_numbers_total) simp_all
  moreover have "\<not> int ?n > max_pattern_expansion"
    unfolding max_pattern_expansion_def using nm(1) by linarith
  moreover have "\<not> int (?n * ?m) > max_pattern_expansion" "\<not> int (?n * ?m) < 0"
    unfolding max_pattern_expansion_def using prod by linarith+
  moreover have "\<not> ?a > ?b" using r(5) by simp
  ultimately have "expand_braces (pre @ render (Range lo hi # ps)) =
    Some (Inr (concat (map (\<lambda>n. map (\<lambda>t. pre @ pad0 (brace_width lo hi) n @ t) (products ps)) [?a..?b])))"
    by (subst expand_braces.simps) (simp only: f at tails w w2 option.case prod.case sum.case Let_def if_False bind.bind_lunit)
  then show ?case by (simp add: range_values_width map_concat o_def)
qed

section \<open>Expansion returns\<close>

lemma expand_address_pattern_returns: "expand_address_pattern s \<noteq> None"
  by (auto simp: expand_address_pattern_def expand_ipv4_range_def Let_def addrs_between_v4
      word_le_nat_alt linorder_not_less split: option.splits net_addr.splits sum.splits)

lemma expand_all_returns: "expand_all ss out \<noteq> None"
  by (induction ss arbitrary: out) (auto simp: expand_address_pattern_returns split: option.splits sum.splits)

lemma expand_braces_returns:
  "expand_braces s = None \<Longrightarrow> \<exists>pre lo hi rest. s = pre @ ''{'' @ lo @ ''..'' @ hi @ ''}'' @ rest \<and>
     atoi hi = Some max_int64"
proof (induction s rule: expand_braces.induct)
  case (1 s)
  show ?case
  proof (cases "find_brace s")
    case None
    with "1.prems" show ?thesis by (subst (asm) expand_braces.simps) simp
  next
    case (Some f)
    obtain pre lo hi rest where f: "f = (pre, lo, hi, rest)" by (metis prod_cases4)
    note s = find_brace_split [OF Some [unfolded f]]
    from "1.prems" Some obtain a b where
      n: "atoi lo = Some a" "atoi hi = Some b" "\<not> b < a" "\<not> max_pattern_expansion < wrap64 (b - a + 1)"
      "expand_braces rest = None \<or> brace_numbers a b = None"
      by (subst (asm) expand_braces.simps)
        (auto simp: f Let_def split: option.splits if_splits sum.splits bind_splits)
    show ?thesis
    proof (cases "expand_braces rest")
      case None
      from "1.IH" [OF Some f [symmetric] refl refl refl n(1-4) None] obtain p l h r where
        "rest = p @ ''{'' @ l @ ''..'' @ h @ ''}'' @ r" "atoi h = Some max_int64" by blast
      with s show ?thesis
        by (intro exI [of _ "pre @ ''{'' @ lo @ ''..'' @ hi @ ''}'' @ p"] exI [of _ l] exI [of _ h] exI [of _ r]) simp
    next
      case (Some x)
      have d: "0 \<le> a" "b \<le> max_int64" using n(1,2) s by (auto simp: atoi_digits split: if_splits)
      with Some n(5) have "b = max_int64"
        using brace_numbers_total [of b a] by (cases "b < max_int64") auto
      with n(2) s show ?thesis by blast
    qed
  qed
qed


section \<open>Plain hosts, ranges and blocks\<close>

definition plain_host :: "string \<Rightarrow> bool" where
  "plain_host s = (\<not> contains_any s ''{}/-'')"

lemma last_index_none: "c \<notin> set s \<Longrightarrow> last_index c s = None"
  by (simp add: last_index_None)

lemma last_index_at: "c \<notin> set b \<Longrightarrow> last_index c (a @ c # b) = Some (length a)"
  by (induction a) (simp_all add: last_index_none)

lemma contains_any_iff: "contains_any s cs \<longleftrightarrow> set s \<inter> set cs \<noteq> {}"
  by (auto simp: contains_any_def list_ex_iff)

lemma plain_hostD:
  assumes "plain_host s"
  shows "CHR ''/'' \<notin> set s" "CHR ''-'' \<notin> set s" "\<not> contains_any s ''{}''"
proof -
  have "set s \<inter> set ''{}/-'' = {}" using assms by (simp only: plain_host_def contains_any_iff simp_thms)
  moreover have "CHR ''/'' \<in> set ''{}/-''" "CHR ''-'' \<in> set ''{}/-''" "set ''{}'' \<subseteq> set ''{}/-''"
    by simp_all
  ultimately show "CHR ''/'' \<notin> set s" "CHR ''-'' \<notin> set s" "\<not> contains_any s ''{}''"
    unfolding contains_any_iff by blast+
qed

lemma expand_plain: "plain_host s \<Longrightarrow> expand_address_pattern s = Some (Inr [s])"
  by (simp add: plain_hostD expand_address_pattern_def last_index_none)

lemma expand_all_plain:
  "list_all plain_host ss \<Longrightarrow> length out + length ss \<le> 1024 \<Longrightarrow> expand_all ss out = Some (Inr (out @ ss))"
proof (induction ss arbitrary: out)
  case (Cons s ss)
  then show ?case by (simp add: plain_hostD expand_plain max_pattern_expansion_def)
qed simp

text \<open>A text without a brace is its own brace expansion.\<close>

lemma expand_no_brace: "CHR ''{'' \<notin> set s \<Longrightarrow> expand_braces s = Some (Inr [s])"
  using expand_braces_product [of "[Lit s]" "[]"] by (simp add: piece_ok_def)

lemma expand_one:
  assumes "\<not> contains_any s ''{}''"
  shows "expand_host_pattern s = (case expand_address_pattern s of
     Some (Inr hs) \<Rightarrow> Some (Inr hs) | r \<Rightarrow> r)"
proof -
  have "expand_braces s = Some (Inr [s])"
    using assms by (intro expand_no_brace) (auto simp: contains_any_iff)
  with assms expand_address_pattern_bounds [of s] show ?thesis
    by (auto simp: expand_host_pattern_def split: option.splits sum.splits)
qed

lemma v4_str_no: "c \<in> set ''{}/-:%'' \<Longrightarrow> c \<notin> set (v4_str w)"
  using v4_str_chars [of c w] is_digit_not [of c] by auto

lemma v4_str_nonempty: "v4_str w \<noteq> []"
  by (simp add: v4_str_append)

lemma expand_range_text:
  assumes "set t \<inter> set ''{}/-'' = {}"
  shows "expand_host_pattern (v4_str a @ ''-'' @ t) = expand_ipv4_range a t"
proof -
  have "\<not> contains_any (v4_str a @ ''-'' @ t) ''{}''"
  proof -
    have "set (v4_str a) \<inter> set ''{}'' = {}" using v4_str_no [of _ a] by fastforce
    with assms show ?thesis unfolding contains_any_iff by auto
  qed
  moreover have "expand_address_pattern (v4_str a @ ''-'' @ t) = expand_ipv4_range a t"
    using assms v4_str_no [of "CHR ''/''" a] v4_str_nonempty [of a]
    by (auto simp: expand_address_pattern_def last_index_at)
  ultimately show ?thesis by (simp add: expand_one split: option.split sum.split)
qed

lemma expand_range_result:
  assumes "parse_addr t = Some (V4 b) \<or> parse_addr t = None \<and>
    (\<exists>d. parse_octet t = Some d \<and> b = v4_of_octets ((v4_octets a)[3 := d]))"
  shows "expand_ipv4_range a t =
    (if b < a then Some (Inl RangeOrder)
     else if unat b - unat a \<ge> 1024 then Some (Inl TooLarge)
     else Some (Inr (map v4_str (v4_run (Suc (unat b - unat a)) a))))"
proof -
  have "expand_ipv4_range a t =
    (if b < a then Some (Inl RangeOrder)
     else if unat b - unat a + 1 > nat max_pattern_expansion then Some (Inl TooLarge)
     else do { xs \<leftarrow> addrs_between (V4 a) (V4 b); Some (Inr xs) })"
    using assms by (auto simp: expand_ipv4_range_def)
  also have "\<dots> = (if b < a then Some (Inl RangeOrder)
     else if unat b - unat a \<ge> 1024 then Some (Inl TooLarge)
     else Some (Inr (map v4_str (v4_run (Suc (unat b - unat a)) a))))"
  proof (cases "b < a")
    case False
    then have "unat a \<le> unat b" by (simp add: word_le_nat_alt linorder_not_less)
    then have "addrs_between (V4 a) (V4 b) = Some (map v4_str (v4_run (Suc (unat b - unat a)) a))"
      by (rule addrs_between_v4)
    moreover have "unat b - unat a + 1 > nat max_pattern_expansion \<longleftrightarrow> unat b - unat a \<ge> 1024"
      by (auto simp: max_pattern_expansion_def)
    ultimately show ?thesis using False by (simp only: if_False bind.bind_lunit)
  qed simp
  finally show ?thesis .
qed

lemma v4_run_interval:
  assumes "a \<le> b"
  shows "set (v4_run (Suc (unat b - unat a)) a) = {a..b} \<and>
    sorted (map unat (v4_run (Suc (unat b - unat a)) a)) \<and> distinct (v4_run (Suc (unat b - unat a)) a)"
proof -
  have "unat a \<le> unat b" using assms by (simp add: word_le_nat_alt)
  then have s: "unat a + Suc (unat b - unat a) = Suc (unat b)" by simp
  have "unat b < 4294967296" using unsigned_less [of b, where 'a = nat] by simp
  then have n: "unat a + Suc (unat b - unat a) \<le> 4294967296" unfolding s by simp
  have "{v. unat a \<le> unat v \<and> unat v < Suc (unat b)} = {a..b}"
    by (intro set_eqI) (simp only: mem_Collect_eq atLeastAtMost_iff word_le_nat_alt less_Suc_eq_le)
  then show ?thesis using set_v4_run [OF n] sorted_v4_run [OF n] unfolding s by simp
qed

section \<open>Entries\<close>

text \<open>
  One row of a NetBox export as it is kept with the entry it made, and an entry of a hosts list.
\<close>

record netbox_row =
  nb_host :: string
  nb_base_name :: string
  nb_iface :: string

record host_entry =
  en_host :: string
  en_name :: string
  en_netbox :: "netbox_row option"

datatype entry_error = PatternError expand_error | NameWithPattern nat

text \<open>\<open>expandHostEntry\<close> and \<open>expandHostEntries\<close>; an error carries the index and the host.\<close>

definition expand_host_entry :: "host_entry \<Rightarrow> (entry_error + host_entry list) option" where
  "expand_host_entry e =
     (case expand_host_pattern (en_host e) of
        None \<Rightarrow> None
      | Some (Inl err) \<Rightarrow> Some (Inl (PatternError err))
      | Some (Inr hosts) \<Rightarrow>
          if en_name e \<noteq> [] \<and> length hosts > 1 then Some (Inl (NameWithPattern (length hosts)))
          else Some (Inr (map (\<lambda>h. \<lparr> en_host = h, en_name = en_name e, en_netbox = None \<rparr>) hosts)))"

fun expand_host_entries ::
  "host_entry list \<Rightarrow> nat \<Rightarrow> ((nat \<times> string \<times> entry_error) + host_entry list) option" where
  "expand_host_entries [] i = Some (Inr [])"
| "expand_host_entries (e # es) i =
     (case expand_host_entry e of
        None \<Rightarrow> None
      | Some (Inl err) \<Rightarrow> Some (Inl (i, en_host e, err))
      | Some (Inr xs) \<Rightarrow>
          (case expand_host_entries es (i + 1) of
             None \<Rightarrow> None
           | Some (Inl err) \<Rightarrow> Some (Inl err)
           | Some (Inr ys) \<Rightarrow> Some (Inr (xs @ ys))))"

section \<open>Properties\<close>



text \<open>An IPv4 range is every address from its start to its end, both included, each once and in
  ascending order; a range that goes down is an error, and so is one of more than 1024 addresses.
  The end may be a full address or the last octet alone.\<close>

theorem ipv4_range_expansion:
  assumes "t = v4_str b \<or> (\<exists>d<256. t = nat_str d \<and> b = v4_of_octets ((v4_octets a)[3 := d]))"
  shows "(b < a \<longrightarrow> expand_host_pattern (v4_str a @ ''-'' @ t) = Some (Inl RangeOrder)) \<and>
    (a \<le> b \<and> unat b - unat a \<ge> 1024 \<longrightarrow> expand_host_pattern (v4_str a @ ''-'' @ t) = Some (Inl TooLarge)) \<and>
    (a \<le> b \<and> unat b - unat a < 1024 \<longrightarrow>
       (\<exists>ws. expand_host_pattern (v4_str a @ ''-'' @ t) = Some (Inr (map v4_str ws)) \<and>
          set ws = {a..b} \<and> sorted (map unat ws) \<and> distinct ws))"
proof -
  have octet: "parse_addr (nat_str d) = None \<and> parse_octet (nat_str d) = Some d" if "d < 256" for d
  proof -
    have "find (\<lambda>c. c \<in> {CHR ''.'', CHR '':'', CHR ''%''}) (nat_str d) = None"
      using nat_str_digits [of d] is_digit_not by (auto simp: find_None_iff list_all_iff)
    moreover have "length (nat_str d) \<le> 3"
      using that by (simp add: nat_str.simps [of d] nat_str.simps [of "d div 10"] nat_str.simps [of "d div 10 div 10"])
    moreover have "atoi (nat_str d) = Some (int d)"
      using that nat_str_digits [of d] by (simp add: atoi_digits max_int64_def)
    ultimately show ?thesis using that nat_str_digits [of d]
      by (simp add: parse_addr_def parse_octet_def)
  qed
  have "set t \<inter> set ''{}/-'' = {}"
    using assms v4_str_no [of _ b] nat_str_digits is_digit_not by (fastforce simp: list_all_iff)
  then have e: "expand_host_pattern (v4_str a @ ''-'' @ t) = expand_ipv4_range a t"
    by (rule expand_range_text)
  have "parse_addr t = Some (V4 b) \<or> parse_addr t = None \<and>
      (\<exists>d. parse_octet t = Some d \<and> b = v4_of_octets ((v4_octets a)[3 := d]))"
    using assms octet by auto
  note r = expand_range_result [OF this]
  show ?thesis
  proof (cases "b < a")
    case True
    then show ?thesis by (simp only: e r if_True) (simp add: linorder_not_le)
  next
    case False
    then have "a \<le> b" by simp
    from v4_run_interval [OF this] False show ?thesis by (simp only: e r if_False) (auto split: if_splits)
  qed
qed

theorem ipv4_range_expansion_witness:
  "\<exists>ws. expand_host_pattern (v4_str 167772414 @ ''-'' @ v4_str 167772417) = Some (Inr (map v4_str ws)) \<and>
     set ws = {167772414..167772417}"
  using ipv4_range_expansion [of "v4_str 167772417" 167772417 167772414] by auto


section \<open>Blocks\<close>

definition network :: "32 word \<Rightarrow> nat \<Rightarrow> 32 word" where
  "network w b = w AND NOT (mask (32 - b))"

definition broadcast :: "32 word \<Rightarrow> nat \<Rightarrow> 32 word" where
  "broadcast w b = w OR mask (32 - b)"

lemma unat_network: "unat (network w b) = unat w div 2 ^ (32 - b) * 2 ^ (32 - b)"
proof -
  let ?k = "32 - b"
  have "network w b = push_bit ?k (drop_bit ?k w)"
    unfolding network_def by (rule bit_word_eqI) (auto simp: bit_simps)
  then have "unat (network w b) = take_bit 32 (push_bit ?k (unat (drop_bit ?k w)))"
    by (simp only: unsigned_push_bit_eq) simp
  then have "unat (network w b) = (unat w div 2 ^ ?k * 2 ^ ?k) mod 4294967296"
    by (simp only: unat_drop_bit_eq) (simp add: push_bit_eq_mult drop_bit_eq_div take_bit_eq_mod)
  moreover have "unat w div 2 ^ ?k * 2 ^ ?k \<le> unat w" by simp
  moreover have "unat w < 4294967296" using unsigned_less [of w, where 'a = nat] by simp
  ultimately show ?thesis by simp
qed

lemma block_top:
  assumes "b \<le> 32"
  shows "unat (network w b) + 2 ^ (32 - b) \<le> 4294967296"
proof -
  have p: "(2::nat) ^ b * 2 ^ (32 - b) = 4294967296" using assms by (simp flip: power_add)
  have "unat w < 2 ^ b * 2 ^ (32 - b)" unfolding p using unsigned_less [of w, where 'a = nat] by simp
  then have "unat w div 2 ^ (32 - b) < 2 ^ b" by (simp add: less_mult_imp_div_less)
  then have "Suc (unat w div 2 ^ (32 - b)) * 2 ^ (32 - b) \<le> 2 ^ b * 2 ^ (32 - b)"
    by (intro mult_le_mono1) simp
  then show ?thesis unfolding unat_network p by simp
qed

lemma div_eq_interval:
  assumes "0 < m"
  shows "(x::nat) div m = q \<longleftrightarrow> q * m \<le> x \<and> x < q * m + m"
proof
  assume "x div m = q"
  then have "x = q * m + x mod m" using div_mult_mod_eq [of x m] by simp
  moreover have "x mod m < m" using assms by simp
  ultimately show "q * m \<le> x \<and> x < q * m + m" by linarith
next
  assume "q * m \<le> x \<and> x < q * m + m"
  then show "x div m = q" by (intro div_nat_eqI) (simp_all add: mult.commute)
qed

lemma block_iff:
  "network v b = network w b \<longleftrightarrow>
   unat (network w b) \<le> unat v \<and> unat v < unat (network w b) + 2 ^ (32 - b)"
proof -
  have "network v b = network w b \<longleftrightarrow> unat v div 2 ^ (32 - b) = unat w div 2 ^ (32 - b)"
    unfolding word_unat_eq_iff unat_network by simp
  also have "\<dots> \<longleftrightarrow> unat w div 2 ^ (32 - b) * 2 ^ (32 - b) \<le> unat v \<and>
      unat v < unat w div 2 ^ (32 - b) * 2 ^ (32 - b) + 2 ^ (32 - b)"
    by (rule div_eq_interval) simp
  finally show ?thesis by (simp add: unat_network)
qed

lemma unat_broadcast:
  assumes "b \<le> 32"
  shows "unat (broadcast w b) = unat (network w b) + 2 ^ (32 - b) - 1"
proof -
  have "broadcast w b = network w b + mask (32 - b)"
    unfolding broadcast_def network_def
    by (subst disjunctive_add) (auto simp: bit_simps intro!: bit_word_eqI)
  moreover have "unat (mask (32 - b) :: 32 word) = mask (32 - b)"
    by (rule bit_eqI) (auto simp: bit_simps)
  then have "unat (mask (32 - b) :: 32 word) = 2 ^ (32 - b) - 1"
    by (simp only: mask_eq_exp_minus_1)
  ultimately show ?thesis using block_top [OF assms, of w]
    by (simp add: unat_word_ariths)
qed

lemma expand_cidr_text:
  assumes "b \<le> 32"
  shows "expand_host_pattern (v4_str w @ ''/'' @ nat_str b) = Some
    (if b < 22 then Inl TooLarge
     else if b \<le> 30 then Inr (map v4_str (v4_run (2 ^ (32 - b) - 2) (network w b + 1)))
     else Inr (map v4_str (v4_run (2 ^ (32 - b)) (network w b))))"
proof -
  have no: "CHR ''/'' \<notin> set (nat_str b)" "set (nat_str b) \<inter> set ''{}'' = {}"
    using nat_str_digits [of b] is_digit_not by (auto simp: list_all_iff)
  have "length (nat_str b) > 1 \<longrightarrow> is_digit (hd (nat_str b)) \<and> hd (nat_str b) \<noteq> CHR ''0''"
  proof (cases "b < 10")
    case False
    then have "nat_str b = [digit_char (b div 10), digit_char (b mod 10)]"
      using assms by (simp add: nat_str.simps [of b] nat_str.simps [of "b div 10"])
    moreover have "0 < b div 10" "b div 10 < 10" using False assms by auto
    moreover have "digit_char 0 = CHR ''0''" by code_simp
    ultimately show ?thesis using digit_char_inj [of "b div 10" 0] digit_char_digit [of "b div 10"] by auto
  qed (simp add: nat_str.simps [of b])
  moreover have "atoi (nat_str b) = Some (int b)"
    using assms nat_str_digits [of b] by (simp add: atoi_digits max_int64_def)
  ultimately have "parse_prefix (v4_str w @ ''/'' @ nat_str b) = Some (V4 w, int b)"
    using assms by (auto simp: parse_prefix_def last_index_at no bit_len_def)
  moreover have "nat (32 - int b) = 32 - b" by simp
  ultimately have c: "expand_cidr (v4_str w @ ''/'' @ nat_str b) =
     (if 32 - int b > 10 then Inl TooLarge
      else let drops = (int b \<le> 30) in
        let a = (if drops then next_addr (V4 (network w b)) else V4 (network w b));
          n = (if drops then 2 ^ (32 - b) - 2 else 2 ^ (32 - b))
        in if int n > max_pattern_expansion then Inl TooLarge else Inr (addrs_from n a))"
    by (simp add: expand_cidr_def masked_def network_def bit_len_def is_v4_def Let_def)
  have "\<not> contains_any (v4_str w @ ''/'' @ nat_str b) ''{}''"
    unfolding contains_any_iff using v4_str_no [of _ w] no(2) by auto
  then have e: "expand_host_pattern (v4_str w @ ''/'' @ nat_str b) =
      Some (expand_cidr (v4_str w @ ''/'' @ nat_str b))"
    by (simp add: expand_one expand_address_pattern_def split: sum.split)
  have p: "22 \<le> b \<Longrightarrow> (2::nat) ^ (32 - b) \<le> 2 ^ 10" by (rule power_increasing) simp_all
  note top = block_top [OF assms, of w]
  have nxt: "next_addr (V4 (network w b)) = V4 (network w b + 1) \<and>
      unat (network w b + 1) = unat (network w b) + 1 \<and> (2::nat) \<le> 2 ^ (32 - b)" if "b \<le> 30"
  proof -
    have "(2::nat) ^ 2 \<le> 2 ^ (32 - b)" using that by (intro power_increasing) simp_all
    with top have "unat (network w b) < 4294967295" by simp
    from unat_Suc [OF this] \<open>2 ^ 2 \<le> 2 ^ (32 - b)\<close> show ?thesis by (simp add: next_v4)
  qed
  consider "b < 22" | "22 \<le> b" "b \<le> 30" | "\<not> b \<le> 30" by linarith
  then show ?thesis
  proof cases
    case 2
    have "addrs_from (2 ^ (32 - b) - 2) (V4 (network w b + 1))
        = map v4_str (v4_run (2 ^ (32 - b) - 2) (network w b + 1))"
      using top nxt [OF 2(2)] by (intro addrs_from_v4) linarith
    with 2 nxt [OF 2(2)] p show ?thesis unfolding e c by (auto simp: max_pattern_expansion_def Let_def)
  next
    case 3
    have "addrs_from (2 ^ (32 - b)) (V4 (network w b)) = map v4_str (v4_run (2 ^ (32 - b)) (network w b))"
      using top by (rule addrs_from_v4)
    with 3 p show ?thesis unfolding e c by (auto simp: max_pattern_expansion_def Let_def)
  qed (use e c in simp)
qed


text \<open>A CIDR block stands for its hosts: \<open>a.b.c.d/n\<close> is refused below \<open>/22\<close>, and from there on
  expands to every address whose first n bits are those of the address written, in ascending
  order and each once, without the network and the broadcast address up to \<open>/30\<close>, and with both
  ends for \<open>/31\<close> and \<open>/32\<close>.\<close>

theorem cidr_block_expansion:
  assumes "b \<le> 32"
  shows "(b < 22 \<longrightarrow> expand_host_pattern (v4_str w @ ''/'' @ nat_str b) = Some (Inl TooLarge)) \<and>
    (22 \<le> b \<longrightarrow>
      (\<exists>ws. expand_host_pattern (v4_str w @ ''/'' @ nat_str b) = Some (Inr (map v4_str ws)) \<and>
        set ws = {v. network v b = network w b \<and> (b \<le> 30 \<longrightarrow> v \<noteq> network w b \<and> v \<noteq> broadcast w b)} \<and>
        sorted (map unat ws) \<and> distinct ws))"
proof (cases "b \<le> 30")
  case True
  let ?ws = "v4_run (2 ^ (32 - b) - 2) (network w b + 1)"
  have "(2::nat) ^ 2 \<le> 2 ^ (32 - b)" using True by (intro power_increasing) simp_all
  then have k: "(4::nat) \<le> 2 ^ (32 - b)" by simp
  note top = block_top [OF assms, of w]
  have u: "unat (network w b + 1) = unat (network w b) + 1"
    using unat_Suc [of "network w b"] top k by linarith
  have n: "unat (network w b + 1) + (2 ^ (32 - b) - 2) \<le> 4294967296" using u top k by linarith
  have "(unat (network w b + 1) \<le> unat v \<and> unat v < unat (network w b + 1) + (2 ^ (32 - b) - 2)) \<longleftrightarrow>
      network v b = network w b \<and> v \<noteq> network w b \<and> v \<noteq> broadcast w b" for v
    unfolding block_iff [of v b w] word_unat_eq_iff [of v] unat_broadcast [OF assms] u using k by arith
  then have "set ?ws = {v. network v b = network w b \<and> v \<noteq> network w b \<and> v \<noteq> broadcast w b}"
    unfolding set_v4_run [OF n] by simp
  with sorted_v4_run [OF n] expand_cidr_text [OF assms, of w] True show ?thesis by auto
next
  case False
  note n = block_top [OF assms, of w]
  have "set (v4_run (2 ^ (32 - b)) (network w b)) = {v. network v b = network w b}"
    unfolding set_v4_run [OF n] block_iff by simp
  with sorted_v4_run [OF n] expand_cidr_text [OF assms, of w] False show ?thesis by auto
qed

theorem cidr_block_expansion_witness:
  "\<exists>ws. expand_host_pattern (v4_str 3232235785 @ ''/'' @ nat_str 30) = Some (Inr (map v4_str ws)) \<and>
     set ws = {v. network v 30 = network 3232235785 30 \<and> v \<noteq> network 3232235785 30 \<and>
       v \<noteq> broadcast 3232235785 30}"
  using cidr_block_expansion [of 30 3232235785] by auto

text \<open>What a pattern expands to is never empty and never more than 1024 hosts, whatever the
  pattern; the bound holds for products of braces, for ranges and blocks inside braces, and in
  spite of the wrap-around of the sizes.\<close>

theorem pattern_expansion_bounded:
  assumes "expand_host_pattern p = Some (Inr hs)"
  shows "1 \<le> length hs \<and> length hs \<le> 1024"
  using expand_host_pattern_bounds [OF assms] by (cases hs) auto

theorem pattern_expansion_bounded_witness: "1 \<le> length [''a''] \<and> length [''a''] \<le> (1024::nat)"
proof (rule pattern_expansion_bounded)
  show "expand_host_pattern ''a'' = Some (Inr [''a''])"
    using expand_all_plain [of "[''a'']" "[]"] expand_no_brace [of "''a''"]
    by (simp add: expand_host_pattern_def plain_host_def contains_any_def)
qed

text \<open>C36: Expanding a pattern returns unless the upper bound of one of its brace ranges is the largest
  int64: nothing else keeps one of the loops from ending.\<close>

theorem pattern_expansion_returns:
  assumes "expand_host_pattern p = None"
  shows "\<exists>pre lo hi rest. p = pre @ ''{'' @ lo @ ''..'' @ hi @ ''}'' @ rest \<and> atoi hi = Some max_int64"
  using assms expand_braces_returns [of p]
  by (auto simp: expand_host_pattern_def expand_all_returns split: option.splits sum.splits)

definition largest :: string where "largest = ''9223372036854775807''"

lemma largest_digits: "list_all is_digit largest" "atoi largest = Some max_int64" "largest \<noteq> []"
  by (simp_all add: largest_def is_digit_def atoi_def digits_val_def digit_val_def max_int64_def)

lemma expand_largest:
  assumes "atoi lo = Some a" "list_all is_digit lo" "lo \<noteq> []"
  shows "expand_braces (''{'' @ lo @ ''..'' @ largest @ ''}'') =
    (if a > max_int64 then Some (Inl (BraceOrder lo largest))
     else if wrap64 (max_int64 - a + 1) > max_pattern_expansion then Some (Inl TooLarge)
     else if wrap64 (wrap64 (max_int64 - a + 1)) > max_pattern_expansion then Some (Inl TooLarge)
     else if wrap64 (wrap64 (max_int64 - a + 1)) < 0 then Some (Inl MakePanic)
     else None)"
proof -
  have b: "brace_at (''{'' @ lo @ ''..'' @ largest @ ''}'' @ []) = Some (lo, largest, [])"
    using assms(2,3) largest_digits by (intro brace_at_range) simp_all
  then have f: "find_brace (''{'' @ lo @ ''..'' @ largest @ ''}'') = Some ([], lo, largest, [])"
    by simp
  have "expand_braces [] = Some (Inr [[]])" by (rule expand_no_brace) simp
  moreover have "brace_numbers a max_int64 = None" if "a \<le> max_int64"
    using brace_numbers_returns [of a max_int64] that by (cases "brace_numbers a max_int64") auto
  ultimately show ?thesis
    by (subst expand_braces.simps)
      (simp only: f option.case prod.case, simp add: assms(1) largest_digits(2) Let_def)
qed

theorem pattern_expansion_returns_witness:
  "\<exists>pre lo hi rest. ''{'' @ largest @ ''..'' @ largest @ ''}'' = pre @ ''{'' @ lo @ ''..'' @ hi @ ''}'' @ rest \<and>
     atoi hi = Some max_int64"
proof (rule pattern_expansion_returns)
  have "wrap64 (wrap64 1) = 1" by (simp add: wrap64_def)
  then show "expand_host_pattern (''{'' @ largest @ ''..'' @ largest @ ''}'') = None"
    using expand_largest [OF largest_digits(2,1,3)] wrap64_id [of 1]
    by (simp add: expand_host_pattern_def max_int64_def max_pattern_expansion_def)
qed


end
