(* ===== verification/Netbox_Import.thy ===== *)
theory Netbox_Import
  imports Host_Patterns
begin

text \<open>
  NetBox IP address exports as host lists (internal/hostsfile/netbox.go): the CSV reader of the
  standard library as the code sets it up (comma, strict quotes, any number of fields), the header
  row, the rows, and the display names, which are made unique. The texts of the errors are
  constructors with the line they name.
\<close>

section \<open>The CSV reader\<close>

definition dquote :: char where "dquote = CHR 0x22"
definition newline :: char where "newline = CHR 0x0A"
definition cret :: char where "cret = CHR 0x0D"

text \<open>
  One line with its line feed; \<open>\r\n\<close> becomes \<open>\n\<close>, and a carriage return before the end of the
  input is dropped. None at the end of the input.
\<close>

definition drop_cr :: "string \<Rightarrow> string" where
  "drop_cr l = (if l \<noteq> [] \<and> last l = cret then butlast l else l)"

definition read_line :: "string \<Rightarrow> (string \<times> string) option" where
  "read_line data =
     (if data = [] then None
      else let l = takeWhile (\<lambda>c. c \<noteq> newline) data; r = dropWhile (\<lambda>c. c \<noteq> newline) data
           in Some (if r = [] then (drop_cr l, []) else (drop_cr l @ [newline], tl r)))"

definition strip_nl :: "string \<Rightarrow> string" where
  "strip_nl l = (if l \<noteq> [] \<and> last l = newline then butlast l else l)"

datatype csv_error = BareQuote nat | BadQuote nat

text \<open>
  The fields of one record: inside quotes or at the start of a field, the text of the field so
  far, what is left of the line, the input behind it, the number of the line and the fields read.
  A quoted field may go over several lines.
\<close>

lemma drop_cr_length: "length (drop_cr l) \<le> length l"
  by (simp add: drop_cr_def)

lemma takeWhile_part: "length (takeWhile P xs) < length xs \<Longrightarrow> Suc (length (drop (Suc (length (takeWhile P xs))) xs)) \<le> length xs"
  by simp

lemma read_line_length: "read_line data = Some (l, r) \<Longrightarrow> length l + length r \<le> length data \<and> length r < length data"
proof -
  assume r: "read_line data = Some (l, r)"
  let ?a = "takeWhile (\<lambda>c. c \<noteq> newline) data" and ?b = "dropWhile (\<lambda>c. c \<noteq> newline) data"
  have "length ?a + length ?b = length data"
    by (metis length_append takeWhile_dropWhile_id)
  with r drop_cr_length [of ?a] show ?thesis
    by (cases ?b) (auto simp: read_line_def Let_def split: if_splits)
qed

function csv_fields ::
  "bool \<Rightarrow> string \<Rightarrow> string \<Rightarrow> string \<Rightarrow> nat \<Rightarrow> string list \<Rightarrow> (csv_error + string list) \<times> string \<times> nat" where
  "csv_fields quoted acc line rest num fs =
     (if \<not> quoted then
        (if line \<noteq> [] \<and> hd line = dquote then csv_fields True [] (tl line) rest num fs
         else
           let field = takeWhile (\<lambda>c. c \<noteq> CHR '','') line;
               more = length field < length line;
               fld = (if more then field else strip_nl line)
           in if dquote \<in> set fld then (Inl (BareQuote num), rest, num)
              else if more then csv_fields False [] (drop (length field + 1) line) rest num (fs @ [fld])
              else (Inr (fs @ [fld]), rest, num))
      else
        let s = takeWhile (\<lambda>c. c \<noteq> dquote) line in
        if length s < length line then
          let l = drop (length s + 1) line in
          if l \<noteq> [] \<and> hd l = dquote then csv_fields True (acc @ s @ [dquote]) (tl l) rest num fs
          else if l \<noteq> [] \<and> hd l = CHR '','' then csv_fields False [] (tl l) rest num (fs @ [acc @ s])
          else if l = [] \<or> l = [newline] then (Inr (fs @ [acc @ s]), rest, num)
          else (Inl (BadQuote num), rest, num)
        else if line \<noteq> [] then
          (case read_line rest of
             None \<Rightarrow> csv_fields True (acc @ line) [] [] num fs
           | Some (l, r) \<Rightarrow> csv_fields True (acc @ line) l r (if l = [] then num else num + 1) fs)
        else (Inl (BadQuote num), rest, num))"
  by pat_completeness auto
termination
  by (relation "measure (\<lambda>(q, acc, line, rest, num, fs). length line + length rest)")
    (auto simp: neq_Nil_conv dest: read_line_length)

declare csv_fields.simps [simp del]

text \<open>\<open>r.Read()\<close>: empty lines are skipped. The number of the line the record starts on comes first.\<close>

function csv_read ::
  "string \<Rightarrow> nat \<Rightarrow> (nat \<times> (csv_error + string list) \<times> string \<times> nat) option" where
  "csv_read data num =
     (case read_line data of
        None \<Rightarrow> None
      | Some (l, rest) \<Rightarrow>
          if l = [] \<or> l = [newline] then csv_read rest (num + 1)
          else Some (num + 1, csv_fields False [] l rest (num + 1) []))"
  by pat_completeness auto
termination
  by (relation "measure (\<lambda>(d, n). length d)") (auto dest: read_line_length)

declare csv_read.simps [simp del]


section \<open>Header and rows\<close>

text \<open>\<open>trimLeadingCommentsAndBlanks\<close>: the rest of the input and the number of lines skipped.\<close>

definition utf8_bom :: string where "utf8_bom = [CHR 0xEF, CHR 0xBB, CHR 0xBF]"

function skip_comments :: "string \<Rightarrow> nat \<Rightarrow> string \<times> nat" where
  "skip_comments data skipped =
     (if data = [] then (data, skipped)
      else
        let line = takeWhile (\<lambda>c. c \<noteq> newline) data; rest = dropWhile (\<lambda>c. c \<noteq> newline) data;
            trimmed = trim_space line
        in if trimmed = [] \<or> hd trimmed = CHR ''#'' then
             (if rest = [] then ([], skipped) else skip_comments (tl rest) (skipped + 1))
           else (data, skipped))"
  by pat_completeness auto
termination
proof (relation "measure (\<lambda>(d, n). length d)", goal_cases)
  case (2 data skipped line rest trimmed)
  have "length (dropWhile (\<lambda>c. c \<noteq> newline) data) \<le> length data" by (rule length_dropWhile_le)
  with 2 show ?case by (auto simp: neq_Nil_conv)
qed simp

declare skip_comments.simps [simp del]

definition trim_leading_comments_and_blanks :: "string \<Rightarrow> string \<times> nat" where
  "trim_leading_comments_and_blanks data =
     skip_comments (if is_prefix_of utf8_bom data then drop 3 data else data) 0"

text \<open>The columns of \<open>netBoxColumns\<close>; None for -1.\<close>

record netbox_columns =
  nc_ip :: "nat option"
  nc_status :: "nat option"
  nc_dns :: "nat option"
  nc_iface :: "nat option"
  nc_parents :: "nat list"

definition no_columns :: netbox_columns where
  "no_columns = \<lparr> nc_ip = None, nc_status = None, nc_dns = None, nc_iface = None, nc_parents = [] \<rparr>"

definition first_col :: "nat option \<Rightarrow> nat \<Rightarrow> nat option" where
  "first_col c i = (case c of None \<Rightarrow> Some i | Some j \<Rightarrow> Some j)"

text \<open>One header cell: the columns, the fallback parents and whether a NetBox column was seen.\<close>

definition header_cell ::
  "netbox_columns \<times> nat list \<times> bool \<Rightarrow> nat \<times> string \<Rightarrow> netbox_columns \<times> nat list \<times> bool" where
  "header_cell st cell =
     (case st of (cols, fallback, marker) \<Rightarrow> case cell of (i, raw) \<Rightarrow>
      let name = to_lower (trim_space raw) in
      if name = ''ip address'' then (cols \<lparr> nc_ip := first_col (nc_ip cols) i \<rparr>, fallback, True)
      else if name = ''address'' then (cols \<lparr> nc_ip := first_col (nc_ip cols) i \<rparr>, fallback, marker)
      else if name = ''status'' then (cols \<lparr> nc_status := first_col (nc_status cols) i \<rparr>, fallback, True)
      else if name = ''dns name'' \<or> name = ''dns_name'' then
        (cols \<lparr> nc_dns := first_col (nc_dns cols) i \<rparr>, fallback, True)
      else if name = ''interface'' then (cols \<lparr> nc_iface := first_col (nc_iface cols) i \<rparr>, fallback, True)
      else if name = ''parent'' then (cols \<lparr> nc_parents := nc_parents cols @ [i] \<rparr>, fallback, True)
      else if name = ''device'' \<or> name = ''virtual machine'' \<or> name = ''virtual_machine'' then
        (cols, fallback @ [i], True)
      else if name = ''vrf'' \<or> name = ''tenant'' \<or> name = ''role'' then (cols, fallback, True)
      else (cols, fallback, marker))"

definition parse_netbox_header :: "string list \<Rightarrow> netbox_columns \<times> bool" where
  "parse_netbox_header header =
     (case foldl header_cell (no_columns, [], False) (zip [0..<length header] header) of
        (cols, fallback, marker) \<Rightarrow>
          (cols \<lparr> nc_parents := nc_parents cols @ fallback \<rparr>, nc_ip cols \<noteq> None \<and> marker))"

definition is_netbox_csv_data :: "string \<Rightarrow> bool" where
  "is_netbox_csv_data data =
     (let trimmed = fst (trim_leading_comments_and_blanks data) in
      trimmed \<noteq> [] \<and>
      (case csv_read (takeWhile (\<lambda>c. c \<noteq> newline) trimmed) 0 of
         Some (_, Inr header, _) \<Rightarrow> snd (parse_netbox_header header)
       | _ \<Rightarrow> False))"

definition csv_col :: "string list \<Rightarrow> nat option \<Rightarrow> string" where
  "csv_col rec c = (case c of None \<Rightarrow> [] | Some i \<Rightarrow> if i \<ge> length rec then [] else trim_space (rec ! i))"

definition parse_netbox_ip :: "string \<Rightarrow> string option" where
  "parse_netbox_ip s =
     (if CHR ''/'' \<in> set s then map_option (\<lambda>(a, b). addr_str a) (parse_prefix s)
      else map_option addr_str (parse_addr s))"

datatype netbox_error =
    CsvFailed nat csv_error
  | CsvEnded
  | NotNetBox
  | EmptyAddress nat
  | InvalidAddress nat
  | TooManyRows

definition csv_failed :: "nat \<Rightarrow> csv_error \<Rightarrow> netbox_error" where
  "csv_failed offset e =
     CsvFailed (offset + (case e of BareQuote n \<Rightarrow> n | BadQuote n \<Rightarrow> n)) e"

text \<open>One record after the header: an error, nothing (not active), or a row.\<close>

definition netbox_record ::
  "netbox_columns \<Rightarrow> nat \<Rightarrow> nat \<Rightarrow> string list \<Rightarrow> netbox_error + netbox_row option" where
  "netbox_record cols line_no count rec =
     (let status = csv_col rec (nc_status cols);
          raw = csv_col rec (nc_ip cols)
      in if nc_status cols \<noteq> None \<and> status \<noteq> [] \<and> map lower_char status \<noteq> ''active'' then Inr None
         else if raw = [] then Inl (EmptyAddress line_no)
         else case parse_netbox_ip raw of
           None \<Rightarrow> Inl (InvalidAddress line_no)
         | Some host \<Rightarrow>
             if count + 1 > max_hosts_file_targets then Inl TooManyRows
             else
               let dns = csv_col rec (nc_dns cols);
                   parent = (case find (\<lambda>i. csv_col rec (Some i) \<noteq> []) (nc_parents cols) of
                               None \<Rightarrow> [] | Some i \<Rightarrow> csv_col rec (Some i))
               in Inr (Some \<lparr> nb_host = host, nb_base_name = (if dns = [] then parent else dns),
                              nb_iface = csv_col rec (nc_iface cols) \<rparr>))"

text \<open>The loop over the records.\<close>

lemma csv_fields_rest: "csv_fields q acc line rest num fs = (res, rest', num') \<Longrightarrow> length rest' \<le> length rest"
proof (induction "length line + length rest" arbitrary: q acc line rest num fs rule: less_induct)
  case less
  note IH = less.hyps
  let ?f = "takeWhile (\<lambda>c. c \<noteq> CHR '','') line" and ?s = "takeWhile (\<lambda>c. c \<noteq> dquote) line"
  show ?case
  proof (cases q)
    case False
    consider (quote) "line \<noteq> []" "hd line = dquote" | (plain) "\<not> (line \<noteq> [] \<and> hd line = dquote)" by blast
    then show ?thesis
    proof cases
      case quote
      with False less.prems have "csv_fields True [] (tl line) rest num fs = (res, rest', num')"
        by (subst (asm) csv_fields.simps) simp
      then show ?thesis by (rule IH [rotated]) (simp add: quote)
    next
      case plain
      show ?thesis
      proof (cases "length ?f < length line \<and> dquote \<notin> set ?f")
        case True
        with False plain less.prems have
          "csv_fields False [] (drop (length ?f + 1) line) rest num (fs @ [?f]) = (res, rest', num')"
          by (subst (asm) csv_fields.simps) (auto simp: Let_def)
        then show ?thesis by (rule IH [rotated]) (use True in \<open>simp, linarith\<close>)
      next
        case no: False
        with False plain less.prems show ?thesis
          by (subst (asm) csv_fields.simps) (auto simp: Let_def split: if_splits)
      qed
    qed
  next
    case True
    show ?thesis
    proof (cases "length ?s < length line")
      case part: True
      have IH': "length rest' \<le> length rest"
        if e: "csv_fields q' acc' (tl (drop (Suc (length ?s)) line)) rest num fs' = (res, rest', num')" for q' acc' fs'
        using e by (rule IH [rotated]) (use part in simp)
      with True part less.prems show ?thesis
        by (subst (asm) csv_fields.simps) (auto simp: Let_def split: if_splits)
    next
      case all: False
      show ?thesis
      proof (cases "line = []")
        case False
        with True all less.prems have step:
          "(case read_line rest of None \<Rightarrow> csv_fields True (acc @ line) [] [] num fs
            | Some (l, r) \<Rightarrow> csv_fields True (acc @ line) l r (if l = [] then num else num + 1) fs) = (res, rest', num')"
          by (subst (asm) csv_fields.simps) (simp add: Let_def)
        show ?thesis
        proof (cases "read_line rest")
          case None
          with step have "csv_fields True (acc @ line) [] [] num fs = (res, rest', num')" by simp
          then have "length rest' \<le> length ([] :: string)" by (rule IH [rotated]) (use False in simp)
          then show ?thesis by simp
        next
          case (Some lr)
          obtain l r where lr: "lr = (l, r)" by (cases lr)
          note len = read_line_length [OF Some [unfolded lr]]
          have "csv_fields True (acc @ line) l r (if l = [] then num else num + 1) fs = (res, rest', num')"
            using step Some lr by simp
          then have "length rest' \<le> length r" by (rule IH [rotated]) (use len False in \<open>auto simp: neq_Nil_conv\<close>)
          with len show ?thesis by simp
        qed
      next
        case empty: True
        with True less.prems show ?thesis by (subst (asm) csv_fields.simps) simp
      qed
    qed
  qed
qed

lemma csv_read_shorter: "csv_read data num = Some (n, res, rest, num') \<Longrightarrow> length rest < length data"
proof (induction data num rule: csv_read.induct)
  case (1 data num)
  from "1.prems" show ?case
  proof (cases "read_line data")
    case (Some lr)
    obtain l r where lr: "lr = (l, r)" by (cases lr)
    note len = read_line_length [OF Some [unfolded lr]]
    show ?thesis
    proof (cases "l = [] \<or> l = [newline]")
      case True
      with "1.prems" Some lr have "csv_read r (num + 1) = Some (n, res, rest, num')"
        by (subst (asm) csv_read.simps) auto
      from "1.IH" [OF Some lr [symmetric] True this] len show ?thesis by simp
    next
      case False
      with "1.prems" Some lr have "csv_fields False [] l r (num + 1) [] = (res, rest, num')"
        by (subst (asm) csv_read.simps) auto
      from csv_fields_rest [OF this] len show ?thesis by simp
    qed
  qed (subst (asm) csv_read.simps, simp)
qed

function netbox_rows ::
  "netbox_columns \<Rightarrow> nat \<Rightarrow> string \<Rightarrow> nat \<Rightarrow> netbox_row list \<Rightarrow> netbox_error + netbox_row list" where
  "netbox_rows cols offset data num rows =
     (case csv_read data num of
        None \<Rightarrow> Inr rows
      | Some (rec_line, res, rest, num') \<Rightarrow>
          (case res of
             Inl e \<Rightarrow> Inl (csv_failed offset e)
           | Inr rec \<Rightarrow>
               (case netbox_record cols (offset + rec_line) (length rows) rec of
                  Inl e \<Rightarrow> Inl e
                | Inr None \<Rightarrow> netbox_rows cols offset rest num' rows
                | Inr (Some row) \<Rightarrow> netbox_rows cols offset rest num' (rows @ [row]))))"
  by pat_completeness auto
termination
  by (relation "measure (\<lambda>(cols, offset, data, num, rows). length data)") (auto dest: csv_read_shorter)

declare netbox_rows.simps [simp del]


section \<open>Display names\<close>

text \<open>
  \<open>collidesWithIdentity\<close>: another row or a reserved entry is reached under that name. The counts
  of the maps are counts in the lists they were filled from.
\<close>

definition collides :: "netbox_row list \<Rightarrow> host_entry list \<Rightarrow> string \<Rightarrow> string \<Rightarrow> bool" where
  "collides rows reserved name own =
     (let n0 = int (count_list (map en_host reserved @ map nb_host rows) name);
          n = (if name = own then n0 - 1 else n0)
      in n > 0 \<or> name \<noteq> [] \<and> name \<in> set (map en_name reserved))"

definition paren :: "string \<Rightarrow> string \<Rightarrow> string" where
  "paren base what = base @ '' ('' @ what @ '')''"

text \<open>The first choice of a name, and the second one when the first is taken.\<close>

definition candidate :: "netbox_row list \<Rightarrow> host_entry list \<Rightarrow> netbox_row \<Rightarrow> string" where
  "candidate rows reserved r =
     (if nb_base_name r = [] then []
      else if count_list (map nb_base_name rows) (nb_base_name r) = 1 \<and>
              \<not> collides rows reserved (nb_base_name r) (nb_host r) then nb_base_name r
      else if nb_iface r \<noteq> [] then paren (nb_base_name r) (nb_iface r)
      else paren (nb_base_name r) (nb_host r))"

definition second_choice :: "netbox_row list \<Rightarrow> host_entry list \<Rightarrow> netbox_row \<Rightarrow> string" where
  "second_choice rows reserved r =
     (let name = candidate rows reserved r in
      if name \<noteq> [] \<and> (count_list (map (candidate rows reserved) rows) name > 1 \<or>
                        collides rows reserved name (nb_host r))
      then (if nb_iface r \<noteq> [] then paren (nb_base_name r) (nb_iface r @ '' '' @ nb_host r)
            else paren (nb_base_name r) (nb_host r))
      else name)"

text \<open>\<open>for k := max(2, seen[name]); ; k++\<close>.\<close>

definition numbered :: "string \<Rightarrow> nat \<Rightarrow> string" where
  "numbered base k = base @ '' #'' @ nat_str k"

partial_function (option) free_number ::
  "(string \<Rightarrow> nat) \<Rightarrow> (string \<Rightarrow> bool) \<Rightarrow> string \<Rightarrow> nat \<Rightarrow> string option" where
  "free_number seen taken base k =
     (if seen (numbered base k) = 0 \<and> \<not> taken (numbered base k) then Some (numbered base k)
      else free_number seen taken base (k + 1))"

declare free_number.simps [code]

text \<open>The name of one row, and what has been seen after it.\<close>

definition settle_name ::
  "netbox_row list \<Rightarrow> host_entry list \<Rightarrow> (string \<Rightarrow> nat) \<Rightarrow> netbox_row \<Rightarrow> (string \<times> (string \<Rightarrow> nat)) option" where
  "settle_name rows reserved seen r =
     (let name = second_choice rows reserved r in
      if name = [] then Some (name, seen)
      else
        let seen1 = seen(name := seen name + 1) in
        if seen1 name > 1 \<or> collides rows reserved name (nb_host r) then
          do { t \<leftarrow> free_number seen1 (\<lambda>n. collides rows reserved n (nb_host r)) name (max 2 (seen1 name));
               Some (t, seen1(t := 1)) }
        else Some (name, seen1))"

fun settle_names ::
  "netbox_row list \<Rightarrow> host_entry list \<Rightarrow> (string \<Rightarrow> nat) \<Rightarrow> netbox_row list \<Rightarrow> string list option" where
  "settle_names rows reserved seen [] = Some []"
| "settle_names rows reserved seen (r # rs) =
     do { (name, seen') \<leftarrow> settle_name rows reserved seen r;
          names \<leftarrow> settle_names rows reserved seen' rs;
          Some (name # names) }"

definition resolve_netbox_names :: "netbox_row list \<Rightarrow> host_entry list \<Rightarrow> host_entry list option" where
  "resolve_netbox_names rows reserved =
     do { names \<leftarrow> settle_names rows reserved (\<lambda>_. 0) rows;
          Some (map2 (\<lambda>r n. \<lparr> en_host = nb_host r, en_name = n, en_netbox = None \<rparr>) rows names) }"

text \<open>\<open>parseNetBoxCSV\<close>.\<close>

definition parse_netbox_csv :: "string \<Rightarrow> (netbox_error + host_entry list) option" where
  "parse_netbox_csv data =
     (case trim_leading_comments_and_blanks data of (trimmed, offset) \<Rightarrow>
      if trimmed = [] then Some (Inr [])
      else case csv_read trimmed 0 of
        None \<Rightarrow> Some (Inl CsvEnded)
      | Some (_, Inl e, _) \<Rightarrow> Some (Inl (csv_failed offset e))
      | Some (_, Inr header, rest, num) \<Rightarrow>
          (case parse_netbox_header header of (cols, ok) \<Rightarrow>
           if \<not> ok then Some (Inl NotNetBox)
           else case netbox_rows cols offset rest num [] of
             Inl e \<Rightarrow> Some (Inl e)
           | Inr rows \<Rightarrow>
               do { out \<leftarrow> resolve_netbox_names rows [];
                    Some (Inr (map2 (\<lambda>e r. e \<lparr> en_netbox := Some r \<rparr>) out rows)) }))"

section \<open>Names are found\<close>

lemma numbered_inj: "numbered base j = numbered base k \<Longrightarrow> j = k"
  by (simp add: numbered_def nat_str_inj)

lemma free_number_ends:
  assumes "finite {n. seen n \<noteq> 0}" "finite {n. taken n}"
  shows "\<exists>t. free_number seen taken base k = Some t \<and> seen t = 0 \<and> \<not> taken t \<and> t \<noteq> []"
proof -
  have "inj (numbered base)" by (rule injI) (rule numbered_inj)
  then have "infinite (numbered base ` {k..})"
    by (simp add: finite_image_iff inj_on_subset infinite_Ici)
  then have "\<not> numbered base ` {k..} \<subseteq> {n. seen n \<noteq> 0} \<union> {n. taken n}"
    using assms finite_subset by blast
  then obtain m where m: "k \<le> m" "seen (numbered base m) = 0" "\<not> taken (numbered base m)" by auto
  then show ?thesis
  proof (induction "m - k" arbitrary: k)
    case 0
    then show ?case by (subst free_number.simps) (simp add: numbered_def)
  next
    case (Suc d)
    show ?case
    proof (cases "seen (numbered base k) = 0 \<and> \<not> taken (numbered base k)")
      case True
      then show ?thesis by (subst free_number.simps) (simp add: numbered_def)
    next
      case False
      with Suc.prems(2,3) have "k \<noteq> m" by auto
      with Suc have "\<exists>t. free_number seen taken base (k + 1) = Some t \<and> seen t = 0 \<and> \<not> taken t \<and> t \<noteq> []"
        by (intro Suc.hyps(1)) simp_all
      with False show ?thesis by (subst free_number.simps) (simp only: if_False)
    qed
  qed
qed

lemma finite_collides: "finite {n. collides rows reserved n own}"
proof (rule finite_subset)
  show "{n. collides rows reserved n own} \<subseteq>
      set (map en_host reserved @ map nb_host rows) \<union> set (map en_name reserved)"
    by (auto simp: collides_def Let_def count_list_0_iff split: if_splits
        intro!: count_notin [THEN eq_refl, THEN le_antisym] dest!: ccontr)
qed simp

text \<open>
  One row: the name is new among the names seen, does not collide, and is empty only without a
  base name.
\<close>

lemma candidate_empty: "second_choice rows reserved r = [] \<longleftrightarrow> nb_base_name r = []"
  by (auto simp: second_choice_def candidate_def paren_def Let_def)

lemma settle_name_spec:
  assumes "finite {n. seen n \<noteq> 0}"
  shows "\<exists>name seen'. settle_name rows reserved seen r = Some (name, seen') \<and>
    finite {n. seen' n \<noteq> 0} \<and> (\<forall>n. seen n \<noteq> 0 \<longrightarrow> seen' n \<noteq> 0) \<and>
    (name = [] \<longleftrightarrow> nb_base_name r = []) \<and>
    (name \<noteq> [] \<longrightarrow> seen name = 0 \<and> seen' name \<noteq> 0 \<and> \<not> collides rows reserved name (nb_host r))"
proof (cases "second_choice rows reserved r = []")
  case True
  with assms show ?thesis by (simp add: settle_name_def candidate_empty)
next
  case False
  define name where "name = second_choice rows reserved r"
  define seen1 where "seen1 = seen(name := seen name + 1)"
  have "{n. seen1 n \<noteq> 0} = insert name {n. seen n \<noteq> 0}" by (auto simp: seen1_def)
  with assms have fin: "finite {n. seen1 n \<noteq> 0}" by simp
  have base: "nb_base_name r \<noteq> []" using False candidate_empty by blast
  show ?thesis
  proof (cases "seen1 name > 1 \<or> collides rows reserved name (nb_host r)")
    case True
    obtain t where t: "free_number seen1 (\<lambda>n. collides rows reserved n (nb_host r)) name (max 2 (seen1 name)) = Some t"
      "seen1 t = 0" "\<not> collides rows reserved t (nb_host r)" "t \<noteq> []"
      using free_number_ends [OF fin finite_collides] by blast
    have "settle_name rows reserved seen r = Some (t, seen1(t := 1))"
      using True t(1) False unfolding settle_name_def name_def [symmetric] seen1_def [symmetric] Let_def
      by (simp add: name_def)
    moreover have "{n. (seen1(t := 1)) n \<noteq> 0} = insert t {n. seen1 n \<noteq> 0}" by auto
    ultimately show ?thesis using t base fin by (auto simp: seen1_def split: if_splits)
  next
    case no: False
    have "settle_name rows reserved seen r = Some (name, seen1)"
      using no False unfolding settle_name_def name_def [symmetric] seen1_def [symmetric] Let_def
      by (simp add: name_def)
    with no base False fin show ?thesis by (auto simp: seen1_def name_def)
  qed
qed


lemma settle_names_spec:
  assumes "finite {n. seen n \<noteq> 0}"
  shows "\<exists>names. settle_names rows reserved seen rs = Some names \<and> length names = length rs \<and>
    distinct (filter (\<lambda>n. n \<noteq> []) names) \<and>
    (\<forall>n\<in>set names. n \<noteq> [] \<longrightarrow> seen n = 0) \<and>
    (\<forall>i<length rs. (names ! i = [] \<longleftrightarrow> nb_base_name (rs ! i) = []) \<and>
      (names ! i \<noteq> [] \<longrightarrow> \<not> collides rows reserved (names ! i) (nb_host (rs ! i))))"
  using assms
proof (induction rs arbitrary: seen)
  case Nil
  then show ?case by simp
next
  case (Cons r rs)
  from settle_name_spec [OF Cons.prems, of rows reserved r] obtain name seen' where
    n: "settle_name rows reserved seen r = Some (name, seen')" "finite {n. seen' n \<noteq> 0}"
      "\<forall>n. seen n \<noteq> 0 \<longrightarrow> seen' n \<noteq> 0" "name = [] \<longleftrightarrow> nb_base_name r = []"
      "name \<noteq> [] \<longrightarrow> seen name = 0 \<and> seen' name \<noteq> 0 \<and> \<not> collides rows reserved name (nb_host r)"
    by blast
  from Cons.IH [OF n(2)] obtain names where
    i: "settle_names rows reserved seen' rs = Some names" "length names = length rs"
      "distinct (filter (\<lambda>n. n \<noteq> []) names)" "\<forall>n\<in>set names. n \<noteq> [] \<longrightarrow> seen' n = 0"
      "\<forall>i<length rs. (names ! i = [] \<longleftrightarrow> nb_base_name (rs ! i) = []) \<and>
        (names ! i \<noteq> [] \<longrightarrow> \<not> collides rows reserved (names ! i) (nb_host (rs ! i)))"
    by blast
  have "name \<noteq> [] \<longrightarrow> name \<notin> set names" using i(4) n(5) by auto
  moreover have "\<forall>m\<in>set (name # names). m \<noteq> [] \<longrightarrow> seen m = 0" using i(4) n(3,5) by (metis set_ConsD)
  moreover have "settle_names rows reserved seen (r # rs) = Some (name # names)" using n(1) i(1) by simp
  moreover have "\<forall>j<length (r # rs). ((name # names) ! j = [] \<longleftrightarrow> nb_base_name ((r # rs) ! j) = []) \<and>
      ((name # names) ! j \<noteq> [] \<longrightarrow> \<not> collides rows reserved ((name # names) ! j) (nb_host ((r # rs) ! j)))"
    using i(5) n(4,5) by (auto simp: nth_Cons split: nat.split)
  ultimately show ?case using i(2,3) by auto
qed

lemma resolve_names_hosts:
  "\<exists>out. resolve_netbox_names rows reserved = Some out \<and> map en_host out = map nb_host rows"
proof -
  obtain names where "settle_names rows reserved (\<lambda>_. 0) rows = Some names" "length names = length rows"
    using settle_names_spec [of "\<lambda>_. 0" rows reserved rows] by auto
  moreover from this(2) have "map en_host (map2 (\<lambda>r n. \<lparr> en_host = nb_host r, en_name = n, en_netbox = None \<rparr>)
      rows names) = map nb_host rows" by (simp add: list_eq_iff_nth_eq)
  ultimately show ?thesis by (auto simp: resolve_netbox_names_def)
qed

text \<open>What not colliding means for one row of the list.\<close>

lemma count_list_two: "i < length xs \<Longrightarrow> j < length xs \<Longrightarrow> i \<noteq> j \<Longrightarrow> xs ! i = x \<Longrightarrow> xs ! j = x \<Longrightarrow> 2 \<le> count_list xs x"
proof (induction xs arbitrary: i j)
  case (Cons a xs)
  have one: "k < length xs \<Longrightarrow> xs ! k = x \<Longrightarrow> 1 \<le> count_list xs x" for k
    by (metis One_nat_def Suc_leI count_list_0_iff gr0I nth_mem)
  show ?case
  proof (cases i)
    case 0
    with Cons.prems obtain k where "j = Suc k" by (cases j) auto
    with 0 Cons.prems one [of k] show ?thesis by auto
  next
    case (Suc i')
    show ?thesis
    proof (cases j)
      case 0
      with Suc Cons.prems one [of i'] show ?thesis by auto
    next
      case (Suc j')
      with \<open>i = Suc i'\<close> Cons.prems Cons.IH [of i' j'] show ?thesis by auto
    qed
  qed
qed simp

lemma not_collides:
  assumes "\<not> collides rows reserved name (nb_host (rows ! i))" "i < length rows"
  shows "\<forall>j<length rows. j \<noteq> i \<longrightarrow> nb_host (rows ! j) \<noteq> name" "name \<notin> set (map en_host reserved)"
    "name \<noteq> [] \<Longrightarrow> name \<notin> set (map en_name reserved)"
proof -
  let ?n = "count_list (map en_host reserved @ map nb_host rows) name"
  have own: "?n \<le> 1" if "name = nb_host (rows ! i)" using assms(1) that by (simp add: collides_def)
  have other: "?n = 0" if "name \<noteq> nb_host (rows ! i)" using assms(1) that by (simp add: collides_def)
  show "\<forall>j<length rows. j \<noteq> i \<longrightarrow> nb_host (rows ! j) \<noteq> name"
  proof (intro allI impI notI)
    fix j assume j: "j < length rows" "j \<noteq> i" "nb_host (rows ! j) = name"
    show False
    proof (cases "name = nb_host (rows ! i)")
      case True
      with j assms(2) have "2 \<le> count_list (map nb_host rows) name"
        by (intro count_list_two [of i _ j]) simp_all
      with own [OF True] show False by (simp add: count_list_append)
    next
      case False
      with other have "name \<notin> set (map nb_host rows)" by (simp add: count_list_append count_list_0_iff)
      with j show False by auto
    qed
  qed
  show "name \<notin> set (map en_host reserved)"
  proof
    assume r: "name \<in> set (map en_host reserved)"
    then have "1 \<le> count_list (map en_host reserved) name"
      by (metis One_nat_def Suc_leI count_list_0_iff gr0I)
    moreover have "1 \<le> count_list (map nb_host rows) name" if "name = nb_host (rows ! i)"
      using assms(2) that by (metis One_nat_def Suc_leI count_list_0_iff gr0I length_map nth_map nth_mem)
    ultimately show False using own other by (cases "name = nb_host (rows ! i)") (auto simp: count_list_append)
  qed
  show "name \<notin> set (map en_name reserved)" if "name \<noteq> []"
    using assms(1) that by (simp add: collides_def Let_def)
qed

section \<open>Properties\<close>

text \<open>C21: NetBox names identify their targets: naming the rows of an export always ends, keeps their
  hosts and their order, names exactly the rows that have a DNS name or a parent, never gives two
  rows the same name, and never gives a row a name that is the host of another row or the host or
  the name of an entry of the user.\<close>

theorem netbox_names_unique:
  "\<exists>out. resolve_netbox_names rows reserved = Some out \<and> map en_host out = map nb_host rows \<and>
     map (\<lambda>e. en_name e = []) out = map (\<lambda>r. nb_base_name r = []) rows \<and>
     distinct (filter (\<lambda>n. n \<noteq> []) (map en_name out)) \<and>
     (\<forall>i<length rows. en_name (out ! i) \<noteq> [] \<longrightarrow>
        (\<forall>j<length rows. j \<noteq> i \<longrightarrow> nb_host (rows ! j) \<noteq> en_name (out ! i)) \<and>
        en_name (out ! i) \<notin> set (map en_host reserved) \<union> set (map en_name reserved))"
proof -
  obtain names where n: "settle_names rows reserved (\<lambda>_. 0) rows = Some names" "length names = length rows"
    "distinct (filter (\<lambda>n. n \<noteq> []) names)"
    "\<forall>i<length rows. (names ! i = [] \<longleftrightarrow> nb_base_name (rows ! i) = []) \<and>
      (names ! i \<noteq> [] \<longrightarrow> \<not> collides rows reserved (names ! i) (nb_host (rows ! i)))"
    using settle_names_spec [of "\<lambda>_. 0" rows reserved rows] by auto
  let ?out = "map2 (\<lambda>r n. \<lparr> en_host = nb_host r, en_name = n, en_netbox = None \<rparr>) rows names"
  have out: "resolve_netbox_names rows reserved = Some ?out" using n(1) by (simp add: resolve_netbox_names_def)
  have nms: "map en_name ?out = names" using n(2) by (simp add: list_eq_iff_nth_eq)
  have hosts: "map en_host ?out = map nb_host rows" using n(2) by (simp add: list_eq_iff_nth_eq)
  have i: "en_name (?out ! i) = names ! i" if "i < length rows" for i using that n(2) by simp
  have "map (\<lambda>e. en_name e = []) ?out = map (\<lambda>n. n = []) (map en_name ?out)" by (simp only: map_map o_def)
  also have "\<dots> = map (\<lambda>r. nb_base_name r = []) rows"
    unfolding nms by (rule nth_equalityI) (use n(2,4) in simp_all)
  finally have "map (\<lambda>e. en_name e = []) ?out = map (\<lambda>r. nb_base_name r = []) rows" .
  moreover have "\<forall>i<length rows. en_name (?out ! i) \<noteq> [] \<longrightarrow>
        (\<forall>j<length rows. j \<noteq> i \<longrightarrow> nb_host (rows ! j) \<noteq> en_name (?out ! i)) \<and>
        en_name (?out ! i) \<notin> set (map en_host reserved) \<union> set (map en_name reserved)"
  proof (intro allI impI)
    fix i assume "i < length rows" "en_name (?out ! i) \<noteq> []"
    with n(4) not_collides [of rows reserved "names ! i" i] i [of i] show
      "(\<forall>j<length rows. j \<noteq> i \<longrightarrow> nb_host (rows ! j) \<noteq> en_name (?out ! i)) \<and>
        en_name (?out ! i) \<notin> set (map en_host reserved) \<union> set (map en_name reserved)"
      by simp
  qed
  ultimately show ?thesis using out hosts nms n(3) by metis
qed


theorem netbox_names_unique_witness:
  "\<exists>out. resolve_netbox_names
      [\<lparr> nb_host = ''10.0.0.1'', nb_base_name = ''sw'', nb_iface = [] \<rparr>,
       \<lparr> nb_host = ''10.0.0.2'', nb_base_name = ''sw'', nb_iface = [] \<rparr>] [] = Some out \<and>
     map en_host out = [''10.0.0.1'', ''10.0.0.2''] \<and> distinct (map en_name out)"
  using netbox_names_unique [of "[\<lparr> nb_host = ''10.0.0.1'', nb_base_name = ''sw'', nb_iface = [] \<rparr>,
       \<lparr> nb_host = ''10.0.0.2'', nb_base_name = ''sw'', nb_iface = [] \<rparr>]" "[]"]
  by (auto simp: map_eq_Cons_conv)

lemma parse_netbox_ip_addr: "parse_netbox_ip s = Some h \<Longrightarrow> \<exists>a. h = addr_str a"
  by (auto simp: parse_netbox_ip_def split: if_splits)

lemma netbox_rows_spec:
  "netbox_rows cols offset data num rows = Inr out \<Longrightarrow> length rows \<le> 4096 \<Longrightarrow>
   (\<And>r. r \<in> set rows \<Longrightarrow> \<exists>a. nb_host r = addr_str a) \<Longrightarrow>
   length out \<le> 4096 \<and> (\<forall>r\<in>set out. \<exists>a. nb_host r = addr_str a)"
proof (induction cols offset data num rows rule: netbox_rows.induct)
  case (1 cols offset data num rows)
  show ?case
  proof (cases "csv_read data num")
    case None
    with "1.prems" show ?thesis by (subst (asm) netbox_rows.simps) auto
  next
    case (Some res)
    obtain rec_line r rest num' where res: "res = (rec_line, r, rest, num')" by (metis prod_cases4)
    from "1.prems"(1) Some res obtain rec where r: "r = Inr rec"
      by (subst (asm) netbox_rows.simps) (auto split: sum.splits)
    from "1.prems"(1) Some res r obtain x where x: "netbox_record cols (offset + rec_line) (length rows) rec = Inr x"
      by (subst (asm) netbox_rows.simps) (auto split: sum.splits)
    note IH = "1.IH" [OF Some res [symmetric] refl refl r]
    show ?thesis
    proof (cases x)
      case None
      with "1.prems"(1) Some res r x have "netbox_rows cols offset rest num' rows = Inr out"
        by (subst (asm) netbox_rows.simps) simp
      from IH(1) [OF x None this "1.prems"(2,3)] show ?thesis .
    next
      case (Some a)
      with "1.prems"(1) \<open>csv_read data num = Some res\<close> res r x
      have rows: "netbox_rows cols offset rest num' (rows @ [a]) = Inr out"
        by (subst (asm) netbox_rows.simps) simp
      from x Some obtain raw where a: "parse_netbox_ip raw = Some (nb_host a)" "length rows + 1 \<le> 4096"
        by (auto simp: netbox_record_def Let_def max_hosts_file_targets_def split: if_splits option.splits)
      have "\<exists>b. nb_host q = addr_str b" if "q \<in> set (rows @ [a])" for q
        using that "1.prems"(3) parse_netbox_ip_addr [OF a(1)] by auto
      from IH(2) [OF x Some rows _ this] a(2) show ?thesis by simp
    qed
  qed
qed

text \<open>Importing an export always ends, with an error or with entries: at most 4096 of them, each
  with the canonical text of an IP address as its host, so what a file holds elsewhere never
  becomes a target.\<close>

theorem netbox_import_total:
  "\<exists>res. parse_netbox_csv data = Some res \<and>
     (\<forall>out. res = Inr out \<longrightarrow> length out \<le> 4096 \<and> (\<forall>e\<in>set out. \<exists>a. en_host e = addr_str a))"
proof (cases "\<exists>cols offset rest num rows. netbox_rows cols offset rest num [] = Inr rows \<and>
    parse_netbox_csv data = do { out \<leftarrow> resolve_netbox_names rows [];
      Some (Inr (map2 (\<lambda>e r. e \<lparr> en_netbox := Some r \<rparr>) out rows)) }")
  case True
  then obtain cols offset rest num rows where r: "netbox_rows cols offset rest num [] = Inr rows"
    "parse_netbox_csv data = do { out \<leftarrow> resolve_netbox_names rows [];
      Some (Inr (map2 (\<lambda>e r. e \<lparr> en_netbox := Some r \<rparr>) out rows)) }" by blast
  from resolve_names_hosts [of rows "[]"] obtain out where
    out: "resolve_netbox_names rows [] = Some out" "map en_host out = map nb_host rows" by blast
  let ?res = "map2 (\<lambda>e r. e \<lparr> en_netbox := Some r \<rparr>) out rows"
  have len: "length out = length rows" using out(2) by (metis length_map)
  then have "map en_host ?res = map nb_host rows" using out(2) by (simp add: list_eq_iff_nth_eq)
  then have "en_host ` set ?res = nb_host ` set rows" by (metis list.set_map)
  moreover have "length rows \<le> 4096 \<and> (\<forall>r\<in>set rows. \<exists>a. nb_host r = addr_str a)"
    by (rule netbox_rows_spec [OF r(1)]) simp_all
  ultimately have "length ?res \<le> 4096 \<and> (\<forall>e\<in>set ?res. \<exists>a. en_host e = addr_str a)"
    using len by (simp del: set_map) (metis (no_types, lifting) imageE imageI)
  then show ?thesis using r(2) out(1) by auto
next
  case False
  then have "\<exists>e. parse_netbox_csv data = Some (Inl e) \<or> parse_netbox_csv data = Some (Inr [])"
    by (auto simp: parse_netbox_csv_def split: option.splits sum.splits prod.splits if_splits) blast
  then show ?thesis by auto
qed

theorem netbox_import_total_witness:
  "\<exists>res. parse_netbox_csv ''# nothing'' = Some res"
  using netbox_import_total [of "''# nothing''"] by blast

end
