(* ===== verification/Hosts_Document.thy ===== *)
theory Hosts_Document
  imports Netbox_Import
begin

text \<open>
  The hosts file as a document (internal/hostsfile/document.go and include.go): decoding of the
  parts with decoders of their own, removed settings, include files, the expansion into concrete
  hosts, and the paths the reload watcher watches.

  The YAML library, which turns a file into nodes and nodes into the plain fields, is an argument,
  and so are the file system and the home directory; paths are those of Unix. The settings of a
  document are carried along without being looked at.
\<close>

section \<open>YAML nodes\<close>

datatype yaml_kind = ScalarNode | SequenceNode | MappingNode | OtherNode

datatype yaml_node = YNode (yn_kind: yaml_kind) (yn_value: string) (yn_line: int) (yn_content: "yaml_node list")

text \<open>\<open>for i := 0; i+1 < len(c); i += 2\<close>: the keys of a mapping with their values.\<close>

fun key_pairs :: "'a list \<Rightarrow> ('a \<times> 'a) list" where
  "key_pairs (k # v # rest) = (k, v) # key_pairs rest"
| "key_pairs _ = []"

datatype decode_error =
    EntryKind yaml_kind
  | EntryField string
  | EntryHostMissing
  | IncludeEmpty int
  | IncludeItem int
  | IncludeKind int
  | RemovedKey int string

text \<open>\<open>Entry.UnmarshalYAML\<close> into a zero entry.\<close>

definition empty_entry :: host_entry where
  "empty_entry = \<lparr> en_host = [], en_name = [], en_netbox = None \<rparr>"

fun entry_fields :: "(yaml_node \<times> yaml_node) list \<Rightarrow> host_entry \<Rightarrow> decode_error + host_entry" where
  "entry_fields [] h = Inr h"
| "entry_fields ((k, v) # kvs) h =
     (if yn_value k = ''host'' then entry_fields kvs (h \<lparr> en_host := yn_value v \<rparr>)
      else if yn_value k = ''name'' then entry_fields kvs (h \<lparr> en_name := yn_value v \<rparr>)
      else Inl (EntryField (yn_value k)))"

definition unmarshal_entry :: "yaml_node \<Rightarrow> decode_error + host_entry" where
  "unmarshal_entry n =
     (if yn_kind n = ScalarNode then Inr (empty_entry \<lparr> en_host := yn_value n \<rparr>)
      else if yn_kind n \<noteq> MappingNode then Inl (EntryKind (yn_kind n))
      else case entry_fields (key_pairs (yn_content n)) empty_entry of
        Inl e \<Rightarrow> Inl e
      | Inr h \<Rightarrow> if en_host h = [] then Inl EntryHostMissing else Inr h)"

text \<open>\<open>IncludeList.UnmarshalYAML\<close>.\<close>

fun include_items :: "yaml_node list \<Rightarrow> decode_error + string list" where
  "include_items [] = Inr []"
| "include_items (i # is) =
     (if yn_kind i \<noteq> ScalarNode then Inl (IncludeItem (yn_line i))
      else if yn_value i = [] then Inl (IncludeEmpty (yn_line i))
      else case include_items is of Inl e \<Rightarrow> Inl e | Inr ps \<Rightarrow> Inr (yn_value i # ps))"

definition unmarshal_include :: "yaml_node \<Rightarrow> decode_error + string list" where
  "unmarshal_include n =
     (case yn_kind n of
        ScalarNode \<Rightarrow> if yn_value n = [] then Inl (IncludeEmpty (yn_line n)) else Inr [yn_value n]
      | SequenceNode \<Rightarrow> include_items (yn_content n)
      | _ \<Rightarrow> Inl (IncludeKind (yn_line n)))"

text \<open>\<open>findRemovedKey\<close>: the first removed setting of a document, at any depth.\<close>

definition removed_settings :: "string list" where
  "removed_settings = [''dscp'', ''http-status'', ''http-header'', ''output'', ''json-output'', ''event-output'']"

fun find_removed_key :: "yaml_node \<Rightarrow> decode_error option"
  and find_removed_list :: "yaml_node list \<Rightarrow> decode_error option" where
  "find_removed_key (YNode kind v line content) =
     (case (if kind = MappingNode
            then find (\<lambda>k. yn_value k \<in> set removed_settings) (map fst (key_pairs content)) else None) of
        Some key \<Rightarrow> Some (RemovedKey (yn_line key) (yn_value key))
      | None \<Rightarrow> find_removed_list content)"
| "find_removed_list [] = None"
| "find_removed_list (n # ns) =
     (case find_removed_key n of Some e \<Rightarrow> Some e | None \<Rightarrow> find_removed_list ns)"

section \<open>Paths\<close>

text \<open>\<open>filepath.Clean\<close> on a path's elements: the stack of those kept, the last one first.\<close>

fun split_slash :: "string \<Rightarrow> string \<Rightarrow> string list" where
  "split_slash acc [] = [rev acc]"
| "split_slash acc (c # cs) =
     (if c = CHR ''/'' then rev acc # split_slash [] cs else split_slash (c # acc) cs)"

definition clean_step :: "bool \<Rightarrow> string list \<Rightarrow> string \<Rightarrow> string list" where
  "clean_step rooted stack e =
     (if e = [] \<or> e = ''.'' then stack
      else if e = ''..'' then
        (if stack \<noteq> [] \<and> hd stack \<noteq> ''..'' then tl stack
         else if rooted then stack else e # stack)
      else e # stack)"

definition clean_path :: "string \<Rightarrow> string" where
  "clean_path p =
     (let rooted = (p \<noteq> [] \<and> hd p = CHR ''/'');
          body = str_join ''/'' (rev (foldl (clean_step rooted) [] (split_slash [] p)))
      in if rooted then CHR ''/'' # body else if body = [] then ''.'' else body)"

definition join_path :: "string \<Rightarrow> string \<Rightarrow> string" where
  "join_path a b =
     (if a = [] \<and> b = [] then []
      else clean_path (str_join ''/'' (filter (\<lambda>e. e \<noteq> []) [a, b])))"

text \<open>\<open>resolveIncludePath\<close>; the home directory is None when it cannot be found.\<close>

definition resolve_include_path :: "string option \<Rightarrow> string \<Rightarrow> string \<Rightarrow> string" where
  "resolve_include_path home base_dir path =
     (case (if path = ''~'' \<or> is_prefix_of ''~/'' path then home else None) of
        Some h \<Rightarrow>
          if h \<noteq> [] then join_path h (tl path)
          else if is_prefix_of ''/'' path then clean_path path else join_path base_dir path
      | None \<Rightarrow> if is_prefix_of ''/'' path then clean_path path else join_path base_dir path)"

section \<open>Documents\<close>

record hosts_group =
  hg_name :: string
  hg_hosts :: "host_entry list"
  hg_include :: "string list"

record 's hosts_doc =
  hd_hosts :: "host_entry list"
  hd_include :: "string list"
  hd_groups :: "hosts_group list"
  hd_settings :: 's

datatype list_location = HostsList | GroupList string

datatype include_error = ReadFailed string | ImportFailed netbox_error

datatype doc_error =
    EntryFailed list_location nat string entry_error
  | IncludeFailed list_location include_error
  | TooManyTargets nat

text \<open>\<open>readIncludeFile\<close>: the file system says what a path holds, or why it cannot be read.\<close>

type_synonym file_reader = "string \<Rightarrow> string + string"

definition read_include_file :: "file_reader \<Rightarrow> string \<Rightarrow> (include_error + host_entry list) option" where
  "read_include_file fs path =
     (case fs path of
        Inl e \<Rightarrow> Some (Inl (ReadFailed e))
      | Inr data \<Rightarrow>
          (case parse_netbox_csv data of
             None \<Rightarrow> None
           | Some (Inl e) \<Rightarrow> Some (Inl (ImportFailed e))
           | Some (Inr es) \<Rightarrow> Some (Inr es)))"

fun read_includes ::
  "file_reader \<Rightarrow> (string \<Rightarrow> string) \<Rightarrow> string list \<Rightarrow> (include_error + host_entry list) option" where
  "read_includes fs resolve [] = Some (Inr [])"
| "read_includes fs resolve (i # is) =
     (case read_include_file fs (resolve i) of
        None \<Rightarrow> None
      | Some (Inl e) \<Rightarrow> Some (Inl e)
      | Some (Inr es) \<Rightarrow>
          (case read_includes fs resolve is of
             None \<Rightarrow> None | Some (Inl e) \<Rightarrow> Some (Inl e) | Some (Inr rest) \<Rightarrow> Some (Inr (es @ rest))))"

definition collect_hosts ::
  "file_reader \<Rightarrow> (string \<Rightarrow> string) \<Rightarrow> host_entry list \<Rightarrow> string list \<Rightarrow> list_location \<Rightarrow>
   (doc_error + host_entry list) option" where
  "collect_hosts fs resolve entries includes loc =
     (case expand_host_entries entries 0 of
        None \<Rightarrow> None
      | Some (Inl (i, host, e)) \<Rightarrow> Some (Inl (EntryFailed loc i host e))
      | Some (Inr hosts) \<Rightarrow>
          (case read_includes fs resolve includes of
             None \<Rightarrow> None
           | Some (Inl e) \<Rightarrow> Some (Inl (IncludeFailed loc e))
           | Some (Inr included) \<Rightarrow> Some (Inr (hosts @ included))))"

fun collect_groups ::
  "file_reader \<Rightarrow> (string \<Rightarrow> string) \<Rightarrow> hosts_group list \<Rightarrow> (doc_error + hosts_group list) option" where
  "collect_groups fs resolve [] = Some (Inr [])"
| "collect_groups fs resolve (g # gs) =
     (case collect_hosts fs resolve (hg_hosts g) (hg_include g) (GroupList (hg_name g)) of
        None \<Rightarrow> None
      | Some (Inl e) \<Rightarrow> Some (Inl e)
      | Some (Inr hosts) \<Rightarrow>
          (case collect_groups fs resolve gs of
             None \<Rightarrow> None
           | Some (Inl e) \<Rightarrow> Some (Inl e)
           | Some (Inr rest) \<Rightarrow>
               Some (Inr (\<lparr> hg_name = hg_name g, hg_hosts = hosts, hg_include = [] \<rparr> # rest))))"

text \<open>
  \<open>resolveNetBoxDocNames\<close>: the entries of the imports get their names, in the order of the
  document; the others are left as they are and reserve their names and hosts.
\<close>

fun fill_names :: "host_entry list \<Rightarrow> string list \<Rightarrow> host_entry list \<times> string list" where
  "fill_names [] names = ([], names)"
| "fill_names (e # es) names =
     (case en_netbox e of
        None \<Rightarrow> (case fill_names es names of (es', rest) \<Rightarrow> (e # es', rest))
      | Some r \<Rightarrow> (case fill_names es (tl names) of (es', rest) \<Rightarrow>
          (e \<lparr> en_name := hd names, en_netbox := None \<rparr> # es', rest)))"

fun fill_groups :: "hosts_group list \<Rightarrow> string list \<Rightarrow> hosts_group list" where
  "fill_groups [] names = []"
| "fill_groups (g # gs) names =
     (case fill_names (hg_hosts g) names of (es, rest) \<Rightarrow> g \<lparr> hg_hosts := es \<rparr> # fill_groups gs rest)"

definition doc_entries :: "('s, 'z) hosts_doc_scheme \<Rightarrow> host_entry list" where
  "doc_entries d = hd_hosts d @ concat (map hg_hosts (hd_groups d))"

definition resolve_netbox_doc_names :: "'s hosts_doc \<Rightarrow> 's hosts_doc option" where
  "resolve_netbox_doc_names d =
     (let all = doc_entries d;
          rows = map (\<lambda>e. the (en_netbox e)) (filter (\<lambda>e. en_netbox e \<noteq> None) all);
          reserved = filter (\<lambda>e. en_netbox e = None) all
      in do {
        out \<leftarrow> resolve_netbox_names rows reserved;
        let (es, rest) = fill_names (hd_hosts d) (map en_name out);
        Some (d \<lparr> hd_hosts := es, hd_groups := fill_groups (hd_groups d) rest \<rparr>) })"

definition expand_hosts_doc ::
  "file_reader \<Rightarrow> (string \<Rightarrow> string) \<Rightarrow> 's hosts_doc \<Rightarrow> (doc_error + 's hosts_doc) option" where
  "expand_hosts_doc fs resolve d =
     (case collect_hosts fs resolve (hd_hosts d) (hd_include d) HostsList of
        None \<Rightarrow> None
      | Some (Inl e) \<Rightarrow> Some (Inl e)
      | Some (Inr hosts) \<Rightarrow>
          (case collect_groups fs resolve (hd_groups d) of
             None \<Rightarrow> None
           | Some (Inl e) \<Rightarrow> Some (Inl e)
           | Some (Inr groups) \<Rightarrow>
               let total = length hosts + sum_list (map (\<lambda>g. length (hg_hosts g)) groups) in
               if total > max_hosts_file_targets then Some (Inl (TooManyTargets total))
               else map_option Inr (resolve_netbox_doc_names
                      (d \<lparr> hd_hosts := hosts, hd_groups := groups, hd_include := [] \<rparr>))))"

text \<open>
  \<open>WatchPaths\<close>: the hosts file and its includes, each once, in order of appearance. The includes
  are None when the file cannot be read or decoded.
\<close>

fun add_paths :: "string list \<Rightarrow> string list \<Rightarrow> string list" where
  "add_paths paths [] = paths"
| "add_paths paths (p # ps) = add_paths (if p \<in> set paths then paths else paths @ [p]) ps"

definition watch_paths ::
  "(string \<Rightarrow> string) \<Rightarrow> string \<Rightarrow> (string list \<times> string list list) option \<Rightarrow> string list" where
  "watch_paths resolve path includes =
     (case includes of
        None \<Rightarrow> [path]
      | Some (own, groups) \<Rightarrow> add_paths [path] (map resolve (own @ concat groups)))"


text \<open>
  \<open>Parse\<close>: the YAML library gives the nodes of a text (None for a syntax error) and decodes it into
  a document; an export is recognised by its extension or its header.
\<close>

definition path_ext :: "string \<Rightarrow> string" where
  "path_ext path =
     (let base = (case last_index CHR ''/'' path of None \<Rightarrow> path | Some i \<Rightarrow> drop (i + 1) path)
      in case last_index CHR ''.'' base of None \<Rightarrow> [] | Some i \<Rightarrow> drop i base)"

text \<open>\<open>strings.EqualFold(ext, ".csv")\<close>: U+017F folds to s.\<close>

fun fold_long_s :: "string \<Rightarrow> string" where
  "fold_long_s [] = []"
| "fold_long_s (c # cs) =
     (if is_prefix_of [CHR 0xC5, CHR 0xBF] (c # cs) then CHR ''s'' # fold_long_s (drop 1 cs)
      else c # fold_long_s cs)"

definition is_csv_ext :: "string \<Rightarrow> bool" where
  "is_csv_ext ext = (map lower_char (fold_long_s ext) = ''.csv'')"

datatype parse_error =
    HostsUnreadable string
  | HostsImport netbox_error
  | HostsRemoved decode_error
  | HostsDecode string
  | HostsExpand doc_error

definition parse_hosts_file ::
  "(string \<Rightarrow> yaml_node option) \<Rightarrow> (string \<Rightarrow> string + 's hosts_doc) \<Rightarrow> 's \<Rightarrow> file_reader \<Rightarrow>
   (string \<Rightarrow> string) \<Rightarrow> string \<Rightarrow> (parse_error + 's hosts_doc) option" where
  "parse_hosts_file yaml decode no_settings fs resolve path =
     (case fs path of
        Inl e \<Rightarrow> Some (Inl (HostsUnreadable e))
      | Inr data \<Rightarrow>
          if data \<noteq> [] \<and> (is_csv_ext (path_ext path) \<or> is_netbox_csv_data data) then
            (case parse_netbox_csv data of
               None \<Rightarrow> None
             | Some (Inl e) \<Rightarrow> Some (Inl (HostsImport e))
             | Some (Inr es) \<Rightarrow> map_option Inr (resolve_netbox_doc_names
                 \<lparr> hd_hosts = es, hd_include = [], hd_groups = [], hd_settings = no_settings \<rparr>))
          else
            (case (case yaml data of None \<Rightarrow> None | Some root \<Rightarrow> find_removed_key root) of
               Some e \<Rightarrow> Some (Inl (HostsRemoved e))
             | None \<Rightarrow>
                 (case decode data of
                    Inl e \<Rightarrow> Some (Inl (HostsDecode e))
                  | Inr d \<Rightarrow>
                      (case expand_hosts_doc fs resolve d of
                         None \<Rightarrow> None
                       | Some (Inl e) \<Rightarrow> Some (Inl (HostsExpand e))
                       | Some (Inr d') \<Rightarrow> Some (Inr d')))))"

section \<open>Naming a document\<close>

lemma fill_names_length:
  "fill_names es names = (es', rest) \<Longrightarrow>
   length es' = length es \<and> rest = drop (length (filter (\<lambda>e. en_netbox e \<noteq> None) es)) names"
proof (induction es names arbitrary: es' rest rule: fill_names.induct)
  case (2 e es names)
  then show ?case by (auto split: option.splits prod.splits simp: drop_Suc)
qed simp

lemma fill_names_append:
  "fill_names (es @ fs) names =
   (case fill_names es names of (es', rest) \<Rightarrow> case fill_names fs rest of (fs', r) \<Rightarrow> (es' @ fs', r))"
  by (induction es names rule: fill_names.induct) (auto split: option.splits prod.splits)

lemma fill_groups_entries:
  "concat (map hg_hosts (fill_groups gs names)) = fst (fill_names (concat (map hg_hosts gs)) names)"
  by (induction gs names rule: fill_groups.induct) (auto simp: fill_names_append split: prod.splits)

lemma fill_groups_shape:
  "map hg_name (fill_groups gs names) = map hg_name gs \<and>
   map hg_include (fill_groups gs names) = map hg_include gs \<and>
   map (\<lambda>g. length (hg_hosts g)) (fill_groups gs names) = map (\<lambda>g. length (hg_hosts g)) gs"
  by (induction gs names rule: fill_groups.induct) (auto split: prod.splits dest: fill_names_length)

lemma fill_names_hosts: "map en_host (fst (fill_names es names)) = map en_host es"
  by (induction es names rule: fill_names.induct) (auto split: option.splits prod.splits)

lemma fill_names_own:
  "i < length es \<Longrightarrow> en_netbox (es ! i) = None \<Longrightarrow> fst (fill_names es names) ! i = es ! i"
  by (induction es names arbitrary: i rule: fill_names.induct)
    (auto simp: nth_Cons split: option.splits prod.splits nat.splits)

lemma fill_names_done: "e \<in> set (fst (fill_names es names)) \<Longrightarrow> en_netbox e = None"
  by (induction es names rule: fill_names.induct) (auto split: option.splits prod.splits)

lemma resolve_doc_entries:
  "\<exists>names d'. resolve_netbox_doc_names d = Some d' \<and>
     doc_entries d' = fst (fill_names (doc_entries d) names) \<and>
     hd_include d' = hd_include d \<and> hd_settings d' = hd_settings d \<and>
     map hg_name (hd_groups d') = map hg_name (hd_groups d) \<and>
     map hg_include (hd_groups d') = map hg_include (hd_groups d)"
proof -
  let ?all = "doc_entries d"
  obtain out where out: "resolve_netbox_names (map (\<lambda>e. the (en_netbox e)) (filter (\<lambda>e. en_netbox e \<noteq> None) ?all))
      (filter (\<lambda>e. en_netbox e = None) ?all) = Some out"
    using resolve_names_hosts by blast
  obtain es rest where es: "fill_names (hd_hosts d) (map en_name out) = (es, rest)" by force
  have "resolve_netbox_doc_names d = Some (d \<lparr> hd_hosts := es, hd_groups := fill_groups (hd_groups d) rest \<rparr>)"
    using out es by (simp add: resolve_netbox_doc_names_def Let_def)
  moreover have "doc_entries (d \<lparr> hd_hosts := es, hd_groups := fill_groups (hd_groups d) rest \<rparr>)
      = fst (fill_names (doc_entries d) (map en_name out))"
    by (simp add: doc_entries_def fill_groups_entries fill_names_append es split: prod.splits)
  ultimately show ?thesis using fill_groups_shape [of "hd_groups d" rest] by auto
qed

section \<open>Properties\<close>

text \<open>Naming the imported rows of a document is total and touches nothing else: the hosts, their
  order and the groups stay, an entry the user wrote stays exactly as it is, and no entry is left
  waiting for a name.\<close>

theorem document_names_resolved:
  "\<exists>d'. resolve_netbox_doc_names d = Some d' \<and>
     map en_host (doc_entries d') = map en_host (doc_entries d) \<and>
     map hg_name (hd_groups d') = map hg_name (hd_groups d) \<and>
     (\<forall>i<length (doc_entries d). en_netbox (doc_entries d ! i) = None \<longrightarrow>
        doc_entries d' ! i = doc_entries d ! i) \<and>
     (\<forall>e\<in>set (doc_entries d'). en_netbox e = None)"
proof -
  obtain names d' where d': "resolve_netbox_doc_names d = Some d'"
     "doc_entries d' = fst (fill_names (doc_entries d) names)"
     "map hg_name (hd_groups d') = map hg_name (hd_groups d)"
    using resolve_doc_entries [of d] by blast
  show ?thesis
    using d'(1,3) fill_names_hosts [of "doc_entries d" names] fill_names_own [of _ "doc_entries d" names]
      fill_names_done [of _ "doc_entries d" names]
    by (intro exI [of _ d']) (simp add: d'(2))
qed

lemma collect_groups_spec:
  "collect_groups fs resolve gs = Some (Inr gs') \<Longrightarrow>
   map hg_name gs' = map hg_name gs \<and> (\<forall>g\<in>set gs'. hg_include g = [])"
  by (induction gs arbitrary: gs') (auto split: option.splits sum.splits)

text \<open>C37: A hosts file that was accepted is fully expanded and bounded: it lists at most 4096 entries
  over all its lists, none of which still waits for an include file or a name, its groups are
  those of the file in their order, and its settings are untouched.\<close>

theorem accepted_document_bounded:
  assumes "expand_hosts_doc fs resolve d = Some (Inr d')"
  shows "length (doc_entries d') \<le> 4096 \<and> hd_include d' = [] \<and>
    map hg_name (hd_groups d') = map hg_name (hd_groups d) \<and>
    (\<forall>g\<in>set (hd_groups d'). hg_include g = []) \<and>
    (\<forall>e\<in>set (doc_entries d'). en_netbox e = None) \<and> hd_settings d' = hd_settings d"
proof -
  have "\<exists>hosts gs. collect_groups fs resolve (hd_groups d) = Some (Inr gs) \<and>
      length hosts + sum_list (map (\<lambda>g. length (hg_hosts g)) gs) \<le> 4096 \<and>
      resolve_netbox_doc_names (d \<lparr> hd_hosts := hosts, hd_groups := gs, hd_include := [] \<rparr>) = Some d'"
    using assms
    by (auto simp: expand_hosts_doc_def Let_def max_hosts_file_targets_def linorder_not_less
        split: option.splits sum.splits if_splits)
  then obtain hosts gs where g: "collect_groups fs resolve (hd_groups d) = Some (Inr gs)"
    "length hosts + sum_list (map (\<lambda>g. length (hg_hosts g)) gs) \<le> 4096"
    "resolve_netbox_doc_names (d \<lparr> hd_hosts := hosts, hd_groups := gs, hd_include := [] \<rparr>) = Some d'"
    by blast
  let ?d = "d \<lparr> hd_hosts := hosts, hd_groups := gs, hd_include := [] \<rparr>"
  obtain names where n: "doc_entries d' = fst (fill_names (doc_entries ?d) names)"
    "hd_include d' = []" "hd_settings d' = hd_settings d"
    "map hg_name (hd_groups d') = map hg_name gs" "map hg_include (hd_groups d') = map hg_include gs"
    using resolve_doc_entries [of ?d] g(3) by auto
  have "length (doc_entries d') = length (doc_entries ?d)"
    unfolding n(1) by (metis fill_names_hosts length_map)
  also have "\<dots> \<le> 4096" using g(2) by (simp add: doc_entries_def length_concat o_def)
  finally have "length (doc_entries d') \<le> 4096" .
  moreover have "hg_include ` set (hd_groups d') = hg_include ` set gs" using n(5) by (metis list.set_map)
  then have "\<forall>g\<in>set (hd_groups d'). hg_include g = []"
    using collect_groups_spec [OF g(1)] by (metis (no_types, lifting) image_iff)
  ultimately show ?thesis
    using n(2,3,4) collect_groups_spec [OF g(1)] fill_names_done [of _ "doc_entries ?d" names]
    by (simp add: n(1))
qed


text \<open>Two hosts written out, one of them as a range.\<close>

definition example_doc :: "unit hosts_doc" where
  "example_doc = \<lparr> hd_hosts = [empty_entry \<lparr> en_host := ''a'', en_name := ''A'' \<rparr>],
     hd_include = [], hd_groups = [\<lparr> hg_name = ''g'', hg_hosts = [empty_entry \<lparr> en_host := ''b'' \<rparr>], hg_include = [] \<rparr>],
     hd_settings = () \<rparr>"

lemma example_doc_expanded: "expand_hosts_doc (\<lambda>_. Inl []) id example_doc = Some (Inr example_doc)"
proof -
  have "expand_host_pattern s = Some (Inr [s])" if "plain_host s" "CHR ''{'' \<notin> set s" for s
    using expand_all_plain [of "[s]" "[]"] expand_no_brace [OF that(2)] that(1)
    by (simp add: expand_host_pattern_def)
  then have h: "expand_host_pattern ''a'' = Some (Inr [''a''])" "expand_host_pattern ''b'' = Some (Inr [''b''])"
    by (simp_all add: plain_host_def contains_any_def)
  have "resolve_netbox_names [] reserved = Some []" for reserved
    by (simp add: resolve_netbox_names_def)
  then show ?thesis
    by (simp add: expand_hosts_doc_def collect_hosts_def expand_host_entry_def h example_doc_def
        empty_entry_def max_hosts_file_targets_def resolve_netbox_doc_names_def doc_entries_def)
qed

theorem accepted_document_bounded_witness:
  "length (doc_entries example_doc) \<le> 4096 \<and> map hg_name (hd_groups example_doc) = [''g'']"
  using accepted_document_bounded [OF example_doc_expanded] by (simp add: example_doc_def)

theorem document_names_resolved_witness:
  "\<exists>d'. resolve_netbox_doc_names example_doc = Some d' \<and> doc_entries d' = doc_entries example_doc"
proof -
  obtain d' where d: "resolve_netbox_doc_names example_doc = Some d'"
    "map en_host (doc_entries d') = map en_host (doc_entries example_doc)"
    "\<forall>i<length (doc_entries example_doc). en_netbox (doc_entries example_doc ! i) = None \<longrightarrow>
        doc_entries d' ! i = doc_entries example_doc ! i"
    using document_names_resolved [of example_doc] by blast
  have n: "en_netbox (doc_entries example_doc ! i) = None" if "i < length (doc_entries example_doc)" for i
    using that by (auto simp: example_doc_def doc_entries_def empty_entry_def less_Suc_eq)
  have "doc_entries d' = doc_entries example_doc"
    by (rule nth_equalityI) (use d(3) n map_eq_imp_length_eq [OF d(2)] in auto)
  with d(1) show ?thesis by blast
qed

text \<open>
  What \<open>checkRemovedSettings\<close> is for: a removed setting is a key of some mapping of the tree.
\<close>

fun has_removed_key :: "yaml_node \<Rightarrow> bool" where
  "has_removed_key (YNode kind v line content) =
     (kind = MappingNode \<and> (\<exists>k\<in>set (map fst (key_pairs content)). yn_value k \<in> set removed_settings) \<or>
      (\<exists>n\<in>set content. has_removed_key n))"

lemma find_removed_complete:
  "(find_removed_key n = None) = (\<not> has_removed_key n)"
  "(find_removed_list ns = None) = (\<forall>n\<in>set ns. \<not> has_removed_key n)"
proof (induction n and ns rule: find_removed_key_find_removed_list.induct)
  case (1 kind v line content)
  have found: "x \<in> set xs \<and> P x" if "find P xs = Some x" for P :: "yaml_node \<Rightarrow> bool" and x xs
    using that by (auto simp: find_Some_iff)
  from 1 show ?case
    by (auto simp: find_None_iff split: option.splits if_splits dest!: found)
qed (auto split: option.splits)

text \<open>A document that still uses a removed setting is rejected, at the top level or at any depth,
  and one that uses none is never rejected for that reason.\<close>

theorem removed_settings_rejected:
  "(find_removed_key root = None) = (\<not> has_removed_key root)"
  by (rule find_removed_complete)

lemma add_paths_spec:
  "distinct paths \<Longrightarrow> distinct (add_paths paths ps) \<and> set (add_paths paths ps) = set paths \<union> set ps \<and>
   take (length paths) (add_paths paths ps) = paths"
proof (induction ps arbitrary: paths)
  case (Cons p ps)
  show ?case
  proof (cases "p \<in> set paths")
    case False
    with Cons.prems Cons.IH [of "paths @ [p]"] have
      "distinct (add_paths (paths @ [p]) ps)" "set (add_paths (paths @ [p]) ps) = set paths \<union> {p} \<union> set ps"
      "take (Suc (length paths)) (add_paths (paths @ [p]) ps) = paths @ [p]" by auto
    moreover from this(3) have "take (length paths) (add_paths (paths @ [p]) ps) = paths"
      by (metis append_eq_conv_conj le_SucI le_refl min.absorb1 take_take)
    ultimately show ?thesis using False by auto
  qed (use Cons in auto)
qed simp

text \<open>The reload watcher watches the hosts file and exactly the include files it names, each once,
  the hosts file first; a file that cannot be read or decoded is watched alone.\<close>

theorem watched_paths_exact:
  "distinct (watch_paths resolve path includes) \<and> hd (watch_paths resolve path includes) = path \<and>
   set (watch_paths resolve path includes) = insert path (case includes of None \<Rightarrow> {}
     | Some (own, groups) \<Rightarrow> resolve ` (set own \<union> set (concat groups)))"
proof (cases "includes")
  case None
  then show ?thesis by (simp add: watch_paths_def)
next
  case (Some i)
  obtain own groups where i: "i = (own, groups)" by (cases i)
  have "take 1 (add_paths [path] ps) = [path]" for ps using add_paths_spec [of "[path]" ps] by simp
  then have "hd (add_paths [path] ps) = path" for ps
    by (metis hd_take list.sel(1) zero_less_one)
  then show ?thesis using add_paths_spec [of "[path]" "map resolve (own @ concat groups)"]
    by (simp add: Some i watch_paths_def image_Un)
qed

end
