(* ===== verification/Target_Specs.thy ===== *)
theory Target_Specs
  imports Hosts_Document
begin

text \<open>
  The targets of a run as specifications (cmd/main/targetspec.go, hosts.go and the address map of
  lifecycle.go): the list built from the hosts file and the command line with its groups, the
  expansion to every resolved address, and how the pinger turns a target back into the address
  to resolve. The resolver is an argument; the n-th lookup of an expansion may answer differently
  from another one for the same host.
\<close>

section \<open>Specifications\<close>

record target_spec =
  sp_host :: string
  sp_pinned :: string
  sp_name :: string

definition resolve_addr :: "target_spec \<Rightarrow> string" where
  "resolve_addr s = (if sp_pinned s \<noteq> [] then sp_pinned s else sp_host s)"

definition display :: "target_spec \<Rightarrow> string" where
  "display s =
     (let label = (if sp_name s \<noteq> [] then sp_name s else sp_host s)
      in if sp_pinned s \<noteq> [] then label @ '' ('' @ sp_pinned s @ '')'' else label)"

record target_group =
  gr_name :: string
  gr_indices :: "nat list"

definition spec_of_entry :: "host_entry \<Rightarrow> target_spec" where
  "spec_of_entry h = \<lparr> sp_host = en_host h, sp_pinned = [], sp_name = en_name h \<rparr>"

definition spec_of_host :: "string \<Rightarrow> target_spec" where
  "spec_of_host h = \<lparr> sp_host = h, sp_pinned = [], sp_name = [] \<rparr>"

text \<open>\<open>buildHostsAndGroups\<close>.\<close>

fun append_groups :: "target_spec list \<Rightarrow> hosts_group list \<Rightarrow> target_spec list \<times> target_group list" where
  "append_groups specs [] = (specs, [])"
| "append_groups specs (g # gs) =
     (let start = length specs;
          specs1 = specs @ map spec_of_entry (hg_hosts g);
          ug = \<lparr> gr_name = hg_name g, gr_indices = map (\<lambda>j. start + j) [0..<length (hg_hosts g)] \<rparr>
      in case append_groups specs1 gs of (specs2, ugs) \<Rightarrow> (specs2, ug # ugs))"

definition build_hosts_and_groups ::
  "host_entry list \<Rightarrow> hosts_group list \<Rightarrow> string list \<Rightarrow> target_spec list \<times> target_group list" where
  "build_hosts_and_groups doc_hosts doc_groups cli_hosts =
     append_groups (map spec_of_entry doc_hosts @ map spec_of_host cli_hosts) doc_groups"

section \<open>Resolving all addresses\<close>

text \<open>
  \<open>expandTargets\<close>: first the addresses of every host that is not pinned (the last lookup of a
  host counts, and a failed or empty one leaves the host itself), then one specification per
  address. \<open>lookup i h\<close> is the answer for the i-th specification, empty for an error.
\<close>

definition host_ips :: "(nat \<Rightarrow> string \<Rightarrow> string list) \<Rightarrow> nat \<Rightarrow> string \<Rightarrow> string list" where
  "host_ips lookup i h =
     (if parse_addr h \<noteq> None then [h]
      else if lookup i h = [] then [h] else lookup i h)"

fun resolved_ips ::
  "(nat \<Rightarrow> string \<Rightarrow> string list) \<Rightarrow> nat \<Rightarrow> target_spec list \<Rightarrow> (string \<Rightarrow> string list) \<Rightarrow> string \<Rightarrow> string list" where
  "resolved_ips lookup i [] m = m"
| "resolved_ips lookup i (s # ss) m =
     resolved_ips lookup (i + 1) ss
       (if sp_pinned s \<noteq> [] then m else m(sp_host s := host_ips lookup i (sp_host s)))"

definition expand_spec :: "(string \<Rightarrow> string list) \<Rightarrow> target_spec \<Rightarrow> target_spec list" where
  "expand_spec ips s =
     (if sp_pinned s \<noteq> [] then [s]
      else map (\<lambda>ip. \<lparr> sp_host = sp_host s,
                        sp_pinned = (if sp_host s \<noteq> ip then ip else []), sp_name = sp_name s \<rparr>)
             (ips (sp_host s)))"

fun expand_specs ::
  "(string \<Rightarrow> string list) \<Rightarrow> target_spec list \<Rightarrow> target_spec list \<Rightarrow> target_spec list \<times> nat list list" where
  "expand_specs ips out [] = (out, [])"
| "expand_specs ips out (s # ss) =
     (let new = expand_spec ips s;
          indices = [length out..<length out + length new]
      in case expand_specs ips (out @ new) ss of (all, rest) \<Rightarrow> (all, indices # rest))"

definition expand_targets ::
  "bool \<Rightarrow> (nat \<Rightarrow> string \<Rightarrow> string list) \<Rightarrow> target_spec list \<Rightarrow> target_group list \<Rightarrow>
   target_spec list \<times> target_group list" where
  "expand_targets resolve_all lookup specs groups =
     (if \<not> resolve_all then (specs, groups)
      else case expand_specs (resolved_ips lookup 0 specs (\<lambda>_. [])) [] specs of
        (all, expansion) \<Rightarrow>
          (all, map (\<lambda>g. \<lparr> gr_name = gr_name g,
             gr_indices = concat (map (\<lambda>i. if i < length expansion then expansion ! i else []) (gr_indices g)) \<rparr>)
             groups))"

section \<open>From a target back to its address\<close>

text \<open>
  \<open>buildPingerOptions\<close>: the map from the name shown to the address, and what the resolver of the
  pinger looks up for an address it is given.
\<close>

definition pinned_map :: "target_spec list \<Rightarrow> string \<Rightarrow> string option" where
  "pinned_map specs =
     foldl (\<lambda>m s. if display s \<noteq> resolve_addr s then m(display s \<mapsto> resolve_addr s) else m) (\<lambda>_. None) specs"

definition lookup_address :: "(string \<Rightarrow> string option) \<Rightarrow> string \<Rightarrow> string" where
  "lookup_address pinned address = (case pinned address of Some ip \<Rightarrow> ip | None \<Rightarrow> address)"

text \<open>
  \<open>validateHostNames\<close>: a display name may be used once and may not be the host of another entry.
  The result is the offending name and whether it is a duplicate.
\<close>

fun host_names_loop :: "host_entry list \<Rightarrow> string set \<Rightarrow> host_entry list \<Rightarrow> (bool \<times> string) option" where
  "host_names_loop all seen [] = None"
| "host_names_loop all seen (h # hs) =
     (if en_name h = [] then host_names_loop all seen hs
      else if en_name h \<in> seen then Some (True, en_name h)
      else
        let others0 = int (count_list (map en_host all) (en_name h));
            others = (if en_host h = en_name h then others0 - 1 else others0)
        in if others > 0 then Some (False, en_name h)
           else host_names_loop all (insert (en_name h) seen) hs)"

definition validate_host_names :: "host_entry list \<Rightarrow> hosts_group list \<Rightarrow> (bool \<times> string) option" where
  "validate_host_names hosts groups =
     (let all = hosts @ concat (map hg_hosts groups) in host_names_loop all {} all)"

section \<open>Lists and groups\<close>

lemma append_groups_specs:
  "fst (append_groups specs gs) = specs @ map spec_of_entry (concat (map hg_hosts gs))"
  by (induction specs gs rule: append_groups.induct) (auto simp: Let_def split: prod.splits)

lemma append_groups_members:
  "list_all2 (\<lambda>g ug. gr_name ug = hg_name g \<and>
      map (\<lambda>i. fst (append_groups specs gs) ! i) (gr_indices ug) = map spec_of_entry (hg_hosts g) \<and>
      list_all (\<lambda>i. i < length (fst (append_groups specs gs))) (gr_indices ug))
     gs (snd (append_groups specs gs))"
proof (induction specs gs rule: append_groups.induct)
  case (2 specs g gs)
  let ?s1 = "specs @ map spec_of_entry (hg_hosts g)"
  obtain all ugs where r: "append_groups ?s1 gs = (all, ugs)" by force
  have all: "all = ?s1 @ map spec_of_entry (concat (map hg_hosts gs))"
    using append_groups_specs [of ?s1 gs] r by simp
  have "map (\<lambda>i. all ! i) (map (\<lambda>j. length specs + j) [0..<length (hg_hosts g)]) = map spec_of_entry (hg_hosts g)"
    by (rule nth_equalityI) (simp_all add: all nth_append)
  with "2.IH" [OF refl refl] r show ?case by (simp add: Let_def list_all_iff all)
qed simp

lemma expand_specs_all: "fst (expand_specs ips out ss) = out @ concat (map (expand_spec ips) ss)"
  by (induction ips out ss rule: expand_specs.induct) (auto simp: Let_def split: prod.splits)

lemma expand_specs_indices:
  "length (snd (expand_specs ips out ss)) = length ss \<and>
   (\<forall>i<length ss. map (\<lambda>j. fst (expand_specs ips out ss) ! j) (snd (expand_specs ips out ss) ! i)
       = expand_spec ips (ss ! i) \<and>
     list_all (\<lambda>j. j < length (fst (expand_specs ips out ss))) (snd (expand_specs ips out ss) ! i))"
proof (induction ips out ss rule: expand_specs.induct)
  case (2 ips out s ss)
  let ?new = "expand_spec ips s"
  obtain all rest where r: "expand_specs ips (out @ ?new) ss = (all, rest)" by force
  have all: "all = (out @ ?new) @ concat (map (expand_spec ips) ss)"
    using expand_specs_all [of ips "out @ ?new" ss] r by simp
  have "map (\<lambda>j. all ! j) [length out..<length out + length ?new] = ?new"
    by (rule nth_equalityI) (simp_all add: all nth_append)
  moreover have "list_all (\<lambda>j. j < length all) [length out..<length out + length ?new]"
    by (simp add: list_all_iff all)
  ultimately show ?case using "2.IH" [OF refl refl] r
    by (auto simp: Let_def nth_Cons split: nat.split)
qed simp


lemma pinned_map_Some:
  "pinned_map specs a = Some b \<Longrightarrow> \<exists>s\<in>set specs. display s = a \<and> resolve_addr s = b \<and> a \<noteq> b"
proof -
  have "foldl (\<lambda>m s. if display s \<noteq> resolve_addr s then m(display s \<mapsto> resolve_addr s) else m) m specs a = Some b \<Longrightarrow>
    m a = Some b \<or> (\<exists>s\<in>set specs. display s = a \<and> resolve_addr s = b \<and> a \<noteq> b)" for m
    by (induction specs arbitrary: m) (fastforce split: if_splits)+
  then show "pinned_map specs a = Some b \<Longrightarrow> ?thesis" by (auto simp: pinned_map_def)
qed

lemma host_names_loop_None:
  "host_names_loop all seen hs = None \<Longrightarrow> h \<in> set hs \<Longrightarrow> en_name h \<noteq> [] \<Longrightarrow> en_name h \<noteq> en_host h \<Longrightarrow>
   en_name h \<notin> set (map en_host all)"
proof (induction all seen hs rule: host_names_loop.induct)
  case (2 all seen h' hs)
  show ?case
  proof (cases "h = h'")
    case True
    with "2.prems" have "count_list (map en_host all) (en_name h) = 0"
      by (auto simp: Let_def split: if_splits)
    then show ?thesis by (simp add: count_list_0_iff)
  next
    case False
    with 2 show ?thesis by (auto simp: Let_def split: if_splits)
  qed
qed simp

lemma host_names_loop_distinct:
  "host_names_loop all seen hs = None \<Longrightarrow>
   distinct (filter (\<lambda>n. n \<noteq> []) (map en_name hs)) \<and> set (filter (\<lambda>n. n \<noteq> []) (map en_name hs)) \<inter> seen = {}"
  by (induction all seen hs rule: host_names_loop.induct) (auto simp: Let_def split: if_splits)

section \<open>Properties\<close>

text \<open>The host list and its groups fit together: hosts of the file come first, then those of the
  command line, then the groups in their order, and the indices of a group select exactly its own
  hosts, in order, inside the list.\<close>

theorem groups_select_their_hosts:
  "fst (build_hosts_and_groups dh gs cli) =
     map spec_of_entry dh @ map spec_of_host cli @ map spec_of_entry (concat (map hg_hosts gs)) \<and>
   list_all2 (\<lambda>g ug. gr_name ug = hg_name g \<and>
      map (\<lambda>i. fst (build_hosts_and_groups dh gs cli) ! i) (gr_indices ug) = map spec_of_entry (hg_hosts g) \<and>
      list_all (\<lambda>i. i < length (fst (build_hosts_and_groups dh gs cli))) (gr_indices ug))
     gs (snd (build_hosts_and_groups dh gs cli))"
  unfolding build_hosts_and_groups_def
  by (intro conjI append_groups_members) (simp add: append_groups_specs)

lemma resolved_ips_nonempty:
  "sp_pinned s = [] \<Longrightarrow> s \<in> set ss \<or> m (sp_host s) \<noteq> [] \<Longrightarrow> resolved_ips lookup i ss m (sp_host s) \<noteq> []"
  by (induction ss arbitrary: i m) (auto simp: host_ips_def)

text \<open>Expanding to all addresses loses no target and keeps the groups: every specification is
  replaced, in place, by at least one for the same host and name, and a group lists exactly the
  replacements of its members, in their order and inside the new list.\<close>

theorem resolve_all_keeps_groups:
  assumes "g \<in> set groups" "list_all (\<lambda>i. i < length specs) (gr_indices g)"
    and "expand_targets True lookup specs groups = (specs', groups')"
  shows "\<exists>new g'. length new = length specs \<and> specs' = concat new \<and> g' \<in> set groups' \<and> gr_name g' = gr_name g \<and>
    map (\<lambda>j. specs' ! j) (gr_indices g') = concat (map (\<lambda>i. new ! i) (gr_indices g)) \<and>
    list_all (\<lambda>j. j < length specs') (gr_indices g') \<and>
    (\<forall>i<length specs. new ! i \<noteq> [] \<and>
       set (map sp_host (new ! i)) = {sp_host (specs ! i)} \<and> set (map sp_name (new ! i)) = {sp_name (specs ! i)})"
proof -
  define ips where "ips = resolved_ips lookup 0 specs (\<lambda>_. [])"
  obtain all expansion where e: "expand_specs ips [] specs = (all, expansion)" by force
  let ?new = "map (expand_spec ips) specs"
  have all: "all = concat ?new" using expand_specs_all [of ips "[]" specs] e by simp
  have x: "length expansion = length specs"
    "\<forall>i<length specs. map (\<lambda>j. all ! j) (expansion ! i) = ?new ! i \<and> list_all (\<lambda>j. j < length all) (expansion ! i)"
    using expand_specs_indices [of ips "[]" specs] e by auto
  let ?is = "concat (map (\<lambda>i. if i < length expansion then expansion ! i else []) (gr_indices g))"
  have r: "specs' = all" "groups' = map (\<lambda>g. \<lparr> gr_name = gr_name g, gr_indices =
      concat (map (\<lambda>i. if i < length expansion then expansion ! i else []) (gr_indices g)) \<rparr>) groups"
    using assms(3) by (auto simp: expand_targets_def e ips_def [symmetric])
  have "map (\<lambda>j. all ! j) ?is = concat (map (\<lambda>i. ?new ! i) (gr_indices g))"
    using assms(2) x unfolding map_concat map_map by (intro arg_cong [where f = concat]) (auto simp: list_all_iff)
  moreover have "list_all (\<lambda>j. j < length all) ?is" using assms(2) x by (fastforce simp: list_all_iff)
  moreover have "\<lparr> gr_name = gr_name g, gr_indices = ?is \<rparr> \<in> set groups'"
    unfolding r(2) using assms(1) by (rule_tac image_eqI [where x = g, THEN imageE]) auto
  moreover have "\<forall>i<length specs. ?new ! i \<noteq> [] \<and>
       set (map sp_host (?new ! i)) = {sp_host (specs ! i)} \<and> set (map sp_name (?new ! i)) = {sp_name (specs ! i)}"
  proof (intro allI impI)
    fix i assume i: "i < length specs"
    then have "sp_pinned (specs ! i) = [] \<Longrightarrow> ips (sp_host (specs ! i)) \<noteq> []"
      unfolding ips_def by (intro resolved_ips_nonempty) auto
    then show "?new ! i \<noteq> [] \<and> set (map sp_host (?new ! i)) = {sp_host (specs ! i)} \<and>
        set (map sp_name (?new ! i)) = {sp_name (specs ! i)}"
      using i by (cases "ips (sp_host (specs ! i))") (auto simp: expand_spec_def)
  qed
  ultimately show ?thesis
    using all r(1) by (intro exI [of _ ?new] exI [of _ "\<lparr> gr_name = gr_name g, gr_indices = ?is \<rparr>"]) auto
qed



theorem resolve_all_keeps_groups_witness:
  "\<exists>new. length new = length [spec_of_host ''a''] \<and>
     fst (expand_targets True (\<lambda>_ _. [''192.0.2.1'', ''192.0.2.2'']) [spec_of_host ''a''] [\<lparr> gr_name = ''g'', gr_indices = [0] \<rparr>])
       = concat new"
proof -
  let ?g = "\<lparr> gr_name = ''g'', gr_indices = [0] \<rparr>"
  let ?e = "expand_targets True (\<lambda>_ _. [''192.0.2.1'', ''192.0.2.2'']) [spec_of_host ''a''] [?g]"
  have e: "?e = (fst ?e, snd ?e)" by simp
  have g: "?g \<in> set [?g]" "list_all (\<lambda>i. i < length [spec_of_host ''a'']) (gr_indices ?g)" by simp_all
  from resolve_all_keeps_groups [OF g e] show ?thesis by (elim exE conjE) (intro exI conjI)
qed


end
