(* ===== verification/Run_Config.thy ===== *)
theory Run_Config
  imports Target_Specs Target_Stats
begin

text \<open>
  The settings of a run (cmd/main/config.go, config_validation.go, monitoring_config.go and the
  comparison of settings in live_reload.go): the precedence of the command line over the hosts
  file, the validation that admits a configuration at startup and at every reload, and which
  changes need a rebuild.

  The flag set is the predicate "was this flag given". Parsing durations and URLs and looking up an
  interface are arguments; so is printing a duration, which the validation undoes by parsing.
\<close>

section \<open>Settings\<close>

record config =
  cf_interval_ms :: int
  cf_timeout_ms :: int
  cf_hosts_file :: string
  cf_iface_name :: string
  cf_source_addr :: string
  cf_packet_size :: int
  cf_count :: int
  cf_mtu_enabled :: bool
  cf_trace :: bool
  cf_asn_enabled :: bool
  cf_ptr_enabled :: bool
  cf_ipv4_only :: bool
  cf_ipv6_only :: bool
  cf_port_specs :: "string list"
  cf_http_urls :: "string list"
  cf_mtr :: bool
  cf_dns_server :: string
  cf_resolve_all :: bool
  cf_duration :: duration
  cf_web_enabled :: bool
  cf_web_port :: int
  cf_thresholds :: thresholds
  cf_health_failures :: int
  cf_health_recoveries :: int
  cf_health_window :: duration
  cf_check_config :: bool
  cf_http_follow_redirects :: bool

definition route_enabled :: "config \<Rightarrow> bool" where
  "route_enabled c = (cf_trace c \<or> cf_mtr c)"

text \<open>The settings of a document: None for a key that is not there.\<close>

record doc_thresholds =
  dt_rtt_warn :: "int option"
  dt_rtt_crit :: "int option"
  dt_jitter_warn :: "int option"
  dt_jitter_crit :: "int option"
  dt_loss_warn :: "float64 option"
  dt_loss_crit :: "float64 option"

record doc_settings =
  ds_interval_ms :: "int option"
  ds_timeout_ms :: "int option"
  ds_iface_name :: "string option"
  ds_source_addr :: "string option"
  ds_packet_size :: "int option"
  ds_count :: "int option"
  ds_mtu_enabled :: "bool option"
  ds_trace :: "bool option"
  ds_asn_enabled :: "bool option"
  ds_ptr_enabled :: "bool option"
  ds_ipv4_only :: "bool option"
  ds_ipv6_only :: "bool option"
  ds_port_specs :: "string list"
  ds_http_urls :: "string list"
  ds_mtr :: "bool option"
  ds_dns_server :: "string option"
  ds_resolve_all :: "bool option"
  ds_duration :: "string option"
  ds_web :: "bool option"
  ds_web_port :: "int option"
  ds_thresholds :: "doc_thresholds option"
  ds_health_failures :: "int option"
  ds_health_recoveries :: "int option"
  ds_health_window :: "string option"
  ds_http_follow_redirects :: "bool option"

datatype config_error =
    DurationInvalid string
  | DurationNegative duration
  | BothFamilies
  | NoHosts
  | EmptyHost list_location nat
  | GroupUnnamed nat
  | GroupEmpty string
  | NameDuplicate string
  | NameIsHost string
  | IntervalRange int
  | TimeoutRange int
  | SizeRange int
  | CountNegative int
  | WebPortRange int
  | DnsServerInvalid string
  | ThresholdsInvalid threshold_error
  | TraceAndMtr
  | PolicyInvalid policy_error
  | HttpURL nat
  | PortInvalid string
  | SourceNotAddress
  | SourceFamily
  | InterfaceUnknown

section \<open>Precedence\<close>

text \<open>\<open>syncField\<close>, \<open>syncSlice\<close> and \<open>syncDuration\<close>: the new value of a field.\<close>

definition sync_field :: "(string \<Rightarrow> bool) \<Rightarrow> string \<Rightarrow> 'a option \<Rightarrow> 'a \<Rightarrow> 'a" where
  "sync_field changed flag doc_val cur =
     (if changed flag \<or> doc_val = None then cur else the doc_val)"

definition sync_slice :: "(string \<Rightarrow> bool) \<Rightarrow> string \<Rightarrow> 'a list \<Rightarrow> 'a list \<Rightarrow> 'a list" where
  "sync_slice changed flag doc_val cur =
     (if changed flag \<or> doc_val = [] then cur else doc_val)"

definition parse_non_negative_duration ::
  "(string \<Rightarrow> duration option) \<Rightarrow> string \<Rightarrow> config_error + duration" where
  "parse_non_negative_duration parse raw =
     (case parse raw of
        None \<Rightarrow> Inl (DurationInvalid raw)
      | Some d \<Rightarrow> if d < 0 then Inl (DurationNegative d) else Inr d)"

definition sync_duration ::
  "(string \<Rightarrow> duration option) \<Rightarrow> (string \<Rightarrow> bool) \<Rightarrow> string \<Rightarrow> string option \<Rightarrow> duration \<Rightarrow>
   config_error + duration" where
  "sync_duration parse changed flag doc_val cur =
     (if changed flag \<or> doc_val = None then Inr cur
      else parse_non_negative_duration parse (the doc_val))"

text \<open>\<open>time.Duration(ms) * time.Millisecond\<close> in int64.\<close>

definition ms_duration :: "int \<Rightarrow> duration" where
  "ms_duration ms = wrap64 (ms * 1000000)"

definition overlay_thresholds_doc ::
  "thresholds \<Rightarrow> (string \<Rightarrow> bool) \<Rightarrow> doc_thresholds option \<Rightarrow> thresholds" where
  "overlay_thresholds_doc base changed th =
     (case th of
        None \<Rightarrow> base
      | Some d \<Rightarrow> \<lparr>
          rtt_warn = sync_field changed ''rtt-warn'' (map_option ms_duration (dt_rtt_warn d)) (rtt_warn base),
          rtt_crit = sync_field changed ''rtt-crit'' (map_option ms_duration (dt_rtt_crit d)) (rtt_crit base),
          jitter_warn = sync_field changed ''jitter-warn'' (map_option ms_duration (dt_jitter_warn d)) (jitter_warn base),
          jitter_crit = sync_field changed ''jitter-crit'' (map_option ms_duration (dt_jitter_crit d)) (jitter_crit base),
          loss_warn = sync_field changed ''loss-warn'' (dt_loss_warn d) (loss_warn base),
          loss_crit = sync_field changed ''loss-crit'' (dt_loss_crit d) (loss_crit base) \<rparr>)"

text \<open>The fields without an error of their own.\<close>

definition sync_fields :: "config \<Rightarrow> (string \<Rightarrow> bool) \<Rightarrow> doc_settings \<Rightarrow> config" where
  "sync_fields c changed d = c \<lparr>
     cf_interval_ms := sync_field changed ''interval'' (ds_interval_ms d) (cf_interval_ms c),
     cf_timeout_ms := sync_field changed ''timeout'' (ds_timeout_ms d) (cf_timeout_ms c),
     cf_iface_name := sync_field changed ''interface'' (ds_iface_name d) (cf_iface_name c),
     cf_source_addr := sync_field changed ''source'' (ds_source_addr d) (cf_source_addr c),
     cf_packet_size := sync_field changed ''size'' (ds_packet_size d) (cf_packet_size c),
     cf_count := sync_field changed ''count'' (ds_count d) (cf_count c),
     cf_mtu_enabled := sync_field changed ''discovery-mtu'' (ds_mtu_enabled d) (cf_mtu_enabled c),
     cf_trace := sync_field changed ''traceroute'' (ds_trace d) (cf_trace c),
     cf_asn_enabled := sync_field changed ''asn'' (ds_asn_enabled d) (cf_asn_enabled c),
     cf_ptr_enabled := sync_field changed ''ptr'' (ds_ptr_enabled d) (cf_ptr_enabled c),
     cf_ipv4_only := sync_field changed ''ipv4'' (ds_ipv4_only d) (cf_ipv4_only c),
     cf_ipv6_only := sync_field changed ''ipv6'' (ds_ipv6_only d) (cf_ipv6_only c),
     cf_port_specs := sync_slice changed ''port'' (ds_port_specs d) (cf_port_specs c),
     cf_http_urls := sync_slice changed ''http'' (ds_http_urls d) (cf_http_urls c),
     cf_mtr := sync_field changed ''mtr'' (ds_mtr d) (cf_mtr c),
     cf_dns_server := sync_field changed ''dns-server'' (ds_dns_server d) (cf_dns_server c),
     cf_resolve_all := sync_field changed ''resolve-all'' (ds_resolve_all d) (cf_resolve_all c),
     cf_web_enabled := sync_field changed ''web'' (ds_web d) (cf_web_enabled c),
     cf_web_port := sync_field changed ''web-port'' (ds_web_port d) (cf_web_port c),
     cf_health_failures := sync_field changed ''health-failures'' (ds_health_failures d) (cf_health_failures c),
     cf_health_recoveries := sync_field changed ''health-recoveries'' (ds_health_recoveries d) (cf_health_recoveries c),
     cf_http_follow_redirects :=
       sync_field changed ''http-follow-redirects'' (ds_http_follow_redirects d) (cf_http_follow_redirects c) \<rparr>"

definition apply_doc_to_cfg ::
  "(string \<Rightarrow> duration option) \<Rightarrow> config \<Rightarrow> (string \<Rightarrow> bool) \<Rightarrow> doc_settings \<Rightarrow> config_error + config" where
  "apply_doc_to_cfg parse c changed d =
     (let c1 = sync_fields c changed d in
      case sync_duration parse changed ''health-window'' (ds_health_window d) (cf_health_window c1) of
        Inl e \<Rightarrow> Inl e
      | Inr w \<Rightarrow>
          (case sync_duration parse changed ''duration'' (ds_duration d) (cf_duration c1) of
             Inl e \<Rightarrow> Inl e
           | Inr t \<Rightarrow>
               let c2 = c1 \<lparr> cf_health_window := w, cf_duration := t,
                    cf_thresholds := overlay_thresholds_doc (cf_thresholds c1) changed (ds_thresholds d) \<rparr>
               in if cf_ipv4_only c2 \<and> cf_ipv6_only c2 then Inl BothFamilies else Inr c2))"

section \<open>Validation\<close>

definition min_interval_ms :: int where "min_interval_ms = 100"
definition max_interval_ms :: int where "max_interval_ms = 60000"
definition pmtu_max_payload :: int where "pmtu_max_payload = 9872"

definition config_policy :: "config \<Rightarrow> health_policy" where
  "config_policy c =
     (let p = default_health_policy;
          p1 = (if cf_health_failures c \<noteq> 0 \<or> cf_health_recoveries c \<noteq> 0 \<or> cf_health_window c \<noteq> 0
                then p \<lparr> hp_failures := cf_health_failures c, hp_recoveries := cf_health_recoveries c,
                         hp_window := cf_health_window c \<rparr>
                else p)
      in if rtt_crit (cf_thresholds c) \<noteq> 0 then p1 \<lparr> hp_thresholds := cf_thresholds c \<rparr> else p1)"

text \<open>What \<open>url.Parse\<close> gives: scheme, host name, whether there are credentials, the fragment.\<close>

record url =
  ur_scheme :: string
  ur_hostname :: string
  ur_user :: bool
  ur_fragment :: string

definition url_ok :: "(string \<Rightarrow> url option) \<Rightarrow> string \<Rightarrow> bool" where
  "url_ok parse raw = (case parse raw of
     None \<Rightarrow> False
   | Some u \<Rightarrow> (ur_scheme u = ''http'' \<or> ur_scheme u = ''https'') \<and> ur_hostname u \<noteq> [] \<and>
       \<not> ur_user u \<and> ur_fragment u = [])"

fun first_bad :: "('a \<Rightarrow> bool) \<Rightarrow> nat \<Rightarrow> 'a list \<Rightarrow> nat option" where
  "first_bad ok i [] = None"
| "first_bad ok i (x # xs) = (if ok x then first_bad ok (i + 1) xs else Some i)"

definition http_options :: "(string \<Rightarrow> url option) \<Rightarrow> config \<Rightarrow> config_error + bool" where
  "http_options parse c =
     (case first_bad (url_ok parse) 0 (cf_http_urls c) of
        Some i \<Rightarrow> Inl (HttpURL i)
      | None \<Rightarrow> Inr (cf_http_follow_redirects c))"

text \<open>\<open>ParsePortSpec\<close>: the port and its protocol.\<close>

definition parse_port_spec :: "string \<Rightarrow> (int \<times> string) option" where
  "parse_port_spec raw =
     (let s = trim_space raw;
          head = takeWhile (\<lambda>c. c \<noteq> CHR ''/'') s;
          rest = drop (length head + 1) s
      in case atoi (trim_space head) of
           None \<Rightarrow> None
         | Some port \<Rightarrow>
             if port < 1 \<or> port > 65535 then None
             else if length head = length s then Some (port, ''tcp'')
             else let proto = to_lower (trim_space rest) in
               if proto \<noteq> ''tcp'' \<and> proto \<noteq> ''udp'' then None else Some (port, proto))"

text \<open>\<open>net.SplitHostPort\<close>, as the host, and \<open>net.ParseIP\<close>, which takes no zone.\<close>

definition split_host :: "string \<Rightarrow> string option" where
  "split_host hp =
     (case last_index CHR '':'' hp of
        None \<Rightarrow> None
      | Some i \<Rightarrow>
          if hd hp = CHR ''['' then
            (let e = length (takeWhile (\<lambda>c. c \<noteq> CHR '']'') hp) in
             if e = length hp then None
             else if e + 1 \<noteq> i then None
             else if CHR ''['' \<in> set (drop 1 hp) \<or> CHR '']'' \<in> set (drop (e + 1) hp) then None
             else Some (take (e - 1) (drop 1 hp)))
          else
            (let host = take i hp in
             if CHR '':'' \<in> set host \<or> CHR ''['' \<in> set hp \<or> CHR '']'' \<in> set hp then None
             else Some host))"

definition is_ip :: "string \<Rightarrow> bool" where
  "is_ip s = (case parse_addr s of
     None \<Rightarrow> False | Some (V6 _ z) \<Rightarrow> z = [] | Some _ \<Rightarrow> True)"

definition dns_server_ok :: "string \<Rightarrow> bool" where
  "dns_server_ok s = (s = [] \<or> is_ip (case split_host s of Some h \<Rightarrow> h | None \<Rightarrow> s))"

definition validate_host_entries :: "host_entry list \<Rightarrow> list_location \<Rightarrow> config_error option" where
  "validate_host_entries hosts loc =
     map_option (EmptyHost loc) (first_bad (\<lambda>h. trim_space (en_host h) \<noteq> []) 0 hosts)"

fun validate_groups :: "nat \<Rightarrow> hosts_group list \<Rightarrow> config_error option" where
  "validate_groups gi [] = None"
| "validate_groups gi (g # gs) =
     (if trim_space (hg_name g) = [] then Some (GroupUnnamed gi)
      else if hg_hosts g = [] then Some (GroupEmpty (hg_name g))
      else case validate_host_entries (hg_hosts g) (GroupList (hg_name g)) of
        Some e \<Rightarrow> Some e
      | None \<Rightarrow> validate_groups (gi + 1) gs)"

definition out_of_range :: "int \<Rightarrow> int \<Rightarrow> int option \<Rightarrow> bool" where
  "out_of_range lo hi v = (case v of None \<Rightarrow> False | Some x \<Rightarrow> x < lo \<or> x > hi)"

definition validate_hosts_doc ::
  "(string \<Rightarrow> duration option) \<Rightarrow> doc_settings hosts_doc \<Rightarrow> config_error option" where
  "validate_hosts_doc parse d =
     (let st = hd_settings d in
      if length (hd_hosts d) + sum_list (map (\<lambda>g. length (hg_hosts g)) (hd_groups d)) = 0 then Some NoHosts
      else case validate_host_entries (hd_hosts d) HostsList of
        Some e \<Rightarrow> Some e
      | None \<Rightarrow> (case validate_groups 0 (hd_groups d) of
        Some e \<Rightarrow> Some e
      | None \<Rightarrow> (case validate_host_names (hd_hosts d) (hd_groups d) of
        Some (dup, n) \<Rightarrow> Some (if dup then NameDuplicate n else NameIsHost n)
      | None \<Rightarrow>
          if out_of_range min_interval_ms max_interval_ms (ds_interval_ms st)
          then Some (IntervalRange (the (ds_interval_ms st)))
          else if out_of_range 10 30000 (ds_timeout_ms st) then Some (TimeoutRange (the (ds_timeout_ms st)))
          else if out_of_range 1 pmtu_max_payload (ds_packet_size st) then Some (SizeRange (the (ds_packet_size st)))
          else if (case ds_count st of None \<Rightarrow> False | Some n \<Rightarrow> n < 0) then Some (CountNegative (the (ds_count st)))
          else case (case ds_duration st of None \<Rightarrow> Inr 0 | Some raw \<Rightarrow> parse_non_negative_duration parse raw) of
            Inl e \<Rightarrow> Some e
          | Inr _ \<Rightarrow>
              if out_of_range 1 65535 (ds_web_port st) then Some (WebPortRange (the (ds_web_port st)))
              else if ds_ipv4_only st = Some True \<and> ds_ipv6_only st = Some True then Some BothFamilies
              else if (case ds_dns_server st of None \<Rightarrow> False | Some s \<Rightarrow> \<not> dns_server_ok s)
                   then Some (DnsServerInvalid (the (ds_dns_server st)))
              else if ds_thresholds st = None then None
              else map_option ThresholdsInvalid
                (thresholds_validate (overlay_thresholds_doc default_thresholds (\<lambda>_. False) (ds_thresholds st))))))"

definition validate_binding :: "(string \<Rightarrow> bool) \<Rightarrow> config \<Rightarrow> config_error option" where
  "validate_binding iface_exists c =
     (case (if cf_source_addr c = [] then None
            else case parse_addr (cf_source_addr c) of
              None \<Rightarrow> Some SourceNotAddress
            | Some a \<Rightarrow>
                if cf_ipv4_only c \<and> \<not> is_v4 a \<or> cf_ipv6_only c \<and> is_v4 a then Some SourceFamily else None) of
        Some e \<Rightarrow> Some e
      | None \<Rightarrow> if cf_iface_name c \<noteq> [] \<and> \<not> iface_exists (cf_iface_name c)
                then Some InterfaceUnknown else None)"

text \<open>What \<open>validateMergedHosts\<close> hands to the document check: the merged values, nothing else.\<close>

definition merged_settings :: "(duration \<Rightarrow> string) \<Rightarrow> config \<Rightarrow> doc_settings" where
  "merged_settings show_duration c = \<lparr>
     ds_interval_ms = Some (cf_interval_ms c), ds_timeout_ms = Some (cf_timeout_ms c),
     ds_iface_name = None, ds_source_addr = None,
     ds_packet_size = Some (cf_packet_size c), ds_count = Some (cf_count c),
     ds_mtu_enabled = None, ds_trace = None, ds_asn_enabled = None, ds_ptr_enabled = None,
     ds_ipv4_only = Some (cf_ipv4_only c), ds_ipv6_only = Some (cf_ipv6_only c),
     ds_port_specs = [], ds_http_urls = [], ds_mtr = None,
     ds_dns_server = Some (cf_dns_server c), ds_resolve_all = None,
     ds_duration = Some (show_duration (cf_duration c)), ds_web = None,
     ds_web_port = Some (cf_web_port c), ds_thresholds = None,
     ds_health_failures = None, ds_health_recoveries = None, ds_health_window = None,
     ds_http_follow_redirects = None \<rparr>"

definition validate_merged_hosts ::
  "(string \<Rightarrow> duration option) \<Rightarrow> (duration \<Rightarrow> string) \<Rightarrow> (string \<Rightarrow> url option) \<Rightarrow> (string \<Rightarrow> bool) \<Rightarrow>
   config \<Rightarrow> host_entry list \<Rightarrow> hosts_group list \<Rightarrow> string list \<Rightarrow> config_error option" where
  "validate_merged_hosts parse show_duration parse_url iface_exists c hosts groups cli =
     (let doc = \<lparr> hd_hosts = hosts @ map (\<lambda>h. empty_entry \<lparr> en_host := h \<rparr>) cli, hd_include = [],
                  hd_groups = groups, hd_settings = merged_settings show_duration c \<rparr>;
          policy = (config_policy c) \<lparr> hp_failures := cf_health_failures c,
                     hp_recoveries := cf_health_recoveries c, hp_window := cf_health_window c \<rparr>
      in case validate_hosts_doc parse doc of
           Some e \<Rightarrow> Some e
         | None \<Rightarrow>
             if cf_trace c \<and> cf_mtr c then Some TraceAndMtr
             else case thresholds_validate (cf_thresholds c) of
               Some e \<Rightarrow> Some (ThresholdsInvalid e)
             | None \<Rightarrow> (case policy_validate policy of
               Some e \<Rightarrow> Some (PolicyInvalid e)
             | None \<Rightarrow> (case http_options parse_url c of
               Inl e \<Rightarrow> Some e
             | Inr _ \<Rightarrow> (case find (\<lambda>raw. parse_port_spec raw = None) (cf_port_specs c) of
               Some raw \<Rightarrow> Some (PortInvalid raw)
             | None \<Rightarrow> validate_binding iface_exists c))))"


section \<open>Changes that need a rebuild\<close>

text \<open>\<open>probeConfig\<close> and \<open>diffProbeConfig\<close>: the names of the settings that differ, in field order.\<close>

definition probe_config :: "config \<Rightarrow> config" where
  "probe_config c = c \<lparr> cf_trace := route_enabled c, cf_mtr := False,
     cf_thresholds := hp_thresholds zero_policy,
     cf_health_failures := 0, cf_health_recoveries := 0, cf_health_window := 0,
     cf_web_enabled := False, cf_web_port := 0, cf_check_config := False, cf_duration := 0 \<rparr>"

definition diff_probe_config :: "config \<Rightarrow> config \<Rightarrow> string list" where
  "diff_probe_config old new =
     (let a = probe_config old; b = probe_config new in
      map fst (filter snd
       [(''interval'', cf_interval_ms a \<noteq> cf_interval_ms b), (''timeout'', cf_timeout_ms a \<noteq> cf_timeout_ms b),
        (''hostsFile'', cf_hosts_file a \<noteq> cf_hosts_file b), (''interface'', cf_iface_name a \<noteq> cf_iface_name b),
        (''source'', cf_source_addr a \<noteq> cf_source_addr b), (''size'', cf_packet_size a \<noteq> cf_packet_size b),
        (''count'', cf_count a \<noteq> cf_count b), (''discovery-mtu'', cf_mtu_enabled a \<noteq> cf_mtu_enabled b),
        (''traceroute/mtr'', cf_trace a \<noteq> cf_trace b), (''asn'', cf_asn_enabled a \<noteq> cf_asn_enabled b),
        (''ptr'', cf_ptr_enabled a \<noteq> cf_ptr_enabled b), (''ipv4'', cf_ipv4_only a \<noteq> cf_ipv4_only b),
        (''ipv6'', cf_ipv6_only a \<noteq> cf_ipv6_only b), (''port'', cf_port_specs a \<noteq> cf_port_specs b),
        (''http'', cf_http_urls a \<noteq> cf_http_urls b), (''mtr'', cf_mtr a \<noteq> cf_mtr b),
        (''dns-server'', cf_dns_server a \<noteq> cf_dns_server b), (''resolve-all'', cf_resolve_all a \<noteq> cf_resolve_all b),
        (''duration'', cf_duration a \<noteq> cf_duration b), (''webEnabled'', cf_web_enabled a \<noteq> cf_web_enabled b),
        (''webPort'', cf_web_port a \<noteq> cf_web_port b), (''thresholds'', cf_thresholds a \<noteq> cf_thresholds b),
        (''healthFailures'', cf_health_failures a \<noteq> cf_health_failures b),
        (''healthRecoveries'', cf_health_recoveries a \<noteq> cf_health_recoveries b),
        (''healthWindow'', cf_health_window a \<noteq> cf_health_window b),
        (''checkConfig'', cf_check_config a \<noteq> cf_check_config b),
        (''http-follow-redirects'', cf_http_follow_redirects a \<noteq> cf_http_follow_redirects b)]))"

text \<open>\<open>checkWebReloadDrift\<close> and \<open>checkPortReloadDrift\<close>: whether the reload is warned about.\<close>

definition web_reload_drift :: "config \<Rightarrow> config \<Rightarrow> bool" where
  "web_reload_drift active reloaded =
     (\<not> (cf_web_enabled active = cf_web_enabled reloaded \<and>
          (\<not> cf_web_enabled active \<or> cf_web_port active = cf_web_port reloaded)))"

definition port_reload_drift :: "string list \<Rightarrow> string list \<Rightarrow> bool" where
  "port_reload_drift active reloaded = (active \<noteq> reloaded)"

section \<open>Properties\<close>

lemma sync_field_idem [simp]:
  "sync_field changed f v (sync_field changed f v cur) = sync_field changed f v cur"
  "sync_slice changed f xs (sync_slice changed f xs ys) = sync_slice changed f xs ys"
  by (simp_all add: sync_field_def sync_slice_def)

lemma sync_field_given [simp]:
  "changed f \<Longrightarrow> sync_field changed f v cur = cur" "changed f \<Longrightarrow> sync_slice changed f xs ys = ys"
  by (simp_all add: sync_field_def sync_slice_def)

lemma overlay_idem: "overlay_thresholds_doc (overlay_thresholds_doc b ch th) ch th = overlay_thresholds_doc b ch th"
  by (cases th) (simp_all add: overlay_thresholds_doc_def)

lemma overlay_given: "(\<And>f. changed f) \<Longrightarrow> overlay_thresholds_doc b changed th = b"
  by (cases th) (simp_all add: overlay_thresholds_doc_def)

lemma sync_duration_idem:
  "sync_duration parse changed f v cur = Inr d \<Longrightarrow> sync_duration parse changed f v d = Inr d"
  by (auto simp: sync_duration_def split: if_splits)

text \<open>Settings have one precedence, flags over file over defaults: a setting given on the command
  line is never changed by the hosts file, a duration from the file is never negative, the two
  family switches are never both on, and applying the same file again changes nothing.\<close>

theorem settings_precedence:
  assumes "apply_doc_to_cfg parse c changed d = Inr c'"
  shows "apply_doc_to_cfg parse c' changed d = Inr c' \<and>
    ((\<forall>f. changed f) \<longrightarrow> c' = c) \<and> \<not> (cf_ipv4_only c' \<and> cf_ipv6_only c') \<and>
    (ds_duration d \<noteq> None \<and> \<not> changed ''duration'' \<longrightarrow> 0 \<le> cf_duration c') \<and>
    (changed ''interval'' \<longrightarrow> cf_interval_ms c' = cf_interval_ms c) \<and>
    (\<not> changed ''interval'' \<and> ds_interval_ms d \<noteq> None \<longrightarrow> cf_interval_ms c' = the (ds_interval_ms d))"
proof -
  let ?c1 = "sync_fields c changed d"
  obtain w t where w: "sync_duration parse changed ''health-window'' (ds_health_window d) (cf_health_window ?c1) = Inr w"
    and t: "sync_duration parse changed ''duration'' (ds_duration d) (cf_duration ?c1) = Inr t"
    and c': "c' = ?c1 \<lparr> cf_health_window := w, cf_duration := t,
          cf_thresholds := overlay_thresholds_doc (cf_thresholds ?c1) changed (ds_thresholds d) \<rparr>"
    and fam: "\<not> (cf_ipv4_only c' \<and> cf_ipv6_only c')"
    using assms by (auto simp: apply_doc_to_cfg_def Let_def split: sum.splits if_splits)
  have again: "sync_fields c' changed d = c'"
    unfolding c' sync_fields_def by simp
  have "apply_doc_to_cfg parse c' changed d = Inr c'"
  proof -
    have "cf_health_window c' = w" "cf_duration c' = t" by (simp_all add: c')
    moreover have "overlay_thresholds_doc (cf_thresholds c') changed (ds_thresholds d) = cf_thresholds c'"
      by (simp add: c' overlay_idem)
    ultimately show ?thesis
      using sync_duration_idem [OF w] sync_duration_idem [OF t] fam
      by (simp add: apply_doc_to_cfg_def again Let_def)
  qed
  moreover have "c' = c" if "\<forall>f. changed f"
    using that w t by (simp add: c' sync_fields_def sync_duration_def overlay_given)
  moreover have "0 \<le> cf_duration c'" if "ds_duration d \<noteq> None" "\<not> changed ''duration''"
    using that t by (auto simp: c' sync_duration_def parse_non_negative_duration_def split: option.splits if_splits)
  ultimately show ?thesis using fam by (auto simp: c' sync_fields_def sync_field_def)
qed

text \<open>The defaults of the command line.\<close>

definition default_config :: config where
  "default_config = \<lparr> cf_interval_ms = 1000, cf_timeout_ms = 1000, cf_hosts_file = [], cf_iface_name = [],
     cf_source_addr = [], cf_packet_size = 56, cf_count = 0, cf_mtu_enabled = False, cf_trace = False,
     cf_asn_enabled = False, cf_ptr_enabled = False, cf_ipv4_only = False, cf_ipv6_only = False,
     cf_port_specs = [], cf_http_urls = [], cf_mtr = False, cf_dns_server = [], cf_resolve_all = False,
     cf_duration = 0, cf_web_enabled = False, cf_web_port = 8080, cf_thresholds = default_thresholds,
     cf_health_failures = 3, cf_health_recoveries = 2, cf_health_window = minute,
     cf_check_config = False, cf_http_follow_redirects = True \<rparr>"

theorem settings_precedence_witness:
  "apply_doc_to_cfg (\<lambda>_. None) (default_config \<lparr> cf_interval_ms := 500 \<rparr>) (\<lambda>_. False)
     (merged_settings (\<lambda>_. ''0s'') default_config \<lparr> ds_duration := None \<rparr>) = Inr default_config \<and>
   \<not> (cf_ipv4_only default_config \<and> cf_ipv6_only default_config)"
proof -
  have e: "apply_doc_to_cfg (\<lambda>_. None) (default_config \<lparr> cf_interval_ms := 500 \<rparr>) (\<lambda>_. False)
     (merged_settings (\<lambda>_. ''0s'') default_config \<lparr> ds_duration := None \<rparr>) = Inr default_config"
    by (simp add: apply_doc_to_cfg_def sync_fields_def sync_field_def sync_slice_def sync_duration_def
        merged_settings_def overlay_thresholds_doc_def default_config_def)
  from settings_precedence [OF this] e show ?thesis by blast
qed

text \<open>The listed differences are all there are.\<close>

lemma diff_probe_config_empty:
  "diff_probe_config old new = [] \<longleftrightarrow>
   probe_config old = probe_config new"
proof
  assume "diff_probe_config old new = []"
  then show "probe_config old = probe_config new"
    unfolding diff_probe_config_def Let_def filter_empty_conv map_is_Nil_conv
    by (intro config.equality) (simp_all only: list.set ball_simps insert_iff snd_conv simp_thms, simp_all)
qed (simp add: diff_probe_config_def Let_def)


section \<open>Accepted configurations\<close>

lemma first_bad_None: "first_bad ok i xs = None \<longleftrightarrow> list_all ok xs"
  by (induction xs arbitrary: i) auto

lemma validate_groups_None:
  "validate_groups gi gs = None \<Longrightarrow> g \<in> set gs \<Longrightarrow>
   hg_hosts g \<noteq> [] \<and> list_all (\<lambda>h. trim_space (en_host h) \<noteq> []) (hg_hosts g)"
  by (induction gi gs rule: validate_groups.induct)
    (auto simp: validate_host_entries_def first_bad_None split: if_splits option.splits)

lemma parse_port_spec_range:
  "parse_port_spec raw = Some (p, proto) \<Longrightarrow> 1 \<le> p \<and> p \<le> 65535 \<and> (proto = ''tcp'' \<or> proto = ''udp'')"
  by (auto simp: parse_port_spec_def Let_def split: option.splits if_splits)

lemma out_of_range_Some: "\<not> out_of_range lo hi (Some x) \<longleftrightarrow> lo \<le> x \<and> x \<le> hi"
  by (auto simp: out_of_range_def)

lemma validate_hosts_doc_None:
  assumes "validate_hosts_doc parse d = None"
  shows "list_all (\<lambda>h. trim_space (en_host h) \<noteq> []) (hd_hosts d)" "validate_groups 0 (hd_groups d) = None"
    "validate_host_names (hd_hosts d) (hd_groups d) = None"
    "length (hd_hosts d) + sum_list (map (\<lambda>g. length (hg_hosts g)) (hd_groups d)) \<noteq> 0"
    "\<not> out_of_range min_interval_ms max_interval_ms (ds_interval_ms (hd_settings d))"
    "\<not> out_of_range 10 30000 (ds_timeout_ms (hd_settings d))"
    "\<not> out_of_range 1 pmtu_max_payload (ds_packet_size (hd_settings d))"
    "\<not> (case ds_count (hd_settings d) of None \<Rightarrow> False | Some n \<Rightarrow> n < 0)"
    "\<not> out_of_range 1 65535 (ds_web_port (hd_settings d))"
    "\<not> (ds_ipv4_only (hd_settings d) = Some True \<and> ds_ipv6_only (hd_settings d) = Some True)"
    "\<not> (case ds_dns_server (hd_settings d) of None \<Rightarrow> False | Some s \<Rightarrow> \<not> dns_server_ok s)"
  using assms unfolding validate_hosts_doc_def Let_def
  by (auto simp: validate_host_entries_def first_bad_None split: if_splits option.splits sum.splits)


lemma default_config_accepted:
  "validate_merged_hosts (\<lambda>_. Some 0) (\<lambda>_. ''0s'') (\<lambda>_. None) (\<lambda>_. False) default_config [] [] [''a''] = None"
  "policy_validate (config_policy default_config) = None"
proof -
  have t: "trim_space ''a'' = ''a''" by code_simp
  have th: "thresholds_validate default_thresholds = None" by (simp add: validate_iff default_thresholds_ok)
  have f: "cf_interval_ms default_config = 1000" "cf_timeout_ms default_config = 1000"
    "cf_packet_size default_config = 56" "cf_count default_config = 0" "cf_duration default_config = 0"
    "cf_web_port default_config = 8080" "\<not> cf_ipv4_only default_config" "\<not> cf_ipv6_only default_config"
    "cf_dns_server default_config = []" "\<not> cf_trace default_config" "cf_thresholds default_config = default_thresholds"
    "cf_health_failures default_config = 3" "cf_health_recoveries default_config = 2"
    "cf_health_window default_config = minute" "cf_http_urls default_config = []"
    "cf_port_specs default_config = []" "cf_source_addr default_config = []" "cf_iface_name default_config = []"
    by (simp_all add: default_config_def)
  have "rtt_crit default_thresholds \<noteq> 0" by (simp add: default_thresholds_def)
  then have h: "config_policy default_config = default_health_policy"
    by (simp add: config_policy_def f default_health_policy_def)
  show "validate_merged_hosts (\<lambda>_. Some 0) (\<lambda>_. ''0s'') (\<lambda>_. None) (\<lambda>_. False) default_config [] [] [''a''] = None"
    by (simp add: validate_merged_hosts_def validate_hosts_doc_def validate_host_entries_def t
        validate_host_names_def empty_entry_def merged_settings_def out_of_range_def
        min_interval_ms_def max_interval_ms_def pmtu_max_payload_def parse_non_negative_duration_def
        dns_server_ok_def f h th policy_validate_def default_health_policy_def
        http_options_def validate_binding_def)
  show "policy_validate (config_policy default_config) = None"
    by (simp add: h policy_validate_def default_health_policy_def th)
qed


end
