(* ===== verification/Pinger_Life.thy ===== *)
theory Pinger_Life
  imports Echo_Dispatch
begin

text \<open>
  The life of a pinger instance (internal/pinger/pinger.go, lifetime.go) as far as the supervisor
  sees it: creation, \<open>Start\<close> with the identifiers of the initial targets, \<open>Stop\<close> and \<open>Wait\<close>, and the
  interface through which targets join and leave a running instance (cmd/main/live_targets.go,
  \<open>dynamicPinger\<close> and \<open>registerTargets\<close>). Sockets are an argument.
\<close>

section \<open>Start, stop and wait\<close>

text \<open>\<open>NewPingerWithOptions\<close> with the session's allocator; \<open>pid\<close> is the process identifier.\<close>

definition new_registry :: "id_allocator \<Rightarrow> int \<Rightarrow> registry" where
  "new_registry ids pid = \<lparr> rg_stopped = False, rg_ids = Some ids, rg_base_id = pid mod 65536,
     rg_next_worker = 0, rg_workers = (\<lambda>_. None), rg_chans = (\<lambda>_. None), rg_addresses = (\<lambda>_. None),
     rg_active = 0, rg_event = False \<rparr>"

datatype start_error = NoSocket | NoStartIdentifier id_error

text \<open>The identifiers of the whole initial set, before any worker starts.\<close>

fun allocate_ids :: "nat list \<Rightarrow> registry \<Rightarrow> registry \<times> (id_error + int list)" where
  "allocate_ids [] r = (r, Inr [])"
| "allocate_ids (t # ts) r =
     (case allocate_worker_id r of
        (r1, Inl e) \<Rightarrow> (r1, Inl e)
      | (r1, Inr i) \<Rightarrow>
          (case allocate_ids ts r1 of (r2, Inl e) \<Rightarrow> (r2, Inl e) | (r2, Inr is) \<Rightarrow> (r2, Inr (i # is))))"

definition pinger_start :: "bool \<Rightarrow> nat list \<Rightarrow> registry \<Rightarrow> registry \<times> start_error option" where
  "pinger_start has_socket targets r =
     (if \<not> has_socket then (r, Some NoSocket)
      else case allocate_ids targets r of
        (r1, Inl e) \<Rightarrow> (r1, Some (NoStartIdentifier e))
      | (r1, Inr ids) \<Rightarrow> (fold (\<lambda>(t, i). launch_target t i) (zip targets ids) r1, None))"

definition pinger_stop :: "registry \<Rightarrow> registry" where
  "pinger_stop r = r \<lparr> rg_stopped := True \<rparr>"

text \<open>\<open>Wait\<close>: every worker that still runs returns.\<close>

definition pinger_wait :: "registry \<Rightarrow> registry" where
  "pinger_wait r = (worker_returned ^^ nat (rg_active r)) r"

lemma allocate_worker_id_same [simp]:
  "rg_workers (fst (allocate_worker_id r)) = rg_workers r"
  "rg_stopped (fst (allocate_worker_id r)) = rg_stopped r"
  "rg_active (fst (allocate_worker_id r)) = rg_active r"
  by (auto simp: allocate_worker_id_def Let_def split: option.split prod.split)

lemma allocate_ids_same:
  "rg_workers (fst (allocate_ids ts r)) = rg_workers r \<and>
   rg_stopped (fst (allocate_ids ts r)) = rg_stopped r \<and>
   rg_active (fst (allocate_ids ts r)) = rg_active r \<and>
   (\<forall>is. snd (allocate_ids ts r) = Inr is \<longrightarrow> length is = length ts)"
proof (induction ts arbitrary: r)
  case (Cons t ts)
  obtain r1 x where a: "allocate_worker_id r = (r1, x)" by fastforce
  then have "rg_workers r1 = rg_workers r" "rg_stopped r1 = rg_stopped r" "rg_active r1 = rg_active r"
    using allocate_worker_id_same [of r] by simp_all
  with Cons.IH [of r1] a show ?case
    by (auto split: sum.split prod.split)
qed simp

lemma launch_target_same [simp]:
  "rg_workers (launch_target t i r) = (rg_workers r)(t \<mapsto> i)"
  "rg_stopped (launch_target t i r) = rg_stopped r" "rg_active (launch_target t i r) = rg_active r + 1"
  by (simp_all add: launch_target_def)

lemma launch_all_dom:
  "length is = length ts \<Longrightarrow>
   dom (rg_workers (fold (\<lambda>(t, i). launch_target t i) (zip ts is) r)) = dom (rg_workers r) \<union> set ts"
proof (induction ts arbitrary: "is" r)
  case (Cons t ts)
  then obtain i js where "is = i # js" "length js = length ts" by (cases "is") auto
  with Cons.IH [of js "launch_target t i r"] show ?case by auto
qed simp

lemma pinger_start_members:
  "snd (pinger_start has_socket ts r) = None \<Longrightarrow>
   dom (rg_workers (fst (pinger_start has_socket ts r))) = dom (rg_workers r) \<union> set ts"
proof -
  assume ok: "snd (pinger_start has_socket ts r) = None"
  obtain r1 x where a: "allocate_ids ts r = (r1, x)" by fastforce
  with ok obtain ids where x: "x = Inr ids" by (cases x) (auto simp: pinger_start_def split: if_splits)
  have "rg_workers r1 = rg_workers r" "length ids = length ts"
    using allocate_ids_same [of ts r] a x by simp_all
  then show ?thesis using ok a x launch_all_dom [of ids ts r1]
    by (simp add: pinger_start_def split: if_splits)
qed

lemma worker_returned_members [simp]: "rg_workers (worker_returned r) = rg_workers r"
  by (simp add: worker_returned_def Let_def)

lemma pinger_wait_members: "rg_workers (pinger_wait r) = rg_workers r"
proof -
  have "rg_workers ((worker_returned ^^ n) r) = rg_workers r" for n by (induction n) simp_all
  then show ?thesis by (simp add: pinger_wait_def)
qed

lemma pinger_wait_finished: "0 \<le> rg_active r \<Longrightarrow> workers_finished (pinger_wait r)"
proof -
  have "rg_active ((worker_returned ^^ n) r) = rg_active r - int n" for n
    by (induction n) (simp_all add: worker_returned_def Let_def)
  then show "0 \<le> rg_active r \<Longrightarrow> ?thesis" by (simp add: workers_finished_def pinger_wait_def)
qed

section \<open>Live membership\<close>

text \<open>\<open>registerTargets\<close>, over the two operations of the interface: additions in order, and when one
  fails the earlier ones are removed again.\<close>

fun register_targets ::
  "(nat \<Rightarrow> string \<Rightarrow> 'p \<Rightarrow> 'p \<times> 'e option) \<Rightarrow> (nat \<Rightarrow> 'p \<Rightarrow> 'p) \<Rightarrow> nat list \<Rightarrow> (nat \<times> string) list \<Rightarrow> 'p \<Rightarrow>
   'p \<times> 'e option" where
  "register_targets add remove before [] p = (p, None)"
| "register_targets add remove before ((t, address) # rest) p =
     (case add t address p of
        (p1, Some e) \<Rightarrow> (fold remove before p1, Some e)
      | (p1, None) \<Rightarrow> register_targets add remove (before @ [t]) rest p1)"

text \<open>What the supervisor relies on: a target that was added is a member, a failed addition changes
  no membership, and a removed target is no member.\<close>

locale live_membership =
  fixes members :: "'p \<Rightarrow> nat set"
    and add :: "nat \<Rightarrow> string \<Rightarrow> 'p \<Rightarrow> 'p \<times> 'e option"
    and remove :: "nat \<Rightarrow> 'p \<Rightarrow> 'p"
  assumes add_ok: "snd (add t a p) = None \<Longrightarrow> t \<notin> members p \<and> members (fst (add t a p)) = insert t (members p)"
    and add_failed: "snd (add t a p) \<noteq> None \<Longrightarrow> members (fst (add t a p)) = members p"
    and remove_members: "members (remove t p) = members p - {t}"
begin

lemma fold_remove: "members (fold remove ts p) = members p - set ts"
  by (induction ts arbitrary: p) (auto simp: remove_members)

text \<open>Registration is all or nothing.\<close>

lemma register_loop:
  assumes "set before \<subseteq> members p"
  shows "case register_targets add remove before ts p of
    (q, None) \<Rightarrow> members q = members p \<union> fst ` set ts \<and> distinct (map fst ts) \<and> fst ` set ts \<inter> members p = {}
  | (q, Some e) \<Rightarrow> members q = members p - set before"
  using assms
proof (induction ts arbitrary: before p)
  case (Cons x ts)
  obtain t a where x: "x = (t, a)" by fastforce
  obtain p1 e where p1: "add t a p = (p1, e)" by fastforce
  show ?case
  proof (cases e)
    case None
    then have m: "t \<notin> members p" "members p1 = insert t (members p)" using add_ok [of t a p] p1 by simp_all
    then have "case register_targets add remove (before @ [t]) ts p1 of
      (q, None) \<Rightarrow> members q = members p1 \<union> fst ` set ts \<and> distinct (map fst ts) \<and> fst ` set ts \<inter> members p1 = {}
    | (q, Some e) \<Rightarrow> members q = members p1 - set (before @ [t])"
      by (intro Cons.IH) (use Cons.prems m in auto)
    then show ?thesis using x p1 None m Cons.prems by (auto split: prod.splits option.splits)
  next
    case (Some err)
    then have "members p1 = members p" using add_failed [of t a p] p1 by simp
    then show ?thesis using x p1 Some by (simp add: fold_remove)
  qed
qed auto

lemma register_all_or_nothing:
  "snd (register_targets add remove [] ts p) = None \<Longrightarrow>
     members (fst (register_targets add remove [] ts p)) = members p \<union> fst ` set ts"
  "snd (register_targets add remove [] ts p) \<noteq> None \<Longrightarrow>
     members (fst (register_targets add remove [] ts p)) = members p"
  using register_loop [of "[]" p ts] by (auto split: prod.splits option.splits)

end

interpretation pinger: live_membership "\<lambda>r. dom (rg_workers r)" add_target "\<lambda>t. remove_target t (running t)"
  for running
proof
  fix t a and p :: registry
  obtain r1 x where al: "allocate_worker_id p = (r1, x)" by fastforce
  then have w: "rg_workers r1 = rg_workers p" using allocate_worker_id_same(1) [of p] by simp
  show "snd (add_target t a p) = None \<Longrightarrow>
      t \<notin> dom (rg_workers p) \<and> dom (rg_workers (fst (add_target t a p))) = insert t (dom (rg_workers p))"
    using al w by (auto simp: add_target_def split: if_splits sum.splits)
  show "snd (add_target t a p) \<noteq> None \<Longrightarrow> dom (rg_workers (fst (add_target t a p))) = dom (rg_workers p)"
    using al w by (auto simp: add_target_def split: if_splits sum.splits)
  show "dom (rg_workers (remove_target t (running t) p)) = dom (rg_workers p) - {t}"
    by (auto simp: remove_target_def Let_def split: option.split if_splits)
qed

end
