(* ===== verification/Checkers.thy ===== *)
theory Checkers
  imports Target_View
begin

text \<open>
  The port and HTTP checkers (internal/pinger: portchecker.go, httpchecker.go, periodic.go): one
  loop per target and port, or per URL, that classifies the outcome of a connection and records
  it. The connection attempts are arguments; a \<open>net.Error\<close> is given by what the code asks of it.
\<close>

section \<open>Periodic checks\<close>

datatype periodic_event = Tick | Done

text \<open>\<open>runPeriodic\<close>: a check at once, then one per tick until the context is done.\<close>

fun run_periodic :: "('s \<Rightarrow> 's) \<Rightarrow> periodic_event list \<Rightarrow> 's \<Rightarrow> 's" where
  "run_periodic chk [] s = chk s"
| "run_periodic chk (e # es) s = (case e of Done \<Rightarrow> chk s | Tick \<Rightarrow> run_periodic chk es (chk s))"

section \<open>Outcome of a connection\<close>

record net_error =
  ne_timeout :: bool
  ne_canceled :: bool
  ne_deadline :: bool

definition is_timeout :: "net_error \<Rightarrow> bool" where
  "is_timeout e = ne_timeout e"

definition check_tcp :: "net_error option \<Rightarrow> duration \<Rightarrow> string \<times> duration" where
  "check_tcp dial rtt =
     (case dial of
        None \<Rightarrow> (''Open'', rtt)
      | Some e \<Rightarrow> if is_timeout e \<or> ne_canceled e \<or> ne_deadline e then (''Filtered'', rtt)
                  else (''Closed'', rtt))"

record udp_attempt =
  ua_dial_failed :: bool
  ua_deadline_failed :: bool
  ua_write_failed :: bool
  ua_read :: "net_error option"

definition check_udp :: "udp_attempt \<Rightarrow> duration \<Rightarrow> string \<times> duration" where
  "check_udp a rtt =
     (if ua_dial_failed a then (''Error'', 0)
      else if ua_deadline_failed a then (''Error'', 0)
      else if ua_write_failed a then (''Error'', 0)
      else case ua_read a of
             None \<Rightarrow> (''Open'', rtt)
           | Some e \<Rightarrow> if is_timeout e then (''Open|Filtered'', rtt) else (''Closed'', rtt))"

section \<open>Port checks of a target\<close>

type_synonym port_spec = "int \<times> string"

definition new_port_results :: "port_spec list \<Rightarrow> port_check list" where
  "new_port_results specs = map (\<lambda>(port, proto). new_port_check port proto) specs"

text \<open>
  One \<open>check\<close> of the port with index \<open>i\<close>: whether the context was done before and after the
  attempt, and the attempt under either protocol. A specification has one of the two protocols
  (\<open>parse_port_spec\<close>); for any other the status would be empty.
\<close>

record attempt =
  at_done_before :: bool
  at_done_after :: bool
  at_tcp :: "net_error option"
  at_udp :: udp_attempt
  at_rtt :: duration

definition attempt_status :: "string \<Rightarrow> attempt \<Rightarrow> string \<times> duration" where
  "attempt_status proto a =
     (if proto = ''tcp'' then check_tcp (at_tcp a) (at_rtt a)
      else if proto = ''udp'' then check_udp (at_udp a) (at_rtt a)
      else ([], 0))"

definition port_event :: "port_spec \<Rightarrow> string \<Rightarrow> string \<Rightarrow> string" where
  "port_event spec old new =
     int_str (fst spec) @ ''/'' @ snd spec @ '': '' @ old @ '' '' @ utf8_arrow @ '' '' @ new"

definition port_check_once :: "clock \<Rightarrow> port_spec \<Rightarrow> nat \<Rightarrow> attempt \<Rightarrow> target_stats \<Rightarrow> target_stats" where
  "port_check_once clk spec i a t =
     (if at_done_before a then t
      else if ts_ip t = [] then t
      else case attempt_status (snd spec) a of
        (status, rtt) \<Rightarrow>
          if at_done_after a then t
          else
            let previous = pc_status (ts_port_results t ! i);
                t' = t \<lparr> ts_port_results :=
                  (ts_port_results t)[i := port_set_result (clk 0) (ts_port_results t ! i) status rtt] \<rparr>
            in if previous \<noteq> status
               then record_event (clk 1) ''port'' (port_event spec previous status) t'
               else t')"

definition max_dns_wait :: duration where "max_dns_wait = 5 * second"

text \<open>The wait of \<open>loop\<close> for an address: the polls give the address, the time and whether the
  context is done. The result says whether the checks start; None if the polls do not decide it.\<close>

fun wait_for_ip :: "gotime \<Rightarrow> (string \<times> gotime \<times> bool) list \<Rightarrow> bool option" where
  "wait_for_ip deadline [] = None"
| "wait_for_ip deadline ((ip, now, done) # polls) =
     (if ip = [] \<and> now < deadline then (if done then Some False else wait_for_ip deadline polls)
      else Some True)"

text \<open>
  The checker: its ports and the targets that have a run. \<open>NewPortChecker\<close> gives every target
  fresh results; \<open>AddTarget\<close> does so for one, and \<open>launchTarget\<close> starts no second run.
\<close>

record port_checker =
  pk_specs :: "port_spec list"
  pk_runs :: "nat list"

definition port_launch :: "nat \<Rightarrow> port_checker \<Rightarrow> port_checker" where
  "port_launch ident pk = (if ident \<in> set (pk_runs pk) then pk else pk \<lparr> pk_runs := pk_runs pk @ [ident] \<rparr>)"

definition new_port_checker :: "port_spec list \<Rightarrow> target_stats list \<Rightarrow> target_stats list \<times> port_checker" where
  "new_port_checker specs ts =
     (map (set_port_results (new_port_results specs)) ts, \<lparr> pk_specs = specs, pk_runs = [] \<rparr>)"

definition port_start :: "nat list \<Rightarrow> port_checker \<Rightarrow> port_checker" where
  "port_start ids pk = fold port_launch ids pk"

definition port_add :: "target_stats \<Rightarrow> port_checker \<Rightarrow> target_stats \<times> port_checker" where
  "port_add t pk = (set_port_results (new_port_results (pk_specs pk)) t, port_launch (ts_id t) pk)"

definition port_remove :: "nat \<Rightarrow> port_checker \<Rightarrow> port_checker" where
  "port_remove ident pk = pk \<lparr> pk_runs := removeAll ident (pk_runs pk) \<rparr>"

section \<open>HTTP checks\<close>

definition max_redirects :: nat where "max_redirects = 10"

text \<open>\<open>checkRedirect\<close>: whether the client follows, after the requests already made.\<close>

definition check_redirect :: "bool \<Rightarrow> nat \<Rightarrow> bool" where
  "check_redirect follow via = (\<not> (\<not> follow \<or> via \<ge> max_redirects))"

text \<open>The responses the client sees until one is final; \<open>via\<close> requests were made before. A
  response is its status code and whether it redirects.\<close>

fun follow_redirects :: "bool \<Rightarrow> nat \<Rightarrow> (int \<times> bool) list \<Rightarrow> int option" where
  "follow_redirects follow via [] = None"
| "follow_redirects follow via ((code, redirects) # rs) =
     (if redirects \<and> check_redirect follow (via + 1) then follow_redirects follow (via + 1) rs
      else Some code)"

definition new_http_checks :: "string list \<Rightarrow> http_check list" where
  "new_http_checks urls = map new_http_check urls"

text \<open>One \<open>check\<close>: the context before, whether the request could be built, the response or an
  error, and the context after an error.\<close>

record http_attempt =
  ha_done_before :: bool
  ha_bad_request :: bool
  ha_response :: "int option"
  ha_done_after :: bool
  ha_rtt :: duration

definition http_check_once :: "gotime \<Rightarrow> http_attempt \<Rightarrow> http_check \<Rightarrow> http_check" where
  "http_check_once now a r =
     (if ha_done_before a then r
      else if ha_bad_request a then http_set_result now r 0 0 True
      else case ha_response a of
             None \<Rightarrow> if ha_done_after a then r else http_set_result now r 0 (ha_rtt a) True
           | Some code \<Rightarrow> http_set_result now r code (ha_rtt a) False)"

section \<open>Properties\<close>

definition port_statuses :: "string set" where
  "port_statuses = {''Checking...'', ''Open'', ''Closed'', ''Filtered'', ''Open|Filtered'', ''Error''}"

text \<open>The port results of a target belong to the ports checked and hold statuses the display knows.\<close>

definition port_results_ok :: "port_spec list \<Rightarrow> target_stats \<Rightarrow> bool" where
  "port_results_ok specs t =
     (map (\<lambda>r. (pc_port r, pc_protocol r)) (ts_port_results t) = specs \<and>
      (\<forall>r\<in>set (ts_port_results t). pc_status r \<in> port_statuses))"

lemma port_set_result_ids [simp]:
  "pc_port (port_set_result now r s rtt) = pc_port r" "pc_protocol (port_set_result now r s rtt) = pc_protocol r"
  by (simp_all add: port_set_result_def port_record_rtt_def Let_def)

lemma attempt_status_known:
  "proto = ''tcp'' \<or> proto = ''udp'' \<Longrightarrow> fst (attempt_status proto a) \<in> port_statuses"
  by (auto simp: attempt_status_def check_tcp_def check_udp_def port_statuses_def split: option.split)

lemma new_port_results_ok: "port_results_ok specs (set_port_results (new_port_results specs) t)"
  by (auto simp: port_results_ok_def set_port_results_def new_port_results_def o_def new_port_check_def
      port_statuses_def case_prod_unfold)

lemma record_event_ports:
  "ts_events (record_event_locked now k m (t \<lparr> ts_port_results := ps \<rparr>)) = ts_events (record_event_locked now k m t)"
  by (simp add: record_event_locked_def deliver_def Let_def split: option.split)

lemma map_update_same: "i < length xs \<Longrightarrow> f y = f (xs ! i) \<Longrightarrow> map f (xs[i := y]) = map f xs"
  by (simp add: map_update list_update_same_conv)

text \<open>C23: The results of a target's ports are typed by the checker's ports: fresh results are, and a
  check of any of them keeps them so, with only statuses the display knows. It records an event
  exactly when the status changed and leaves every other port, the ping counters and the judgment
  alone. A check whose context is done, before or after the connection, changes nothing.\<close>

theorem port_check_typed:
  assumes "port_results_ok specs t" and "i < length specs"
    and "snd (specs ! i) = ''tcp'' \<or> snd (specs ! i) = ''udp''"
    and "t' = port_check_once clk (specs ! i) i a t"
  shows "port_results_ok specs t' \<and>
    port_results_ok specs (set_port_results (new_port_results specs) t) \<and>
    (at_done_before a \<or> at_done_after a \<longrightarrow> t' = t) \<and>
    (\<forall>j. j \<noteq> i \<longrightarrow> ts_port_results t' ! j = ts_port_results t ! j) \<and>
    ts_sent t' = ts_sent t \<and> ts_recv t' = ts_recv t \<and> ts_loss t' = ts_loss t \<and> ts_health t' = ts_health t \<and>
    (let old = pc_status (ts_port_results t ! i); new = pc_status (ts_port_results t' ! i)
     in ts_events t' = (if old = new then ts_events t
          else ts_events (record_event (clk 1) ''port'' (port_event (specs ! i) old new) t)))"
proof -
  let ?r = "ts_port_results t ! i"
  obtain status rtt where st: "attempt_status (snd (specs ! i)) a = (status, rtt)" by fastforce
  have known: "status \<in> port_statuses" using attempt_status_known [OF assms(3), of a] st by simp
  have len: "length (ts_port_results t) = length specs"
    using assms(1) by (auto simp: port_results_ok_def dest: arg_cong [of _ _ length])
  define ps where "ps = (ts_port_results t)[i := port_set_result (clk 0) ?r status rtt]"
  have ok: "port_results_ok specs (t \<lparr> ts_port_results := ps \<rparr>)"
  proof -
    have "map (\<lambda>r. (pc_port r, pc_protocol r)) ps = map (\<lambda>r. (pc_port r, pc_protocol r)) (ts_port_results t)"
      unfolding ps_def by (rule map_update_same) (use assms(2) len in simp_all)
    moreover have "pc_status r \<in> port_statuses" if "r \<in> set ps" for r
    proof -
      from that have "r = port_set_result (clk 0) ?r status rtt \<or> r \<in> set (ts_port_results t)"
        using set_update_subset_insert [of "ts_port_results t" i] by (auto simp: ps_def)
      then show ?thesis using assms(1) known by (auto simp: port_results_ok_def port_set_result_fields)
    qed
    ultimately show ?thesis using assms(1) by (simp add: port_results_ok_def)
  qed
  show ?thesis
  proof (cases "at_done_before a \<or> ts_ip t = [] \<or> at_done_after a")
    case True
    then have "t' = t" using assms(4) st by (auto simp: port_check_once_def)
    then show ?thesis using assms(1) by (simp add: new_port_results_ok)
  next
    case False
    then have t': "t' = (if pc_status ?r \<noteq> status
        then record_event (clk 1) ''port'' (port_event (specs ! i) (pc_status ?r) status) (t \<lparr> ts_port_results := ps \<rparr>)
        else t \<lparr> ts_port_results := ps \<rparr>)"
      using assms(4) st by (simp add: port_check_once_def ps_def)
    then have p: "ts_port_results t' = ps" by (simp add: record_event_def)
    then have "pc_status (ts_port_results t' ! i) = status"
      using assms(2) len by (simp add: ps_def port_set_result_fields)
    moreover have "port_results_ok specs t'" using ok p by (simp add: port_results_ok_def)
    ultimately show ?thesis
      using False p t' by (auto simp: ps_def new_port_results_ok record_event_def record_event_ports)
  qed
qed

definition example_attempt :: attempt where
  "example_attempt = \<lparr> at_done_before = False, at_done_after = False, at_tcp = None,
     at_udp = \<lparr> ua_dial_failed = False, ua_deadline_failed = False, ua_write_failed = False, ua_read = None \<rparr>,
     at_rtt = 7 \<rparr>"

theorem port_check_typed_witness:
  "port_results_ok [(443, ''tcp'')] (port_check_once (\<lambda>_. 5) (443, ''tcp'') 0 example_attempt
     (set_port_results (new_port_results [(443, ''tcp'')]) (set_ip (\<lambda>_. 1) ''192.0.2.1'' (new_target_stats 1 0 ''h''))))"
  using port_check_typed [of "[(443, ''tcp'')]" _ 0 _ "\<lambda>_. 5" example_attempt, OF new_port_results_ok _ _ refl]
  by simp

text \<open>An HTTP check follows at most ten requests in all: with redirects enabled it judges the
  first response that does not redirect, or the tenth one, and without them the first response; a
  client that never redirects again is always judged.\<close>

theorem redirects_bounded:
  "follow_redirects False via ((code, r) # rs) = Some code \<and>
   follow_redirects True 0 (map (\<lambda>c. (c, True)) cs @ [(final, False)]) =
     Some (if length cs < max_redirects then final else cs ! (max_redirects - 1))"
proof -
  have "follow_redirects True via (map (\<lambda>c. (c, True)) cs @ [(final, False)]) =
      Some (if via + length cs < max_redirects then final else cs ! (max_redirects - 1 - via))"
    if "via < max_redirects" for via
    using that
  proof (induction cs arbitrary: via)
    case Nil
    then show ?case by simp
  next
    case (Cons c cs)
    show ?case
    proof (cases "via + 1 < max_redirects")
      case True
      then have "max_redirects - 1 - via = Suc (max_redirects - 1 - (via + 1))" by simp
      with Cons.IH [OF True] True show ?thesis by (simp add: check_redirect_def)
    next
      case False
      with Cons.prems have "max_redirects = via + 1" by simp
      then show ?thesis by (simp add: check_redirect_def)
    qed
  qed
  from this [of 0] show ?thesis by (simp add: check_redirect_def max_redirects_def)
qed

end
