(* ===== verification/Report_Rows.thy ===== *)
theory Report_Rows
  imports Export_Summary Netbox_Import
begin

text \<open>
  Snapshot reports (internal/report: report.go, csv.go): the data of a report, what it takes from
  a target, and the CSV form with one row per target. The CSV writer is encoding/csv with its
  defaults; the reader is the one of Netbox_Import, so that a written report can be read back.
  How a time is printed is an argument, because its zone belongs to the machine.
\<close>

section \<open>The report\<close>

record report_settings =
  st_interval_ms :: int
  st_timeout_ms :: int
  st_payload_bytes :: int
  st_interface :: string
  st_bound_source :: string
  st_source_ipv4 :: string
  st_source_ipv6 :: string
  st_network :: string
  st_count :: int
  st_duration_deadline :: "gotime option"
  st_pmtu_discovery :: bool
  st_duration :: duration
  st_dns_server :: string
  st_resolve_all :: bool
  st_traceroute :: bool
  st_mtr :: bool
  st_ports :: "string list"
  st_http_urls :: "string list"
  st_thresholds :: thresholds
  st_health_failures :: int
  st_health_recoveries :: int
  st_health_window_seconds :: float64
  st_http_follow_redirects :: bool

record report_port =
  rpt_port :: int
  rpt_protocol :: string
  rpt_status :: string
  rpt_last_rtt_ms :: float64
  rpt_min_rtt_ms :: float64
  rpt_avg_rtt_ms :: float64
  rpt_max_rtt_ms :: float64
  rpt_open :: int
  rpt_closed :: int
  rpt_last_change :: gotime

record report_target =
  rt_statistics :: target_summary
  rt_window_started_at :: gotime
  rt_group :: string
  rt_iface_mtu :: int
  rt_dns_server :: string
  rt_flap_count :: int
  rt_last_flap_at :: gotime
  rt_last_flap_desc :: string
  rt_ip_history_dropped :: int
  rt_ip_changes :: int
  rt_ip_history :: "ip_change list"
  rt_events :: "event list"
  rt_events_dropped :: int
  rt_removed_at :: "gotime option"
  rt_port_details :: "report_port list"

definition report_port_of :: "port_view \<Rightarrow> report_port" where
  "report_port_of p = \<lparr> rpt_port = pv_port p, rpt_protocol = pv_protocol p, rpt_status = pv_status p,
     rpt_last_rtt_ms = ms_of (pv_rtt p), rpt_min_rtt_ms = ms_of (pv_min p),
     rpt_avg_rtt_ms = ms_of (pv_avg p), rpt_max_rtt_ms = ms_of (pv_max p),
     rpt_open = pv_open p, rpt_closed = pv_closed p, rpt_last_change = pv_last_change p \<rparr>"

text \<open>\<open>NewTarget\<close>: everything from one reading of the target.\<close>

definition new_report_target :: "target_stats \<Rightarrow> report_target" where
  "new_report_target t =
     (case report_data t of (v, events, dropped) \<Rightarrow>
        (case tv_mtr_flap v of (flaps, flap_at, flap_desc) \<Rightarrow>
          \<lparr> rt_statistics = target_summary_from_view v, rt_window_started_at = tv_window_started_at v,
            rt_group = [], rt_iface_mtu = tv_iface_mtu v, rt_dns_server = tv_dns_server v,
            rt_flap_count = flaps, rt_last_flap_at = flap_at, rt_last_flap_desc = flap_desc,
            rt_ip_history_dropped = (if length (tv_ip_history v) > 0
               then max 0 (tv_ip_changes v + 1 - int (length (tv_ip_history v))) else 0),
            rt_ip_changes = tv_ip_changes v, rt_ip_history = tv_ip_history v,
            rt_events = events, rt_events_dropped = dropped, rt_removed_at = None,
            rt_port_details = map report_port_of (tv_port_results v) \<rparr>))"

record report =
  rr_schema_version :: int
  rr_collection_started_at :: gotime
  rr_session_started_at :: gotime
  rr_captured_at :: gotime
  rr_capture_completed_at :: gotime
  rr_state :: string
  rr_ping_finished :: bool
  rr_scope :: string
  rr_settings :: report_settings
  rr_targets :: "report_target list"
  rr_removed_targets :: "report_target list"
  rr_removed_dropped :: int
  rr_http_checks :: "http_summary list"

section \<open>Rows\<close>

definition formula_starts :: "char list" where
  "formula_starts = [CHR ''='', CHR ''+'', CHR ''-'', CHR ''@'', CHR 0x09, cret]"

definition spreadsheet_text :: "string \<Rightarrow> string" where
  "spreadsheet_text s =
     (if s \<noteq> [] \<and> hd s \<in> set formula_starts then CHR 0x27 # s else s)"

text \<open>\<open>strconv.FormatFloat(x, 'f', p, 64)\<close>.\<close>

fun format_fixed :: "nat \<Rightarrow> float64 \<Rightarrow> string" where
  "format_fixed p NaN = ''NaN''"
| "format_fixed p PosInf = ''+Inf''"
| "format_fixed p NegInf = ''-Inf''"
| "format_fixed p (Finite x) =
     (let n = round_even (\<bar>x\<bar> * 10 ^ p)
      in (if x < 0 then ''-'' else []) @ int_str (n div 10 ^ p) @ ''.'' @ pad0 p (n mod 10 ^ p))"

definition csv_time :: "(gotime \<Rightarrow> string) \<Rightarrow> gotime \<Rightarrow> string" where
  "csv_time show t = (if is_zero_time t then [] else show t)"

definition optional_size :: "int \<Rightarrow> string" where
  "optional_size n = (if n \<le> 0 then [] else int_str n)"

definition csv_header :: "string list" where
  "csv_header =
    [''captured_at'', ''target_id'', ''host'', ''ip'', ''group'', ''removed_at'',
     ''measurement_state'', ''health_status'', ''health_reason'',
     ''sent'', ''received'', ''lost'', ''loss_pct'', ''recent_loss_pct'', ''duplicates'', ''late_replies'',
     ''last_rtt_ms'', ''min_rtt_ms'', ''avg_rtt_ms'', ''max_rtt_ms'', ''jitter_ms'', ''last_ttl'',
     ''last_error'', ''last_loss_at'', ''last_reply_at'', ''started_at'', ''statistics_since'',
     ''asn'', ''org'', ''ptr'', ''route_changes'',
     ''path_mtu'', ''pmtu_payload'', ''pmtu_status'', ''pmtu_source'']"

definition csv_row :: "(gotime \<Rightarrow> string) \<Rightarrow> gotime \<Rightarrow> report_target \<Rightarrow> string list" where
  "csv_row show captured t =
     (let v = rt_statistics t;
          rtt = (\<lambda>ms. if te_recv v = 0 then [] else format_fixed 3 ms);
          ttl = (if te_recv v > 0 then int_str (te_last_ttl v) else []);
          removed = (case rt_removed_at t of None \<Rightarrow> zero_time | Some w \<Rightarrow> w);
          last_loss = (case te_last_loss_time v of None \<Rightarrow> zero_time | Some w \<Rightarrow> w);
          h = te_health v
      in [csv_time show captured, nat_str (te_id v), spreadsheet_text (te_host v), te_ip v,
          spreadsheet_text (rt_group t), csv_time show removed,
          te_measurement_state v, hw_status h, spreadsheet_text (hw_reason h),
          int_str (te_sent v), int_str (te_recv v), int_str (te_loss v),
          format_fixed 1 (te_loss_rate_pct v), format_fixed 1 (hw_recent_loss_pct h),
          int_str (te_duplicates v), int_str (te_late_replies v),
          rtt (te_last_rtt_ms v), rtt (te_min_rtt_ms v), rtt (te_avg_rtt_ms v), rtt (te_max_rtt_ms v),
          rtt (te_jitter_ms v), ttl,
          spreadsheet_text (te_last_error v), csv_time show last_loss,
          csv_time show (hw_last_reply_at h), csv_time show (te_started_at v),
          csv_time show (rt_window_started_at t),
          spreadsheet_text (te_asn v), spreadsheet_text (te_org v), spreadsheet_text (te_ptr v),
          int_str (rt_flap_count t),
          optional_size (te_path_mtu v), optional_size (te_pmtu v),
          spreadsheet_text (te_pmtu_status v), spreadsheet_text (te_pmtu_source v)])"

section \<open>Writing\<close>

text \<open>\<open>unicode.IsSpace\<close> of the first rune of a UTF-8 string.\<close>

definition space_starts :: "string list" where
  "space_starts =
     [[CHR 0x09], [CHR 0x0A], [CHR 0x0B], [CHR 0x0C], [CHR 0x0D], [CHR 0x20],
      [CHR 0xC2, CHR 0x85], [CHR 0xC2, CHR 0xA0], [CHR 0xE1, CHR 0x9A, CHR 0x80],
      [CHR 0xE2, CHR 0x80, CHR 0xA8], [CHR 0xE2, CHR 0x80, CHR 0xA9], [CHR 0xE2, CHR 0x80, CHR 0xAF],
      [CHR 0xE2, CHR 0x81, CHR 0x9F], [CHR 0xE3, CHR 0x80, CHR 0x80]] @
     map (\<lambda>k. [CHR 0xE2, CHR 0x80, char_of (128 + k :: nat)]) [0..<11]"

definition field_needs_quotes :: "string \<Rightarrow> bool" where
  "field_needs_quotes f =
     (f \<noteq> [] \<and>
      (f = [CHR 0x5C, CHR ''.''] \<or> newline \<in> set f \<or> cret \<in> set f \<or> dquote \<in> set f \<or> CHR '','' \<in> set f \<or>
       list_ex (\<lambda>p. is_prefix_of p f) space_starts))"

definition double_quotes :: "string \<Rightarrow> string" where
  "double_quotes f = concat (map (\<lambda>c. if c = dquote then [dquote, dquote] else [c]) f)"

definition csv_cell :: "string \<Rightarrow> string" where
  "csv_cell f = (if field_needs_quotes f then dquote # double_quotes f @ [dquote] else f)"

definition csv_line :: "string list \<Rightarrow> string" where
  "csv_line fs = str_join '','' (map csv_cell fs) @ [newline]"

definition report_rows :: "(gotime \<Rightarrow> string) \<Rightarrow> report \<Rightarrow> string list list" where
  "report_rows show r = csv_header # map (csv_row show (rr_captured_at r)) (rr_targets r @ rr_removed_targets r)"

definition report_csv :: "(gotime \<Rightarrow> string) \<Rightarrow> report \<Rightarrow> string" where
  "report_csv show r = utf8_bom @ concat (map csv_line (report_rows show r))"

section \<open>Reading back\<close>

text \<open>All records of an input, with the reader of the import.\<close>

function csv_records :: "string \<Rightarrow> nat \<Rightarrow> csv_error + string list list" where
  "csv_records data num =
     (case csv_read data num of
        None \<Rightarrow> Inr []
      | Some (_, Inl e, _, _) \<Rightarrow> Inl e
      | Some (_, Inr rec, rest, num') \<Rightarrow>
          (case csv_records rest num' of Inl e \<Rightarrow> Inl e | Inr recs \<Rightarrow> Inr (rec # recs)))"
  by pat_completeness auto
termination
  by (relation "measure (\<lambda>(data, num). length data)") (auto dest: csv_read_shorter)

declare csv_records.simps [simp del]

text \<open>The first line of an input that has a line feed, and the input behind it.\<close>

fun first_line :: "string \<Rightarrow> string" where
  "first_line [] = [newline]"
| "first_line (c # cs) = (if c = newline then [newline] else c # first_line cs)"

fun after_line :: "string \<Rightarrow> string" where
  "after_line [] = []"
| "after_line (c # cs) = (if c = newline then cs else after_line cs)"

lemma first_line_nonempty [simp]: "first_line d \<noteq> []"
  by (cases d) auto

lemma first_line_takeWhile: "first_line d = takeWhile (\<lambda>c. c \<noteq> newline) d @ [newline]"
  by (induction d) auto

lemma after_line_dropWhile: "after_line d = tl (dropWhile (\<lambda>c. c \<noteq> newline) d)"
  by (induction d) auto

lemma read_line_split:
  assumes "newline \<in> set d" "cret \<notin> set d"
  shows "read_line d = Some (first_line d, after_line d)"
proof -
  have "cret \<notin> set (takeWhile (\<lambda>c. c \<noteq> newline) d)" using assms(2) set_takeWhileD by fastforce
  then have "drop_cr (takeWhile (\<lambda>c. c \<noteq> newline) d) = takeWhile (\<lambda>c. c \<noteq> newline) d"
    by (metis drop_cr_def last_in_set)
  moreover have "dropWhile (\<lambda>c. c \<noteq> newline) d \<noteq> []" using assms(1) by (simp add: dropWhile_eq_Nil_conv)
  ultimately show ?thesis
    using assms(1) by (auto simp: read_line_def Let_def first_line_takeWhile after_line_dropWhile)
qed

lemma dquote_chars [simp]: "dquote \<noteq> newline" "newline \<noteq> dquote" "dquote \<noteq> CHR '',''" "CHR '','' \<noteq> dquote"
  "CHR '','' \<noteq> newline" "newline \<noteq> CHR '',''"
  by (simp_all add: dquote_def newline_def)

text \<open>Inside quotes the reader takes one character after the other.\<close>

lemma quoted_char:
  assumes "c \<noteq> dquote" "l \<noteq> []"
  shows "csv_fields True acc (c # l) rest n fs = csv_fields True (acc @ [c]) l rest n fs"
  using assms by (subst (1 2) csv_fields.simps) (simp add: Let_def split: option.split)

lemma quoted_quote:
  "csv_fields True acc (dquote # dquote # l) rest n fs = csv_fields True (acc @ [dquote]) l rest n fs"
  by (subst csv_fields.simps) (simp add: Let_def)

lemma quoted_newline:
  "newline \<in> set d \<Longrightarrow> cret \<notin> set d \<Longrightarrow>
   csv_fields True acc [newline] d n fs = csv_fields True (acc @ [newline]) (first_line d) (after_line d) (n + 1) fs"
  by (subst csv_fields.simps) (simp add: Let_def read_line_split)

lemma quoted_text:
  assumes "newline \<in> set d" "cret \<notin> set d" "cret \<notin> set f"
  shows "\<exists>n'. csv_fields True acc (first_line (double_quotes f @ d)) (after_line (double_quotes f @ d)) n fs =
    csv_fields True (acc @ f) (first_line d) (after_line d) n' fs"
  using assms(3)
proof (induction f arbitrary: acc n)
  case Nil
  then show ?case by (auto simp: double_quotes_def)
next
  case (Cons c f)
  let ?w = "double_quotes f @ d"
  have w: "newline \<in> set ?w" "cret \<notin> set ?w" using assms Cons.prems by (auto simp: double_quotes_def cret_def dquote_def)
  obtain n' where n': "\<And>m. m = n \<or> m = n + 1 \<Longrightarrow> \<exists>k. csv_fields True (acc @ [c]) (first_line ?w) (after_line ?w) m fs =
      csv_fields True (acc @ c # f) (first_line d) (after_line d) k fs"
    using Cons.IH [of "acc @ [c]"] Cons.prems by simp
  have "double_quotes (c # f) @ d = (if c = dquote then [dquote, dquote] else [c]) @ ?w"
    by (simp add: double_quotes_def)
  then show ?case
    using n' w by (cases "c = dquote"; cases "c = newline") (auto simp: quoted_quote quoted_newline quoted_char)
qed

lemma close_comma:
  "csv_fields True acc (dquote # CHR '','' # l) rest n fs = csv_fields False [] l rest n (fs @ [acc])"
  by (subst csv_fields.simps) (simp add: Let_def)

lemma close_line: "csv_fields True acc [dquote, newline] rest n fs = (Inr (fs @ [acc]), rest, n)"
  by (subst csv_fields.simps) (simp add: Let_def)

text \<open>One cell, before a comma or before the end of the line.\<close>

definition plain_cell :: "string \<Rightarrow> bool" where
  "plain_cell f = (newline \<notin> set f \<and> dquote \<notin> set f \<and> CHR '','' \<notin> set f)"

lemma not_quoted_plain: "\<not> field_needs_quotes f \<Longrightarrow> plain_cell f"
  by (auto simp: field_needs_quotes_def plain_cell_def)

lemma plain_first_line: "newline \<notin> set f \<Longrightarrow> first_line (f @ d) = f @ first_line d \<and> after_line (f @ d) = after_line d"
  by (induction f) auto

lemma plain_comma:
  assumes "newline \<notin> set f \<and> dquote \<notin> set f \<and> CHR '','' \<notin> set f"
  shows "csv_fields False [] (f @ CHR '','' # l) rest n fs = csv_fields False [] l rest n (fs @ [f])"
proof -
  have "takeWhile (\<lambda>c. c \<noteq> CHR '','') (f @ CHR '','' # l) = f"
    using assms by (induction f) (auto simp: plain_cell_def)
  moreover have "hd (f @ CHR '','' # l) \<noteq> dquote" using assms by (cases f) (auto simp: plain_cell_def)
  ultimately show ?thesis using assms by (subst csv_fields.simps) (simp add: Let_def plain_cell_def)
qed

lemma plain_line:
  assumes "plain_cell f"
  shows "csv_fields False [] (f @ [newline]) rest n fs = (Inr (fs @ [f]), rest, n)"
proof -
  have "takeWhile (\<lambda>c. c \<noteq> CHR '','') (f @ [newline]) = f @ [newline]"
    using assms by (auto simp: plain_cell_def takeWhile_eq_all_conv)
  moreover have "hd (f @ [newline]) \<noteq> dquote" using assms by (cases f) (auto simp: plain_cell_def)
  ultimately show ?thesis using assms by (subst csv_fields.simps) (simp add: Let_def plain_cell_def strip_nl_def)
qed

lemma open_quote: "csv_fields False [] (dquote # l) rest n fs = csv_fields True [] l rest n fs"
  by (subst csv_fields.simps) simp

lemma cell_comma:
  assumes "newline \<in> set d" "cret \<notin> set d" "cret \<notin> set f"
  shows "\<exists>n'. csv_fields False [] (first_line (csv_cell f @ CHR '','' # d)) (after_line (csv_cell f @ CHR '','' # d)) n fs =
    csv_fields False [] (first_line d) (after_line d) n' (fs @ [f])"
proof (cases "field_needs_quotes f")
  case True
  let ?d = "dquote # CHR '','' # d"
  from quoted_text [of ?d f "[]" n fs] assms obtain n' where
    "csv_fields True [] (first_line (double_quotes f @ ?d)) (after_line (double_quotes f @ ?d)) n fs =
      csv_fields True f (first_line ?d) (after_line ?d) n' fs" by (auto simp: cret_def dquote_def)
  then show ?thesis using True by (auto simp: csv_cell_def open_quote close_comma)
next
  case False
  then show ?thesis using not_quoted_plain [OF False]
    by (auto simp: csv_cell_def plain_cell_def plain_first_line plain_comma)
qed

lemma cell_line:
  assumes "cret \<notin> set d" "cret \<notin> set f"
  shows "\<exists>n'. csv_fields False [] (first_line (csv_cell f @ newline # d)) (after_line (csv_cell f @ newline # d)) n fs =
    (Inr (fs @ [f]), d, n')"
proof (cases "field_needs_quotes f")
  case True
  let ?d = "dquote # newline # d"
  from quoted_text [of ?d f "[]" n fs] assms obtain n' where
    "csv_fields True [] (first_line (double_quotes f @ ?d)) (after_line (double_quotes f @ ?d)) n fs =
      csv_fields True f (first_line ?d) (after_line ?d) n' fs" by (auto simp: cret_def dquote_def newline_def)
  then show ?thesis using True by (auto simp: csv_cell_def open_quote close_line)
next
  case False
  then show ?thesis using not_quoted_plain [OF False]
    by (simp add: csv_cell_def plain_cell_def plain_first_line plain_line)
qed

lemma cret_cell: "cret \<notin> set f \<Longrightarrow> cret \<notin> set (csv_cell f)"
  by (auto simp: csv_cell_def double_quotes_def cret_def dquote_def split: if_splits)

lemma cret_join: "cret \<notin> \<Union> (set ` set fs) \<Longrightarrow> cret \<notin> set (str_join '','' (map csv_cell fs))"
  by (induction fs rule: induct_list012) (auto simp: cret_cell, auto simp: cret_def)

lemma line_fields:
  assumes "gs \<noteq> []" "cret \<notin> \<Union> (set ` set gs)" "cret \<notin> set d"
  shows "\<exists>n'. csv_fields False [] (first_line (csv_line gs @ d)) (after_line (csv_line gs @ d)) n fs =
    (Inr (fs @ gs), d, n')"
  using assms(1,2)
proof (induction gs arbitrary: n fs rule: induct_list012)
  case (2 g)
  then show ?case using cell_line [of d g n fs] assms(3) by (simp add: csv_line_def)
next
  case (3 g h gs)
  let ?d = "csv_line (h # gs) @ d"
  have d: "newline \<in> set ?d" "cret \<notin> set ?d"
    using cret_join [of "h # gs"] "3.prems" assms(3) by (auto simp: csv_line_def cret_def newline_def)
  have "csv_line (g # h # gs) @ d = csv_cell g @ CHR '','' # ?d" by (simp add: csv_line_def)
  moreover obtain n1 where "csv_fields False [] (first_line (csv_cell g @ CHR '','' # ?d)) (after_line (csv_cell g @ CHR '','' # ?d)) n fs =
      csv_fields False [] (first_line ?d) (after_line ?d) n1 (fs @ [g])"
    using cell_comma [OF d, of g n fs] "3.prems" by auto
  moreover obtain n2 where "csv_fields False [] (first_line ?d) (after_line ?d) n1 (fs @ [g]) = (Inr ((fs @ [g]) @ h # gs), d, n2)"
    using "3.IH"(2) [of n1 "fs @ [g]"] "3.prems" by auto
  ultimately show ?case by simp
qed simp

lemma csv_line_not_blank:
  assumes "gs \<noteq> []" "gs \<noteq> [[]]"
  shows "hd (csv_line gs) \<noteq> newline"
proof -
  obtain g hs where g: "gs = g # hs" using assms(1) by (cases gs) auto
  have "hd (csv_cell g @ x # xs) \<noteq> newline" if "g \<noteq> [] \<or> x \<noteq> newline" for x xs
    using that by (cases g) (auto simp: csv_cell_def field_needs_quotes_def)
  then show ?thesis using assms(2) g by (cases hs) (auto simp: csv_line_def)
qed

lemma cret_line: "cret \<notin> \<Union> (set ` set gs) \<Longrightarrow> cret \<notin> set (csv_line gs)"
  using cret_join [of gs] by (simp add: csv_line_def) (simp add: cret_def newline_def)

lemma read_written_line:
  assumes "gs \<noteq> []" "gs \<noteq> [[]]" "cret \<notin> \<Union> (set ` set gs)" "cret \<notin> set d"
  shows "\<exists>n'. csv_read (csv_line gs @ d) num = Some (num + 1, Inr gs, d, n')"
proof -
  let ?d = "csv_line gs @ d"
  have "newline \<in> set ?d" "cret \<notin> set ?d"
    using cret_join [OF assms(3)] assms(4) by (auto simp: csv_line_def cret_def newline_def)
  then have "read_line ?d = Some (first_line ?d, after_line ?d)" by (rule read_line_split)
  moreover have "csv_line gs \<noteq> []" by (simp add: csv_line_def)
  then have "first_line ?d \<noteq> [newline]"
    using csv_line_not_blank [OF assms(1,2)] by (cases "csv_line gs") auto
  ultimately show ?thesis
    using line_fields [OF assms(1,3,4), of "num + 1" "[]"] by (subst csv_read.simps) auto
qed

text \<open>Written records are read back, whatever quotes, commas and line feeds their cells hold.\<close>

lemma records_read_back:
  assumes "\<forall>gs\<in>set rows. gs \<noteq> [] \<and> gs \<noteq> [[]] \<and> cret \<notin> \<Union> (set ` set gs)"
  shows "csv_records (concat (map csv_line rows)) num = Inr rows"
  using assms
proof (induction rows arbitrary: num)
  case Nil
  then show ?case by (subst csv_records.simps, subst csv_read.simps) (simp add: read_line_def)
next
  case (Cons gs rows)
  let ?d = "concat (map csv_line rows)"
  have "cret \<notin> set ?d" using Cons.prems by (simp add: cret_line)
  then obtain n' where "csv_read (csv_line gs @ ?d) num = Some (num + 1, Inr gs, ?d, n')"
    using read_written_line [of gs ?d num] Cons.prems by auto
  then show ?case using Cons by (subst csv_records.simps) simp
qed

lemma csv_row_length: "length (csv_row show w r) = length csv_header"
  by (simp add: csv_row_def csv_header_def Let_def)

text \<open>C15: A CSV report is read back as it was written: after the byte order mark, a reader with the
  default settings finds the header and one record per target, active targets first and removed ones
  after them, each with as many cells as the header, whatever quotes, commas and line feeds names
  and error texts hold. A carriage return is excluded: a reader may drop one before a line feed.\<close>

theorem report_csv_reads_back:
  assumes "\<forall>row\<in>set (report_rows show r). \<forall>cell\<in>set row. cret \<notin> set cell"
  shows "take 3 (report_csv show r) = utf8_bom \<and>
    csv_records (drop 3 (report_csv show r)) 0 =
      Inr (csv_header # map (csv_row show (rr_captured_at r)) (rr_targets r @ rr_removed_targets r)) \<and>
    list_all (\<lambda>row. length row = length csv_header) (report_rows show r)"
proof -
  have l: "length row = length csv_header" if "row \<in> set (report_rows show r)" for row
    using that by (auto simp: report_rows_def csv_row_length)
  have ok: "\<forall>gs\<in>set (report_rows show r). gs \<noteq> [] \<and> gs \<noteq> [[]] \<and> cret \<notin> \<Union> (set ` set gs)"
  proof
    fix gs assume gs: "gs \<in> set (report_rows show r)"
    from l [OF gs] have "length gs = 35" by (simp add: csv_header_def)
    moreover from assms gs have "cret \<notin> \<Union> (set ` set gs)" by blast
    ultimately show "gs \<noteq> [] \<and> gs \<noteq> [[]] \<and> cret \<notin> \<Union> (set ` set gs)" by auto
  qed
  have "report_csv show r = utf8_bom @ concat (map csv_line (report_rows show r))" "length utf8_bom = 3"
    by (simp_all add: report_csv_def utf8_bom_def)
  then have "take 3 (report_csv show r) = utf8_bom"
    "drop 3 (report_csv show r) = concat (map csv_line (report_rows show r))" by (metis append_eq_conv_conj)+
  moreover have "list_all (\<lambda>row. length row = length csv_header) (report_rows show r)"
    using l by (simp only: list_all_iff) blast
  ultimately show ?thesis
    using records_read_back [OF ok, of 0] by (simp only: report_rows_def simp_thms)
qed

text \<open>A report of one target whose name needs quotes and whose group starts like a formula.\<close>

definition example_settings :: report_settings where
  "example_settings = \<lparr> st_interval_ms = 1000, st_timeout_ms = 1000, st_payload_bytes = 56,
     st_interface = [], st_bound_source = [], st_source_ipv4 = [], st_source_ipv6 = [],
     st_network = ''ip'', st_count = 0, st_duration_deadline = None, st_pmtu_discovery = False,
     st_duration = 0, st_dns_server = [], st_resolve_all = False, st_traceroute = False,
     st_mtr = False, st_ports = [], st_http_urls = [], st_thresholds = default_thresholds,
     st_health_failures = 3, st_health_recoveries = 2, st_health_window_seconds = Finite 60,
     st_http_follow_redirects = True \<rparr>"

definition example_report :: report where
  "example_report = \<lparr> rr_schema_version = 1, rr_collection_started_at = 0, rr_session_started_at = 0,
     rr_captured_at = 5, rr_capture_completed_at = 6, rr_state = ''running'', rr_ping_finished = False,
     rr_scope = ''session'', rr_settings = example_settings,
     rr_targets = [(new_report_target (new_target_stats 1 0 ''a, b'')) \<lparr> rt_group := ''=x'' \<rparr>],
     rr_removed_targets = [], rr_removed_dropped = 0, rr_http_checks = [] \<rparr>"

lemma example_rows:
  "list_all (list_all (list_all (\<lambda>c. c \<noteq> cret))) (report_rows (\<lambda>t. ''T'') example_report) \<and>
   csv_row (\<lambda>t. ''T'') 5 (hd (rr_targets example_report)) ! 2 = ''a, b'' \<and>
   csv_row (\<lambda>t. ''T'') 5 (hd (rr_targets example_report)) ! 4 = CHR 0x27 # ''=x''"
  by code_simp

theorem report_csv_reads_back_witness:
  "csv_records (drop 3 (report_csv (\<lambda>t. ''T'') example_report)) 0 =
     Inr [csv_header, csv_row (\<lambda>t. ''T'') 5 (hd (rr_targets example_report))] \<and>
   csv_row (\<lambda>t. ''T'') 5 (hd (rr_targets example_report)) ! 2 = ''a, b''"
proof -
  have "\<forall>row\<in>set (report_rows (\<lambda>t. ''T'') example_report). \<forall>cell\<in>set row. cret \<notin> set cell"
    using example_rows by (auto simp: list_all_iff)
  from report_csv_reads_back [OF this] show ?thesis
    using example_rows by (simp add: example_report_def)
qed

section \<open>Spreadsheets\<close>

definition safe_cell :: "string \<Rightarrow> bool" where
  "safe_cell c = (case c of [] \<Rightarrow> True | x # _ \<Rightarrow> x \<notin> set formula_starts)"

lemma safe_spreadsheet_text: "safe_cell (spreadsheet_text s)"
  by (cases s) (auto simp: safe_cell_def spreadsheet_text_def formula_starts_def cret_def)

text \<open>No text that can come from the network or from the user (host, group, health reason, last
  error, AS, organisation, PTR, path MTU status and source) is a cell a spreadsheet would evaluate:
  none of them starts with \<open>=\<close>, \<open>+\<close>, \<open>-\<close>, \<open>@\<close>, a tab or a carriage return.\<close>

theorem report_cells_not_formulas:
  "list_all (\<lambda>row. list_all (\<lambda>i. safe_cell (row ! i)) [2, 4, 8, 22, 27, 28, 29, 33, 34])
     (report_rows show r)"
  by (auto simp: report_rows_def list_all_iff csv_row_def Let_def nth_Cons' safe_spreadsheet_text)
    (simp_all add: csv_header_def safe_cell_def formula_starts_def cret_def)

end
