(* ===== verification/Supervisor.thy ===== *)
theory Supervisor
  imports Run_Config Pinger_Life Checkers Report_Rows
begin

text \<open>
  The supervisor of a session (cmd/main: supervisor.go, live_targets.go, live_reload.go,
  supervisor_loop.go, report.go): it owns the pinger, the route engine and the checkers, and
  executes one command after the other. A command is one function on the state; what it gets from
  outside (clock, sockets, lookups, which workers still run) is a \<open>sup_env\<close>.

  Every component that was started has an instance number, and \<open>sv_live\<close> is the set of the
  instances whose goroutines have been started and not yet joined. The code has no such set: it is
  what the theorems about leaks and resurrection speak of.
\<close>

section \<open>State\<close>

record pinger_inst =
  pi_inst :: nat
  pi_dynamic :: bool
  pi_reg :: registry

record route_inst =
  ro_inst :: nat
  ro_path_only :: bool
  ro_runs :: "nat list"

record port_inst =
  po_inst :: nat
  po_checker :: port_checker

record http_inst =
  ho_inst :: nat
  ho_results :: "http_check list"

text \<open>The part of \<open>supervisorConfig\<close> that does not change.\<close>

record sup_config =
  sc_started_at :: gotime
  sc_collection_started_at :: gotime
  sc_duration_limit :: duration
  sc_duration_deadline :: gotime
  sc_source_ipv4 :: string
  sc_source_ipv6 :: string
  sc_network :: string
  sc_packet_size :: int
  sc_interval :: duration
  sc_timeout :: duration
  sc_port_specs :: "port_spec list"
  sc_http_urls :: "string list"
  sc_bind_interface :: string
  sc_bind_source :: string
  sc_count_limited :: bool

datatype sup_state = Stopped | Running | Terminated

fun sup_state_string :: "sup_state \<Rightarrow> string" where
  "sup_state_string Stopped = ''stopped''"
| "sup_state_string Running = ''running''"
| "sup_state_string Terminated = ''terminated''"

record target_snapshot =
  sn_targets :: "target_stats list"
  sn_specs :: "target_spec list"
  sn_groups :: "target_group list"
  sn_config :: config
  sn_measurement_state :: string

text \<open>\<open>sv_ids\<close> and \<open>sv_next_target\<close> belong to the session: the allocator of echo identifiers and the
  counter of target identities.\<close>

record supervisor =
  sv_cfg :: sup_config
  sv_config :: config
  sv_targets :: "target_stats list"
  sv_specs :: "target_spec list"
  sv_groups :: "target_group list"
  sv_pinger :: "pinger_inst option"
  sv_port :: "port_inst option"
  sv_http :: "http_inst option"
  sv_route :: "route_inst option"
  sv_state :: sup_state
  sv_removed :: "report_target list"
  sv_removed_dropped :: int
  sv_finished :: bool
  sv_observed :: "nat list"
  sv_snap :: "target_snapshot option"
  sv_http_snap :: "http_check list option"
  sv_pinger_snap :: "nat option"
  sv_state_snap :: sup_state
  sv_ids :: id_allocator
  sv_next_target :: nat
  sv_next_inst :: nat
  sv_live :: "nat set"

record sup_env =
  en_clk :: "nat \<Rightarrow> clock"
  en_now :: gotime
  en_pid :: int
  en_has_socket :: bool
  en_dynamic :: bool
  en_running :: "nat \<Rightarrow> bool"
  en_lookup :: "nat \<Rightarrow> string \<Rightarrow> string list"
  en_parse_url :: "string \<Rightarrow> url option"

datatype sup_error =
    SupTerminated
  | ShutDown
  | StartFailed start_error
  | NoLiveChanges
  | RegisterFailed add_error
  | EmptyHostName
  | AlreadyListed string
  | NotFound string
  | Ambiguous string
  | LastHost
  | TargetGone

text \<open>The readings of the clock for a target from the k-th on.\<close>

definition clk_from :: "sup_env \<Rightarrow> nat \<Rightarrow> target_stats \<Rightarrow> clock" where
  "clk_from e k t = (\<lambda>i. en_clk e (ts_id t) (k + i))"

definition map_targets :: "(target_stats \<Rightarrow> target_stats) \<Rightarrow> supervisor \<Rightarrow> supervisor" where
  "map_targets f s = s \<lparr> sv_targets := map f (sv_targets s) \<rparr>"

definition target_ids :: "supervisor \<Rightarrow> nat list" where
  "target_ids s = map ts_id (sv_targets s)"

definition clear_finished :: "supervisor \<Rightarrow> supervisor" where
  "clear_finished s = s \<lparr> sv_finished := False \<rparr>"

text \<open>\<open>livePinger\<close>: the current pinger, when it supports live edits.\<close>

definition live_pinger :: "supervisor \<Rightarrow> pinger_inst option" where
  "live_pinger s = (case sv_pinger s of
     None \<Rightarrow> None | Some p \<Rightarrow> if pi_dynamic p then Some p else None)"

section \<open>Components\<close>

definition stop_route :: "supervisor \<Rightarrow> supervisor" where
  "stop_route s = (case sv_route s of
     None \<Rightarrow> s | Some r \<Rightarrow> s \<lparr> sv_live := sv_live s - {ro_inst r}, sv_route := None \<rparr>)"

definition reset_hops :: "target_stats \<Rightarrow> target_stats" where
  "reset_hops t = (let t' = ensure_mtr t in t' \<lparr> ts_mtr := map_option mtr_reset (ts_mtr t') \<rparr>)"

definition restart_route :: "bool \<Rightarrow> supervisor \<Rightarrow> supervisor" where
  "restart_route reset s =
     (let s1 = stop_route s;
          s2 = (if reset then map_targets reset_hops s1 else s1)
      in case sv_pinger s2 of
           None \<Rightarrow> s2
         | Some _ \<Rightarrow> s2 \<lparr> sv_route := Some \<lparr> ro_inst = sv_next_inst s2,
                ro_path_only = (\<not> cf_mtr (sv_config s2)), ro_runs = target_ids s2 \<rparr>,
              sv_live := insert (sv_next_inst s2) (sv_live s2), sv_next_inst := sv_next_inst s2 + 1 \<rparr>)"

text \<open>\<open>setupPortChecker\<close> and \<open>setupHTTPChecker\<close>, which start what they return.\<close>

definition setup_port_checker :: "supervisor \<Rightarrow> supervisor" where
  "setup_port_checker s =
     (let specs = sc_port_specs (sv_cfg s) in
      if specs = [] then s \<lparr> sv_port := None \<rparr>
      else case new_port_checker specs (sv_targets s) of (ts, pk) \<Rightarrow>
        s \<lparr> sv_targets := ts,
            sv_port := Some \<lparr> po_inst = sv_next_inst s, po_checker = port_start (target_ids s) pk \<rparr>,
            sv_live := insert (sv_next_inst s) (sv_live s), sv_next_inst := sv_next_inst s + 1 \<rparr>)"

definition setup_http_checker :: "sup_env \<Rightarrow> supervisor \<Rightarrow> supervisor" where
  "setup_http_checker e s =
     (let urls = sc_http_urls (sv_cfg s) in
      if urls = [] then s \<lparr> sv_http := None \<rparr>
      else case http_options (en_parse_url e) (sv_config s) of
        Inl _ \<Rightarrow> s \<lparr> sv_http := None \<rparr>
      | Inr _ \<Rightarrow>
          s \<lparr> sv_http := Some \<lparr> ho_inst = sv_next_inst s, ho_results = new_http_checks urls \<rparr>,
              sv_live := insert (sv_next_inst s) (sv_live s), sv_next_inst := sv_next_inst s + 1 \<rparr>)"

text \<open>Stop and Wait of a checker; it stays in place for the display.\<close>

definition join_port :: "supervisor \<Rightarrow> supervisor" where
  "join_port s = (case sv_port s of
     None \<Rightarrow> s | Some p \<Rightarrow> s \<lparr> sv_live := sv_live s - {po_inst p} \<rparr>)"

definition join_http :: "supervisor \<Rightarrow> supervisor" where
  "join_http s = (case sv_http s of
     None \<Rightarrow> s | Some h \<Rightarrow> s \<lparr> sv_live := sv_live s - {ho_inst h} \<rparr>)"

definition join_pinger :: "supervisor \<Rightarrow> supervisor" where
  "join_pinger s = (case sv_pinger s of
     None \<Rightarrow> s
   | Some p \<Rightarrow> s \<lparr> sv_pinger := Some (p \<lparr> pi_reg := pinger_wait (pinger_stop (pi_reg p)) \<rparr>),
                  sv_live := sv_live s - {pi_inst p} \<rparr>)"

definition restart_port_checker :: "supervisor \<Rightarrow> supervisor" where
  "restart_port_checker s = setup_port_checker (join_port s)"

definition restart_http_checker :: "sup_env \<Rightarrow> supervisor \<Rightarrow> supervisor" where
  "restart_http_checker e s = setup_http_checker e (join_http s)"

definition tear_down_all :: "supervisor \<Rightarrow> supervisor" where
  "tear_down_all s = join_http (join_port (join_pinger (stop_route s)))"

section \<open>Commands on the whole session\<close>

definition start_all :: "sup_env \<Rightarrow> supervisor \<Rightarrow> supervisor \<times> sup_error option" where
  "start_all e s =
     (let s0 = clear_finished s in
      case pinger_start (en_has_socket e) (target_ids s0) (new_registry (sv_ids s0) (en_pid e)) of
        (reg, Some err) \<Rightarrow> (s0 \<lparr> sv_ids := the (rg_ids reg) \<rparr>, Some (StartFailed err))
      | (reg, None) \<Rightarrow>
          let ident = sv_next_inst s0;
              s1 = s0 \<lparr> sv_ids := the (rg_ids reg),
                   sv_pinger := Some \<lparr> pi_inst = ident, pi_dynamic = en_dynamic e, pi_reg = reg \<rparr>,
                   sv_live := insert ident (sv_live s0), sv_next_inst := ident + 1 \<rparr>;
              s2 = (if route_enabled (sv_config s1) then restart_route False s1 else s1);
              s3 = setup_http_checker e (setup_port_checker s2);
              s4 = map_targets (\<lambda>t. record_event (clk_from e 0 t 0) ''started'' ''Measurements started''
                                      (set_measurement_state ''running'' t)) (s3 \<lparr> sv_state := Running \<rparr>)
          in (if sc_count_limited (sv_cfg s4) then s4 \<lparr> sv_observed := sv_observed s4 @ [ident] \<rparr> else s4,
              None))"

definition stop_running :: "sup_env \<Rightarrow> supervisor \<Rightarrow> supervisor" where
  "stop_running e s =
     (map_targets (\<lambda>t. record_event (clk_from e 0 t 0) ''stopped'' ''Measurements stopped''
                         (set_measurement_state ''stopped'' t)) (tear_down_all s)) \<lparr> sv_state := Stopped \<rparr>"

definition reset_all :: "sup_env \<Rightarrow> supervisor \<Rightarrow> supervisor" where
  "reset_all e s =
     (let s1 = map_targets (\<lambda>t. reset_stats (clk_from e 0 t) t) (stop_route s) in
      if sv_state s1 \<noteq> Running then s1
      else
        let s2 = (if route_enabled (sv_config s1) then restart_route False s1 else s1)
        in restart_http_checker e (restart_port_checker s2))"

definition terminate :: "supervisor \<Rightarrow> supervisor" where
  "terminate s =
     (let s1 = (if sv_state s = Running then tear_down_all s else s)
      in map_targets (\<lambda>t. if ts_measurement_state t \<noteq> ''finished'' then set_measurement_state ''stopped'' t else t)
           (s1 \<lparr> sv_state := Terminated \<rparr>))"

definition mark_probes_finished :: "supervisor \<Rightarrow> supervisor" where
  "mark_probes_finished s =
     (case live_pinger s of
        Some p \<Rightarrow>
          if \<not> workers_finished (pi_reg p) then s
          else map_targets (set_measurement_state ''finished'') (s \<lparr> sv_finished := sc_count_limited (sv_cfg s) \<rparr>)
      | None \<Rightarrow> map_targets (set_measurement_state ''finished'') (s \<lparr> sv_finished := sc_count_limited (sv_cfg s) \<rparr>))"

section \<open>Live edits\<close>

definition configure_target :: "supervisor \<Rightarrow> clock \<Rightarrow> target_stats \<Rightarrow> target_stats" where
  "configure_target s clk t = set_event_sink True (configure_health clk (config_policy (sv_config s)) t)"

text \<open>\<open>buildTargetsForIteration\<close> (lifecycle.go) and \<open>newLiveTargets\<close>, for one specification.\<close>

definition build_target :: "config \<Rightarrow> clock \<Rightarrow> nat \<Rightarrow> target_spec \<Rightarrow> target_stats" where
  "build_target c clk ident sp =
     (let t = set_resolve_address (resolve_addr sp) (new_target_stats ident (clk 0) (display sp));
          t1 = configure_health (\<lambda>i. clk (i + 1)) (config_policy c) t
      in set_dns_server (if \<not> is_ip (sp_host sp)
           then (if cf_dns_server c \<noteq> [] then cf_dns_server c else ''Default'') else ''-'') t1)"

definition new_live_target :: "sup_env \<Rightarrow> config \<Rightarrow> target_spec \<Rightarrow> supervisor \<Rightarrow> supervisor \<times> target_stats" where
  "new_live_target e c sp s =
     (let ident = sv_next_target s + 1;
          t = configure_target s (\<lambda>i. en_clk e ident (i + 3)) (build_target c (en_clk e ident) ident sp);
          t' = (case sv_targets s of [] \<Rightarrow> t | x # _ \<Rightarrow> set_iface_mtu (ts_iface_mtu x) t)
      in (s \<lparr> sv_next_target := ident \<rparr>, t'))"

fun new_live_targets ::
  "sup_env \<Rightarrow> config \<Rightarrow> target_spec list \<Rightarrow> supervisor \<Rightarrow> supervisor \<times> target_stats list" where
  "new_live_targets e c [] s = (s, [])"
| "new_live_targets e c (sp # sps) s =
     (case new_live_target e c sp s of (s1, t) \<Rightarrow>
       (case new_live_targets e c sps s1 of (s2, ts) \<Rightarrow> (s2, t # ts)))"

text \<open>\<open>attachTargetMonitors\<close> gives the supervisor and the target, which is not in the list yet.\<close>

definition attach_target_monitors :: "target_stats \<Rightarrow> supervisor \<Rightarrow> supervisor \<times> target_stats" where
  "attach_target_monitors t s =
     (if sv_state s \<noteq> Running then (s, set_measurement_state ''stopped'' t)
      else
        let s1 = (case sv_route s of
              None \<Rightarrow> s
            | Some r \<Rightarrow> s \<lparr> sv_route := Some (r \<lparr> ro_runs :=
                  (if ts_id t \<in> set (ro_runs r) then ro_runs r else ro_runs r @ [ts_id t]) \<rparr>) \<rparr>)
        in case sv_port s1 of
             None \<Rightarrow> (s1, t)
           | Some p \<Rightarrow> (case port_add t (po_checker p) of
               (t', pk) \<Rightarrow> (s1 \<lparr> sv_port := Some (p \<lparr> po_checker := pk \<rparr>) \<rparr>, t')))"

definition group_name_for_index :: "target_group list \<Rightarrow> nat \<Rightarrow> string" where
  "group_name_for_index groups i =
     foldl (\<lambda>name g. if i \<in> set (gr_indices g) then gr_name g else name) [] groups"

definition max_removed_targets :: nat where "max_removed_targets = 128"

definition push_removed :: "report_target list \<Rightarrow> report_target \<Rightarrow> report_target list" where
  "push_removed rs r =
     (let rs' = rs @ [r] in
      if length rs' > max_removed_targets then drop (length rs' - max_removed_targets) rs' else rs')"

text \<open>\<open>slices.Index\<close>: the position of the target, by identity.\<close>

fun index_of_id :: "nat \<Rightarrow> target_stats list \<Rightarrow> nat option" where
  "index_of_id ident [] = None"
| "index_of_id ident (t # ts) = (if ts_id t = ident then Some 0 else map_option Suc (index_of_id ident ts))"

definition archive_target :: "sup_env \<Rightarrow> target_stats \<Rightarrow> supervisor \<Rightarrow> supervisor" where
  "archive_target e t s =
     (let group = (case index_of_id (ts_id t) (sv_targets s) of
            None \<Rightarrow> [] | Some i \<Rightarrow> group_name_for_index (sv_groups s) i);
          rec = (new_report_target t) \<lparr> rt_group := group, rt_removed_at := Some (en_now e) \<rparr>
      in s \<lparr> sv_removed := push_removed (sv_removed s) rec,
             sv_removed_dropped := (if length (sv_removed s) + 1 > max_removed_targets
               then sv_removed_dropped s + 1 else sv_removed_dropped s) \<rparr>)"

text \<open>\<open>detachTargetMonitors\<close>; \<open>live\<close> says whether a running pinger was passed.\<close>

definition detach_target_monitors :: "sup_env \<Rightarrow> bool \<Rightarrow> string \<Rightarrow> target_stats \<Rightarrow> supervisor \<Rightarrow> supervisor" where
  "detach_target_monitors e live reason t s =
     (let ident = ts_id t;
          s1 = (if live then s \<lparr>
              sv_route := map_option (\<lambda>r. r \<lparr> ro_runs := removeAll ident (ro_runs r) \<rparr>) (sv_route s),
              sv_port := map_option (\<lambda>p. p \<lparr> po_checker := port_remove ident (po_checker p) \<rparr>) (sv_port s),
              sv_pinger := map_option (\<lambda>p. p \<lparr> pi_reg := remove_target ident (en_running e ident) (pi_reg p) \<rparr>)
                (sv_pinger s) \<rparr> else s)
      in archive_target e (record_event (clk_from e 0 t 0) ''removed'' reason t) s1)"

text \<open>Registration with the running pinger, and the session's allocator afterwards.\<close>

definition register_with :: "sup_env \<Rightarrow> (nat \<times> string) list \<Rightarrow> supervisor \<Rightarrow> supervisor \<times> add_error option" where
  "register_with e new s =
     (case sv_pinger s of
        None \<Rightarrow> (s, None)
      | Some p \<Rightarrow>
          (case register_targets add_target (\<lambda>t. remove_target t (en_running e t)) [] new (pi_reg p) of
             (reg, err) \<Rightarrow> (s \<lparr> sv_pinger := Some (p \<lparr> pi_reg := reg \<rparr>),
                sv_ids := (case rg_ids reg of None \<Rightarrow> sv_ids s | Some a \<Rightarrow> a) \<rparr>, err)))"

fun attach_all :: "sup_env \<Rightarrow> string \<Rightarrow> target_stats list \<Rightarrow> supervisor \<Rightarrow> supervisor \<times> target_stats list" where
  "attach_all e msg [] s = (s, [])"
| "attach_all e msg (t # ts) s =
     (case attach_target_monitors t s of (s1, t1) \<Rightarrow>
       (case attach_all e msg ts s1 of
          (s2, ts2) \<Rightarrow> (s2, record_event (clk_from e 9 t1 0) ''added'' msg t1 # ts2)))"

definition add_host :: "sup_env \<Rightarrow> string \<Rightarrow> supervisor \<Rightarrow> supervisor \<times> sup_error option" where
  "add_host e host s =
     (if list_ex (\<lambda>sp. display sp = host \<or> sp_host sp = host) (sv_specs s) then (s, Some (AlreadyListed host))
      else
        let specs = fst (expand_targets (cf_resolve_all (sv_config s)) (en_lookup e) [spec_of_host host] [])
        in case new_live_targets e (sv_config s) specs s of (s1, added) \<Rightarrow>
          (case (if sv_state s1 = Running then
                   (if live_pinger s1 = None then (s1, Some NoLiveChanges)
                    else case register_with e (zip (map ts_id added) (map resolve_addr specs)) s1 of
                      (s2, err) \<Rightarrow> (s2, map_option RegisterFailed err))
                 else (s1, None)) of
             (s2, Some err) \<Rightarrow> (s2, Some err)
           | (s2, None) \<Rightarrow>
               (case attach_all e ''Target added'' added s2 of (s3, added') \<Rightarrow>
                  (clear_finished (s3 \<lparr> sv_targets := sv_targets s3 @ added',
                                        sv_specs := sv_specs s3 @ specs \<rparr>), None))))"

definition drop_index :: "nat \<Rightarrow> target_group list \<Rightarrow> target_group list" where
  "drop_index i groups =
     filter (\<lambda>g. gr_indices g \<noteq> [])
       (map (\<lambda>g. \<lparr> gr_name = gr_name g,
              gr_indices = map (\<lambda>x. if x > i then x - 1 else x) (filter (\<lambda>x. x \<noteq> i) (gr_indices g)) \<rparr>) groups)"

definition delete_at :: "nat \<Rightarrow> 'a list \<Rightarrow> 'a list" where
  "delete_at i xs = take i xs @ drop (i + 1) xs"

text \<open>\<open>removeTarget\<close> of the supervisor.\<close>

definition remove_at :: "sup_env \<Rightarrow> nat \<Rightarrow> supervisor \<Rightarrow> supervisor \<times> sup_error option" where
  "remove_at e i s =
     (if length (sv_targets s) \<le> 1 then (s, Some LastHost)
      else if sv_state s = Running \<and> live_pinger s = None then (s, Some NoLiveChanges)
      else
        let s1 = detach_target_monitors e (sv_state s = Running) ''Target removed'' (sv_targets s ! i) s
        in (s1 \<lparr> sv_groups := drop_index i (sv_groups s1), sv_specs := delete_at i (sv_specs s1),
                 sv_targets := delete_at i (sv_targets s1) \<rparr>, None))"

definition delete_host :: "sup_env \<Rightarrow> string \<Rightarrow> supervisor \<Rightarrow> supervisor \<times> sup_error option" where
  "delete_host e host s =
     (case filter (\<lambda>i. display (sv_specs s ! i) = host) [0..<length (sv_specs s)] of
        [] \<Rightarrow> (s, Some (NotFound host))
      | [i] \<Rightarrow> remove_at e i s
      | _ \<Rightarrow> (s, Some (Ambiguous host)))"

definition delete_target_id :: "sup_env \<Rightarrow> nat \<Rightarrow> supervisor \<Rightarrow> supervisor \<times> sup_error option" where
  "delete_target_id e ident s =
     (case index_of_id ident (sv_targets s) of None \<Rightarrow> (s, Some TargetGone) | Some i \<Rightarrow> remove_at e i s)"

section \<open>Live reload\<close>

datatype reload_notice =
    ProbeSettingsChanged "string list"
  | NoLiveMembership
  | RouteModeMtr
  | RouteModeTraceroute
  | DurationNeedsRestart
  | WebNeedsRestart

definition same_identity :: "target_spec \<Rightarrow> target_spec \<Rightarrow> bool" where
  "same_identity a b = (sp_host a = sp_host b \<and> sp_pinned a = sp_pinned b)"

text \<open>\<open>reconcileTargets\<close>: each wanted specification takes the first target left over with the same
  host and pinned address, or gets a new one; the flag says that it is new.\<close>

fun reconcile_targets ::
  "sup_env \<Rightarrow> config \<Rightarrow> (target_spec \<times> target_stats) list \<Rightarrow> target_spec list \<Rightarrow> supervisor \<Rightarrow>
   supervisor \<times> (target_stats \<times> bool) list" where
  "reconcile_targets e c pool [] s = (s, [])"
| "reconcile_targets e c pool (sp # sps) s =
     (case List.extract (\<lambda>(old, t). same_identity sp old) pool of
        Some (before, (old, t), after) \<Rightarrow>
          (case reconcile_targets e c (before @ after) sps s of (s1, ts) \<Rightarrow> (s1, (t, False) # ts))
      | None \<Rightarrow>
          (case new_live_target e c sp s of (s1, t) \<Rightarrow>
            (case reconcile_targets e c pool sps s1 of (s2, ts) \<Rightarrow> (s2, (t, True) # ts))))"

fun attach_new :: "sup_env \<Rightarrow> (target_stats \<times> bool) list \<Rightarrow> supervisor \<Rightarrow> supervisor \<times> target_stats list" where
  "attach_new e [] s = (s, [])"
| "attach_new e ((t, new) # ts) s =
     (if \<not> new then (case attach_new e ts s of (s1, ts1) \<Rightarrow> (s1, t # ts1))
      else case attach_target_monitors t s of (s1, t1) \<Rightarrow>
        (case attach_new e ts s1 of
           (s2, ts2) \<Rightarrow> (s2, record_event (clk_from e 9 t1 0) ''added'' ''Target added by configuration reload'' t1 # ts2)))"

text \<open>What is left once the new targets are registered: removing, adopting the configuration,
  attaching, and the notices.\<close>

definition adopt_reload ::
  "sup_env \<Rightarrow> config \<Rightarrow> target_spec list \<Rightarrow> target_group list \<Rightarrow> (target_stats \<times> bool) list \<Rightarrow> bool \<Rightarrow>
   supervisor \<Rightarrow> supervisor \<times> reload_notice list" where
  "adopt_reload e c specs groups plan live s =
     (let reused = map (ts_id \<circ> fst) (filter (\<lambda>(t, new). \<not> new) plan);
          s1 = fold (\<lambda>t. if ts_id t \<in> set reused then (\<lambda>u. u)
                         else detach_target_monitors e live ''Target removed by configuration reload'' t)
                 (sv_targets s) s;
          previous = sv_config s1;
          s2 = s1 \<lparr> sv_config := c \<lparr> cf_web_enabled := cf_web_enabled previous,
                      cf_web_port := cf_web_port previous, cf_duration := cf_duration previous \<rparr> \<rparr>;
          named = map2 (\<lambda>sp (t, new). (configure_target s2 (clk_from e 6 t)
                     (fst (set_display_name (clk_from e 5 t 0) (display sp) t)), new)) specs plan;
          s3 = s2 \<lparr> sv_targets := map fst named, sv_specs := specs, sv_groups := groups \<rparr>
      in case attach_new e named s3 of (s4, targets) \<Rightarrow>
        let s5 = s4 \<lparr> sv_targets := targets \<rparr>;
            mode = (cf_mtr c \<noteq> cf_mtr previous);
            s6 = (if mode \<and> sv_state s5 = Running then restart_route False s5 else s5);
            s7 = (if list_ex snd plan then clear_finished s6 else s6)
        in (s7, (if mode then [if cf_mtr c then RouteModeMtr else RouteModeTraceroute] else []) @
                (if cf_duration c \<noteq> cf_duration previous then [DurationNeedsRestart] else []) @
                (if web_reload_drift previous c then [WebNeedsRestart] else [])))"

text \<open>\<open>reloadLive\<close>: whether the reload was applied, what the user is told, and an error.\<close>

definition reload_live ::
  "sup_env \<Rightarrow> config \<Rightarrow> target_spec list \<Rightarrow> target_group list \<Rightarrow> supervisor \<Rightarrow>
   supervisor \<times> bool \<times> reload_notice list \<times> sup_error option" where
  "reload_live e c specs groups s =
     (let changed = diff_probe_config (sv_config s) c in
      if changed \<noteq> [] then (s, False, [ProbeSettingsChanged changed], None)
      else case reconcile_targets e c (zip (sv_specs s) (sv_targets s)) specs s of (s1, plan) \<Rightarrow>
        let added = filter (\<lambda>((t, new), sp). new) (zip plan specs);
            membership = (list_ex snd plan \<or>
              length (filter (\<lambda>(t, new). \<not> new) plan) \<noteq> length (sv_targets s1))
        in if sv_state s1 = Running \<and> membership then
             (if live_pinger s1 = None then (s1, False, [NoLiveMembership], None)
              else case register_with e (map (\<lambda>((t, new), sp). (ts_id t, resolve_addr sp)) added) s1 of
                (s2, Some err) \<Rightarrow> (s2, False, [], Some (RegisterFailed err))
              | (s2, None) \<Rightarrow>
                  (case adopt_reload e c specs groups plan True s2 of (s3, notices) \<Rightarrow> (s3, True, notices, None)))
           else
             (case adopt_reload e c specs groups plan False s1 of (s3, notices) \<Rightarrow> (s3, True, notices, None)))"

section \<open>The command loop\<close>

datatype edit =
    AddHost string
  | DeleteHost string
  | DeleteTargetID nat
  | ReloadLive config "target_spec list" "target_group list"

datatype command =
    CStart | CStop | CRestart | CResetRoute | CResetPort | CResetHTTP | CTerminate
  | CProbesFinished nat | CResetStats | CEdit edit

fun run_edit :: "sup_env \<Rightarrow> edit \<Rightarrow> supervisor \<Rightarrow> supervisor \<times> sup_error option" where
  "run_edit e (AddHost host) s = add_host e host s"
| "run_edit e (DeleteHost host) s = delete_host e host s"
| "run_edit e (DeleteTargetID ident) s = delete_target_id e ident s"
| "run_edit e (ReloadLive c specs groups) s =
     (case reload_live e c specs groups s of (s', applied, notices, err) \<Rightarrow> (s', err))"

fun handle :: "sup_env \<Rightarrow> command \<Rightarrow> supervisor \<Rightarrow> supervisor \<times> sup_error option" where
  "handle e (CEdit ed) s =
     (if sv_state s = Terminated then (s, Some SupTerminated) else run_edit e ed s)"
| "handle e (CProbesFinished p) s =
     ((if sv_state s = Running \<and> map_option pi_inst (sv_pinger s) = Some p
       then mark_probes_finished s else s), None)"
| "handle e CStart s =
     (case sv_state s of
        Terminated \<Rightarrow> (s, Some SupTerminated) | Running \<Rightarrow> (s, None) | Stopped \<Rightarrow> start_all e s)"
| "handle e CStop s = ((if sv_state s = Running then stop_running e s else s), None)"
| "handle e CRestart s =
     (case sv_state s of
        Terminated \<Rightarrow> (s, Some SupTerminated)
      | Running \<Rightarrow> start_all e (tear_down_all s \<lparr> sv_state := Stopped \<rparr>)
      | Stopped \<Rightarrow> start_all e s)"
| "handle e CResetStats s = ((if sv_state s \<noteq> Terminated then reset_all e s else s), None)"
| "handle e CResetRoute s = ((if sv_state s = Running then restart_route True s else s), None)"
| "handle e CResetPort s = ((if sv_state s = Running then restart_port_checker s else s), None)"
| "handle e CResetHTTP s = ((if sv_state s = Running then restart_http_checker e s else s), None)"
| "handle e CTerminate s = ((if sv_state s \<noteq> Terminated then terminate s else s), None)"

definition current_measurement_state :: "supervisor \<Rightarrow> string" where
  "current_measurement_state s =
     (if sv_state s = Terminated \<or> sv_state s = Stopped then ''stopped''
      else if list_ex (\<lambda>t. ts_measurement_state t \<noteq> ''finished'') (sv_targets s) then ''running''
      else ''finished'')"

definition publish :: "supervisor \<Rightarrow> supervisor" where
  "publish s = s \<lparr>
     sv_snap := Some \<lparr> sn_targets = sv_targets s, sn_specs = sv_specs s, sn_groups = sv_groups s,
       sn_config = sv_config s, sn_measurement_state = current_measurement_state s \<rparr>,
     sv_http_snap := map_option ho_results (sv_http s),
     sv_pinger_snap := (case sv_pinger s of None \<Rightarrow> sv_pinger_snap s | Some p \<Rightarrow> Some (pi_inst p)),
     sv_state_snap := sv_state s \<rparr>"

text \<open>\<open>sendCmd\<close> against the loop, with whether the loop was shut down; \<open>addHost\<close> looks at its text
  before it sends anything.\<close>

definition send_cmd ::
  "sup_env \<Rightarrow> command \<Rightarrow> supervisor \<times> bool \<Rightarrow> (supervisor \<times> bool) \<times> sup_error option" where
  "send_cmd e c sd =
     (if snd sd then (sd, Some ShutDown)
      else case handle e c (fst sd) of (s', err) \<Rightarrow> ((publish s', False), err))"

definition shutdown :: "sup_env \<Rightarrow> supervisor \<times> bool \<Rightarrow> supervisor \<times> bool" where
  "shutdown e sd = (fst (fst (send_cmd e CTerminate sd)), True)"

definition request_add_host ::
  "sup_env \<Rightarrow> string \<Rightarrow> supervisor \<times> bool \<Rightarrow> (supervisor \<times> bool) \<times> sup_error option" where
  "request_add_host e host sd =
     (let h = trim_space host in if h = [] then (sd, Some EmptyHostName) else send_cmd e (CEdit (AddHost h)) sd)"

definition new_supervisor ::
  "sup_env \<Rightarrow> sup_config \<Rightarrow> config \<Rightarrow> target_stats list \<Rightarrow> target_spec list \<Rightarrow> target_group list \<Rightarrow>
   id_allocator \<Rightarrow> nat \<Rightarrow> supervisor" where
  "new_supervisor e sc c targets specs groups ids next_target =
     (let s = \<lparr> sv_cfg = sc, sv_config = c, sv_targets = targets, sv_specs = specs, sv_groups = groups,
            sv_pinger = None, sv_port = None, sv_http = None, sv_route = None, sv_state = Stopped,
            sv_removed = [], sv_removed_dropped = 0, sv_finished = False, sv_observed = [],
            sv_snap = None, sv_http_snap = None, sv_pinger_snap = None, sv_state_snap = Stopped, sv_ids = ids, sv_next_target = next_target,
            sv_next_inst = 0, sv_live = {} \<rparr>
      in map_targets (\<lambda>t. configure_target s (clk_from e 0 t) t) s)"

end
