(* ===== verification/Supervisor_Invariant.thy ===== *)
theory Supervisor_Invariant
  imports Supervisor
begin

text \<open>
  What every command of the supervisor keeps: targets and specifications in step, distinct target
  identities, groups that point into the list, a bounded archive, and components that are wired to
  exactly the targets monitored and live exactly while the supervisor runs.
\<close>

section \<open>Instances\<close>

definition opt_list :: "'a option \<Rightarrow> 'a list" where
  "opt_list x = (case x of None \<Rightarrow> [] | Some y \<Rightarrow> [y])"

lemma opt_list_simps [simp]: "opt_list None = []" "opt_list (Some x) = [x]"
  by (simp_all add: opt_list_def)

definition core_insts :: "supervisor \<Rightarrow> nat list" where
  "core_insts s = map pi_inst (opt_list (sv_pinger s)) @ map ro_inst (opt_list (sv_route s))"

definition port_insts :: "supervisor \<Rightarrow> nat list" where
  "port_insts s = map po_inst (opt_list (sv_port s))"

definition http_insts :: "supervisor \<Rightarrow> nat list" where
  "http_insts s = map ho_inst (opt_list (sv_http s))"

text \<open>No instance number is used twice and none is ahead of the counter.\<close>

definition inst_ok :: "supervisor \<Rightarrow> bool" where
  "inst_ok s = (distinct (core_insts s @ port_insts s @ http_insts s) \<and>
     list_all (\<lambda>i. i < sv_next_inst s) (core_insts s @ port_insts s @ http_insts s))"

text \<open>The pinger and the monitors are wired to exactly the targets of the list, and the live
  instances are the present ones; \<open>bp\<close> and \<open>bh\<close> say whether the port and the HTTP checker run.\<close>

definition wired :: "bool \<Rightarrow> bool \<Rightarrow> supervisor \<Rightarrow> bool" where
  "wired bp bh s =
     (inst_ok s \<and>
      sv_live s = set (core_insts s @ (if bp then port_insts s else []) @ (if bh then http_insts s else [])) \<and>
      list_all (\<lambda>p. dom (rg_workers (pi_reg p)) = set (target_ids s)) (opt_list (sv_pinger s)) \<and>
      sv_pinger s \<noteq> None \<and>
      list_all (\<lambda>r. set (ro_runs r) = set (target_ids s)) (opt_list (sv_route s)) \<and>
      (bp \<longrightarrow> list_all (\<lambda>p. set (pk_runs (po_checker p)) = set (target_ids s)) (opt_list (sv_port s))))"

definition data_ok :: "supervisor \<Rightarrow> bool" where
  "data_ok s =
     (length (sv_specs s) = length (sv_targets s) \<and> distinct (target_ids s) \<and>
      list_all (\<lambda>i. i \<le> sv_next_target s) (target_ids s) \<and>
      list_all (\<lambda>g. list_all (\<lambda>i. i < length (sv_targets s)) (gr_indices g)) (sv_groups s) \<and>
      length (sv_removed s) \<le> max_removed_targets \<and>
      (sv_finished s \<longrightarrow> sc_count_limited (sv_cfg s)))"

definition sup_inv :: "supervisor \<Rightarrow> bool" where
  "sup_inv s = (data_ok s \<and> inst_ok s \<and>
     (if sv_state s = Running then wired True True s else sv_live s = {} \<and> sv_route s = None))"

lemmas inst_defs = inst_ok_def core_insts_def port_insts_def http_insts_def
lemmas wired_defs = wired_def inst_defs target_ids_def

section \<open>Components\<close>

lemma map_targets_fields [simp]:
  "sv_pinger (map_targets f s) = sv_pinger s" "sv_port (map_targets f s) = sv_port s"
  "sv_http (map_targets f s) = sv_http s" "sv_route (map_targets f s) = sv_route s"
  "sv_live (map_targets f s) = sv_live s" "sv_next_inst (map_targets f s) = sv_next_inst s"
  "sv_state (map_targets f s) = sv_state s" "sv_cfg (map_targets f s) = sv_cfg s"
  "sv_config (map_targets f s) = sv_config s" "sv_specs (map_targets f s) = sv_specs s"
  "sv_groups (map_targets f s) = sv_groups s" "sv_removed (map_targets f s) = sv_removed s"
  "sv_finished (map_targets f s) = sv_finished s" "sv_next_target (map_targets f s) = sv_next_target s"
  "sv_targets (map_targets f s) = map f (sv_targets s)" "sv_ids (map_targets f s) = sv_ids s"
  by (simp_all add: map_targets_def)

lemma map_targets_ids: "(\<And>t. ts_id (f t) = ts_id t) \<Longrightarrow> target_ids (map_targets f s) = target_ids s"
  by (simp add: target_ids_def)

lemma wired_map_targets: "(\<And>t. ts_id (f t) = ts_id t) \<Longrightarrow> wired bp bh (map_targets f s) = wired bp bh s"
  by (simp add: wired_defs o_def)

lemma data_ok_map_targets: "(\<And>t. ts_id (f t) = ts_id t) \<Longrightarrow> data_ok (map_targets f s) = data_ok s"
  by (simp add: data_ok_def target_ids_def o_def)

lemma inst_ok_map_targets [simp]: "inst_ok (map_targets f s) = inst_ok s"
  by (simp add: inst_defs)

lemma reset_hops_id [simp]: "ts_id (reset_hops t) = ts_id t"
  by (simp add: reset_hops_def ensure_mtr_def Let_def split: option.split)

lemma set_port_results_id [simp]: "ts_id (set_port_results ps t) = ts_id t"
  by (simp add: set_port_results_def)

lemma record_event_id [simp]: "ts_id (record_event w k m t) = ts_id t"
  by (simp add: record_event_def)

lemma set_measurement_state_id [simp]: "ts_id (set_measurement_state m t) = ts_id t"
  by (simp add: set_measurement_state_def)

lemma configure_health_id [simp]: "ts_id (configure_health clk p t) = ts_id t"
  using target_step_epoch(2) [of clk "ConfigureHealth p" t] by simp

lemma reset_stats_id [simp]: "ts_id (reset_stats clk t) = ts_id t"
  using target_step_epoch(2) [of clk ResetStats t] by simp

lemma set_event_sink_id [simp]: "ts_id (set_event_sink on t) = ts_id t"
  by (simp add: set_event_sink_def)

lemma set_display_name_id [simp]: "ts_id (fst (set_display_name w n t)) = ts_id t"
  by (simp add: set_display_name_def)

lemma configure_target_id [simp]: "ts_id (configure_target s clk t) = ts_id t"
  by (simp add: configure_target_def)

text \<open>What starting and stopping components leaves alone: everything but the components, and of a
  target only its results.\<close>

definition same_data :: "supervisor \<Rightarrow> supervisor \<Rightarrow> bool" where
  "same_data s s' =
     (sv_specs s' = sv_specs s \<and> target_ids s' = target_ids s \<and> sv_next_target s' = sv_next_target s \<and>
      sv_groups s' = sv_groups s \<and> sv_removed s' = sv_removed s \<and> sv_finished s' = sv_finished s \<and>
      sv_cfg s' = sv_cfg s \<and> sv_config s' = sv_config s \<and> sv_state s' = sv_state s)"

lemma same_data_refl [simp]: "same_data s s"
  by (simp add: same_data_def)

lemma same_data_trans: "same_data s t \<Longrightarrow> same_data t u \<Longrightarrow> same_data s u"
  by (simp add: same_data_def)

lemma same_data_ok: "same_data s s' \<Longrightarrow> data_ok s' = data_ok s"
proof -
  assume d: "same_data s s'"
  then have "length (sv_targets s') = length (sv_targets s)"
    by (metis same_data_def target_ids_def length_map)
  with d show ?thesis by (simp add: same_data_def data_ok_def)
qed

lemma same_data_map_targets [simp]: "(\<And>t. ts_id (f t) = ts_id t) \<Longrightarrow> same_data s (map_targets f s)"
  by (simp add: same_data_def map_targets_ids)

lemma stop_route_data [simp]: "same_data s (stop_route s)" "sv_targets (stop_route s) = sv_targets s"
  "sv_pinger (stop_route s) = sv_pinger s"
  by (simp_all add: stop_route_def same_data_def target_ids_def split: option.split)

lemma restart_route_data [simp]: "same_data s (restart_route b s)"
  using stop_route_data(1) [of s]
  by (auto simp: restart_route_def Let_def same_data_def map_targets_ids target_ids_def split: option.split)

lemma setup_port_checker_data [simp]: "same_data s (setup_port_checker s)"
  by (simp add: setup_port_checker_def new_port_checker_def same_data_def target_ids_def Let_def o_def)

lemma setup_http_checker_data [simp]: "same_data s (setup_http_checker e s)" "target_ids (setup_http_checker e s) = target_ids s"
  by (auto simp: setup_http_checker_def same_data_def target_ids_def Let_def split: sum.split)

lemma join_data [simp]: "same_data s (join_port s)" "same_data s (join_http s)" "same_data s (join_pinger s)"
  by (simp_all add: join_port_def join_http_def join_pinger_def same_data_def target_ids_def split: option.split)

lemma tear_down_data [simp]: "same_data s (tear_down_all s)"
  unfolding tear_down_all_def
  by (rule same_data_trans [OF _ join_data(2)], rule same_data_trans [OF _ join_data(1)],
      rule same_data_trans [OF _ join_data(3)], rule stop_route_data(1))

lemma wired_stop_route: "wired bp bh s \<Longrightarrow> wired bp bh (stop_route s)"
  by (cases "sv_route s") (auto simp: stop_route_def wired_defs)

lemma wired_restart_route: "wired bp bh s \<Longrightarrow> wired bp bh (restart_route b s)"
proof -
  assume "wired bp bh s"
  then have w: "wired bp bh (stop_route s)" by (rule wired_stop_route)
  define u where "u = (if b then map_targets reset_hops (stop_route s) else stop_route s)"
  have "wired bp bh u" "sv_route u = None"
    using w by (auto simp: u_def wired_map_targets stop_route_def split: option.splits)
  moreover obtain p where "sv_pinger u = Some p" using calculation by (auto simp: wired_def)
  ultimately show ?thesis
    by (cases "sv_port u"; cases "sv_http u")
      (auto simp: restart_route_def u_def [symmetric] wired_defs Let_def)
qed

lemma port_start_runs: "set (pk_runs (port_start ids pk)) = set (pk_runs pk) \<union> set ids"
  by (induction ids arbitrary: pk) (auto simp: port_start_def port_launch_def)

lemma wired_join_port: "wired True bh s \<Longrightarrow> wired False bh (join_port s)"
  by (cases "sv_port s") (auto simp: join_port_def wired_defs)

lemma wired_setup_port: "wired False bh s \<Longrightarrow> wired True bh (setup_port_checker s)"
  by (cases "sv_pinger s"; cases "sv_route s"; cases "sv_http s")
    (auto simp: setup_port_checker_def new_port_checker_def wired_defs Let_def port_start_runs o_def image_image)

lemma wired_join_http: "wired bp True s \<Longrightarrow> wired bp False (join_http s)"
  by (cases "sv_pinger s"; cases "sv_route s"; cases "sv_port s"; cases "sv_http s")
    (auto simp: join_http_def wired_defs)

lemma wired_setup_http: "wired bp False s \<Longrightarrow> wired bp True (setup_http_checker e s)"
  by (cases "sv_pinger s"; cases "sv_route s"; cases "sv_port s"; cases "http_options (en_parse_url e) (sv_config s)")
    (auto simp: setup_http_checker_def wired_defs Let_def)

lemma wired_restart_port: "wired True bh s \<Longrightarrow> wired True bh (restart_port_checker s)"
  by (simp add: restart_port_checker_def wired_setup_port wired_join_port)

lemma wired_restart_http: "wired bp True s \<Longrightarrow> wired bp True (restart_http_checker e s)"
  by (simp add: restart_http_checker_def wired_setup_http wired_join_http)

lemma tear_down_all_dead:
  assumes "wired True True s"
  shows "sv_live (tear_down_all s) = {} \<and> sv_route (tear_down_all s) = None \<and> inst_ok (tear_down_all s)"
  using assms
  by (cases "sv_route s"; cases "sv_pinger s"; cases "sv_port s"; cases "sv_http s")
    (auto simp: tear_down_all_def stop_route_def join_pinger_def join_port_def join_http_def wired_defs)

section \<open>Commands on the whole session\<close>

lemma pinger_start_registry:
  assumes "pinger_start hs ids (new_registry a pid) = (reg, None)"
  shows "dom (rg_workers reg) = set ids"
  using pinger_start_members [of hs ids "new_registry a pid"] assms by (simp add: new_registry_def)

text \<open>Starting from nothing live: a failure leaves nothing live, a success wires everything.\<close>

lemma start_all_inv:
  assumes "data_ok s" "inst_ok s" "sv_live s = {}" "sv_route s = None" "sv_state s = Stopped"
  shows "sup_inv (fst (start_all e s)) \<and>
    sv_state (fst (start_all e s)) = (if snd (start_all e s) = None then Running else Stopped)"
proof -
  obtain reg err where st: "pinger_start (en_has_socket e) (target_ids (clear_finished s))
      (new_registry (sv_ids (clear_finished s)) (en_pid e)) = (reg, err)" by fastforce
  show ?thesis
  proof (cases err)
    case (Some x)
    then show ?thesis using assms st
      by (simp add: start_all_def sup_inv_def data_ok_def inst_defs clear_finished_def target_ids_def)
  next
    case None
    define s1 where "s1 = clear_finished s \<lparr> sv_ids := the (rg_ids reg),
       sv_pinger := Some \<lparr> pi_inst = sv_next_inst s, pi_dynamic = en_dynamic e, pi_reg = reg \<rparr>,
       sv_live := {sv_next_inst s}, sv_next_inst := sv_next_inst s + 1 \<rparr>"
    define s2 where "s2 = (if route_enabled (sv_config s1) then restart_route False s1 else s1)"
    define s3 where "s3 = setup_http_checker e (setup_port_checker s2)"
    define s4 where "s4 = map_targets (\<lambda>t. record_event (clk_from e 0 t 0) ''started'' ''Measurements started''
                             (set_measurement_state ''running'' t)) (s3 \<lparr> sv_state := Running \<rparr>)"
    have "dom (rg_workers reg) = set (target_ids s)"
      using pinger_start_registry st None by (auto simp: clear_finished_def target_ids_def)
    with assms have "wired False False s1"
      by (cases "sv_port s"; cases "sv_http s")
        (auto simp: s1_def wired_defs clear_finished_def)
    then have "wired False False s2" by (simp add: s2_def wired_restart_route)
    then have "wired True True s3" by (simp add: s3_def wired_setup_http wired_setup_port)
    then have w: "wired True True s4" unfolding s4_def by (subst wired_map_targets) (simp_all add: wired_defs)
    have d1: "data_ok s1" using assms(1) by (simp add: s1_def data_ok_def target_ids_def clear_finished_def)
    have "same_data s1 s2" by (simp add: s2_def)
    moreover have "same_data s2 s3" unfolding s3_def
      by (rule same_data_trans [OF setup_port_checker_data setup_http_checker_data(1)])
    ultimately have "data_ok s3" using d1 same_data_ok by blast
    then have d: "data_ok s4" unfolding s4_def
      by (subst data_ok_map_targets) (simp_all add: data_ok_def target_ids_def)
    have start: "start_all e s = (if sc_count_limited (sv_cfg s4)
        then s4 \<lparr> sv_observed := sv_observed s4 @ [sv_next_inst s] \<rparr> else s4, None)"
      using st None assms(3)
      by (simp add: start_all_def Let_def s4_def s3_def s2_def s1_def clear_finished_def)
    have "sv_state s4 = Running" by (simp add: s4_def)
    with w d show ?thesis
      unfolding start by (auto simp: sup_inv_def wired_defs data_ok_def)
  qed
qed

lemma torn_down:
  assumes "sup_inv s" "sv_state s = Running"
  shows "data_ok (tear_down_all s)" "inst_ok (tear_down_all s)" "sv_live (tear_down_all s) = {}"
    "sv_route (tear_down_all s) = None" "sv_state (tear_down_all s) = Running"
  using assms tear_down_all_dead [of s] same_data_ok [OF tear_down_data [of s]] tear_down_data [of s]
  by (auto simp: sup_inv_def same_data_def)

lemma sup_inv_stopped:
  assumes "data_ok s" "inst_ok s" "sv_live s = {}" "sv_route s = None" "st \<noteq> Running"
  shows "sup_inv (s \<lparr> sv_state := st \<rparr>)"
  using assms by (simp add: sup_inv_def data_ok_def inst_defs target_ids_def)

lemma sup_inv_map_targets: "(\<And>t. ts_id (f t) = ts_id t) \<Longrightarrow> sup_inv s \<Longrightarrow> sup_inv (map_targets f s)"
  by (simp add: sup_inv_def wired_map_targets data_ok_map_targets)

lemma stop_running_inv:
  assumes "sup_inv s" "sv_state s = Running"
  shows "sup_inv (stop_running e s)"
proof -
  have "stop_running e s = map_targets (\<lambda>t. record_event (clk_from e 0 t 0) ''stopped'' ''Measurements stopped''
      (set_measurement_state ''stopped'' t)) (tear_down_all s \<lparr> sv_state := Stopped \<rparr>)"
    by (simp add: stop_running_def map_targets_def)
  then show ?thesis using sup_inv_stopped [of "tear_down_all s" Stopped] torn_down [OF assms]
    by (simp add: sup_inv_map_targets)
qed

lemma terminate_inv: "sup_inv s \<Longrightarrow> sup_inv (terminate s)"
  using sup_inv_stopped [of "tear_down_all s" Terminated] sup_inv_stopped [of s Terminated] torn_down [of s]
  by (cases "sv_state s = Running")
    (auto simp: terminate_def Let_def sup_inv_def [of s] intro!: sup_inv_map_targets)

lemma same_data_running:
  assumes "sup_inv s" "sv_state s = Running" "same_data s s'" "wired True True s'"
  shows "sup_inv s'"
  using assms same_data_ok [OF assms(3)] by (auto simp: sup_inv_def same_data_def wired_def)

lemma reset_all_inv:
  assumes "sup_inv s"
  shows "sup_inv (reset_all e s)"
proof -
  define s1 where "s1 = map_targets (\<lambda>t. reset_stats (clk_from e 0 t) t) (stop_route s)"
  define s2 where "s2 = (if route_enabled (sv_config s1) then restart_route False s1 else s1)"
  have same: "same_data s s1" unfolding s1_def by (rule same_data_trans [OF stop_route_data(1)]) simp
  show ?thesis
  proof (cases "sv_state s = Running")
    case False
    then have "sup_inv s1"
      using assms unfolding s1_def by (intro sup_inv_map_targets) (simp_all add: sup_inv_def stop_route_def)
    moreover have "sv_state s1 \<noteq> Running" using False same by (simp add: same_data_def)
    ultimately show ?thesis by (simp add: reset_all_def s1_def [symmetric] Let_def)
  next
    case True
    then have "wired True True s1"
      using assms by (simp add: s1_def wired_map_targets wired_stop_route sup_inv_def)
    then have "wired True True s2" by (simp add: s2_def wired_restart_route)
    then have "wired True True (restart_http_checker e (restart_port_checker s2))"
      by (simp add: wired_restart_port wired_restart_http)
    moreover have "same_data s1 s2" by (simp add: s2_def)
    with same have "same_data s s2" by (rule same_data_trans)
    then have "same_data s (restart_http_checker e (restart_port_checker s2))"
      unfolding restart_http_checker_def restart_port_checker_def
      by (meson same_data_trans join_data setup_port_checker_data setup_http_checker_data)
    moreover have "sv_state s1 = Running" using True same by (simp add: same_data_def)
    ultimately show ?thesis
      using same_data_running [OF assms True] by (simp add: reset_all_def s1_def [symmetric] s2_def [symmetric] Let_def)
  qed
qed

section \<open>Live edits\<close>

text \<open>An edit keeps the instances (\<open>same_shape\<close>) and changes who is registered where: \<open>members X\<close>
  says that the pinger, the route engine and the port checker all have exactly the targets X.\<close>

definition same_shape :: "supervisor \<Rightarrow> supervisor \<Rightarrow> bool" where
  "same_shape s s' =
     (map_option pi_inst (sv_pinger s') = map_option pi_inst (sv_pinger s) \<and>
      map_option ro_inst (sv_route s') = map_option ro_inst (sv_route s) \<and>
      map_option po_inst (sv_port s') = map_option po_inst (sv_port s) \<and>
      map_option ho_inst (sv_http s') = map_option ho_inst (sv_http s) \<and>
      sv_live s' = sv_live s \<and> sv_next_inst s' = sv_next_inst s \<and> sv_state s' = sv_state s \<and>
      sv_cfg s' = sv_cfg s)"

definition members :: "nat set \<Rightarrow> supervisor \<Rightarrow> bool" where
  "members X s =
     (list_all (\<lambda>p. dom (rg_workers (pi_reg p)) = X) (opt_list (sv_pinger s)) \<and>
      list_all (\<lambda>r. set (ro_runs r) = X) (opt_list (sv_route s)) \<and>
      list_all (\<lambda>p. set (pk_runs (po_checker p)) = X) (opt_list (sv_port s)))"

lemma same_shape_refl [simp]: "same_shape s s"
  by (simp add: same_shape_def)

lemma same_shape_trans: "same_shape s t \<Longrightarrow> same_shape t u \<Longrightarrow> same_shape s u"
  by (simp add: same_shape_def)

lemma map_opt_list: "map f (opt_list x) = opt_list (map_option f x)"
  by (cases x) simp_all

lemma same_shape_insts:
  assumes "same_shape s s'"
  shows "core_insts s' = core_insts s" "port_insts s' = port_insts s" "http_insts s' = http_insts s"
    "inst_ok s' = inst_ok s"
  using assms by (simp_all add: same_shape_def inst_defs map_opt_list)

lemma wired_shape:
  assumes "same_shape s s'" "wired True True s" "members (set (target_ids s')) s'"
  shows "wired True True s'"
proof -
  have "sv_live s' = sv_live s" "sv_pinger s' = None \<longleftrightarrow> sv_pinger s = None"
    using assms(1) by (auto simp: same_shape_def dest: sym)
  with assms(2,3) same_shape_insts [OF assms(1)] show ?thesis by (simp add: wired_def members_def)
qed

lemma wired_members: "wired True True s \<Longrightarrow> members (set (target_ids s)) s"
  by (simp add: wired_def members_def)

lemma sup_inv_edit:
  assumes "sup_inv s" "same_shape s s'" "data_ok s'"
    and "sv_state s = Running \<Longrightarrow> members (set (target_ids s')) s'"
  shows "sup_inv s'"
proof (cases "sv_state s = Running")
  case True
  with assms have "wired True True s'" by (auto simp: sup_inv_def intro: wired_shape)
  with True assms show ?thesis by (auto simp: sup_inv_def same_shape_def wired_def)
next
  case False
  then have "sv_live s = {}" "sv_route s = None" using assms(1) by (simp_all add: sup_inv_def)
  with False assms same_shape_insts(4) [OF assms(2)] show ?thesis
    by (auto simp: sup_inv_def same_shape_def)
qed

lemma mark_finished_inv: "sup_inv s \<Longrightarrow> sup_inv (mark_probes_finished s)"
proof -
  assume i: "sup_inv s"
  have "sup_inv (s \<lparr> sv_finished := sc_count_limited (sv_cfg s) \<rparr>)"
    by (rule sup_inv_edit [OF i])
      (use i in \<open>auto simp: same_shape_def sup_inv_def data_ok_def target_ids_def members_def wired_def\<close>)
  then have "sup_inv (map_targets (set_measurement_state ''finished'') (s \<lparr> sv_finished := sc_count_limited (sv_cfg s) \<rparr>))"
    by (simp add: sup_inv_map_targets)
  with i show ?thesis by (simp add: mark_probes_finished_def split: option.split)
qed

text \<open>What an edit leaves alone until it replaces the list.\<close>

definition same_list :: "supervisor \<Rightarrow> supervisor \<Rightarrow> bool" where
  "same_list s s' =
     (sv_targets s' = sv_targets s \<and> sv_specs s' = sv_specs s \<and> sv_groups s' = sv_groups s \<and>
      sv_config s' = sv_config s \<and> sv_finished s' = sv_finished s \<and> sv_next_target s' = sv_next_target s \<and>
      (length (sv_removed s) \<le> max_removed_targets \<longrightarrow> length (sv_removed s') \<le> max_removed_targets))"

lemma same_list_trans: "same_list s t \<Longrightarrow> same_list t u \<Longrightarrow> same_list s u"
  by (simp add: same_list_def)

lemma same_list_refl [simp]: "same_list s s"
  by (simp add: same_list_def)

text \<open>Attaching.\<close>

definition monitors :: "nat set \<Rightarrow> supervisor \<Rightarrow> bool" where
  "monitors X s =
     (list_all (\<lambda>r. set (ro_runs r) = X) (opt_list (sv_route s)) \<and>
      list_all (\<lambda>p. set (pk_runs (po_checker p)) = X) (opt_list (sv_port s)))"

definition registered :: "nat set \<Rightarrow> supervisor \<Rightarrow> bool" where
  "registered X s = list_all (\<lambda>p. dom (rg_workers (pi_reg p)) = X) (opt_list (sv_pinger s))"

lemma members_split: "members X s = (registered X s \<and> monitors X s)"
  by (simp add: members_def monitors_def registered_def)

lemma attach_target_monitors_spec:
  assumes "attach_target_monitors t s = (s', t')"
  shows "ts_id t' = ts_id t \<and> sv_pinger s' = sv_pinger s \<and> same_list s s' \<and> same_shape s s' \<and>
    (sv_state s = Running \<longrightarrow> monitors X s \<longrightarrow> monitors (insert (ts_id t) X) s')"
  using assms
  by (cases "sv_route s"; cases "sv_port s")
    (auto simp: attach_target_monitors_def port_add_def port_launch_def same_shape_def same_list_def monitors_def Let_def
        split: if_splits)

lemma attach_all_spec:
  assumes "attach_all e msg ts s = (s', ts')"
  shows "map ts_id ts' = map ts_id ts \<and> sv_pinger s' = sv_pinger s \<and> same_list s s' \<and>
    same_shape s s' \<and> (sv_state s = Running \<longrightarrow> monitors X s \<longrightarrow> monitors (X \<union> ts_id ` set ts) s')"
  using assms
proof (induction ts arbitrary: s ts' X)
  case (Cons t ts)
  obtain s1 t1 where a: "attach_target_monitors t s = (s1, t1)" by fastforce
  obtain ts2 where b: "attach_all e msg ts s1 = (s', ts2)" and
    ts': "ts' = record_event (clk_from e 9 t1 0) ''added'' msg t1 # ts2"
    using Cons.prems a by (auto split: prod.splits)
  from attach_target_monitors_spec [OF a, of X]
  have A: "ts_id t1 = ts_id t" "sv_pinger s1 = sv_pinger s" "same_list s s1" "same_shape s s1"
    "sv_state s = Running \<Longrightarrow> monitors X s \<Longrightarrow> monitors (insert (ts_id t) X) s1" by auto
  from Cons.IH [OF b, of "insert (ts_id t) X"]
  have B: "map ts_id ts2 = map ts_id ts" "sv_pinger s' = sv_pinger s1" "same_list s1 s'" "same_shape s1 s'"
    "sv_state s1 = Running \<Longrightarrow> monitors (insert (ts_id t) X) s1 \<Longrightarrow> monitors (insert (ts_id t) X \<union> ts_id ` set ts) s'" by auto
  have "sv_pinger s' = sv_pinger s \<and> same_list s s'" using A(2) B(2) same_list_trans [OF A(3) B(3)] by simp
  moreover have "sv_state s1 = sv_state s" using A(4) by (simp add: same_shape_def)
  ultimately show ?case using A B same_shape_trans [OF A(4) B(4)] ts' by auto
qed simp

lemma attach_new_spec:
  assumes "attach_new e plan s = (s', ts')"
  shows "map ts_id ts' = map (ts_id \<circ> fst) plan \<and> sv_pinger s' = sv_pinger s \<and> same_list s s' \<and>
    same_shape s s' \<and> (sv_state s = Running \<longrightarrow> monitors X s \<longrightarrow>
      monitors (X \<union> (ts_id \<circ> fst) ` set (filter snd plan)) s')"
  using assms
proof (induction plan arbitrary: s ts' X)
  case (Cons p plan)
  obtain t new where p: "p = (t, new)" by fastforce
  show ?case
  proof (cases new)
    case False
    then obtain ts2 where b: "attach_new e plan s = (s', ts2)" and ts': "ts' = t # ts2"
      using Cons.prems p by (auto split: prod.splits)
    then show ?thesis using Cons.IH [OF b, of X] False p by auto
  next
    case True
    obtain s1 t1 where a: "attach_target_monitors t s = (s1, t1)" by fastforce
    obtain ts2 where b: "attach_new e plan s1 = (s', ts2)" and
      ts': "ts' = record_event (clk_from e 9 t1 0) ''added'' ''Target added by configuration reload'' t1 # ts2"
      using Cons.prems a p True by (auto split: prod.splits)
    from attach_target_monitors_spec [OF a, of X]
    have A: "ts_id t1 = ts_id t" "sv_pinger s1 = sv_pinger s" "same_list s s1" "same_shape s s1"
      "sv_state s = Running \<Longrightarrow> monitors X s \<Longrightarrow> monitors (insert (ts_id t) X) s1" by auto
    from Cons.IH [OF b, of "insert (ts_id t) X"]
    have B: "map ts_id ts2 = map (ts_id \<circ> fst) plan" "sv_pinger s' = sv_pinger s1" "same_list s1 s'"
      "same_shape s1 s'" "sv_state s1 = Running \<Longrightarrow> monitors (insert (ts_id t) X) s1 \<Longrightarrow>
        monitors (insert (ts_id t) X \<union> (ts_id \<circ> fst) ` set (filter snd plan)) s'" by auto
    have "sv_pinger s' = sv_pinger s \<and> same_list s s'" using A(2) B(2) same_list_trans [OF A(3) B(3)] by simp
    moreover have "sv_state s1 = sv_state s" using A(4) by (simp add: same_shape_def)
    ultimately show ?thesis using A B same_shape_trans [OF A(4) B(4)] ts' p True by auto
  qed
qed simp

text \<open>Archiving and detaching.\<close>

interpretation archive: bounded_log max_removed_targets push_removed
  by unfold_locales (simp add: push_removed_def lastn_def Let_def)

lemma detach_spec:
  "same_shape s (detach_target_monitors e live r t s) \<and> same_list s (detach_target_monitors e live r t s) \<and>
   (if live then (registered X s \<longrightarrow> registered (X - {ts_id t}) (detach_target_monitors e live r t s)) \<and>
      (monitors Y s \<longrightarrow> monitors (Y - {ts_id t}) (detach_target_monitors e live r t s))
    else sv_pinger (detach_target_monitors e live r t s) = sv_pinger s \<and>
      sv_route (detach_target_monitors e live r t s) = sv_route s \<and>
      sv_port (detach_target_monitors e live r t s) = sv_port s)"
  by (cases "sv_pinger s"; cases "sv_route s"; cases "sv_port s")
    (auto simp: detach_target_monitors_def archive_target_def same_shape_def same_list_def registered_def
        monitors_def Let_def archive.push_bounded port_remove_def
        pinger.remove_members [where running = "en_running e"])

section \<open>Removing a target\<close>

lemma delete_at_props:
  assumes "i < length xs"
  shows "length (delete_at i xs) = length xs - 1" "map f (delete_at i xs) = delete_at i (map f xs)"
  using assms by (simp_all add: delete_at_def take_map drop_map)

lemma delete_at_set:
  assumes "distinct xs" "i < length xs"
  shows "distinct (delete_at i xs) \<and> set (delete_at i xs) = set xs - {xs ! i}"
proof -
  have "xs = take i xs @ xs ! i # drop (Suc i) xs" using assms(2) by (rule id_take_nth_drop)
  then show ?thesis using assms(1) unfolding delete_at_def
    by (metis Diff_insert_absorb Suc_eq_plus1 Un_insert_right distinct.simps(2) distinct_append
        Un_iff disjoint_insert(1) list.simps(15) set_append)
qed

lemma drop_index_valid:
  assumes "list_all (\<lambda>g. list_all (\<lambda>x. x < n) (gr_indices g)) gs" "i < n"
  shows "list_all (\<lambda>g. list_all (\<lambda>x. x < n - 1) (gr_indices g)) (drop_index i gs)"
  using assms by (fastforce simp: drop_index_def list_all_iff)

lemma remove_at_inv:
  assumes "sup_inv s" "i < length (sv_targets s)"
  shows "sup_inv (fst (remove_at e i s))"
proof (cases "length (sv_targets s) \<le> 1 \<or> sv_state s = Running \<and> live_pinger s = None")
  case True
  then show ?thesis using assms(1) by (auto simp: remove_at_def)
next
  case False
  let ?t = "sv_targets s ! i" and ?live = "sv_state s = Running"
  define s1 where "s1 = detach_target_monitors e ?live ''Target removed'' ?t s"
  define s2 where "s2 = s1 \<lparr> sv_groups := drop_index i (sv_groups s1), sv_specs := delete_at i (sv_specs s1),
                 sv_targets := delete_at i (sv_targets s1) \<rparr>"
  have r: "fst (remove_at e i s) = s2" using False by (auto simp: remove_at_def s1_def s2_def Let_def)
  note d = detach_spec [of s e ?live "''Target removed''" ?t "set (target_ids s)" "set (target_ids s)", folded s1_def]
  from assms(1) have ok: "data_ok s" by (simp add: sup_inv_def)
  have ids: "target_ids s2 = delete_at i (target_ids s)"
    using d assms(2) by (simp add: s2_def target_ids_def same_list_def delete_at_props)
  have "distinct (target_ids s2) \<and> set (target_ids s2) = set (target_ids s) - {ts_id ?t}"
    using delete_at_set [of "target_ids s" i] ok assms(2) by (simp add: ids) (simp add: data_ok_def target_ids_def)
  moreover have "data_ok s2 \<longleftrightarrow> data_ok s2" ..
  moreover have "list_all (\<lambda>g. list_all (\<lambda>x. x < length (sv_targets s) - 1) (gr_indices g)) (drop_index i (sv_groups s))"
    using drop_index_valid ok assms(2) by (simp add: data_ok_def)
  ultimately have data: "data_ok s2"
    using d ok assms(2)
    by (auto simp: data_ok_def same_list_def same_shape_def s2_def delete_at_props list_all_iff)
  show ?thesis unfolding r
  proof (rule sup_inv_edit [OF assms(1)])
    show "same_shape s s2" using d by (simp add: s2_def same_shape_def)
    show "data_ok s2" by (rule data)
    assume run: "sv_state s = Running"
    then have "members (set (target_ids s)) s" using assms(1) by (simp add: sup_inv_def wired_members)
    with d run have "members (set (target_ids s) - {ts_id ?t}) s1" by (simp add: members_split)
    then show "members (set (target_ids s2)) s2"
      using \<open>distinct (target_ids s2) \<and> _\<close> by (simp add: s2_def members_def)
  qed
qed

lemma index_of_id_less: "index_of_id ident ts = Some i \<Longrightarrow> i < length ts \<and> ts_id (ts ! i) = ident"
  by (induction ts arbitrary: i) (auto split: if_splits)

section \<open>Adding a target\<close>

lemma new_live_target_spec:
  "new_live_target e c sp s = (s', t) \<Longrightarrow>
   s' = s \<lparr> sv_next_target := sv_next_target s + 1 \<rparr> \<and> ts_id t = sv_next_target s + 1"
  by (auto simp: new_live_target_def Let_def build_target_def set_iface_mtu_def set_dns_server_def
      set_resolve_address_def new_target_stats_def split: list.split)

lemma new_live_targets_spec:
  "new_live_targets e c sps s = (s', ts) \<Longrightarrow>
   s' = s \<lparr> sv_next_target := sv_next_target s + length sps \<rparr> \<and>
   map ts_id ts = [sv_next_target s + 1..<sv_next_target s + 1 + length sps]"
proof (induction sps arbitrary: s ts)
  case (Cons sp sps)
  obtain s1 t where a: "new_live_target e c sp s = (s1, t)" by fastforce
  obtain ts2 where b: "new_live_targets e c sps s1 = (s', ts2)" "ts = t # ts2"
    using Cons.prems a by (auto split: prod.splits)
  have "[sv_next_target s + 1..<sv_next_target s + 1 + length (sp # sps)] =
      (sv_next_target s + 1) # [sv_next_target s + 2..<sv_next_target s + 2 + length sps]"
    by (simp add: upt_conv_Cons del: upt_Suc)
  with new_live_target_spec [OF a] Cons.IH [OF b(1)] b(2) show ?case by simp
qed simp

lemma register_with_spec:
  assumes "register_with e new s = (s', err)"
  shows "sv_route s' = sv_route s \<and> sv_port s' = sv_port s \<and> same_list s s' \<and> same_shape s s' \<and>
    (registered X s \<longrightarrow> registered (if err = None then X \<union> fst ` set new else X) s')"
proof (cases "sv_pinger s")
  case None
  then show ?thesis using assms by (auto simp: register_with_def registered_def)
next
  case (Some p)
  obtain reg err' where r: "register_targets add_target (\<lambda>t. remove_target t (en_running e t)) [] new (pi_reg p) = (reg, err')"
    by fastforce
  then have "err' = None \<Longrightarrow> dom (rg_workers reg) = dom (rg_workers (pi_reg p)) \<union> fst ` set new"
    "err' \<noteq> None \<Longrightarrow> dom (rg_workers reg) = dom (rg_workers (pi_reg p))"
    using pinger.register_all_or_nothing [where running = "en_running e" and p = "pi_reg p" and ts = new] by simp_all
  then show ?thesis using assms Some r by (auto simp: register_with_def same_shape_def same_list_def registered_def)
qed

lemma add_host_inv:
  assumes "sup_inv s"
  shows "sup_inv (fst (add_host e host s))"
proof (cases "list_ex (\<lambda>sp. display sp = host \<or> sp_host sp = host) (sv_specs s)")
  case True
  then show ?thesis using assms by (simp add: add_host_def)
next
  case False
  define specs where "specs = fst (expand_targets (cf_resolve_all (sv_config s)) (en_lookup e) [spec_of_host host] [])"
  obtain s1 added where n: "new_live_targets e (sv_config s) specs s = (s1, added)" by fastforce
  from new_live_targets_spec [OF n] have s1: "s1 = s \<lparr> sv_next_target := sv_next_target s + length specs \<rparr>"
    and ids: "map ts_id added = [sv_next_target s + 1..<sv_next_target s + 1 + length specs]" by auto
  have len: "length added = length specs" using arg_cong [OF ids, of length] by (simp del: upt_Suc)
  have ok: "data_ok s" using assms by (simp add: sup_inv_def)
  have i1: "sup_inv s1"
    by (rule sup_inv_edit [OF assms])
      (use assms ok in \<open>auto simp: s1 same_shape_def data_ok_def target_ids_def sup_inv_def wired_def members_def
          list_all_iff\<close>)
  define res where "res = (if sv_state s1 = Running then
       (if live_pinger s1 = None then (s1, Some NoLiveChanges)
        else case register_with e (zip (map ts_id added) (map resolve_addr specs)) s1 of
          (s2, err) \<Rightarrow> (s2, map_option RegisterFailed err))
     else (s1, None))"
  obtain s2 err where res2: "res = (s2, err)" by fastforce
  have fst: "fst (add_host e host s) = (case err of Some _ \<Rightarrow> s2
     | None \<Rightarrow> (case attach_all e ''Target added'' added s2 of (s3, added') \<Rightarrow>
         clear_finished (s3 \<lparr> sv_targets := sv_targets s3 @ added', sv_specs := sv_specs s3 @ specs \<rparr>)))"
    using False n res2 by (simp add: add_host_def specs_def [symmetric] res_def [symmetric] Let_def split: option.split prod.split)
  let ?X = "set (target_ids s)" and ?N = "set (map ts_id added)"
  have reg: "same_list s1 s2 \<and> same_shape s1 s2 \<and>
     (sv_state s = Running \<longrightarrow>
       registered (if err = None then ?X \<union> ?N else ?X) s2 \<and> monitors ?X s2)"
  proof (cases "sv_state s = Running \<and> live_pinger s1 \<noteq> None")
    case True
    obtain s2' err' where rw: "register_with e (zip (map ts_id added) (map resolve_addr specs)) s1 = (s2', err')" by fastforce
    then have e: "s2' = s2" "err = map_option RegisterFailed err'" using True res2 by (auto simp: res_def s1)
    have m: "members ?X s1" using assms True by (simp add: s1 sup_inv_def wired_def members_def)
    have z: "fst ` set (zip (map ts_id added) (map resolve_addr specs)) = ?N"
      using len by (metis length_map list.set_map map_fst_zip)
    have e': "err = None \<longleftrightarrow> err' = None" using e(2) by simp
    from m have m1: "registered ?X s1" "monitors ?X s1"
      by (simp_all only: members_split)
    from register_with_spec [OF rw, of ?X] m1(1)
    have f: "sv_route s2 = sv_route s1" "sv_port s2 = sv_port s1" "same_list s1 s2" "same_shape s1 s2"
      "registered (if err = None then ?X \<union> ?N else ?X) s2"
      unfolding e(1) z e' by blast+
    from m1(2) f(1,2) have "monitors ?X s2" by (simp only: monitors_def)
    with f show ?thesis by blast
  next
    case False
    then have "s2 = s1 \<and> (sv_state s = Running \<longrightarrow> err \<noteq> None)"
      using res2 by (auto simp: res_def s1 split: if_splits)
    moreover have "members ?X s1" if "sv_state s = Running"
      using assms that by (simp add: s1 sup_inv_def wired_def members_def)
    ultimately show ?thesis by (auto simp: members_split)
  qed
  show ?thesis
  proof (cases err)
    case (Some x)
    have "sup_inv s2"
    proof (rule sup_inv_edit [OF i1])
      show "same_shape s1 s2" using reg by simp
      show "data_ok s2" using i1 reg by (auto simp: sup_inv_def data_ok_def target_ids_def same_list_def same_shape_def)
      show "sv_state s1 = Running \<Longrightarrow> members (set (target_ids s2)) s2"
        using reg Some by (simp add: members_split s1 target_ids_def same_list_def)
    qed
    with fst Some show ?thesis by simp
  next
    case None
    obtain s3 added' where at: "attach_all e ''Target added'' added s2 = (s3, added')" by fastforce
    note a = attach_all_spec [OF at, of ?X]
    define s4 where "s4 = clear_finished (s3 \<lparr> sv_targets := sv_targets s3 @ added', sv_specs := sv_specs s3 @ specs \<rparr>)"
    have same: "sv_targets s3 = sv_targets s" "sv_specs s3 = sv_specs s" "sv_groups s3 = sv_groups s"
      "sv_next_target s3 = sv_next_target s + length specs" "sv_cfg s3 = sv_cfg s" "sv_pinger s3 = sv_pinger s2"
      "length (sv_removed s3) \<le> max_removed_targets"
      using a reg s1 ok by (auto simp: same_list_def same_shape_def data_ok_def)
    have ids': "map ts_id added' = map ts_id added" using a by simp
    have tids: "target_ids s4 = target_ids s @ map ts_id added"
      using same ids' by (simp add: s4_def clear_finished_def target_ids_def)
    have l': "length added' = length specs" using arg_cong [OF ids', of length] len by simp
    have fresh: "distinct (map ts_id added)"
      "list_all (\<lambda>i. sv_next_target s < i \<and> i \<le> sv_next_target s + length specs) (map ts_id added)"
      unfolding ids by (auto simp: list_all_iff simp del: upt_Suc)
    have "distinct (target_ids s4)" using ok fresh by (fastforce simp: data_ok_def tids list_all_iff)
    moreover have "list_all (\<lambda>i. i \<le> sv_next_target s + length specs) (target_ids s4)"
      using ok fresh by (fastforce simp: data_ok_def tids list_all_iff)
    moreover have "list_all (\<lambda>g. list_all (\<lambda>i. i < length (sv_targets s) + length specs) (gr_indices g)) (sv_groups s)"
      using ok by (fastforce simp: data_ok_def list_all_iff)
    ultimately have "data_ok s4"
      using ok same l' by (simp add: data_ok_def) (simp add: s4_def clear_finished_def)
    moreover have "same_shape s s4"
      using same_shape_trans [of s s1 s3] same_shape_trans [of s1 s2 s3] reg a
      by (auto simp: s4_def clear_finished_def s1 same_shape_def)
    moreover have "members (set (target_ids s4)) s4" if "sv_state s = Running"
    proof -
      have "sv_state s2 = Running" using reg that by (simp add: same_shape_def s1)
      then have "monitors (?X \<union> ?N) s3" using a reg that by (simp add: image_comp)
      then show ?thesis using reg that None same(6)
        by (simp add: members_split tids) (simp add: s4_def clear_finished_def monitors_def registered_def)
    qed
    ultimately show ?thesis using sup_inv_edit [OF assms, of s4] fst None at by (simp add: s4_def)
  qed
qed

section \<open>Live reload\<close>

lemma extract_pool:
  assumes "List.extract P pool = Some (before, x, after)"
  shows "pool = before @ x # after" "P x" "\<forall>y\<in>set before. \<not> P y"
  using assms by (auto simp: extract_Some_iff)

lemma list_all2_right: "list_all2 P xs ys \<Longrightarrow> y \<in> set ys \<Longrightarrow> \<exists>x. P x y"
  by (induction rule: list_all2_induct) auto

text \<open>A reconciliation: one target per specification, in order, with distinct identities; what is not
  new comes from the pool and has the same identity, what is new has a fresh number.\<close>

lemma reconcile_spec:
  assumes "reconcile_targets e c pool specs s = (s', plan)"
    and "distinct (map (ts_id \<circ> snd) pool)" "\<forall>(old, t)\<in>set pool. ts_id t \<le> sv_next_target s"
  shows "s' = s \<lparr> sv_next_target := sv_next_target s' \<rparr> \<and> sv_next_target s \<le> sv_next_target s' \<and>
    length plan = length specs \<and> distinct (map (ts_id \<circ> fst) plan) \<and>
    list_all2 (\<lambda>sp (t, new). if new then sv_next_target s < ts_id t \<and> ts_id t \<le> sv_next_target s'
      else \<exists>old. (old, t) \<in> set pool \<and> same_identity sp old) specs plan"
  using assms
proof (induction e c pool specs s arbitrary: plan rule: reconcile_targets.induct)
  case (1 e c pool s)
  then show ?case by simp
next
  case (2 e c pool sp sps s)
  show ?case
  proof (cases "List.extract (\<lambda>(old, t). same_identity sp old) pool")
    case None
    obtain s1 t where n: "new_live_target e c sp s = (s1, t)" by fastforce
    obtain rest where r: "reconcile_targets e c pool sps s1 = (s', rest)" "plan = (t, True) # rest"
      using "2.prems"(1) None n by (auto split: prod.splits)
    from new_live_target_spec [OF n] have s1: "s1 = s \<lparr> sv_next_target := sv_next_target s + 1 \<rparr>"
      and t: "ts_id t = sv_next_target s + 1" by auto
    have le1: "\<forall>(old, u)\<in>set pool. ts_id u \<le> sv_next_target s1"
      using "2.prems"(3) by (fastforce simp: s1)
    note ih = "2.IH"(1) [OF None n [symmetric] r(1) "2.prems"(2) le1]
    have IH: "s' = s1 \<lparr> sv_next_target := sv_next_target s' \<rparr>" "sv_next_target s1 \<le> sv_next_target s'"
      "length rest = length sps" "distinct (map (ts_id \<circ> fst) rest)"
      "list_all2 (\<lambda>sp (t, new). if new then sv_next_target s1 < ts_id t \<and> ts_id t \<le> sv_next_target s'
        else \<exists>old. (old, t) \<in> set pool \<and> same_identity sp old) sps rest"
      using ih by - (elim conjE, assumption)+
    have fresh: "ts_id u \<noteq> ts_id t" if u: "(u, new) \<in> set rest" for u new
    proof -
      obtain sq where "if new then sv_next_target s1 < ts_id u \<and> ts_id u \<le> sv_next_target s'
          else \<exists>old. (old, u) \<in> set pool \<and> same_identity sq old"
        using list_all2_right [OF IH(5) u] by (simp only: prod.case) blast
      then show ?thesis using "2.prems"(3) t by (auto simp: s1 split: if_splits)
    qed
    have "list_all2 (\<lambda>sp (t, new). if new then sv_next_target s < ts_id t \<and> ts_id t \<le> sv_next_target s'
        else \<exists>old. (old, t) \<in> set pool \<and> same_identity sp old) sps rest"
      using IH(5) by (rule list_all2_mono) (auto simp: s1 split: if_splits)
    moreover have "distinct (map (ts_id \<circ> fst) plan)" using IH(4) fresh by (fastforce simp: r(2))
    ultimately show ?thesis using IH(1-3) r(2) t by (auto simp: s1 comp_def)
  next
    case (Some x)
    obtain before old t after where x: "x = (before, (old, t), after)" by (cases x) auto
    note ex = extract_pool [OF Some [unfolded x]]
    obtain rest where r: "reconcile_targets e c (before @ after) sps s = (s', rest)" "plan = (t, False) # rest"
      using "2.prems"(1) Some x by (auto split: prod.splits)
    have d: "distinct (map (ts_id \<circ> snd) (before @ after))" "\<forall>(old, t)\<in>set (before @ after). ts_id t \<le> sv_next_target s"
      and nt: "ts_id t \<notin> (ts_id \<circ> snd) ` set (before @ after)"
      using "2.prems"(2,3) ex(1) by (auto simp: comp_def)
    have IH: "s' = s \<lparr> sv_next_target := sv_next_target s' \<rparr>" "sv_next_target s \<le> sv_next_target s'"
      "length rest = length sps" "distinct (map (ts_id \<circ> fst) rest)"
      "list_all2 (\<lambda>sp (t, new). if new then sv_next_target s < ts_id t \<and> ts_id t \<le> sv_next_target s'
        else \<exists>old. (old, t) \<in> set (before @ after) \<and> same_identity sp old) sps rest"
      using "2.IH"(2) [OF Some x [symmetric] refl refl r(1) d] by - (elim conjE, assumption)+
    have fresh: "ts_id u \<noteq> ts_id t" if u: "(u, new) \<in> set rest" for u new
    proof -
      obtain sq where "if new then sv_next_target s < ts_id u \<and> ts_id u \<le> sv_next_target s'
          else \<exists>old. (old, u) \<in> set (before @ after) \<and> same_identity sq old"
        using list_all2_right [OF IH(5) u] by (simp only: prod.case) blast
      moreover have "ts_id t \<le> sv_next_target s" using "2.prems"(3) ex(1) by auto
      ultimately show ?thesis using nt by (force split: if_splits)
    qed
    have "list_all2 (\<lambda>sp (t, new). if new then sv_next_target s < ts_id t \<and> ts_id t \<le> sv_next_target s'
        else \<exists>old. (old, t) \<in> set pool \<and> same_identity sp old) sps rest"
      using IH(5) by (rule list_all2_mono) (auto simp: ex(1) split: if_splits)
    moreover have "distinct (map (ts_id \<circ> fst) plan)" using IH(4) fresh by (fastforce simp: r(2))
    moreover have "same_identity sp old" "(old, t) \<in> set pool" using ex by auto
    ultimately show ?thesis using IH(1-3) r(2) by (auto simp: comp_def)
  qed
qed

lemma detach_fold_spec:
  assumes "s' = fold (\<lambda>t. if ts_id t \<in> R then (\<lambda>u. u) else detach_target_monitors e live r t) ts s"
  shows "same_shape s s' \<and> same_list s s' \<and>
   (if live then (registered X s \<longrightarrow> registered (X - (ts_id ` set ts - R)) s') \<and>
      (monitors Y s \<longrightarrow> monitors (Y - (ts_id ` set ts - R)) s')
    else sv_pinger s' = sv_pinger s \<and> sv_route s' = sv_route s \<and> sv_port s' = sv_port s)"
  using assms
proof (induction ts arbitrary: s X Y)
  case (Cons t ts)
  show ?case
  proof (cases "ts_id t \<in> R")
    case True
    have eq: "ts_id ` set (t # ts) - R = ts_id ` set ts - R" using True by auto
    from Cons.prems True have s': "s' = fold (\<lambda>t. if ts_id t \<in> R then (\<lambda>u. u)
        else detach_target_monitors e live r t) ts s" by simp
    show ?thesis using Cons.IH [OF s', of X Y] unfolding eq .
  next
    case False
    let ?s1 = "detach_target_monitors e live r t s"
    have eq: "Z - {ts_id t} - (ts_id ` set ts - R) = Z - (ts_id ` set (t # ts) - R)" for Z using False by auto
    note d = detach_spec [of s e live r t X Y]
    from Cons.prems False have s': "s' = fold (\<lambda>t. if ts_id t \<in> R then (\<lambda>u. u) else detach_target_monitors e live r t) ts ?s1" by simp
    note IH = Cons.IH [OF s', of "X - {ts_id t}" "Y - {ts_id t}", unfolded eq]
    have "same_shape s s'" "same_list s s'"
      using d IH same_shape_trans [of s ?s1 s'] same_list_trans [of s ?s1 s'] by blast+
    then show ?thesis using d IH by (cases live) simp_all
  qed
qed simp

lemma map2_keeps:
  assumes "length ts = length xs" "\<And>x t. ts_id (f x t) = ts_id t"
  shows "map (ts_id \<circ> fst) (map2 (\<lambda>x (t, new). (f x t, new)) xs ts) = map (ts_id \<circ> fst) ts"
    and "map snd (map2 (\<lambda>x (t, new). (f x t, new)) xs ts) = map snd ts"
    and "map (ts_id \<circ> fst) (filter snd (map2 (\<lambda>x (t, new). (f x t, new)) xs ts)) =
      map (ts_id \<circ> fst) (filter snd ts)"
  using assms(1) [symmetric] by (induction xs ts rule: list_induct2) (auto simp: assms(2))

text \<open>Adopting a plan whose new targets the pinger already has (when it runs).\<close>

lemma adopt_reload_inv:
  assumes inv: "sup_inv s0" "same_shape s0 s" "same_list s0 s \<or> s0 = s"
    and plan: "length plan = length specs" "distinct (map (ts_id \<circ> fst) plan)"
      "\<forall>(t, new)\<in>set plan. ts_id t \<le> sv_next_target s \<and> (if new then ts_id t \<notin> set (target_ids s0) else ts_id t \<in> set (target_ids s0))"
      "list_all (\<lambda>g. list_all (\<lambda>i. i < length specs) (gr_indices g)) groups"
    and reg: "sv_state s = Running \<Longrightarrow> live \<Longrightarrow>
      registered (set (target_ids s0) \<union> (ts_id \<circ> fst) ` set (filter snd plan)) s \<and> monitors (set (target_ids s0)) s"
      "sv_state s = Running \<Longrightarrow> \<not> live \<Longrightarrow> members (set (target_ids s0)) s \<and> filter snd plan = [] \<and>
        (ts_id \<circ> fst) ` set plan = set (target_ids s0)"
  shows "sup_inv (fst (adopt_reload e c specs groups plan live s))"
proof -
  define R where "R = set (map (ts_id \<circ> fst) (filter (\<lambda>(t, new). \<not> new) plan))"
  define N where "N = (ts_id \<circ> fst) ` set (filter snd plan)"
  define P where "P = (ts_id \<circ> fst) ` set plan"
  let ?S = "set (target_ids s0)"
  have RN: "P = R \<union> N" "R \<subseteq> ?S" "N \<inter> ?S = {}"
    using plan(3) by (force simp: P_def R_def N_def)+
  define s1 where "s1 = fold (\<lambda>t. if ts_id t \<in> R then (\<lambda>u. u)
      else detach_target_monitors e live ''Target removed by configuration reload'' t) (sv_targets s) s"
  define s2 where "s2 = s1 \<lparr> sv_config := c \<lparr> cf_web_enabled := cf_web_enabled (sv_config s1),
      cf_web_port := cf_web_port (sv_config s1), cf_duration := cf_duration (sv_config s1) \<rparr> \<rparr>"
  define named where "named = map2 (\<lambda>sp (t, new). (configure_target s2 (clk_from e 6 t)
      (fst (set_display_name (clk_from e 5 t 0) (display sp) t)), new)) specs plan"
  define s3 where "s3 = s2 \<lparr> sv_targets := map fst named, sv_specs := specs, sv_groups := groups \<rparr>"
  obtain s4 targets where at: "attach_new e named s3 = (s4, targets)" by fastforce
  define s5 where "s5 = s4 \<lparr> sv_targets := targets \<rparr>"
  have tgt: "ts_id ` set (sv_targets s) = ?S"
    using inv(3) by (auto simp: same_list_def target_ids_def)
  note d = detach_fold_spec [OF s1_def, of "?S \<union> N" ?S, unfolded tgt]
  have d': "sv_state s = Running \<Longrightarrow> registered P s1 \<and> monitors R s1"
  proof (cases live)
    case True
    assume run: "sv_state s = Running"
    have "?S \<union> N - (?S - R) = P" "?S - (?S - R) = R" using RN by auto
    with d True reg(1) [OF run True] show ?thesis by (simp add: N_def)
  next
    case False
    assume run: "sv_state s = Running"
    with reg(2) False have "members ?S s" "N = {}" "P = ?S" by (auto simp: N_def P_def)
    with d False RN show ?thesis by (simp add: members_split registered_def monitors_def)
  qed
  have ids: "map (ts_id \<circ> fst) named = map (ts_id \<circ> fst) plan" "map snd named = map snd plan"
    unfolding named_def using plan(1) by (simp_all only: map2_keeps set_display_name_id configure_target_id)
  have newids: "(ts_id \<circ> fst) ` set (filter snd named) = N"
  proof -
    have "map (ts_id \<circ> fst) (filter snd named) = map (ts_id \<circ> fst) (filter snd plan)"
      unfolding named_def using plan(1) by (simp only: map2_keeps set_display_name_id configure_target_id)
    then show ?thesis unfolding N_def by (metis list.set_map)
  qed
  note a = attach_new_spec [OF at, of R, unfolded newids]
  have tids: "target_ids s5 = map (ts_id \<circ> fst) plan" using a ids by (simp add: s5_def target_ids_def)
  have shape: "same_shape s0 s5"
    using inv(2) d a by (simp add: s5_def s3_def s2_def same_shape_def)
  have st: "sv_state s5 = sv_state s" "sv_state s0 = sv_state s" using shape inv(2) by (simp_all add: same_shape_def)
  have ok0: "data_ok s0" using inv(1) by (simp add: sup_inv_def)
  have data: "data_ok s5"
  proof -
    have "length targets = length specs" using a ids plan(1) by (metis length_map)
    moreover have "sv_specs s5 = specs" "sv_groups s5 = groups" "sv_next_target s5 = sv_next_target s"
      "sv_finished s5 = sv_finished s0" "sv_cfg s5 = sv_cfg s0" "length (sv_removed s5) \<le> max_removed_targets" "sv_targets s5 = targets"
      using a d inv ok0 by (auto simp: s5_def s3_def s2_def same_list_def same_shape_def data_ok_def)
    ultimately show ?thesis
      using plan ok0 by (auto simp: data_ok_def tids list_all_iff)
  qed
  have inv5: "sup_inv s5"
  proof (rule sup_inv_edit [OF inv(1) shape data])
    assume "sv_state s0 = Running"
    then have run: "sv_state s = Running" using st by simp
    then have "monitors R s3" "registered P s3" "sv_state s3 = Running"
      using d' d by (simp_all add: s3_def s2_def monitors_def registered_def same_shape_def)
    then have "monitors (R \<union> N) s4" "registered P s4" using a by (simp_all add: registered_def)
    then show "members (set (target_ids s5)) s5"
      using RN by (simp add: members_split tids P_def) (simp add: s5_def monitors_def registered_def)
  qed
  define s6 where "s6 = (if cf_mtr c \<noteq> cf_mtr (sv_config s1) \<and> sv_state s5 = Running then restart_route False s5 else s5)"
  have inv6: "sup_inv s6"
    using inv5 same_data_running [of s5 "restart_route False s5"] by (auto simp: s6_def sup_inv_def wired_restart_route)
  have "sup_inv (clear_finished s6)"
    by (rule sup_inv_edit [OF inv6])
      (use inv6 in \<open>auto simp: clear_finished_def same_shape_def sup_inv_def data_ok_def target_ids_def members_def wired_def\<close>)
  moreover have "fst (adopt_reload e c specs groups plan live s) = (if list_ex snd plan then clear_finished s6 else s6)"
    using at by (simp add: adopt_reload_def Let_def s6_def s5_def s3_def named_def s2_def s1_def R_def)
  ultimately show ?thesis using inv6 by simp
qed

end
