(* ===== verification/Supervisor_Properties.thy ===== *)
theory Supervisor_Properties
  imports Supervisor_Invariant
begin

text \<open>
  The supervisor as a whole: the invariant holds for every sequence of commands, nothing is left
  running after a shutdown, what commands keep of the statistics and of the groups, and what a
  failed one undoes.
\<close>

section \<open>Reload keeps the invariant\<close>

text \<open>The groups of a reload come from the document that gave its specifications.\<close>

definition groups_within :: "nat \<Rightarrow> target_group list \<Rightarrow> bool" where
  "groups_within n groups = list_all (\<lambda>g. list_all (\<lambda>i. i < n) (gr_indices g)) groups"

lemma pool_of_supervisor:
  assumes "data_ok s"
  shows "map (ts_id \<circ> snd) (zip (sv_specs s) (sv_targets s)) = target_ids s"
    and "distinct (map (ts_id \<circ> snd) (zip (sv_specs s) (sv_targets s)))"
    and "\<forall>(old, t)\<in>set (zip (sv_specs s) (sv_targets s)). ts_id t \<le> sv_next_target s"
proof -
  have l: "length (sv_specs s) = length (sv_targets s)" using assms by (simp add: data_ok_def)
  have "map (ts_id \<circ> snd) (zip (sv_specs s) (sv_targets s)) = map ts_id (map snd (zip (sv_specs s) (sv_targets s)))"
    by (simp add: comp_def)
  also have "\<dots> = target_ids s" using l by (simp add: target_ids_def)
  finally show m: "map (ts_id \<circ> snd) (zip (sv_specs s) (sv_targets s)) = target_ids s" .
  show "distinct (map (ts_id \<circ> snd) (zip (sv_specs s) (sv_targets s)))"
    unfolding m using assms by (simp add: data_ok_def)
  have "list_all (\<lambda>i. i \<le> sv_next_target s) (map (ts_id \<circ> snd) (zip (sv_specs s) (sv_targets s)))"
    unfolding m using assms by (simp add: data_ok_def)
  then show "\<forall>(old, t)\<in>set (zip (sv_specs s) (sv_targets s)). ts_id t \<le> sv_next_target s"
    by (simp add: list_all_iff case_prod_beta)
qed

lemma sup_inv_next_target:
  assumes "sup_inv s" "sv_next_target s \<le> n"
  shows "sup_inv (s \<lparr> sv_next_target := n \<rparr>)"
proof (rule sup_inv_edit [OF assms(1)])
  have d: "data_ok s" using assms(1) by (simp add: sup_inv_def)
  have "list_all (\<lambda>i. i \<le> n) (target_ids s)"
    using d assms(2) by (fastforce simp: data_ok_def list_all_iff)
  with d show "data_ok (s \<lparr> sv_next_target := n \<rparr>)" by (simp add: data_ok_def target_ids_def)
next
  assume "sv_state s = Running"
  then have "members (set (target_ids s)) s" using assms(1) by (simp add: sup_inv_def wired_members)
  then show "members (set (target_ids (s \<lparr> sv_next_target := n \<rparr>))) (s \<lparr> sv_next_target := n \<rparr>)"
    by (simp add: members_def target_ids_def)
qed (simp add: same_shape_def)

lemma added_ids:
  assumes "length plan = length specs"
  shows "fst ` set (map (\<lambda>((t, new), sp). (ts_id t, resolve_addr sp)) (filter (\<lambda>((t, new), sp). new) (zip plan specs))) =
    (ts_id \<circ> fst) ` set (filter snd plan)"
proof -
  have "map fst (map (\<lambda>((t, new), sp). (ts_id t, resolve_addr sp)) (filter (\<lambda>((t, new), sp). new) (zip plan specs))) =
      map (ts_id \<circ> fst) (filter snd plan)"
    using assms by (induction plan specs rule: list_induct2) auto
  then show ?thesis by (metis list.set_map)
qed

lemma reload_live_inv:
  assumes "sup_inv s" "groups_within (length specs) groups"
  shows "sup_inv (fst (reload_live e c specs groups s))"
proof (cases "diff_probe_config (sv_config s) c = []")
  case False
  then show ?thesis using assms by (simp add: reload_live_def)
next
  case True
  have d: "data_ok s" using assms(1) by (simp add: sup_inv_def)
  obtain s1 plan where rc: "reconcile_targets e c (zip (sv_specs s) (sv_targets s)) specs s = (s1, plan)" by fastforce
  note sp = reconcile_spec [OF rc pool_of_supervisor(2,3) [OF d]]
  have s1: "s1 = s \<lparr> sv_next_target := sv_next_target s1 \<rparr>" and le: "sv_next_target s \<le> sv_next_target s1"
    and len: "length plan = length specs" and dis: "distinct (map (ts_id \<circ> fst) plan)" using sp by blast+
  note l2 = sp [THEN conjunct2, THEN conjunct2, THEN conjunct2, THEN conjunct2]
  have i1: "sup_inv s1" using sup_inv_next_target [OF assms(1) le] s1 by simp
  have ids1: "target_ids s1 = target_ids s" "sv_targets s1 = sv_targets s"
    by (subst s1, simp add: target_ids_def)+
  have plan: "\<forall>(t, new)\<in>set plan. ts_id t \<le> sv_next_target s1 \<and>
      (if new then ts_id t \<notin> set (target_ids s1) else ts_id t \<in> set (target_ids s1))"
  proof (rule ballI, rule case_prodI2)
    fix p t new assume "p \<in> set plan" "p = (t, new)"
    then have "(t, new) \<in> set plan" by simp
    from list_all2_right [OF l2 this] obtain sq where
      k: "if new then sv_next_target s < ts_id t \<and> ts_id t \<le> sv_next_target s1
        else \<exists>old. (old, t) \<in> set (zip (sv_specs s) (sv_targets s)) \<and> same_identity sq old"
      by (simp only: prod.case) blast
    have b: "i \<le> sv_next_target s" if "i \<in> set (target_ids s)" for i
      using d that by (simp add: data_ok_def list_all_iff)
    have p: "ts_id t \<in> set (target_ids s)" if "(old, t) \<in> set (zip (sv_specs s) (sv_targets s))" for old
      using set_zip_rightD [OF that] by (simp add: target_ids_def)
    show "ts_id t \<le> sv_next_target s1 \<and>
      (if new then ts_id t \<notin> set (target_ids s1) else ts_id t \<in> set (target_ids s1))"
    proof (cases new)
      case True
      with k b [of "ts_id t"] show ?thesis by (auto simp: ids1)
    next
      case False
      with k p have "ts_id t \<in> set (target_ids s)" by auto
      with b le False show ?thesis by (auto simp: ids1 intro: order_trans)
    qed
  qed
  have gw: "list_all (\<lambda>g. list_all (\<lambda>i. i < length specs) (gr_indices g)) groups"
    using assms(2) by (simp add: groups_within_def)
  define membership where "membership = (list_ex snd plan \<or>
      length (filter (\<lambda>(t, new). \<not> new) plan) \<noteq> length (sv_targets s1))"
  define new where "new = map (\<lambda>((t, new), sp). (ts_id t, resolve_addr sp))
      (filter (\<lambda>((t, new), sp). new) (zip plan specs))"
  have newids: "fst ` set new = (ts_id \<circ> fst) ` set (filter snd plan)"
    unfolding new_def by (rule added_ids [OF len])
  have mem1: "sv_state s1 = Running \<Longrightarrow> members (set (target_ids s1)) s1"
    using i1 by (simp add: sup_inv_def wired_members)
  show ?thesis
  proof (cases "sv_state s1 = Running \<and> membership")
    case False
    obtain s3 notices where a: "adopt_reload e c specs groups plan False s1 = (s3, notices)" by fastforce
    have "fst (reload_live e c specs groups s) = fst (adopt_reload e c specs groups plan False s1)"
      using False True rc a by (auto simp: reload_live_def membership_def [symmetric] Let_def)
    moreover have "sup_inv (fst (adopt_reload e c specs groups plan False s1))"
    proof (rule adopt_reload_inv [OF i1 same_shape_refl _ len dis plan gw])
      assume run: "sv_state s1 = Running"
      with False have nm: "\<not> membership" by simp
      then have none: "filter snd plan = []" and all: "filter (\<lambda>(t, new). \<not> new) plan = plan"
        by (auto simp: membership_def list_ex_iff filter_empty_conv filter_id_conv)
      have "length plan = length (target_ids s1)" using nm all by (simp add: membership_def target_ids_def)
      moreover have "(ts_id \<circ> fst) ` set plan \<subseteq> set (target_ids s1)"
        using plan none by (fastforce simp: filter_empty_conv)
      moreover have "distinct (target_ids s1)" using i1 by (simp add: sup_inv_def data_ok_def)
      ultimately have "(ts_id \<circ> fst) ` set plan = set (target_ids s1)"
        using dis distinct_card [of "map (ts_id \<circ> fst) plan"] distinct_card [of "target_ids s1"]
        by (intro card_subset_eq) simp_all
      with run none show "members (set (target_ids s1)) s1 \<and> filter snd plan = [] \<and>
        (ts_id \<circ> fst) ` set plan = set (target_ids s1)" using mem1 by simp
    qed simp_all
    ultimately show ?thesis by simp
  next
    case run: True
    show ?thesis
    proof (cases "live_pinger s1")
      case None
      then show ?thesis using run True rc i1 by (simp add: reload_live_def membership_def Let_def)
    next
      case (Some p)
      obtain s2 err where rw: "register_with e new s1 = (s2, err)" by fastforce
      have m: "registered (set (target_ids s1)) s1" "monitors (set (target_ids s1)) s1"
        using mem1 run by (simp_all add: members_split)
      note r = register_with_spec [OF rw, of "set (target_ids s1)", unfolded newids]
      have mon2: "monitors (set (target_ids s1)) s2" using r m by (simp add: monitors_def)
      have ids2: "target_ids s2 = target_ids s1" using r by (simp add: same_list_def target_ids_def)
      show ?thesis
      proof (cases err)
        case e: (Some x)
        have "sup_inv s2"
        proof (rule sup_inv_edit [OF i1])
          show "same_shape s1 s2" using r by simp
          show "data_ok s2" using i1 r
            by (auto simp: sup_inv_def data_ok_def target_ids_def same_list_def same_shape_def)
          show "members (set (target_ids s2)) s2" using r e m mon2 by (simp add: members_split ids2)
        qed
        then show ?thesis using e rw run True rc Some
          by (simp add: reload_live_def membership_def [symmetric] new_def [symmetric] Let_def)
      next
        case e: None
        have "sup_inv (fst (adopt_reload e c specs groups plan True s2))"
        proof (rule adopt_reload_inv [OF i1 _ _ len dis _ gw])
          show "same_shape s1 s2" "same_list s1 s2 \<or> s1 = s2" using r by simp_all
          have "sv_next_target s2 = sv_next_target s1" using r by (simp add: same_list_def)
          with plan show "\<forall>(t, new)\<in>set plan. ts_id t \<le> sv_next_target s2 \<and>
            (if new then ts_id t \<notin> set (target_ids s1) else ts_id t \<in> set (target_ids s1))" by simp
        qed (use r m mon2 e in simp_all)
        moreover obtain s3 notices where "adopt_reload e c specs groups plan True s2 = (s3, notices)" by fastforce
        ultimately show ?thesis using e rw run True rc Some
          by (simp add: reload_live_def membership_def [symmetric] new_def [symmetric] Let_def)
      qed
    qed
  qed
qed


section \<open>The invariant on every run\<close>

lemma delete_host_inv: "sup_inv s \<Longrightarrow> sup_inv (fst (delete_host e host s))"
proof -
  assume i: "sup_inv s"
  then have l: "length (sv_specs s) = length (sv_targets s)" by (simp add: sup_inv_def data_ok_def)
  show ?thesis
  proof (cases "filter (\<lambda>i. display (sv_specs s ! i) = host) [0..<length (sv_specs s)]")
    case (Cons j js)
    then have "j \<in> set (filter (\<lambda>i. display (sv_specs s ! i) = host) [0..<length (sv_specs s)])" by simp
    then have "j < length (sv_targets s)" by (simp add: l)
    then show ?thesis using i Cons by (auto simp: delete_host_def remove_at_inv split: list.split)
  qed (simp add: delete_host_def i)
qed

lemma delete_target_id_inv: "sup_inv s \<Longrightarrow> sup_inv (fst (delete_target_id e ident s))"
  by (auto simp: delete_target_id_def remove_at_inv dest: index_of_id_less split: option.split)

text \<open>The groups of a reloaded document index its own specifications (\<open>resolve_all_keeps_groups\<close>).\<close>

fun command_ok :: "command \<Rightarrow> bool" where
  "command_ok (CEdit (ReloadLive c specs groups)) = groups_within (length specs) groups"
| "command_ok _ = True"

lemma run_edit_inv: "sup_inv s \<Longrightarrow> command_ok (CEdit ed) \<Longrightarrow> sup_inv (fst (run_edit e ed s))"
proof (cases ed)
  case (ReloadLive c specs groups)
  assume "sup_inv s" "command_ok (CEdit ed)"
  with ReloadLive have "sup_inv (fst (reload_live e c specs groups s))" by (simp add: reload_live_inv)
  with ReloadLive show ?thesis by (auto split: prod.split)
qed (simp_all add: add_host_inv delete_host_inv delete_target_id_inv)

lemma start_from_stopped:
  assumes "data_ok s" "inst_ok s" "sv_live s = {}" "sv_route s = None" "sv_state s = Stopped"
  shows "sup_inv (fst (start_all e s))"
  using start_all_inv [OF assms] by simp

lemma restart_inv:
  assumes "sup_inv s" "sv_state s = Running"
  shows "sup_inv (fst (start_all e (tear_down_all s \<lparr> sv_state := Stopped \<rparr>)))"
  using sup_inv_stopped [OF torn_down(1-4) [OF assms], of Stopped]
  by (intro start_from_stopped) (simp_all add: sup_inv_def)

lemma running_parts:
  assumes "sup_inv s" "sv_state s = Running"
  shows "sup_inv (restart_route b s)" "sup_inv (restart_port_checker s)" "sup_inv (restart_http_checker e s)"
proof -
  have w: "wired True True s" using assms by (simp add: sup_inv_def)
  have p: "same_data s (restart_port_checker s)" unfolding restart_port_checker_def
    by (rule same_data_trans [OF join_data(1) setup_port_checker_data])
  have h: "same_data s (restart_http_checker e s)" unfolding restart_http_checker_def
    by (rule same_data_trans [OF join_data(2) setup_http_checker_data(1)])
  from w p h show "sup_inv (restart_route b s)" "sup_inv (restart_port_checker s)" "sup_inv (restart_http_checker e s)"
    by (simp_all add: same_data_running [OF assms] wired_restart_route wired_restart_port wired_restart_http)
qed

lemma handle_inv: "sup_inv s \<Longrightarrow> command_ok c \<Longrightarrow> sup_inv (fst (handle e c s))"
proof (cases c)
  case CStart
  assume i: "sup_inv s"
  show ?thesis
  proof (cases "sv_state s")
    case Stopped
    then have "sup_inv (fst (start_all e s))" using i by (intro start_from_stopped) (simp_all add: sup_inv_def)
    with CStart Stopped show ?thesis by simp
  qed (use CStart i in simp_all)
next
  case CRestart
  assume i: "sup_inv s"
  show ?thesis
  proof (cases "sv_state s")
    case Stopped
    then have "sup_inv (fst (start_all e s))" using i by (intro start_from_stopped) (simp_all add: sup_inv_def)
    with CRestart Stopped show ?thesis by simp
  next
    case Running
    with restart_inv [OF i] CRestart show ?thesis by simp
  qed (use CRestart i in simp_all)
next
  case (CEdit ed)
  assume "sup_inv s" "command_ok c"
  with CEdit show ?thesis by (simp add: run_edit_inv)
qed (simp_all add: stop_running_inv running_parts terminate_inv mark_finished_inv reset_all_inv)

lemma publish_fields [simp]:
  "sup_inv (publish s) = sup_inv s" "sv_state (publish s) = sv_state s" "sv_live (publish s) = sv_live s"
  "sv_targets (publish s) = sv_targets s"
  by (simp_all add: publish_def sup_inv_def data_ok_def wired_def inst_defs target_ids_def)

text \<open>What may happen to a supervisor: a command of the loop; a measurement on a target, which the
  workers and checkers record without asking the loop; a worker that returns; and the main goroutine
  taking the notification that a counted run is complete.\<close>

inductive sup_reach :: "supervisor \<Rightarrow> bool" where
  created: "length specs = length targets \<Longrightarrow> distinct (map ts_id targets) \<Longrightarrow>
    \<forall>t\<in>set targets. ts_id t \<le> n \<Longrightarrow> groups_within (length specs) groups \<Longrightarrow>
    sup_reach (new_supervisor e sc c targets specs groups ids n)"
| commanded: "sup_reach s \<Longrightarrow> command_ok c \<Longrightarrow> sup_reach (publish (fst (handle e c s)))"
| measured: "sup_reach s \<Longrightarrow> i < length (sv_targets s) \<Longrightarrow>
    sup_reach (s \<lparr> sv_targets := (sv_targets s)[i := fst (target_step clk op (sv_targets s ! i))] \<rparr>)"
| returned: "sup_reach s \<Longrightarrow> sv_pinger s = Some p \<Longrightarrow>
    sup_reach (s \<lparr> sv_pinger := Some (p \<lparr> pi_reg := worker_returned (pi_reg p) \<rparr>) \<rparr>)"
| noticed: "sup_reach s \<Longrightarrow> sup_reach (clear_finished s)"

lemma measured_ids:
  "i < length (sv_targets s) \<Longrightarrow>
   target_ids (s \<lparr> sv_targets := (sv_targets s)[i := fst (target_step clk op (sv_targets s ! i))] \<rparr>) = target_ids s"
  by (simp add: target_ids_def map_update target_step_epoch(2) list_update_same_conv)

lemma sup_reach_inv: "sup_reach s \<Longrightarrow> sup_inv s"
proof (induction rule: sup_reach.induct)
  case (created specs targets n groups e sc c ids)
  then show ?case unfolding new_supervisor_def Let_def
    by (intro sup_inv_map_targets)
      (simp_all add: sup_inv_def data_ok_def inst_defs target_ids_def groups_within_def list_all_iff)
next
  case (commanded s c e)
  then show ?case by (simp add: handle_inv)
next
  case (measured s i clk op)
  let ?s = "s \<lparr> sv_targets := (sv_targets s)[i := fst (target_step clk op (sv_targets s ! i))] \<rparr>"
  show ?case
  proof (rule sup_inv_edit [OF measured.IH])
    show "data_ok ?s" using measured by (simp add: sup_inv_def data_ok_def measured_ids)
    assume "sv_state s = Running"
    then have "members (set (target_ids s)) s" using measured.IH by (simp add: sup_inv_def wired_members)
    then show "members (set (target_ids ?s)) ?s" using measured by (simp add: members_def measured_ids)
  qed (simp add: same_shape_def)
next
  case (returned s p)
  let ?s = "s \<lparr> sv_pinger := Some (p \<lparr> pi_reg := worker_returned (pi_reg p) \<rparr>) \<rparr>"
  show ?case
  proof (rule sup_inv_edit [OF returned.IH])
    show "data_ok ?s" using returned by (simp add: sup_inv_def data_ok_def target_ids_def)
    assume "sv_state s = Running"
    then have "members (set (target_ids s)) s" using returned.IH by (simp add: sup_inv_def wired_members)
    then show "members (set (target_ids ?s)) ?s" using returned by (simp add: members_def target_ids_def)
  qed (simp add: same_shape_def returned)
next
  case (noticed s)
  show ?case
  proof (rule sup_inv_edit [OF noticed.IH])
    show "data_ok (clear_finished s)" using noticed by (simp add: sup_inv_def data_ok_def target_ids_def clear_finished_def)
    assume "sv_state s = Running"
    then have "members (set (target_ids s)) s" using noticed.IH by (simp add: sup_inv_def wired_members)
    then show "members (set (target_ids (clear_finished s))) (clear_finished s)"
      by (simp add: members_def target_ids_def clear_finished_def)
  qed (simp add: same_shape_def clear_finished_def)
qed


text \<open>C2: On every run of the supervisor (commands in any order, measurements and returning workers in
  between), after creation from a well-formed configuration: targets and specifications have equal
  length, target identities are distinct, every group points into the list, at most 128 removed
  targets are archived, and a completion is pending only in a counted run. While the supervisor runs,
  the pinger, the route engine and the port checker work on exactly the listed targets and exactly
  their goroutines and those of the HTTP checker are live; otherwise no goroutine of an earlier
  start is left and there is no route engine.\<close>

theorem supervisor_invariant:
  assumes "sup_reach s"
  shows "length (sv_specs s) = length (sv_targets s) \<and> distinct (map ts_id (sv_targets s)) \<and>
    list_all (\<lambda>g. list_all (\<lambda>i. i < length (sv_targets s)) (gr_indices g)) (sv_groups s) \<and>
    length (sv_removed s) \<le> 128 \<and> (sv_finished s \<longrightarrow> sc_count_limited (sv_cfg s)) \<and>
    (if sv_state s = Running
     then sv_live s = set (map pi_inst (opt_list (sv_pinger s)) @ map ro_inst (opt_list (sv_route s)) @
            map po_inst (opt_list (sv_port s)) @ map ho_inst (opt_list (sv_http s))) \<and> sv_pinger s \<noteq> None \<and>
          list_all (\<lambda>p. dom (rg_workers (pi_reg p)) = ts_id ` set (sv_targets s)) (opt_list (sv_pinger s)) \<and>
          list_all (\<lambda>r. set (ro_runs r) = ts_id ` set (sv_targets s)) (opt_list (sv_route s)) \<and>
          list_all (\<lambda>p. set (pk_runs (po_checker p)) = ts_id ` set (sv_targets s)) (opt_list (sv_port s))
     else sv_live s = {} \<and> sv_route s = None)"
  using sup_reach_inv [OF assms]
  by (cases "sv_state s = Running")
    (simp_all add: sup_inv_def data_ok_def wired_def inst_defs target_ids_def max_removed_targets_def)

section \<open>Shutdown\<close>

lemma handle_terminated:
  "sv_state s = Terminated \<Longrightarrow> fst (handle e c s) = s"
  by (cases c) simp_all

lemma terminate_state: "sv_state (terminate s) = Terminated"
  by (simp add: terminate_def)

lemma terminate_targets:
  "list_all (\<lambda>t. ts_measurement_state t \<in> {''stopped'', ''finished''}) (sv_targets (terminate s))"
proof -
  define f where "f = (\<lambda>t. if ts_measurement_state t \<noteq> ''finished'' then set_measurement_state ''stopped'' t else t)"
  have "ts_measurement_state (f t) \<in> {''stopped'', ''finished''}" for t
    by (cases "ts_measurement_state t = ''finished''") (simp_all add: f_def set_measurement_state_def)
  then have "list_all (\<lambda>t. ts_measurement_state t \<in> {''stopped'', ''finished''}) (map f ts)" for ts
    by (induction ts) auto
  then show ?thesis by (simp only: terminate_def Let_def map_targets_fields f_def)
qed

fun send_all :: "(sup_env \<times> command) list \<Rightarrow> supervisor \<times> bool \<Rightarrow> supervisor \<times> bool" where
  "send_all [] sd = sd"
| "send_all ((e, c) # cs) sd = send_all cs (fst (send_cmd e c sd))"

lemma send_all_down: "snd sd \<Longrightarrow> send_all cs sd = sd"
  by (induction cs) (auto simp: send_cmd_def)



section \<open>What commands keep and undo\<close>

text \<open>A target after start or stop: only the measurement state, the port results and the event log
  may differ.\<close>

definition same_measurements :: "target_stats \<Rightarrow> target_stats \<Rightarrow> bool" where
  "same_measurements t t' =
     (t' = t \<lparr> ts_measurement_state := ts_measurement_state t', ts_port_results := ts_port_results t',
       ts_events := ts_events t', ts_events_dropped := ts_events_dropped t', ts_delivered := ts_delivered t' \<rparr>)"

lemma same_measurements_iff:
  "same_measurements t t' \<longleftrightarrow> (\<exists>m p e d l. t' = t \<lparr> ts_measurement_state := m, ts_port_results := p,
    ts_events := e, ts_events_dropped := d, ts_delivered := l \<rparr>)" (is "?l = ?r")
proof
  assume ?l
  then show ?r unfolding same_measurements_def by blast
next
  assume ?r
  then show ?l by (elim exE) (simp add: same_measurements_def)
qed

lemma same_measurements_refl [simp]: "same_measurements t t"
  by (simp add: same_measurements_def)

lemma same_measurements_trans:
  assumes "same_measurements t u" "same_measurements u v"
  shows "same_measurements t v"
proof -
  from assms(1) obtain m p e d l where u: "u = t \<lparr> ts_measurement_state := m, ts_port_results := p,
    ts_events := e, ts_events_dropped := d, ts_delivered := l \<rparr>" unfolding same_measurements_iff by (elim exE)
  from assms(2) obtain m p e d l where "v = u \<lparr> ts_measurement_state := m, ts_port_results := p,
    ts_events := e, ts_events_dropped := d, ts_delivered := l \<rparr>" unfolding same_measurements_iff by (elim exE)
  then have "v = t \<lparr> ts_measurement_state := m, ts_port_results := p,
    ts_events := e, ts_events_dropped := d, ts_delivered := l \<rparr>" unfolding u by simp
  then show ?thesis unfolding same_measurements_iff by (intro exI)
qed

lemma same_measurements_steps [simp]:
  "same_measurements t (set_measurement_state m t)" "same_measurements t (record_event w k msg t)"
  "same_measurements t (set_port_results ps t)"
proof -
  have d: "same_measurements t (deliver ev (t \<lparr> ts_events := x \<rparr>))"
    "same_measurements t (deliver ev (t \<lparr> ts_events := x, ts_events_dropped := y \<rparr>))" for ev x y
    by (simp_all add: same_measurements_def deliver_def)
  show "same_measurements t (set_measurement_state m t)" "same_measurements t (set_port_results ps t)"
    by (simp_all add: same_measurements_def set_measurement_state_def set_port_results_def)
  show "same_measurements t (record_event w k msg t)"
    unfolding record_event_def record_event_locked_def Let_def by (auto simp only: d split: option.split)
qed

definition all_same :: "supervisor \<Rightarrow> supervisor \<Rightarrow> bool" where
  "all_same s s' = list_all2 same_measurements (sv_targets s) (sv_targets s')"

lemma all_same_refl [simp]: "all_same s s"
  by (simp add: all_same_def list.rel_refl)

lemma all_same_trans: "all_same s t \<Longrightarrow> all_same t u \<Longrightarrow> all_same s u"
  unfolding all_same_def by (rule list_all2_trans [of same_measurements]) (rule same_measurements_trans)

lemma all_same_map: "(\<And>t. same_measurements t (f t)) \<Longrightarrow> all_same s (map_targets f s)"
  by (simp add: all_same_def list_all2_conv_all_nth)

lemma all_same_eq: "sv_targets s' = sv_targets s \<Longrightarrow> all_same s s'"
  by (simp add: all_same_def list.rel_refl)

lemma component_targets [simp]:
  "sv_targets (restart_route False s) = sv_targets s"
  "sv_targets (join_port s) = sv_targets s" "sv_targets (join_http s) = sv_targets s"
  "sv_targets (join_pinger s) = sv_targets s" "sv_targets (setup_http_checker e s) = sv_targets s"
  "sv_targets (tear_down_all s) = sv_targets s"
  by (auto simp: restart_route_def join_port_def join_http_def join_pinger_def setup_http_checker_def
      tear_down_all_def Let_def split: option.split sum.split)

lemma all_same_setup_port: "all_same s (setup_port_checker s)"
proof (cases "sc_port_specs (sv_cfg s) = []")
  case False
  then have "\<exists>ps. sv_targets (setup_port_checker s) = map (set_port_results ps) (sv_targets s)"
    by (auto simp: setup_port_checker_def new_port_checker_def Let_def)
  then show ?thesis by (auto simp: all_same_def list_all2_conv_all_nth)
qed (simp add: setup_port_checker_def all_same_eq)

lemma all_same_start: "all_same s (fst (start_all e s))"
proof -
  obtain reg err where st: "pinger_start (en_has_socket e) (target_ids (clear_finished s))
      (new_registry (sv_ids (clear_finished s)) (en_pid e)) = (reg, err)" by fastforce
  show ?thesis
  proof (cases err)
    case (Some x)
    with st show ?thesis by (simp add: start_all_def Let_def all_same_eq clear_finished_def)
  next
    case None
    define s2 where "s2 = (let s1 = clear_finished s \<lparr> sv_ids := the (rg_ids reg),
       sv_pinger := Some \<lparr> pi_inst = sv_next_inst s, pi_dynamic = en_dynamic e, pi_reg = reg \<rparr>,
       sv_live := insert (sv_next_inst s) (sv_live s), sv_next_inst := sv_next_inst s + 1 \<rparr>
       in if route_enabled (sv_config s1) then restart_route False s1 else s1)"
    define s3 where "s3 = setup_http_checker e (setup_port_checker s2) \<lparr> sv_state := Running \<rparr>"
    define s4 where "s4 = map_targets (\<lambda>t. record_event (clk_from e 0 t 0) ''started'' ''Measurements started''
                             (set_measurement_state ''running'' t)) s3"
    have "fst (start_all e s) = (if sc_count_limited (sv_cfg s4)
        then s4 \<lparr> sv_observed := sv_observed s4 @ [sv_next_inst s] \<rparr> else s4)"
      using st None by (simp add: start_all_def Let_def s4_def s3_def s2_def clear_finished_def)
    then have "sv_targets (fst (start_all e s)) = sv_targets s4" by simp
    moreover have "all_same s s2" by (rule all_same_eq) (simp add: s2_def Let_def clear_finished_def)
    moreover have "all_same s2 s3" using all_same_setup_port [of s2] by (simp add: s3_def all_same_def)
    moreover have "all_same s3 s4" unfolding s4_def
      by (rule all_same_map) (rule same_measurements_trans [OF same_measurements_steps(1) same_measurements_steps(2)])
    ultimately have "all_same s s4" "sv_targets (fst (start_all e s)) = sv_targets s4"
      by (blast intro: all_same_trans)+
    then show ?thesis by (simp add: all_same_def)
  qed
qed

text \<open>Starting, stopping, restarting and terminating measurements keep every target and all that was
  measured of it: counters, round-trip statistics, history, health judgment, route and address
  history are untouched; only the measurement state, the event log and the port results change.\<close>

theorem start_and_stop_keep_statistics:
  assumes "c \<in> {CStart, CStop, CRestart, CTerminate}"
  shows "list_all2 same_measurements (sv_targets s) (sv_targets (fst (handle e c s)))"
proof -
  have stop: "all_same s (stop_running e s)"
  proof -
    have "all_same (tear_down_all s) (map_targets (\<lambda>t. record_event (clk_from e 0 t 0) ''stopped'' ''Measurements stopped''
        (set_measurement_state ''stopped'' t)) (tear_down_all s))"
      by (rule all_same_map) (rule same_measurements_trans [OF same_measurements_steps(1) same_measurements_steps(2)])
    then show ?thesis by (simp add: stop_running_def all_same_def)
  qed
  have fin: "all_same s (terminate s)"
    by (auto simp: terminate_def Let_def all_same_def list_all2_conv_all_nth)
  have re: "all_same s (fst (start_all e (tear_down_all s \<lparr> sv_state := Stopped \<rparr>)))"
    using all_same_start [of "tear_down_all s \<lparr> sv_state := Stopped \<rparr>" e] by (simp add: all_same_def)
  have "all_same s (fst (handle e c s))"
    using assms stop fin re all_same_start [of s e] by (auto split: sup_state.split)
  then show ?thesis by (simp add: all_same_def)
qed


section \<open>Reset\<close>

definition cleared :: "target_stats \<Rightarrow> bool" where
  "cleared t = (ts_sent t = 0 \<and> ts_recv t = 0 \<and> ts_loss t = 0 \<and> ts_cancelled t = 0 \<and> ts_duplicates t = 0 \<and>
     ts_late_replies t = 0 \<and> ts_rtt t = empty_acc \<and> ts_last_error t = [] \<and> ts_history_times t = None)"

lemma reset_stats_cleared [simp]:
  "cleared (reset_stats clk t)" "ts_probe_epoch (reset_stats clk t) = ts_probe_epoch t + 1"
  using target_step_epoch(1) [of clk ResetStats t]
  by (simp_all add: cleared_def reset_stats_def Let_def)

lemma setup_http_parts [simp]:
  "sv_pinger (setup_http_checker e s) = sv_pinger s" "sv_state (setup_http_checker e s) = sv_state s"
  "sv_config (setup_http_checker e s) = sv_config s"
  by (auto simp: setup_http_checker_def Let_def split: sum.split)

lemma setup_port_parts [simp]:
  "sv_pinger (setup_port_checker s) = sv_pinger s" "sv_state (setup_port_checker s) = sv_state s"
  by (auto simp: setup_port_checker_def new_port_checker_def Let_def)

lemma join_parts [simp]:
  "sv_pinger (join_port s) = sv_pinger s" "sv_pinger (join_http s) = sv_pinger s"
  "sv_state (join_port s) = sv_state s" "sv_state (join_http s) = sv_state s"
  by (simp_all add: join_port_def join_http_def split: option.split)

lemma restart_route_parts [simp]:
  "sv_pinger (restart_route b s) = sv_pinger s" "sv_state (restart_route b s) = sv_state s"
  by (auto simp: restart_route_def stop_route_def Let_def split: option.split)

lemma cleared_port_results [simp]:
  "cleared (set_port_results ps t) = cleared t" "ts_probe_epoch (set_port_results ps t) = ts_probe_epoch t"
  by (simp_all add: cleared_def set_port_results_def)

lemma setup_port_targets:
  "\<exists>f. sv_targets (setup_port_checker s) = map f (sv_targets s) \<and>
    (\<forall>t. cleared (f t) = cleared t \<and> ts_probe_epoch (f t) = ts_probe_epoch t)"
proof (cases "sc_port_specs (sv_cfg s) = []")
  case True
  then show ?thesis by (intro exI [of _ "\<lambda>t. t"]) (simp add: setup_port_checker_def)
next
  case False
  then obtain ps where "sv_targets (setup_port_checker s) = map (set_port_results ps) (sv_targets s)"
    by (auto simp: setup_port_checker_def new_port_checker_def Let_def)
  then show ?thesis by (intro exI [of _ "set_port_results ps"]) simp
qed

text \<open>Resetting the statistics clears the counters of every target and opens a new epoch for each,
  so that probes in flight are ignored when they settle; the pinger and its workers are not
  restarted, and a stopped session stays stopped.\<close>

theorem reset_clears_and_keeps_pinging:
  assumes "sv_state s \<noteq> Terminated"
  shows "list_all cleared (sv_targets (fst (handle e CResetStats s))) \<and>
    map ts_probe_epoch (sv_targets (fst (handle e CResetStats s))) = map (\<lambda>t. ts_probe_epoch t + 1) (sv_targets s) \<and>
    sv_pinger (fst (handle e CResetStats s)) = sv_pinger s \<and> sv_state (fst (handle e CResetStats s)) = sv_state s"
proof -
  define s1 where "s1 = map_targets (\<lambda>t. reset_stats (clk_from e 0 t) t) (stop_route s)"
  define s2 where "s2 = (if route_enabled (sv_config s1) then restart_route False s1 else s1)"
  have t1: "list_all cleared (sv_targets s1)"
    "map ts_probe_epoch (sv_targets s1) = map (\<lambda>t. ts_probe_epoch t + 1) (sv_targets s)"
    "sv_pinger s1 = sv_pinger s" "sv_state s1 = sv_state s"
    by (simp_all add: s1_def list_all_iff) (simp_all add: stop_route_def split: option.split)
  have t2: "sv_targets s2 = sv_targets s1" "sv_pinger s2 = sv_pinger s1" "sv_state s2 = sv_state s1"
    by (simp_all add: s2_def)
  obtain f where f: "sv_targets (setup_port_checker (join_port s2)) = map f (sv_targets s2)"
    "\<forall>t. cleared (f t) = cleared t \<and> ts_probe_epoch (f t) = ts_probe_epoch t"
    using setup_port_targets [of "join_port s2"] by auto
  have "reset_all e s = (if sv_state s1 \<noteq> Running then s1 else restart_http_checker e (restart_port_checker s2))"
    by (simp add: reset_all_def s1_def s2_def Let_def)
  then show ?thesis using assms t1 t2 f
    by (simp add: restart_http_checker_def restart_port_checker_def list.pred_map comp_def)
qed

section \<open>A restart that fails\<close>

lemma start_failure:
  assumes "snd (start_all e s) \<noteq> None"
  shows "sv_targets (fst (start_all e s)) = sv_targets s \<and> sv_state (fst (start_all e s)) = sv_state s \<and>
    sv_live (fst (start_all e s)) = sv_live s"
  using assms
  by (auto simp: start_all_def Let_def clear_finished_def split: prod.splits option.splits if_splits)

text \<open>C35: When a restart has torn the old pinger down and the new one cannot be started (no socket, no
  identifiers left), the session is stopped and says so, but every target keeps the measurement state
  of before: targets that were running are still exported as running although nothing is measured.\<close>

theorem failed_restart_leaves_targets_running:
  assumes "sup_reach s" "sv_state s = Running" "snd (handle e CRestart s) \<noteq> None"
  shows "current_measurement_state (fst (handle e CRestart s)) = ''stopped'' \<and>
    sv_live (fst (handle e CRestart s)) = {} \<and>
    map ts_measurement_state (sv_targets (fst (handle e CRestart s))) = map ts_measurement_state (sv_targets s)"
  using assms(2,3) torn_down [OF sup_reach_inv [OF assms(1)] assms(2)]
    start_failure [of e "tear_down_all s \<lparr> sv_state := Stopped \<rparr>"]
  by (simp add: current_measurement_state_def)

section \<open>Groups after a deletion\<close>

lemma delete_at_nth:
  assumes "i < length xs" "x < length xs" "x \<noteq> i"
  shows "delete_at i xs ! (if x > i then x - 1 else x) = xs ! x"
  using assms by (auto simp: delete_at_def nth_append min_def)

text \<open>Deleting a target renumbers the groups so that each keeps exactly its other members, in order;
  a group that loses its only member disappears.\<close>

theorem deletion_keeps_group_members:
  assumes "i < length ts" "list_all (\<lambda>g. list_all (\<lambda>x. x < length ts) (gr_indices g)) gs"
  shows "map (\<lambda>g. (gr_name g, map (\<lambda>x. delete_at i ts ! x) (gr_indices g))) (drop_index i gs) =
    filter (\<lambda>(n, ms). ms \<noteq> [])
      (map (\<lambda>g. (gr_name g, map (\<lambda>x. ts ! x) (filter (\<lambda>x. x \<noteq> i) (gr_indices g)))) gs)"
  using assms(2)
proof (induction gs)
  case (Cons g gs)
  have "map (\<lambda>x. delete_at i ts ! (if x > i then x - 1 else x)) (filter (\<lambda>x. x \<noteq> i) (gr_indices g)) =
      map (\<lambda>x. ts ! x) (filter (\<lambda>x. x \<noteq> i) (gr_indices g))"
    using Cons.prems assms(1) by (auto simp: list_all_iff delete_at_nth)
  with Cons show ?case by (simp add: drop_index_def comp_def)
qed (simp add: drop_index_def)


section \<open>Edits that are refused\<close>

text \<open>A refused edit may have used up target numbers and echo identifiers, and rolled back
  registrations; what the session measures is as before.\<close>

definition same_session :: "supervisor \<Rightarrow> supervisor \<Rightarrow> bool" where
  "same_session s s' =
     (sv_targets s' = sv_targets s \<and> sv_specs s' = sv_specs s \<and> sv_groups s' = sv_groups s \<and>
      sv_config s' = sv_config s \<and> sv_state s' = sv_state s \<and> sv_live s' = sv_live s \<and>
      sv_finished s' = sv_finished s \<and> sv_route s' = sv_route s \<and> sv_port s' = sv_port s \<and>
      map_option (\<lambda>p. dom (rg_workers (pi_reg p))) (sv_pinger s') =
        map_option (\<lambda>p. dom (rg_workers (pi_reg p))) (sv_pinger s))"

lemma same_session_refl [simp]: "same_session s s"
  by (simp add: same_session_def)

lemma same_session_next: "same_session s (s \<lparr> sv_next_target := n \<rparr>)"
  by (simp add: same_session_def)

lemma same_session_trans: "same_session s t \<Longrightarrow> same_session t u \<Longrightarrow> same_session s u"
  by (simp add: same_session_def)

lemma register_refused:
  assumes "register_with e new s = (s', Some err)"
  shows "same_session s s'"
proof (cases "sv_pinger s")
  case None
  then show ?thesis using assms by (simp add: register_with_def)
next
  case (Some p)
  obtain reg err' where r: "register_targets add_target (\<lambda>t. remove_target t (en_running e t)) [] new (pi_reg p) = (reg, err')"
    by fastforce
  then have "err' = Some err" "s' = s \<lparr> sv_pinger := Some (p \<lparr> pi_reg := reg \<rparr>),
      sv_ids := (case rg_ids reg of None \<Rightarrow> sv_ids s | Some a \<Rightarrow> a) \<rparr>"
    using assms Some by (simp_all add: register_with_def)
  moreover have "dom (rg_workers reg) = dom (rg_workers (pi_reg p))"
    using pinger.register_all_or_nothing [where running = "en_running e" and p = "pi_reg p" and ts = new] r
      \<open>err' = Some err\<close> by simp
  ultimately show ?thesis using Some by (simp add: same_session_def)
qed

lemma add_host_refused:
  assumes "snd (add_host e host s) \<noteq> None"
  shows "same_session s (fst (add_host e host s))"
proof (cases "list_ex (\<lambda>sp. display sp = host \<or> sp_host sp = host) (sv_specs s)")
  case True
  then show ?thesis by (simp add: add_host_def)
next
  case False
  define specs where "specs = fst (expand_targets (cf_resolve_all (sv_config s)) (en_lookup e) [spec_of_host host] [])"
  obtain s1 added where n: "new_live_targets e (sv_config s) specs s = (s1, added)" by fastforce
  have s1: "same_session s s1" using new_live_targets_spec [OF n] same_session_next by simp
  obtain s2 err where rw: "register_with e (zip (map ts_id added) (map resolve_addr specs)) s1 = (s2, err)" by fastforce
  have s2: "same_session s s2" if "err = Some x" for x
    using same_session_trans [OF s1 register_refused] rw that by simp
  show ?thesis
    using assms False n rw s1 s2
    by (auto simp: add_host_def specs_def [symmetric] Let_def split: if_splits option.splits prod.splits)
qed

lemma reload_refused:
  assumes "data_ok s" "\<not> fst (snd (reload_live e c specs groups s))"
  shows "same_session s (fst (reload_live e c specs groups s))"
proof (cases "diff_probe_config (sv_config s) c = []")
  case False
  then show ?thesis by (simp add: reload_live_def)
next
  case True
  obtain s1 plan where rc: "reconcile_targets e c (zip (sv_specs s) (sv_targets s)) specs s = (s1, plan)" by fastforce
  from reconcile_spec [OF rc pool_of_supervisor(2,3) [OF assms(1)]]
  have "s1 = s \<lparr> sv_next_target := sv_next_target s1 \<rparr>" by blast
  with same_session_next [of s "sv_next_target s1"] have s1: "same_session s s1" by simp
  obtain s2 err where rw: "register_with e (map (\<lambda>((t, new), sp). (ts_id t, resolve_addr sp))
      (filter (\<lambda>((t, new), sp). new) (zip plan specs))) s1 = (s2, err)" by fastforce
  have s2: "same_session s s2" if "err = Some x" for x
    using same_session_trans [OF s1 register_refused] rw that by simp
  show ?thesis
    using assms(2) True rc rw s1 s2
    by (auto simp: reload_live_def Let_def split: if_splits option.splits prod.splits)
qed



section \<open>What a reload keeps\<close>

text \<open>A target a reload keeps: its name, health policy and event log may differ, nothing measured.\<close>

definition kept :: "target_stats \<Rightarrow> target_stats \<Rightarrow> bool" where
  "kept t t' =
     (t' = t \<lparr> ts_display_name := ts_display_name t', ts_health := ts_health t', ts_event_sink := ts_event_sink t',
       ts_events := ts_events t', ts_events_dropped := ts_events_dropped t', ts_delivered := ts_delivered t' \<rparr>)"

lemma kept_intro:
  "t' = t \<lparr> ts_display_name := n, ts_health := h, ts_event_sink := k, ts_events := e,
     ts_events_dropped := d, ts_delivered := l \<rparr> \<Longrightarrow> kept t t'"
  by (simp add: kept_def)

lemma kept_trans:
  assumes "kept t u" "kept u v"
  shows "kept t v"
proof -
  obtain n h k e d l where u: "u = t \<lparr> ts_display_name := n, ts_health := h, ts_event_sink := k, ts_events := e,
     ts_events_dropped := d, ts_delivered := l \<rparr>" using assms(1) unfolding kept_def by blast
  obtain n h k e d l where "v = u \<lparr> ts_display_name := n, ts_health := h, ts_event_sink := k, ts_events := e,
     ts_events_dropped := d, ts_delivered := l \<rparr>" using assms(2) unfolding kept_def by blast
  then have "v = t \<lparr> ts_display_name := n, ts_health := h, ts_event_sink := k, ts_events := e,
     ts_events_dropped := d, ts_delivered := l \<rparr>" unfolding u by simp
  then show ?thesis by (rule kept_intro)
qed

lemma kept_updates:
  "kept t t" "kept t (t \<lparr> ts_health := h \<rparr>)" "kept t (t \<lparr> ts_event_sink := k \<rparr>)"
  "kept t (t \<lparr> ts_display_name := n \<rparr>)" "kept t (deliver ev (t \<lparr> ts_events := x \<rparr>))"
  "kept t (deliver ev (t \<lparr> ts_events := x, ts_events_dropped := y \<rparr>))"
  by (simp_all add: kept_def deliver_def)

lemma kept_record_event: "kept t (record_event_locked w kind msg t)"
  unfolding record_event_locked_def Let_def by (auto simp only: kept_updates split: option.split)

lemma kept_configure: "kept t (configure_target s clk t)"
proof -
  have "kept u (evaluate_health a b u)" for a b u
    unfolding evaluate_health_def Let_def
    by (simp only: kept_updates split: if_split) (auto intro: kept_trans [OF kept_updates(2) kept_record_event])
  then have "kept t (configure_health clk p t)" for p
    unfolding configure_health_def Let_def by (blast intro: kept_trans kept_updates(2))
  then show ?thesis unfolding configure_target_def set_event_sink_def by (blast intro: kept_trans kept_updates(3))
qed

lemma kept_display_name: "kept t (fst (set_display_name w n t))"
  using kept_trans [OF kept_updates(4) kept_record_event] by (simp add: set_display_name_def kept_updates)

lemma attach_new_kept:
  assumes "attach_new e plan s = (s', ts')"
  shows "list_all2 (\<lambda>(t, new) t'. ts_id t' = ts_id t \<and> (new \<or> t' = t)) plan ts'"
  using assms
proof (induction plan arbitrary: s ts')
  case (Cons p plan)
  obtain t new where p: "p = (t, new)" by fastforce
  obtain s1 t1 where a: "attach_target_monitors t s = (s1, t1)" by fastforce
  have "ts_id t1 = ts_id t" using attach_target_monitors_spec [OF a] by blast
  then show ?case using Cons a p by (cases new) (auto split: prod.splits)
qed simp

lemma map2_kept:
  assumes "length ts = length xs" "\<And>x t. kept t (f x t)" "\<And>x t. ts_id (f x t) = ts_id t"
  shows "list_all2 (\<lambda>(t, new) (t', new'). ts_id t' = ts_id t \<and> new' = new \<and> kept t t') ts
    (map2 (\<lambda>x (t, new). (f x t, new)) xs ts)"
  using assms(1) [symmetric] by (induction xs ts rule: list_induct2) (auto simp: assms(2,3))

lemma adopt_reload_kept:
  assumes "length plan = length specs" "adopt_reload e c specs groups plan live s = (s', notices)"
  shows "sv_specs s' = specs \<and> sv_groups s' = groups \<and>
    list_all2 (\<lambda>(t, new) t'. ts_id t' = ts_id t \<and> (new \<or> kept t t')) plan (sv_targets s')"
proof -
  define s1 where "s1 = fold (\<lambda>t. if ts_id t \<in> set (map (ts_id \<circ> fst) (filter (\<lambda>(t, new). \<not> new) plan)) then (\<lambda>u. u)
      else detach_target_monitors e live ''Target removed by configuration reload'' t) (sv_targets s) s"
  define s2 where "s2 = s1 \<lparr> sv_config := c \<lparr> cf_web_enabled := cf_web_enabled (sv_config s1),
      cf_web_port := cf_web_port (sv_config s1), cf_duration := cf_duration (sv_config s1) \<rparr> \<rparr>"
  define named where "named = map2 (\<lambda>sp (t, new). (configure_target s2 (clk_from e 6 t)
      (fst (set_display_name (clk_from e 5 t 0) (display sp) t)), new)) specs plan"
  define s3 where "s3 = s2 \<lparr> sv_targets := map fst named, sv_specs := specs, sv_groups := groups \<rparr>"
  obtain s4 targets where at: "attach_new e named s3 = (s4, targets)" by fastforce
  have same: "sv_specs s4 = specs" "sv_groups s4 = groups"
    using attach_new_spec [OF at] by (simp_all add: same_list_def s3_def)
  define s5 where "s5 = s4 \<lparr> sv_targets := targets \<rparr>"
  define s6 where "s6 = (if cf_mtr c \<noteq> cf_mtr (sv_config s1) \<and> sv_state s5 = Running then restart_route False s5 else s5)"
  have eq: "s' = (if list_ex snd plan then clear_finished s6 else s6)"
    unfolding fst_conv [of s' notices, folded assms(2), symmetric]
    using at by (simp add: adopt_reload_def Let_def s6_def s5_def s3_def named_def s2_def s1_def)
  have "sv_targets s6 = targets" by (simp add: s6_def s5_def)
  moreover have "sv_specs s6 = specs" "sv_groups s6 = groups"
    using restart_route_data(1) [of s5 False] same by (simp_all add: s6_def s5_def same_data_def)
  ultimately have s': "sv_targets s' = targets" "sv_specs s' = specs" "sv_groups s' = groups"
    unfolding eq by (simp_all add: clear_finished_def)
  have "list_all2 (\<lambda>(t, new) (t', new'). ts_id t' = ts_id t \<and> new' = new \<and> kept t t') plan named"
    unfolding named_def
    by (rule map2_kept [OF assms(1)]) (rule kept_trans [OF kept_display_name kept_configure], simp)
  from list_all2_trans [OF _ this attach_new_kept [OF at],
      of "\<lambda>(t, new) t'. ts_id t' = ts_id t \<and> (new \<or> kept t t')"]
  have "list_all2 (\<lambda>(t, new) t'. ts_id t' = ts_id t \<and> (new \<or> kept t t')) plan targets" by fastforce
  with s' show ?thesis by simp
qed

lemma reconcile_same:
  "length specs = length ts \<Longrightarrow>
   reconcile_targets e c (zip specs ts) specs s = (s, map (\<lambda>t. (t, False)) ts)"
  by (induction specs ts rule: list_induct2) (simp_all add: same_identity_def List.extract_Cons_code)


lemma register_keeps_list: "register_with e new s = (s', err) \<Longrightarrow> sv_targets s' = sv_targets s"
  using register_with_spec [of e new s s' err] by (simp add: same_list_def)

lemma reload_applied:
  assumes "reload_live e c specs groups s = (s', True, notices, err)"
    and "reconcile_targets e c (zip (sv_specs s) (sv_targets s)) specs s = (s1, plan)"
  shows "err = None \<and> (\<exists>live s2. adopt_reload e c specs groups plan live s2 = (s', notices))"
  using assms by (auto simp: reload_live_def Let_def split: if_splits option.splits prod.splits)



section \<open>A session with two targets\<close>

definition demo_sup_config :: sup_config where
  "demo_sup_config = \<lparr> sc_started_at = 0, sc_collection_started_at = 0, sc_duration_limit = 0,
     sc_duration_deadline = 0, sc_source_ipv4 = [], sc_source_ipv6 = [], sc_network = [], sc_packet_size = 56,
     sc_interval = second, sc_timeout = second, sc_port_specs = [], sc_http_urls = [], sc_bind_interface = [],
     sc_bind_source = [], sc_count_limited = False \<rparr>"

definition demo_env :: "bool \<Rightarrow> sup_env" where
  "demo_env socket = \<lparr> en_clk = (\<lambda>_ _. 0), en_now = 0, en_pid = 7, en_has_socket = socket, en_dynamic = True,
     en_running = (\<lambda>_. True), en_lookup = (\<lambda>_ _. []), en_parse_url = (\<lambda>_. None) \<rparr>"

definition demo_session :: supervisor where
  "demo_session = new_supervisor (demo_env True) demo_sup_config default_config
     [new_target_stats 1 0 ''a'', new_target_stats 2 0 ''b''] [spec_of_host ''a'', spec_of_host ''b'']
     [\<lparr> gr_name = ''g'', gr_indices = [0, 1] \<rparr>] new_allocator 2"

definition demo_running :: supervisor where
  "demo_running = publish (fst (handle (demo_env True) CStart demo_session))"

lemma new_target_id [simp]: "ts_id (new_target_stats i now h) = i"
  by (simp add: new_target_stats_def)

lemma demo_session_reach: "sup_reach demo_session"
  unfolding demo_session_def by (rule created) (simp_all add: groups_within_def)

lemma demo_running_reach: "sup_reach demo_running"
  unfolding demo_running_def by (rule commanded [OF demo_session_reach]) simp

lemma demo_session_parts:
  "sv_state demo_session = Stopped" "target_ids demo_session = [1, 2]" "sv_ids demo_session = new_allocator"
  "sv_specs demo_session = [spec_of_host ''a'', spec_of_host ''b'']"
  by (simp_all add: demo_session_def new_supervisor_def Let_def target_ids_def)

lemma start_result:
  "snd (start_all e s) = map_option StartFailed
     (snd (pinger_start (en_has_socket e) (target_ids s) (new_registry (sv_ids s) (en_pid e))))"
  by (auto simp: start_all_def Let_def clear_finished_def target_ids_def split: prod.split option.split)

lemma demo_start_succeeds: "snd (start_all (demo_env True) demo_session) = None"
  by (simp add: start_result demo_session_parts pinger_start_def new_registry_def demo_env_def
      allocate_worker_id_def echo_id_def new_allocator_def id_partition_size_def)

lemma demo_running_parts: "sv_state demo_running = Running" "target_ids demo_running = [1, 2]"
proof -
  have "sup_inv demo_session" using sup_reach_inv [OF demo_session_reach] .
  then show "sv_state demo_running = Running"
    using start_all_inv [of demo_session "demo_env True"] demo_start_succeeds
    by (simp add: demo_running_def sup_inv_def demo_session_parts)
  have "all_same demo_session demo_running"
    using all_same_start [of demo_session "demo_env True"]
    by (simp add: demo_running_def demo_session_parts all_same_def)
  then have "target_ids demo_running = target_ids demo_session"
    unfolding all_same_def target_ids_def
    by (induction rule: list_all2_induct) (auto simp: same_measurements_iff)
  then show "target_ids demo_running = [1, 2]" by (simp add: demo_session_parts)
qed

lemma demo_running_length: "length (sv_targets demo_running) = 2"
  using arg_cong [OF demo_running_parts(2), of length] by (simp add: target_ids_def)

theorem supervisor_invariant_witness:
  "sup_reach demo_running \<and> sv_state demo_running = Running \<and>
   length (sv_specs demo_running) = 2 \<and> sv_pinger demo_running \<noteq> None"
  using supervisor_invariant [OF demo_running_reach] demo_running_reach demo_running_parts demo_running_length
  by simp


theorem start_and_stop_keep_statistics_witness:
  "length (sv_targets (fst (handle (demo_env True) CRestart demo_running))) = 2"
  using start_and_stop_keep_statistics [of CRestart demo_running "demo_env True"] demo_running_length
  by (simp add: list_all2_lengthD)

theorem reset_clears_and_keeps_pinging_witness:
  "sv_state demo_running = Running \<and> list_all cleared (sv_targets (fst (handle (demo_env True) CResetStats demo_running))) \<and>
   sv_pinger (fst (handle (demo_env True) CResetStats demo_running)) = sv_pinger demo_running"
  using reset_clears_and_keeps_pinging [of demo_running "demo_env True"] demo_running_parts by simp

theorem deletion_keeps_group_members_witness:
  "map (\<lambda>g. (gr_name g, map (\<lambda>x. delete_at 1 [''a'', ''b'', ''c''] ! x) (gr_indices g)))
     (drop_index 1 [\<lparr> gr_name = ''g'', gr_indices = [0, 1, 2] \<rparr>, \<lparr> gr_name = ''h'', gr_indices = [1] \<rparr>]) =
   [(''g'', [''a'', ''c''])]"
  using deletion_keeps_group_members [of 1 "[''a'', ''b'', ''c'']"
      "[\<lparr> gr_name = ''g'', gr_indices = [0, 1, 2] \<rparr>, \<lparr> gr_name = ''h'', gr_indices = [1] \<rparr>]"]
  by simp

lemma start_marks_running:
  assumes "snd (start_all e s) = None"
  shows "list_all (\<lambda>t. ts_measurement_state t = ''running'') (sv_targets (fst (start_all e s)))"
proof -
  have m: "ts_measurement_state (record_event w k msg t) = ts_measurement_state t" for w k msg t
    unfolding record_event_def record_event_locked_def Let_def
    by (simp add: deliver_def split: option.split)
  show ?thesis using assms
    by (auto simp: start_all_def Let_def m set_measurement_state_def list.pred_map comp_def list.pred_True
        split: prod.splits option.splits)
qed

lemma same_everywhere: "list_all (\<lambda>x. f x = a) xs \<Longrightarrow> map f xs = replicate (length xs) a"
  by (induction xs) simp_all

theorem failed_restart_leaves_targets_running_witness:
  "current_measurement_state (fst (handle (demo_env False) CRestart demo_running)) = ''stopped'' \<and>
   map ts_measurement_state (sv_targets (fst (handle (demo_env False) CRestart demo_running))) = [''running'', ''running'']"
proof -
  have "snd (handle (demo_env False) CRestart demo_running) \<noteq> None"
    by (simp add: demo_running_parts start_result pinger_start_def demo_env_def)
  note f = failed_restart_leaves_targets_running [OF demo_running_reach demo_running_parts(1) this]
  have "list_all (\<lambda>t. ts_measurement_state t = ''running'') (sv_targets demo_running)"
    using start_marks_running [OF demo_start_succeeds] by (simp add: demo_running_def demo_session_parts)
  from same_everywhere [OF this] have "map ts_measurement_state (sv_targets demo_running) = [''running'', ''running'']"
    by (simp add: demo_running_length numeral_2_eq_2)
  with f show ?thesis by simp
qed



end
