(* ===== verification/Reload_Coordinator.thy ===== *)
theory Reload_Coordinator
  imports Supervisor_Properties Hosts_Document
begin

text \<open>
  Reloading the hosts file (cmd/main/reload_coordinator.go): the watcher's callback validates the
  document, hands it to the running supervisor and, when that needs a rebuild, keeps it pending and
  asks the session to end; the main loop then applies what is pending. What the document contains,
  how durations and URLs are parsed and printed, and the interfaces of the machine are arguments.
\<close>

section \<open>The coordinator\<close>

type_synonym reload = "config \<times> target_spec list \<times> target_group list"

record coordinator =
  rc_cli_cfg :: config
  rc_changed :: "string \<Rightarrow> bool"
  rc_cli_hosts :: "string list"
  rc_pending :: "reload option"

text \<open>\<open>reloadSignal.fire\<close> closes the channel once: a fired signal stays fired.\<close>

definition fire :: "bool \<Rightarrow> bool" where
  "fire fired = True"

record reload_env =
  le_parse :: "string \<Rightarrow> duration option"
  le_show :: "duration \<Rightarrow> string"
  le_parse_url :: "string \<Rightarrow> url option"
  le_iface :: "string \<Rightarrow> bool"
  le_lookup :: "nat \<Rightarrow> string \<Rightarrow> string list"

datatype reload_outcome =
    ReloadParseFailed
  | ReloadInvalid config_error
  | ReloadFailed sup_error
  | ReloadedLive "reload_notice list"
  | ReloadPending "reload_notice list"

text \<open>\<open>tryLive\<close> is \<open>reloadLive\<close> of the supervisor, through its command loop.\<close>

definition try_live ::
  "sup_env \<Rightarrow> reload \<Rightarrow> supervisor \<times> bool \<Rightarrow> (supervisor \<times> bool) \<times> bool \<times> reload_notice list \<times> sup_error option" where
  "try_live e r sd =
     (case r of (c, specs, groups) \<Rightarrow>
        if snd sd then (sd, False, [], Some ShutDown)
        else if sv_state (fst sd) = Terminated then ((publish (fst sd), False), False, [], Some SupTerminated)
        else case reload_live e c specs groups (fst sd) of
          (s', applied, notices, err) \<Rightarrow> ((publish s', False), applied, notices, err))"

text \<open>The configuration and the targets of a document, as \<open>requestFileReload\<close> derives them.\<close>

definition validated_reload ::
  "reload_env \<Rightarrow> coordinator \<Rightarrow> doc_settings hosts_doc \<Rightarrow> config_error + reload" where
  "validated_reload l co d =
     (case apply_doc_to_cfg (le_parse l) (rc_cli_cfg co) (rc_changed co) (hd_settings d) of
        Inl err \<Rightarrow> Inl err
      | Inr c \<Rightarrow>
          (case validate_merged_hosts (le_parse l) (le_show l) (le_parse_url l) (le_iface l) c
                  (hd_hosts d) (hd_groups d) (rc_cli_hosts co) of
             Some err \<Rightarrow> Inl err
           | None \<Rightarrow> Inr (c, build_hosts_and_groups (hd_hosts d) (hd_groups d) (rc_cli_hosts co))))"

definition expand_reload :: "reload_env \<Rightarrow> reload \<Rightarrow> reload" where
  "expand_reload l r = (case r of (c, specs, groups) \<Rightarrow>
     (c, expand_targets (cf_resolve_all c) (le_lookup l) specs groups))"

definition hold :: "reload \<Rightarrow> coordinator \<Rightarrow> coordinator" where
  "hold r co = co \<lparr> rc_pending := Some r \<rparr>"

text \<open>\<open>requestFileReload\<close>: the document is what \<open>Parse\<close> gave, None for an error; the session is
  None as long as \<open>tryLive\<close> is not set.\<close>

definition request_file_reload ::
  "sup_env \<Rightarrow> reload_env \<Rightarrow> doc_settings hosts_doc option \<Rightarrow> coordinator \<Rightarrow> (supervisor \<times> bool) option \<Rightarrow>
   bool \<Rightarrow> coordinator \<times> (supervisor \<times> bool) option \<times> bool \<times> reload_outcome" where
  "request_file_reload e l doc co sess fired =
     (case doc of
        None \<Rightarrow> (co, sess, fired, ReloadParseFailed)
      | Some d \<Rightarrow>
          (case validated_reload l co d of
             Inl err \<Rightarrow> (co, sess, fired, ReloadInvalid err)
           | Inr r \<Rightarrow>
               (case sess of
                  None \<Rightarrow> (hold r co, None, fire fired, ReloadPending [])
                | Some sd \<Rightarrow>
                    (case try_live e (expand_reload l r) sd of
                       (sd', applied, notices, Some err) \<Rightarrow> (co, Some sd', fired, ReloadFailed err)
                     | (sd', applied, notices, None) \<Rightarrow>
                         if applied then (co, Some sd', fired, ReloadedLive notices)
                         else (hold r co, Some sd', fire fired, ReloadPending notices)))))"

text \<open>\<open>apply\<close>: the flag says whether the main loop re-enters. \<open>expandTargets\<close> returns no error, so the
  branch with its warning is never taken.\<close>

definition apply_reload :: "reload_env \<Rightarrow> reload \<Rightarrow> coordinator \<Rightarrow> coordinator \<times> reload \<times> bool" where
  "apply_reload l current co =
     (case rc_pending co of
        None \<Rightarrow> (co, current, False)
      | Some r \<Rightarrow> (co \<lparr> rc_pending := None \<rparr>, expand_reload l r, True))"

datatype reload_warning = WebDrift | PortDrift

definition reload_warnings :: "config \<Rightarrow> config \<Rightarrow> string list \<Rightarrow> reload_warning list" where
  "reload_warnings startup reloaded active_ports =
     (if web_reload_drift startup reloaded then [WebDrift] else []) @
     (if port_reload_drift active_ports (cf_port_specs reloaded) then [PortDrift] else [])"

section \<open>Properties\<close>

lemma expand_reload_fst: "fst (expand_reload l r) = fst r"
  by (simp add: expand_reload_def case_prod_beta)

lemma publish_same_session: "same_session s s' \<Longrightarrow> same_session s (publish s')"
  by (simp add: same_session_def publish_def)

lemma try_live_refused:
  assumes "data_ok (fst sd)" "try_live e r sd = (sd', applied, notices, err)" "\<not> applied"
  shows "same_session (fst sd) (fst sd') \<and> snd sd' = snd sd"
proof -
  obtain c specs groups where r: "r = (c, specs, groups)" by (cases r) auto
  obtain s' a n x where rl: "reload_live e c specs groups (fst sd) = (s', a, n, x)" by (cases "reload_live e c specs groups (fst sd)") auto
  have "same_session (fst sd) s'" if "\<not> a"
    using reload_refused [OF assms(1), of e c specs groups] rl that by simp
  then show ?thesis using assms(2,3) rl
    by (auto simp: try_live_def r publish_same_session split: if_splits)
qed

lemma try_live_error: "try_live e r sd = (sd', applied, notices, Some err) \<Longrightarrow> \<not> applied"
  by (auto simp: try_live_def reload_live_def Let_def split: prod.splits if_splits option.splits)

text \<open>A hosts file that cannot be read, is not valid or is refused by the supervisor leaves the
  session as it was: nothing becomes pending, the session is not asked to end, and its targets,
  configuration, monitors and workers are the ones of before.\<close>

theorem failed_reload_changes_nothing:
  assumes "sup_reach s" "request_file_reload e l doc co (Some (s, down)) fired = (co', sess', fired', outcome)"
    and "outcome = ReloadParseFailed \<or> (\<exists>err. outcome = ReloadInvalid err) \<or> (\<exists>err. outcome = ReloadFailed err)"
  shows "co' = co \<and> fired' = fired \<and> (\<exists>s'. sess' = Some (s', down) \<and> same_session s s')"
proof -
  have d: "data_ok s" using sup_reach_inv [OF assms(1)] by (simp add: sup_inv_def)
  show ?thesis
  proof (cases "\<exists>d r. doc = Some d \<and> validated_reload l co d = Inr r")
    case False
    then show ?thesis using assms(2)
      by (auto simp: request_file_reload_def split: option.splits sum.splits)
  next
    case True
    then obtain dc r where v: "doc = Some dc" "validated_reload l co dc = Inr r" by blast
    obtain sd' applied notices err where t: "try_live e (expand_reload l r) (s, down) = (sd', applied, notices, err)"
      by (cases "try_live e (expand_reload l r) (s, down)") auto
    have "\<exists>x. err = Some x" using assms(2,3) v t
      by (auto simp: request_file_reload_def split: option.splits if_splits)
    then obtain x where x: "err = Some x" by blast
    have "\<not> applied" using t x try_live_error by blast
    with try_live_refused [OF _ t] d have "same_session s (fst sd')" "snd sd' = down" by simp_all
    then show ?thesis using assms(2) v t x
      by (cases sd') (auto simp: request_file_reload_def)
  qed
qed


text \<open>C32: When a reload is pending and the file changes again before the session has ended, a second
  document that the supervisor applies live, or refuses because it has been terminated meanwhile, does
  not replace the pending one: the next iteration starts with the older document.\<close>

theorem later_reload_is_lost:
  assumes "rc_pending co = Some r"
    and "request_file_reload e l (Some d) co (Some sd) fired = (co', sess', fired', outcome)"
    and "(\<exists>notices. outcome = ReloadedLive notices) \<or> outcome = ReloadFailed SupTerminated"
  shows "apply_reload l current co' = (co \<lparr> rc_pending := None \<rparr>, expand_reload l r, True)"
  using assms
  by (cases r) (auto simp: request_file_reload_def apply_reload_def split: sum.splits option.splits prod.splits if_splits)

section \<open>Concrete reloads\<close>

definition demo_reload_env :: reload_env where
  "demo_reload_env = \<lparr> le_parse = (\<lambda>_. Some 0), le_show = (\<lambda>_. ''0s''), le_parse_url = (\<lambda>_. None),
     le_iface = (\<lambda>_. False), le_lookup = (\<lambda>_ _. []) \<rparr>"

definition demo_doc :: "doc_settings hosts_doc" where
  "demo_doc = \<lparr> hd_hosts = [], hd_include = [], hd_groups = [],
     hd_settings = merged_settings (\<lambda>_. ''0s'') default_config \<rparr>"

definition demo_coordinator :: coordinator where
  "demo_coordinator = \<lparr> rc_cli_cfg = default_config, rc_changed = (\<lambda>_. False), rc_cli_hosts = [''a''],
     rc_pending = None \<rparr>"

lemma demo_reload_valid:
  "validated_reload demo_reload_env (demo_coordinator \<lparr> rc_pending := p \<rparr>) demo_doc =
   Inr (default_config, [spec_of_host ''a''], [])"
proof -
  have "apply_doc_to_cfg (\<lambda>_. Some 0) default_config (\<lambda>_. False) (merged_settings (\<lambda>_. ''0s'') default_config) =
      Inr default_config"
    by (simp add: apply_doc_to_cfg_def sync_fields_def sync_field_def sync_slice_def sync_duration_def
        merged_settings_def overlay_thresholds_doc_def default_config_def parse_non_negative_duration_def)
  then show ?thesis
    by (simp add: validated_reload_def demo_reload_env_def demo_doc_def demo_coordinator_def
        default_config_accepted build_hosts_and_groups_def)
qed

lemma demo_reload_expanded:
  "expand_reload l (default_config, [spec_of_host ''a''], []) = (default_config, [spec_of_host ''a''], [])"
  by (simp add: expand_reload_def expand_targets_def default_config_def)

lemma reload_stopped_applies:
  assumes "sv_state s = Stopped" "diff_probe_config (sv_config s) c = []" "data_ok s"
  shows "\<exists>s' notices. reload_live e c specs groups s = (s', True, notices, None)"
proof -
  obtain s1 plan where rc: "reconcile_targets e c (zip (sv_specs s) (sv_targets s)) specs s = (s1, plan)" by fastforce
  from reconcile_spec [OF rc pool_of_supervisor(2,3) [OF assms(3)]]
  have "s1 = s \<lparr> sv_next_target := sv_next_target s1 \<rparr>" by blast
  then have "sv_state s1 = sv_state (s \<lparr> sv_next_target := sv_next_target s1 \<rparr>)" by (rule arg_cong)
  with assms(1) have "sv_state s1 = Stopped" by simp
  with rc assms(2) show ?thesis
    by (cases "adopt_reload e c specs groups plan False s1") (simp add: reload_live_def Let_def)
qed

lemma same_probe_config: "diff_probe_config c c = []"
  by (simp add: diff_probe_config_def)

theorem failed_reload_changes_nothing_witness:
  "fst (request_file_reload (demo_env True) demo_reload_env None demo_coordinator (Some (demo_running, False)) False) =
     demo_coordinator"
proof -
  have r: "request_file_reload (demo_env True) demo_reload_env None demo_coordinator (Some (demo_running, False)) False =
      (demo_coordinator, Some (demo_running, False), False, ReloadParseFailed)"
    by (simp add: request_file_reload_def)
  from failed_reload_changes_nothing [OF demo_running_reach r] r show ?thesis by simp
qed


theorem later_reload_is_lost_witness:
  "let co = demo_coordinator \<lparr> rc_pending := Some (default_config, [spec_of_host ''old''], []) \<rparr>;
       ended = fst (handle (demo_env True) CTerminate demo_session);
       after = request_file_reload (demo_env True) demo_reload_env (Some demo_doc) co (Some (ended, False)) True
   in snd (apply_reload demo_reload_env (default_config, [], []) (fst after)) =
      ((default_config, [spec_of_host ''old''], []), True)"
proof -
  let ?co = "demo_coordinator \<lparr> rc_pending := Some (default_config, [spec_of_host ''old''], []) \<rparr>"
  let ?ended = "fst (handle (demo_env True) CTerminate demo_session)"
  let ?after = "request_file_reload (demo_env True) demo_reload_env (Some demo_doc) ?co (Some (?ended, False)) True"
  have st: "sv_state ?ended = Terminated" by (simp add: demo_session_parts terminate_state)
  have a: "?after = (?co, Some (publish ?ended, False), True, ReloadFailed SupTerminated)"
    unfolding request_file_reload_def demo_reload_valid demo_reload_expanded option.case sum.case try_live_def
    using st by simp
  have p: "rc_pending ?co = Some (default_config, [spec_of_host ''old''], [])" by simp
  from later_reload_is_lost [where current = "(default_config, [], [])", OF p a] show ?thesis
    unfolding Let_def a by (simp add: expand_reload_def expand_targets_def default_config_def)
qed

end
