(* ===== verification/Lookups.thy ===== *)
theory Lookups
  imports Mtr_Engine Run_Config
begin

text \<open>
  ASN and reverse DNS lookups of a pinger (internal/pinger: asn.go, ptr.go, lifetime.go): the queries an
  address is looked up with, what is read from the answers, and the caches. The resolver is an
  argument: one outcome per query.
\<close>

section \<open>Bounded lookups\<close>

text \<open>How a query ends for its caller: the pinger was stopped, the context was cancelled, the resolver
  failed or timed out, or there is an answer.\<close>

datatype 'a looked = Stopped | Cancelled | LookupFailed | Answer 'a

text \<open>
  The functions of \<open>lookupBoundedContext\<close>: one that takes a context runs on the caller; one that does
  not runs beside it, and the first that is ready decides.
\<close>

datatype 'a race = ResultReady "'a looked" | PingerDone | ParentDone | TimedOut

datatype 'a lookup_fn = WithContext "string \<Rightarrow> 'a looked" | Detached "string \<Rightarrow> 'a race"

definition lookup_bounded :: "bool \<Rightarrow> bool \<Rightarrow> 'a lookup_fn \<Rightarrow> string \<Rightarrow> 'a looked" where
  "lookup_bounded stopped_before stopped_after fn query =
     (if stopped_before then Stopped
      else case fn of
        WithContext f \<Rightarrow> (if stopped_after then Stopped else f query)
      | Detached f \<Rightarrow> (case f query of
          ResultReady r \<Rightarrow> r | PingerDone \<Rightarrow> Stopped | ParentDone \<Rightarrow> Cancelled | TimedOut \<Rightarrow> LookupFailed))"

text \<open>What a lookup gets from outside: whether the pinger is stopped before and after the k-th query and
  whether the caller's context is cancelled after it, whether the jitter was cut short, the resolver.\<close>

record lookup_env =
  le_stopped_before :: "nat \<Rightarrow> bool"
  le_stopped_after :: "nat \<Rightarrow> bool"
  le_cancelled :: "nat \<Rightarrow> bool"
  le_jitter_cut :: bool
  le_txt :: "nat \<Rightarrow> string list lookup_fn"
  le_addr :: "string list lookup_fn"

definition query_txt :: "lookup_env \<Rightarrow> nat \<Rightarrow> string \<Rightarrow> string list looked" where
  "query_txt e k q = lookup_bounded (le_stopped_before e k) (le_stopped_after e k) (le_txt e k) q"

section \<open>Queries and answers\<close>

text \<open>The two forms of an address: \<open>To4\<close> takes the addresses that embed an IPv4 one.\<close>

definition to4 :: "net_addr \<Rightarrow> 32 word option" where
  "to4 a = (case a of
     NoAddr \<Rightarrow> None
   | V4 w \<Rightarrow> Some w
   | V6 w z \<Rightarrow> if unat w div 2 ^ 32 = 0xFFFF then Some (word_of_nat (unat w mod 2 ^ 32)) else None)"

definition nibbles :: "128 word \<Rightarrow> nat list" where
  "nibbles w = map (\<lambda>k. unat w div 16 ^ k mod 16) [0..<32]"

definition origin_query :: "net_addr \<Rightarrow> string" where
  "origin_query a = (case to4 a of
     Some w \<Rightarrow> str_join ''.'' (map nat_str (rev (v4_octets w))) @ ''.origin.asn.cymru.com''
   | None \<Rightarrow> (case a of
       V6 w z \<Rightarrow> concat (map (\<lambda>d. [hex_digit d, CHR ''.'']) (nibbles w)) @ ''origin6.asn.cymru.com''
     | _ \<Rightarrow> []))"

fun split_bar :: "string \<Rightarrow> string list" where
  "split_bar [] = [[]]"
| "split_bar (c # cs) =
     (if c = CHR ''|'' then [] # split_bar cs
      else case split_bar cs of [] \<Rightarrow> [[c]] | f # fs \<Rightarrow> (c # f) # fs)"

fun last_occurrence :: "string \<Rightarrow> string \<Rightarrow> nat option" where
  "last_occurrence [] pat = (if pat = [] then Some 0 else None)"
| "last_occurrence (x # xs) pat =
     (case last_occurrence xs pat of
        Some i \<Rightarrow> Some (Suc i) | None \<Rightarrow> if is_prefix_of pat (x # xs) then Some 0 else None)"

definition org_of :: "string \<Rightarrow> string" where
  "org_of txt =
     (let parts = split_bar txt in
      if length parts < 2 then []
      else
        let desc = trim_space (parts ! 1);
            desc1 = (case str_index desc '' - '' of None \<Rightarrow> desc | Some i \<Rightarrow> trim_space (drop (i + 3) desc))
        in case last_occurrence desc1 '', '' of None \<Rightarrow> desc1 | Some i \<Rightarrow> trim_space (take i desc1))"

text \<open>\<open>lookupOrgContext\<close> with the number its caller passes: None is the error its caller gives up on.\<close>

definition lookup_org :: "lookup_env \<Rightarrow> string \<Rightarrow> string option" where
  "lookup_org e number =
     (let r = query_txt e 1 (number @ ''.asn.cymru.com'') in
      if r = Stopped \<or> le_cancelled e 1 then None
      else case r of Answer (txt # txts) \<Rightarrow> Some (org_of txt) | _ \<Rightarrow> Some [])"

definition no_asn :: asn_info where
  "no_asn = \<lparr> as_number = [], as_country = [], as_org = [] \<rparr>"

definition trim_as :: "string \<Rightarrow> string" where
  "trim_as s = (if is_prefix_of ''AS'' s then drop 2 s else s)"

text \<open>The number and country of the first answer.\<close>

definition origin_of :: "string \<Rightarrow> (string \<times> string) option" where
  "origin_of txt =
     (let parts = split_bar txt; raw = trim_space (hd parts) in
      if raw = ''NA'' \<or> raw = [] then None
      else Some (if is_prefix_of ''AS'' raw then raw else ''AS'' @ raw,
                 if length parts \<ge> 3 then trim_space (parts ! 2) else []))"

text \<open>\<open>getASNInfoContext\<close>: the cache afterwards and the result. The calling code cannot tell a context
  that was cancelled from a pinger that was stopped.\<close>

definition get_asn_info :: "lookup_env \<Rightarrow> string \<Rightarrow> (string \<rightharpoonup> asn_info) \<Rightarrow> (string \<rightharpoonup> asn_info) \<times> asn_info" where
  "get_asn_info e ip cache = (case cache ip of
     Some info \<Rightarrow> (cache, info)
   | None \<Rightarrow>
       (case (if is_ip ip then parse_addr ip else None) of
          None \<Rightarrow> (cache, no_asn)
        | Some a \<Rightarrow>
            if le_jitter_cut e then (cache, no_asn)
            else (case query_txt e 0 (origin_query a) of
                Answer (txt # txts) \<Rightarrow>
                  (case origin_of txt of
                     None \<Rightarrow> (cache, no_asn)
                   | Some (number, country) \<Rightarrow>
                       (case lookup_org e (trim_as number) of
                          None \<Rightarrow> (cache, no_asn)
                        | Some org \<Rightarrow>
                            let info = \<lparr> as_number = number, as_country = country, as_org = org \<rparr>
                            in (cache(ip \<mapsto> info), info)))
              | _ \<Rightarrow> (cache, no_asn))))"

definition lookup_asn ::
  "bool \<Rightarrow> lookup_env \<Rightarrow> string \<Rightarrow> (string \<rightharpoonup> asn_info) \<Rightarrow> target_stats \<Rightarrow> (string \<rightharpoonup> asn_info) \<times> target_stats" where
  "lookup_asn done e ip cache t =
     (if done then (cache, t)
      else case get_asn_info e ip cache of (cache', info) \<Rightarrow>
        (cache', if as_number info \<noteq> [] then set_asn_info (as_number info) (as_country info) (as_org info) t else t))"

section \<open>Reverse DNS\<close>

definition get_ptr :: "lookup_env \<Rightarrow> string \<Rightarrow> (string \<rightharpoonup> string) \<Rightarrow> (string \<rightharpoonup> string) \<times> string" where
  "get_ptr e ip cache = (case cache ip of
     Some name \<Rightarrow> (cache, name)
   | None \<Rightarrow>
       if le_jitter_cut e then (cache, [])
       else (case lookup_bounded (le_stopped_before e 0) (le_stopped_after e 0) (le_addr e) ip of
           Answer (raw # raws) \<Rightarrow>
             (let name = (if raw \<noteq> [] \<and> last raw = CHR ''.'' then butlast raw else raw) in
              if name = [] then (cache, []) else (cache(ip \<mapsto> name), name))
         | _ \<Rightarrow> (cache, [])))"

definition lookup_ptr ::
  "bool \<Rightarrow> lookup_env \<Rightarrow> string \<Rightarrow> (string \<rightharpoonup> string) \<Rightarrow> target_stats \<Rightarrow> (string \<rightharpoonup> string) \<times> target_stats" where
  "lookup_ptr done e ip cache t =
     (if done then (cache, t)
      else case get_ptr e ip cache of (cache', name) \<Rightarrow> (cache', if name \<noteq> [] then set_ptr name t else t))"

section \<open>Properties\<close>

lemma nibbles_value: "foldr (\<lambda>d v. d + 16 * v) (map (\<lambda>k. n div 16 ^ k mod 16) [j..<j + m]) 0 = n div 16 ^ j mod 16 ^ m" for n :: nat
proof (induction m arbitrary: j)
  case (Suc m)
  have l: "[j..<j + Suc m] = j # [Suc j..<Suc j + m]" by (simp add: upt_conv_Cons)
  have d: "n div 16 ^ Suc j = n div 16 ^ j div 16" by (simp only: power_Suc mult.commute [of 16] div_mult2_eq)
  have "n div 16 ^ j mod 16 + 16 * (n div 16 ^ j div 16 mod 16 ^ m) = n div 16 ^ j mod (16 * 16 ^ m)"
    by (subst mod_mult2_eq) simp
  then show ?case unfolding l by (simp only: list.map foldr.simps comp_def Suc [of "Suc j"] d) simp
qed simp

lemma nibbles_inj: "nibbles v = nibbles w \<Longrightarrow> v = w"
proof -
  have n: "foldr (\<lambda>d v. d + 16 * v) (nibbles w) 0 = unat w" for w
    using nibbles_value [of "unat w" 0 32] unsigned_less [of w, where 'a = nat] by (simp add: nibbles_def)
  assume "nibbles v = nibbles w"
  with n [of v] n [of w] have "unat v = unat w" by simp
  then show ?thesis by (simp add: word_unat_eq_iff)
qed

lemma nibbles_small: "list_all (\<lambda>d. d < 16) (nibbles w)" "length (nibbles w) = 32"
  by (auto simp: nibbles_def list_all_iff)

lemma hex_digit_inj: "a < 16 \<Longrightarrow> b < 16 \<Longrightarrow> hex_digit a = hex_digit b \<longleftrightarrow> a = b"
  by (auto simp: hex_digit_def)

lemma nibble_labels_inj:
  assumes "list_all (\<lambda>d. d < 16) xs" "list_all (\<lambda>d. d < 16) ys" "length xs = length ys"
    "concat (map (\<lambda>d. [hex_digit d, c]) xs) = concat (map (\<lambda>d. [hex_digit d, c]) ys)"
  shows "xs = ys"
  using assms(3,1,2,4) by (induction xs ys rule: list_induct2) (simp_all add: hex_digit_inj)

lemma v4_octets_of:
  assumes "a < 256" "b < 256" "c < 256" "d < 256"
  shows "v4_octets (v4_of_octets [a, b, c, d]) = [a, b, c, d]"
proof -
  let ?n = "256 * (256 * (256 * a + b) + c) + d"
  have n: "?n < 4294967296" using assms by simp
  have w: "m < 4294967296 \<Longrightarrow> unat (word_of_nat m :: 32 word) = m" for m
    by (simp add: unsigned_of_nat take_bit_nat_eq_self)
  note u = w [OF n]
  have e: "(256 * x + y) div 256 = x \<and> (256 * x + y) mod 256 = y" if "y < 256" for x y :: nat
    using that by simp
  have dd: "?n div 65536 = ?n div 256 div 256" "?n div 16777216 = ?n div 256 div 256 div 256"
    by (simp_all flip: div_mult2_eq)
  have "v4_octets (v4_of_octets [a, b, c, d]) =
      [?n div 256 div 256 div 256, ?n div 256 div 256 mod 256, ?n div 256 mod 256, ?n mod 256]"
    using u unfolding dd [symmetric] by (simp add: v4_octets_def v4_of_octets_def Let_def del: of_nat_add of_nat_mult)
  then show ?thesis
    by (simp only: e [OF assms(2)] e [OF assms(3)] e [OF assms(4)])
qed

text \<open>The reversed octets are the octets of another address, whose text is read back.\<close>

lemma reversed_octets_inj:
  assumes "str_join ''.'' (map nat_str (rev (v4_octets v))) = str_join ''.'' (map nat_str (rev (v4_octets w)))"
  shows "v = w"
proof -
  have r: "rev (v4_octets x) = v4_octets (v4_of_octets (rev (v4_octets x)))" for x
  proof -
    obtain a b c d where o: "v4_octets x = [a, b, c, d]" by (simp add: v4_octets_def Let_def)
    then have "a < 256" "b < 256" "c < 256" "d < 256" using v4_octets_bounds [of x] by simp_all
    then show ?thesis by (simp add: o v4_octets_of)
  qed
  have "v4_str (v4_of_octets (rev (v4_octets v))) = v4_str (v4_of_octets (rev (v4_octets w)))"
    using assms by (simp add: v4_str_def flip: r)
  then have "v4_of_octets (rev (v4_octets v)) = v4_of_octets (rev (v4_octets w))" by (simp add: v4_str_inj)
  then have "rev (v4_octets v) = rev (v4_octets w)" by (metis r)
  then have "v4_octets v = v4_octets w" by simp
  then show ?thesis by (metis v4_of_octets_octets)
qed

lemma zones_differ: "x @ ''.origin.asn.cymru.com'' \<noteq> y @ ''origin6.asn.cymru.com''"
proof
  assume "x @ ''.origin.asn.cymru.com'' = y @ ''origin6.asn.cymru.com''"
  from arg_cong [OF this, of "\<lambda>s. rev s ! 14"] show False by simp
qed

text \<open>An address is looked up under its own name: two addresses with the same query are the same IPv4
  address (embedded in IPv6 or not) or the same IPv6 address, whatever their zones.\<close>

theorem origin_query_identifies_address:
  assumes "origin_query a = origin_query b" "a \<noteq> NoAddr" "b \<noteq> NoAddr"
  shows "to4 a = to4 b \<and> (to4 a = None \<longrightarrow> (\<exists>w z z'. a = V6 w z \<and> b = V6 w z'))"
proof (cases "to4 a")
  case (Some v)
  show ?thesis
  proof (cases "to4 b")
    case (Some w)
    with \<open>to4 a = Some v\<close> assms(1) show ?thesis by (simp add: origin_query_def reversed_octets_inj)
  next
    case None
    then obtain w z where "b = V6 w z" using assms(3) by (cases b) (simp_all add: to4_def)
    with None Some assms(1) zones_differ show ?thesis by (simp add: origin_query_def)
  qed
next
  case None
  then obtain v z where a: "a = V6 v z" using assms(2) by (cases a) (simp_all add: to4_def)
  show ?thesis
  proof (cases "to4 b")
    case (Some w)
    with None a assms(1) zones_differ [symmetric] show ?thesis by (simp add: origin_query_def)
  next
    case none: None
    then obtain w z' where b: "b = V6 w z'" using assms(3) by (cases b) (simp_all add: to4_def)
    have "nibbles v = nibbles w"
      using assms(1) None none a b nibbles_small nibble_labels_inj [of "nibbles v" "nibbles w" "CHR ''.''"]
      by (simp add: origin_query_def)
    then have "v = w" by (rule nibbles_inj)
    with None none a b show ?thesis by simp
  qed
qed

lemma nat_str_4_8: "nat_str 4 = ''4''" "nat_str 8 = ''8''"
  by code_simp+

theorem origin_query_identifies_address_witness:
  "origin_query (V4 0x08080404) = ''4.4.8.8.origin.asn.cymru.com'' \<and>
   origin_query (V6 0xFFFF08080404 []) = ''4.4.8.8.origin.asn.cymru.com'' \<and>
   to4 (V4 0x08080404) = to4 (V6 0xFFFF08080404 [])"
proof -
  have q: "origin_query (V4 0x08080404) = ''4.4.8.8.origin.asn.cymru.com''"
    "origin_query (V6 0xFFFF08080404 []) = ''4.4.8.8.origin.asn.cymru.com''"
    by (simp_all add: origin_query_def to4_def v4_octets_def Let_def nat_str_4_8)
  then have "origin_query (V4 0x08080404) = origin_query (V6 0xFFFF08080404 [])" by simp
  from origin_query_identifies_address [OF this] q show ?thesis by simp
qed

text \<open>A lookup stores only what is complete: it leaves the cache alone or stores its result, which then
  has a number; a stored result is what every later lookup returns, without a query; and when the
  pinger is stopped or the caller cancelled before the end, nothing is stored.\<close>

theorem asn_cache_keeps_complete_answers:
  assumes "get_asn_info e ip cache = (cache', info)"
  shows "(cache' = cache \<or> cache ip = None \<and> cache' = cache(ip \<mapsto> info) \<and> as_number info \<noteq> []) \<and>
    (\<forall>e'. cache' ip = Some info \<longrightarrow> get_asn_info e' ip cache' = (cache', info)) \<and>
    (as_number info \<noteq> [] \<longrightarrow> cache' ip = Some info) \<and>
    (le_stopped_before e 1 \<or> le_cancelled e 1 \<longrightarrow> cache' = cache)"
proof (cases "cache ip")
  case (Some i)
  with assms show ?thesis by (simp add: get_asn_info_def)
next
  case None
  have "(cache' = cache \<and> info = no_asn) \<or>
    (cache' = cache(ip \<mapsto> info) \<and> as_number info \<noteq> [] \<and> \<not> le_stopped_before e 1 \<and> \<not> le_cancelled e 1)"
    using assms None
    by (auto simp: get_asn_info_def origin_of_def lookup_org_def query_txt_def lookup_bounded_def Let_def
        split: option.splits if_splits looked.splits list.splits)
  then show ?thesis using None by (auto simp: get_asn_info_def no_asn_def)
qed

definition demo_lookup :: lookup_env where
  "demo_lookup = \<lparr> le_stopped_before = (\<lambda>_. False), le_stopped_after = (\<lambda>_. False), le_cancelled = (\<lambda>_. False),
     le_jitter_cut = False,
     le_txt = (\<lambda>k. WithContext (\<lambda>_. Answer
       [if k = 0 then ''15169|8.8.8.0/24| US|arin'' else ''15169 | GOOGLE - Google LLC, US''])),
     le_addr = WithContext (\<lambda>_. Answer [''dns.google.'']) \<rparr>"

definition graphic :: "char \<Rightarrow> bool" where
  "graphic c = (33 \<le> (of_char c :: nat) \<and> of_char c \<le> (126 :: nat))"

lemma space_ends: "list_all (\<lambda>e. e \<noteq> [] \<and> \<not> graphic (hd e) \<and> \<not> graphic (last e)) space_encodings"
  by code_simp

lemma strip_front_id:
  assumes "graphic c" "list_all (\<lambda>e. e \<noteq> [] \<and> \<not> graphic (hd e)) encs"
  shows "strip_front encs (c # s) = c # s"
proof -
  have "find (\<lambda>e. e \<noteq> [] \<and> is_prefix_of e (c # s)) encs = None"
    using assms by (auto simp: find_None_iff list_all_iff is_prefix_of_iff Cons_eq_append_conv)
  then show ?thesis by (simp add: strip_front.simps [of encs "c # s"])
qed

text \<open>What is between two graphic characters of ASCII stays.\<close>

lemma trim_space_id:
  assumes "graphic c" "graphic (last (c # s))"
  shows "trim_space (c # s) = c # s"
proof -
  have e: "list_all (\<lambda>e. e \<noteq> [] \<and> \<not> graphic (hd e)) space_encodings"
    "list_all (\<lambda>e. e \<noteq> [] \<and> \<not> graphic (hd e)) (map rev space_encodings)"
    using space_ends by (auto simp: list_all_iff hd_rev)
  have r: "rev (c # s) = last (c # s) # tl (rev (c # s))"
    by (metis hd_Cons_tl hd_rev list.distinct(1) rev_is_Nil_conv)
  have "strip_front (map rev space_encodings) (rev (c # s)) = rev (c # s)"
    by (subst (1 2) r) (rule strip_front_id [OF assms(2) e(2)])
  with strip_front_id [OF assms(1) e(1), of s] show ?thesis by (simp add: trim_space_def)
qed

lemma trim_blank: "trim_space (CHR '' '' # s) = trim_space s"
proof -
  obtain r where r: "space_encodings = [[CHR 0x09], [CHR 0x0A], [CHR 0x0B], [CHR 0x0C], [CHR 0x0D], [CHR '' '']] @ r"
  proof
    have "char_of (9::nat) = CHR 0x09" "char_of (10::nat) = CHR 0x0A" "char_of (11::nat) = CHR 0x0B"
      "char_of (12::nat) = CHR 0x0C" "char_of (13::nat) = CHR 0x0D" "char_of (32::nat) = CHR '' ''"
      by code_simp+
    then show "space_encodings = [[CHR 0x09], [CHR 0x0A], [CHR 0x0B], [CHR 0x0C], [CHR 0x0D], [CHR '' '']] @ drop 6 space_encodings"
      by (simp add: space_encodings_def)
  qed
  have "find (\<lambda>e. e \<noteq> [] \<and> is_prefix_of e (CHR '' '' # s)) space_encodings = Some [CHR '' '']"
    unfolding r by simp
  then have "strip_front space_encodings (CHR '' '' # s) = strip_front space_encodings s"
    by (simp add: strip_front.simps [of space_encodings "CHR '' '' # s"])
  then show ?thesis by (simp add: trim_space_def)
qed

lemma demo_origin: "origin_of ''15169|8.8.8.0/24| US|arin'' = Some (''AS15169'', ''US'')"
  by (simp add: origin_of_def trim_blank trim_space_id graphic_def Let_def)

lemma demo_org: "org_of ''15169 | GOOGLE - Google LLC, US'' = ''Google LLC''"
proof -
  have "trim_space '' GOOGLE - Google LLC, US'' = ''GOOGLE - Google LLC, US''"
    by (simp add: trim_blank trim_space_id graphic_def)
  moreover have "trim_space ''Google LLC, US'' = ''Google LLC, US''" by (simp add: trim_space_id graphic_def)
  moreover have "trim_space ''Google LLC'' = ''Google LLC''" by (simp add: trim_space_id graphic_def)
  moreover have "split_bar ''15169 | GOOGLE - Google LLC, US'' = [''15169 '', '' GOOGLE - Google LLC, US'']"
    "str_index ''GOOGLE - Google LLC, US'' '' - '' = Some 6"
    "last_occurrence ''Google LLC, US'' '', '' = Some 10" by simp_all
  ultimately show ?thesis by (simp add: org_of_def)
qed

theorem asn_cache_keeps_complete_answers_witness:
  "\<exists>cache'. get_asn_info demo_lookup ''8.8.8.8'' Map.empty =
       (cache', \<lparr> as_number = ''AS15169'', as_country = ''US'', as_org = ''Google LLC'' \<rparr>) \<and>
     cache' ''8.8.8.8'' = Some \<lparr> as_number = ''AS15169'', as_country = ''US'', as_org = ''Google LLC'' \<rparr>"
proof -
  have "v4_str 0x08080808 = ''8.8.8.8''" by (simp add: v4_str_def v4_octets_def Let_def nat_str_4_8)
  then have ip: "parse_addr ''8.8.8.8'' = Some (V4 0x08080808)" by (metis parse_addr_v4_str)
  then have "is_ip ''8.8.8.8''" by (simp add: is_ip_def)
  obtain cache' where g: "get_asn_info demo_lookup ''8.8.8.8'' Map.empty =
      (cache', \<lparr> as_number = ''AS15169'', as_country = ''US'', as_org = ''Google LLC'' \<rparr>)"
    using ip \<open>is_ip ''8.8.8.8''\<close> by (auto simp: get_asn_info_def lookup_org_def query_txt_def lookup_bounded_def demo_lookup_def Let_def
        demo_origin demo_org)
  from asn_cache_keeps_complete_answers [OF g] g show ?thesis by simp
qed

text \<open>The same for names: what is stored is not empty and is what later lookups return.\<close>

lemma ptr_cache_keeps_names:
  assumes "get_ptr e ip cache = (cache', name)"
  shows "(cache' = cache \<or> cache ip = None \<and> cache' = cache(ip \<mapsto> name) \<and> name \<noteq> []) \<and>
    (\<forall>e'. cache' ip = Some name \<longrightarrow> get_ptr e' ip cache' = (cache', name))"
  using assms by (auto simp: get_ptr_def Let_def split: option.splits if_splits looked.splits list.splits)

text \<open>A transient failure of the second query is stored for good, as an address without organisation.\<close>

lemma failed_org_is_stored:
  assumes "cache ip = None" "is_ip ip" "parse_addr ip = Some a" "\<not> le_jitter_cut e"
    "query_txt e 0 (origin_query a) = Answer (txt # txts)" "origin_of txt = Some (number, country)"
    "query_txt e 1 (trim_as number @ ''.asn.cymru.com'') = LookupFailed" "\<not> le_cancelled e 1"
  shows "fst (get_asn_info e ip cache) ip = Some \<lparr> as_number = number, as_country = country, as_org = [] \<rparr>"
  using assms by (simp add: get_asn_info_def lookup_org_def Let_def)

end
