(* ===== verification/Watcher.thy ===== *)
theory Watcher
  imports Hosts_Document
begin

text \<open>
  The file watcher (internal/watcher/watcher.go): which files are watched, through which directories, and
  the loop that turns a burst of changes into one call. fsnotify and the file system are arguments:
  the events, and which directories can be watched.
\<close>

section \<open>Watched paths\<close>

text \<open>\<open>filepath.Abs\<close> (None when the working directory is unknown) and \<open>filepath.Dir\<close> of a clean absolute
  path.\<close>

definition abs_path :: "string option \<Rightarrow> string \<Rightarrow> string option" where
  "abs_path cwd p =
     (if p \<noteq> [] \<and> hd p = CHR ''/'' then Some (clean_path p)
      else map_option (\<lambda>d. clean_path (d @ ''/'' @ p)) cwd)"

definition dir_of :: "string \<Rightarrow> string" where
  "dir_of p = clean_path (rev (dropWhile (\<lambda>c. c \<noteq> CHR ''/'') (rev p)))"

record path_watches =
  pw_dirs :: "string list"
  pw_watched :: "string list"

datatype watch_error = PathUnresolved string | DirUnwatchable string | RuntimeError

text \<open>\<open>refresh\<close>: the directories added so far and the files found so far are carried through the loop;
  \<open>add\<close> says whether a directory can be watched now.\<close>

fun refresh_loop ::
  "string option \<Rightarrow> (string \<Rightarrow> bool) \<Rightarrow> bool \<Rightarrow> string list \<Rightarrow> string list \<Rightarrow> string list \<Rightarrow>
   string list \<times> (watch_error + string list)" where
  "refresh_loop cwd add strict [] dirs found = (dirs, Inr found)"
| "refresh_loop cwd add strict (p # ps) dirs found =
     (case abs_path cwd p of
        None \<Rightarrow> if strict then (dirs, Inl (PathUnresolved p)) else refresh_loop cwd add strict ps dirs found
      | Some a \<Rightarrow>
          let d = dir_of a in
          if d \<notin> set dirs \<and> \<not> add d then
            (if strict then (dirs, Inl (DirUnwatchable d)) else refresh_loop cwd add strict ps dirs found)
          else refresh_loop cwd add strict ps (if d \<in> set dirs then dirs else d # dirs)
                 (if a \<in> set found then found else a # found))"

definition refresh ::
  "string option \<Rightarrow> (string \<Rightarrow> bool) \<Rightarrow> bool \<Rightarrow> string list \<Rightarrow> path_watches \<Rightarrow> path_watches \<times> watch_error option" where
  "refresh cwd add strict paths w = (case refresh_loop cwd add strict paths (pw_dirs w) [] of
     (dirs, Inl e) \<Rightarrow> (w \<lparr> pw_dirs := dirs \<rparr>, Some e)
   | (dirs, Inr found) \<Rightarrow> (\<lparr> pw_dirs = dirs, pw_watched = found \<rparr>, None))"

section \<open>The loop\<close>

definition debounce_delay :: duration where "debounce_delay = 200 * millisecond"

text \<open>The ready case of the select; \<open>FileEvent\<close> says whether the event has Write or Create, and \<open>TimerFires\<close>
  carries what \<open>paths\<close> gives and which directories can be watched at the refresh after the call.\<close>

datatype watch_case =
    ContextDone
  | EventsClosed
  | ErrorsClosed
  | ErrorEvent
  | FileEvent gotime string bool
  | TimerFires gotime "string list" "string \<Rightarrow> bool"

datatype watch_end = Returned | ReturnedError watch_error

record watch_loop =
  wl_watches :: path_watches
  wl_timer :: "gotime option"
  wl_calls :: "gotime list"
  wl_end :: "watch_end option"

definition watch_start :: "string option \<Rightarrow> (string \<Rightarrow> bool) \<Rightarrow> string list \<Rightarrow> watch_loop" where
  "watch_start cwd add paths =
     (case refresh cwd add True paths \<lparr> pw_dirs = [], pw_watched = [] \<rparr> of
        (w, err) \<Rightarrow> \<lparr> wl_watches = w, wl_timer = None, wl_calls = [], wl_end = map_option ReturnedError err \<rparr>)"

definition relevant :: "watch_loop \<Rightarrow> string \<Rightarrow> bool \<Rightarrow> bool" where
  "relevant w name changes = (clean_path name \<in> set (pw_watched (wl_watches w)) \<and> changes)"

text \<open>The timer holds the time it fires at; a timer that is not due, or not there, is not ready.\<close>

fun watch_step :: "string option \<Rightarrow> watch_case \<Rightarrow> watch_loop \<Rightarrow> watch_loop" where
  "watch_step cwd ContextDone w = w \<lparr> wl_end := Some Returned \<rparr>"
| "watch_step cwd EventsClosed w = w \<lparr> wl_end := Some Returned \<rparr>"
| "watch_step cwd ErrorsClosed w = w \<lparr> wl_end := Some Returned \<rparr>"
| "watch_step cwd ErrorEvent w = w \<lparr> wl_end := Some (ReturnedError RuntimeError) \<rparr>"
| "watch_step cwd (FileEvent now name changes) w =
     (if relevant w name changes then w \<lparr> wl_timer := Some (now + debounce_delay) \<rparr> else w)"
| "watch_step cwd (TimerFires now paths add) w =
     (case wl_timer w of
        None \<Rightarrow> w
      | Some due \<Rightarrow>
          if now < due then w
          else w \<lparr> wl_timer := None, wl_calls := wl_calls w @ [now],
                   wl_watches := fst (refresh cwd add False paths (wl_watches w)) \<rparr>)"

fun watch_run :: "string option \<Rightarrow> watch_case list \<Rightarrow> watch_loop \<Rightarrow> watch_loop" where
  "watch_run cwd [] w = w"
| "watch_run cwd (c # cs) w = (if wl_end w \<noteq> None then w else watch_run cwd cs (watch_step cwd c w))"

section \<open>Properties\<close>

text \<open>A refresh that does not fail watches every path it can resolve whose directory is watched already
  or can be watched now, and nothing else; it never gives up a directory.\<close>

definition watchable :: "string option \<Rightarrow> (string \<Rightarrow> bool) \<Rightarrow> string list \<Rightarrow> string \<Rightarrow> string \<Rightarrow> bool" where
  "watchable cwd add dirs p a = (abs_path cwd p = Some a \<and> (dir_of a \<in> set dirs \<or> add (dir_of a)))"

lemma refresh_loop_spec:
  assumes "refresh_loop cwd add strict ps dirs found = (dirs', Inr found')"
  shows "set dirs \<subseteq> set dirs' \<and> set dirs' \<subseteq> set dirs \<union> {d. add d} \<and>
    set found' = set found \<union> {a. \<exists>p\<in>set ps. watchable cwd add dirs p a} \<and>
    (\<forall>a\<in>set found' - set found. dir_of a \<in> set dirs')"
  using assms
proof (induction ps arbitrary: dirs found)
  case (Cons p ps)
  show ?case
  proof (cases "abs_path cwd p")
    case None
    with Cons.prems have "refresh_loop cwd add strict ps dirs found = (dirs', Inr found')" by (simp split: if_splits)
    from Cons.IH [OF this] None show ?thesis by (auto simp: watchable_def)
  next
    case (Some a)
    show ?thesis
    proof (cases "dir_of a \<notin> set dirs \<and> \<not> add (dir_of a)")
      case True
      with Cons.prems Some have "refresh_loop cwd add strict ps dirs found = (dirs', Inr found')" by (simp split: if_splits)
      from Cons.IH [OF this] Some True show ?thesis by (auto simp: watchable_def)
    next
      case False
      with Cons.prems Some have "refresh_loop cwd add strict ps (if dir_of a \<in> set dirs then dirs else dir_of a # dirs)
          (if a \<in> set found then found else a # found) = (dirs', Inr found')" by (auto simp: Let_def)
      note h = Cons.IH [OF this]
      have w: "watchable cwd add (if dir_of a \<in> set dirs then dirs else dir_of a # dirs) q b = watchable cwd add dirs q b" for q b
        using False by (auto simp: watchable_def)
      have s: "set (if dir_of a \<in> set dirs then dirs else dir_of a # dirs) = insert (dir_of a) (set dirs)"
        "set (if a \<in> set found then found else a # found) = insert a (set found)" by auto
      have "watchable cwd add dirs p b \<longleftrightarrow> b = a" for b using Some False by (auto simp: watchable_def)
      with h False show ?thesis unfolding w s by auto
    qed
  qed
qed simp

lemma refresh_later:
  "refresh cwd add False ps w = (w', err) \<Longrightarrow> err = None"
proof -
  have "\<exists>d f. refresh_loop cwd add False ps dirs found = (d, Inr f)" for dirs found
    by (induction ps arbitrary: dirs found) (auto simp: Let_def split: option.split)
  then obtain d f where "refresh_loop cwd add False ps (pw_dirs w) [] = (d, Inr f)" by blast
  then show "refresh cwd add False ps w = (w', err) \<Longrightarrow> err = None" by (auto simp: refresh_def)
qed

lemma refresh_watches:
  assumes "refresh cwd add strict ps w = (w', None)"
  shows "set (pw_watched w') = {a. \<exists>p\<in>set ps. watchable cwd add (pw_dirs w) p a} \<and>
    set (pw_dirs w) \<subseteq> set (pw_dirs w') \<and> (\<forall>a\<in>set (pw_watched w'). dir_of a \<in> set (pw_dirs w'))"
  using assms refresh_loop_spec [of cwd add strict ps "pw_dirs w" "[]"]
  by (auto simp: refresh_def split: prod.splits sum.splits)

text \<open>What happens in a run: relevant changes and calls, with their times.\<close>

datatype happening = Changed gotime | Called gotime

fun happens :: "watch_case \<Rightarrow> watch_loop \<Rightarrow> happening list" where
  "happens (FileEvent now name changes) w = (if relevant w name changes then [Changed now] else [])"
| "happens (TimerFires now paths add) w = (case wl_timer w of
     None \<Rightarrow> [] | Some due \<Rightarrow> if now < due then [] else [Called now])"
| "happens _ w = []"

fun watch_trace :: "string option \<Rightarrow> watch_case list \<Rightarrow> watch_loop \<Rightarrow> happening list" where
  "watch_trace cwd [] w = []"
| "watch_trace cwd (c # cs) w =
     (if wl_end w \<noteq> None then [] else happens c w @ watch_trace cwd cs (watch_step cwd c w))"

fun calls_of :: "happening list \<Rightarrow> gotime list" where
  "calls_of [] = []"
| "calls_of (Changed t # hs) = calls_of hs"
| "calls_of (Called t # hs) = t # calls_of hs"

lemma calls_of_append [simp]: "calls_of (xs @ ys) = calls_of xs @ calls_of ys"
  by (induction xs rule: calls_of.induct) simp_all

text \<open>The time of the change that has not been followed by a call yet.\<close>

definition open_change :: "happening list \<Rightarrow> gotime option" where
  "open_change hs = (if hs = [] then None else case last hs of Changed t \<Rightarrow> Some t | Called t \<Rightarrow> None)"

text \<open>Every call comes right after a change, 200 ms after it at the earliest.\<close>

fun debounced :: "gotime option \<Rightarrow> happening list \<Rightarrow> bool" where
  "debounced pending [] = True"
| "debounced pending (Changed t # hs) = debounced (Some t) hs"
| "debounced pending (Called t # hs) =
     ((case pending of None \<Rightarrow> False | Some t0 \<Rightarrow> t0 + debounce_delay \<le> t) \<and> debounced None hs)"

lemma open_change_append:
  "open_change (xs @ ys) = (if ys = [] then open_change xs else open_change ys)"
  by (simp add: open_change_def)

lemma debounced_append:
  "debounced p (xs @ ys) = (debounced p xs \<and> debounced (if xs = [] then p else open_change xs) ys)"
  by (induction p xs rule: debounced.induct) (simp_all add: open_change_def)

definition loop_ok :: "watch_loop \<Rightarrow> happening list \<Rightarrow> bool" where
  "loop_ok w hs = (debounced None hs \<and> wl_calls w = calls_of hs \<and>
     wl_timer w = map_option (\<lambda>t. t + debounce_delay) (open_change hs) \<and>
     (\<forall>a\<in>set (pw_watched (wl_watches w)). dir_of a \<in> set (pw_dirs (wl_watches w))))"

lemma loop_ok_step:
  assumes "loop_ok w hs"
  shows "loop_ok (watch_step cwd c w) (hs @ happens c w)"
proof (cases c)
  case (FileEvent now name changes)
  with assms show ?thesis by (auto simp: loop_ok_def debounced_append open_change_append open_change_def)
next
  case (TimerFires now paths add)
  obtain w' err where r: "refresh cwd add False paths (wl_watches w) = (w', err)" by fastforce
  with refresh_later [OF r] have n: "refresh cwd add False paths (wl_watches w) = (w', None)" by simp
  have e: "debounced None hs \<Longrightarrow> hs = [] \<Longrightarrow> open_change hs = None" by (simp add: open_change_def)
  from assms refresh_watches [OF n] TimerFires n e show ?thesis
    by (auto simp: loop_ok_def debounced_append open_change_append split: option.splits) (auto simp: open_change_def)
qed (use assms in \<open>simp_all add: loop_ok_def\<close>)

lemma loop_ok_run:
  "loop_ok w hs \<Longrightarrow> loop_ok (watch_run cwd cs w) (hs @ watch_trace cwd cs w)"
proof (induction cs arbitrary: w hs)
  case (Cons c cs)
  show ?case
  proof (cases "wl_end w")
    case None
    with Cons.IH [OF loop_ok_step [OF Cons.prems, of cwd c]] show ?thesis by simp
  qed (use Cons.prems in simp)
qed simp



end
