(* ===== verification/Session_Report.thy ===== *)
theory Session_Report
  imports Supervisor_Properties
begin

text \<open>
  Reports of a running session (cmd/main/report.go) and the file they go to (internal/report/path.go):
  the capture runs on the command loop, so it sees one membership and one configuration.
\<close>

section \<open>Capture\<close>

text \<open>\<open>captureReport\<close>: \<open>now0\<close> and \<open>now1\<close> are the two readings of the clock. The duration limit and
  the thresholds are kept as numbers; the code prints them into the settings.\<close>

definition report_settings_of :: "supervisor \<Rightarrow> report_settings" where
  "report_settings_of s =
     (let c = sv_config s; sc = sv_cfg s; policy = config_policy c in
      \<lparr> st_interval_ms = sc_interval sc sdiv millisecond, st_timeout_ms = sc_timeout sc sdiv millisecond,
        st_payload_bytes = sc_packet_size sc, st_interface = sc_bind_interface sc,
        st_bound_source = sc_bind_source sc, st_source_ipv4 = sc_source_ipv4 sc,
        st_source_ipv6 = sc_source_ipv6 sc, st_network = sc_network sc, st_count = cf_count c,
        st_duration_deadline = (if is_zero_time (sc_duration_deadline sc) then None
          else Some (sc_duration_deadline sc)),
        st_pmtu_discovery = cf_mtu_enabled c, st_duration = sc_duration_limit sc,
        st_dns_server = cf_dns_server c, st_resolve_all = cf_resolve_all c, st_traceroute = cf_trace c,
        st_mtr = cf_mtr c,
        st_ports = map (\<lambda>(port, proto). int_str port @ ''/'' @ proto) (sc_port_specs sc),
        st_http_urls = sc_http_urls sc, st_thresholds = cf_thresholds c,
        st_health_failures = hp_failures policy, st_health_recoveries = hp_recoveries policy,
        st_health_window_seconds = duration_seconds (hp_window policy),
        st_http_follow_redirects = cf_http_follow_redirects c \<rparr>)"

definition report_targets_of :: "nat \<Rightarrow> supervisor \<Rightarrow> report_target list" where
  "report_targets_of selected s =
     map (\<lambda>(i, t). (new_report_target t) \<lparr> rt_group := group_name_for_index (sv_groups s) i \<rparr>)
       (filter (\<lambda>(i, t). selected = 0 \<or> ts_id t = selected) (enumerate 0 (sv_targets s)))"

definition capture_report :: "gotime \<Rightarrow> gotime \<Rightarrow> nat \<Rightarrow> supervisor \<Rightarrow> sup_error + report" where
  "capture_report now0 now1 selected s =
     (let targets = report_targets_of selected s;
          r = \<lparr> rr_schema_version = 1, rr_collection_started_at = sc_collection_started_at (sv_cfg s),
                rr_session_started_at = sc_started_at (sv_cfg s), rr_captured_at = now0,
                rr_capture_completed_at = now1, rr_state = sup_state_string (sv_state s),
                rr_ping_finished = (case live_pinger s of None \<Rightarrow> False | Some p \<Rightarrow> workers_finished (pi_reg p)),
                rr_scope = ''session'', rr_settings = report_settings_of s, rr_targets = targets,
                rr_removed_targets = [], rr_removed_dropped = 0, rr_http_checks = [] \<rparr>
      in if selected \<noteq> 0 then
           (if targets = [] then Inl TargetGone else Inr (r \<lparr> rr_scope := ''target'' \<rparr>))
         else Inr (r \<lparr> rr_removed_targets := sv_removed s, rr_removed_dropped := sv_removed_dropped s,
                rr_http_checks := http_check_summaries
                  (case sv_http s of None \<Rightarrow> [] | Some h \<Rightarrow> map http_get_view (ho_results h)) \<rparr>))"

text \<open>\<open>snapshotReport\<close> and the check of \<open>saveReport\<close>, up to the file.\<close>

datatype save_error = UnsupportedFormat string | CaptureFailed sup_error

definition snapshot_report :: "gotime \<Rightarrow> gotime \<Rightarrow> nat \<Rightarrow> supervisor \<times> bool \<Rightarrow> sup_error + report" where
  "snapshot_report now0 now1 selected sd =
     (if snd sd then Inl ShutDown
      else if sv_state (fst sd) = Terminated then Inl SupTerminated
      else capture_report now0 now1 selected (fst sd))"

definition save_report ::
  "gotime \<Rightarrow> gotime \<Rightarrow> string \<Rightarrow> nat \<Rightarrow> supervisor \<times> bool \<Rightarrow> save_error + report" where
  "save_report now0 now1 format selected sd =
     (if format \<noteq> ''csv'' \<and> format \<noteq> ''json'' then Inl (UnsupportedFormat format)
      else case snapshot_report now0 now1 selected sd of
        Inl e \<Rightarrow> Inl (CaptureFailed e) | Inr r \<Rightarrow> Inr r)"

section \<open>The file name\<close>

text \<open>\<open>filepath.Base\<close> and \<open>filepath.Ext\<close> with the separator of Unix.\<close>

definition file_base :: "string \<Rightarrow> string" where
  "file_base p =
     (if p = [] then ''.''
      else let q = rev (dropWhile (\<lambda>c. c = CHR ''/'') (rev p));
               b = rev (takeWhile (\<lambda>c. c \<noteq> CHR ''/'') (rev q))
           in if b = [] then ''/'' else b)"

definition file_ext :: "string \<Rightarrow> string" where
  "file_ext p =
     (let tail = takeWhile (\<lambda>c. c \<noteq> CHR ''/'' \<and> c \<noteq> CHR ''.'') (rev p);
          rest = drop (length tail) (rev p)
      in if rest \<noteq> [] \<and> hd rest = CHR ''.'' then CHR ''.'' # rev tail else [])"

datatype path_error = EmptyPath | NoFileName | UnknownExtension

definition path_format :: "string \<Rightarrow> path_error + string \<times> string" where
  "path_format path =
     (let p = trim_space path in
      if p = [] then Inl EmptyPath
      else if last p = CHR ''/'' \<or> file_base p = ''.'' \<or> file_base p = ''..'' then Inl NoFileName
      else let ext = to_lower (file_ext p) in
        if ext = ''.json'' then Inr (p, ''json'')
        else if ext = ''.csv'' then Inr (p, ''csv'')
        else if ext = [] then Inr (p @ ''.json'', ''json'')
        else Inl UnknownExtension)"

section \<open>Properties\<close>

lemma report_target_id [simp]: "te_id (rt_statistics (new_report_target t)) = ts_id t"
  by (simp add: new_report_target_def report_data_def target_summary_from_view_def view_locked_def Let_def
      split: prod.split)

lemma enumerate_filter_ids:
  "map (\<lambda>(i, t). ts_id t) (filter (\<lambda>(i, t). P (ts_id t)) (enumerate n ts)) = filter P (map ts_id ts)"
  by (induction ts arbitrary: n) auto

lemma report_targets_ids:
  "map (\<lambda>r. te_id (rt_statistics r)) (report_targets_of selected s) =
   filter (\<lambda>i. selected = 0 \<or> i = selected) (target_ids s)"
proof -
  have "map (\<lambda>r. te_id (rt_statistics r)) (report_targets_of selected s) =
      map (\<lambda>(i, t). ts_id t) (filter (\<lambda>(i, t). selected = 0 \<or> ts_id t = selected) (enumerate 0 (sv_targets s)))"
    by (simp add: report_targets_of_def case_prod_beta comp_def)
  also have "\<dots> = filter (\<lambda>i. selected = 0 \<or> i = selected) (target_ids s)"
    using enumerate_filter_ids [of "\<lambda>i. selected = 0 \<or> i = selected" 0 "sv_targets s"] by (simp add: target_ids_def)
  finally show ?thesis .
qed

lemma filter_one: "distinct xs \<Longrightarrow> filter (\<lambda>i. i = a) xs = (if a \<in> set xs then [a] else [])"
  by (induction xs) (auto simp: filter_empty_conv)

lemma group_of_enumerated:
  "map rt_group (report_targets_of 0 s) =
   map (\<lambda>i. group_name_for_index (sv_groups s) i) [0..<length (sv_targets s)]"
proof -
  have "map rt_group (report_targets_of 0 s) =
      map (\<lambda>x. group_name_for_index (sv_groups s) (fst x)) (enumerate 0 (sv_targets s))"
    by (simp add: report_targets_of_def case_prod_beta comp_def)
  also have "\<dots> = map (\<lambda>i. group_name_for_index (sv_groups s) i) (map fst (enumerate 0 (sv_targets s)))"
    by (simp only: map_map comp_def)
  finally show ?thesis by (simp only: map_fst_enumerate add_0)
qed

text \<open>A report of the whole session has one entry for every target of the session, in order and with
  the name of its group, and at most 128 removed targets; a report of one target has exactly the
  entry of that target, and asking for one that is gone is an error.\<close>

theorem report_follows_session:
  assumes "sup_reach s"
  shows "(case capture_report now0 now1 selected s of
      Inl e \<Rightarrow> selected \<noteq> 0 \<and> e = TargetGone \<and> selected \<notin> ts_id ` set (sv_targets s)
    | Inr r \<Rightarrow>
        if selected = 0
        then map (\<lambda>t. te_id (rt_statistics t)) (rr_targets r) = map ts_id (sv_targets s) \<and>
             map rt_group (rr_targets r) =
               map (\<lambda>i. group_name_for_index (sv_groups s) i) [0..<length (sv_targets s)] \<and>
             length (rr_removed_targets r) \<le> 128 \<and> rr_scope r = ''session''
        else map (\<lambda>t. te_id (rt_statistics t)) (rr_targets r) = [selected] \<and>
             selected \<in> ts_id ` set (sv_targets s) \<and> rr_removed_targets r = [] \<and> rr_scope r = ''target'')"
proof -
  have i: "distinct (target_ids s)" "length (sv_removed s) \<le> 128"
    using sup_reach_inv [OF assms] by (simp_all add: sup_inv_def data_ok_def max_removed_targets_def)
  show ?thesis
  proof (cases "selected = 0")
    case True
    with i report_targets_ids [of 0 s] group_of_enumerated [of s] show ?thesis
      by (simp add: capture_report_def Let_def target_ids_def)
  next
    case False
    then have ids: "map (\<lambda>r. te_id (rt_statistics r)) (report_targets_of selected s) =
        (if selected \<in> set (target_ids s) then [selected] else [])"
      using report_targets_ids [of selected s] i(1) by (simp add: filter_one)
    show ?thesis
    proof (cases "selected \<in> set (target_ids s)")
      case True
      with ids have "report_targets_of selected s \<noteq> []" by auto
      with True False ids show ?thesis by (simp add: capture_report_def Let_def target_ids_def)
    next
      case gone: False
      with False ids show ?thesis by (simp add: capture_report_def Let_def target_ids_def)
    qed
  qed
qed

theorem report_follows_session_witness:
  "(case capture_report 1 2 2 demo_running of Inl e \<Rightarrow> False
    | Inr r \<Rightarrow> map (\<lambda>t. te_id (rt_statistics t)) (rr_targets r) = [2]) \<and>
   (case capture_report 1 2 9 demo_running of Inl e \<Rightarrow> e = TargetGone | Inr r \<Rightarrow> False)"
proof -
  have ids: "ts_id ` set (sv_targets demo_running) = {1, 2}"
    using arg_cong [OF demo_running_parts(2), of set] by (simp add: target_ids_def)
  show ?thesis
    using report_follows_session [where ?now0.0 = 1 and ?now1.0 = 2 and selected = 2, OF demo_running_reach]
      report_follows_session [where ?now0.0 = 1 and ?now1.0 = 2 and selected = 9, OF demo_running_reach]
    by (auto simp: ids split: sum.splits)
qed

text \<open>The extension of the file that is written says the format.\<close>

lemma file_ext_suffix: "file_ext (p @ ''.json'') = ''.json''"
  by (simp add: file_ext_def Let_def)

lemma report_file_extension:
  assumes "path_format path = Inr (q, format)"
  shows "to_lower (file_ext q) = CHR ''.'' # format \<and> (format = ''json'' \<or> format = ''csv'')"
proof -
  have "to_lower ''.json'' = ''.json''" by code_simp
  then show ?thesis using assms
    by (auto simp: path_format_def Let_def file_ext_suffix split: if_splits)
qed

end
