(* ===== verification/Web_Guard.thy ===== *)
theory Web_Guard
  imports Run_Config
begin

text \<open>
  What the web server lets in (internal/web: server.go, control.go, api.go): requests and responses,
  the guard on Host and Origin, the control token, and the values a request carries as text.
  \<open>url.Parse\<close> and \<open>mime.ParseMediaType\<close> are arguments; the decoded JSON body is part of the request.
\<close>

section \<open>Requests and responses\<close>

text \<open>What the JSON decoder finds in the body of an add request.\<close>

datatype body_read = TooLarge | Malformed | Trailing | Decoded string

record request =
  rq_method :: string
  rq_path :: "string list"
  rq_host :: string
  rq_header :: "string \<Rightarrow> string"
  rq_query :: "string \<Rightarrow> string"
  rq_body :: body_read

record 'b response =
  rs_status :: nat
  rs_headers :: "(string \<times> string) list"
  rs_body :: 'b

definition token_header :: string where "token_header = ''X-Mping-Token''"
definition max_host_len :: nat where "max_host_len = 253"
definition min_token_len :: nat where "min_token_len = 16"

section \<open>The guard\<close>

definition is_loopback :: "net_addr \<Rightarrow> bool" where
  "is_loopback a = (case a of
     NoAddr \<Rightarrow> False
   | V4 w \<Rightarrow> v4_octets w ! 0 = 127
   | V6 w z \<Rightarrow> w = 1 \<or> unat w div 2 ^ 32 = 0xFFFF \<and> unat w div 2 ^ 24 mod 256 = 127)"

text \<open>
  \<open>strings.EqualFold\<close> where one side is ASCII: beyond the ASCII letters only U+017F folds to \<open>s\<close> and
  U+212A to \<open>k\<close>. A Host header is ASCII, because net/http refuses any other.
\<close>

fun fold_case :: "string \<Rightarrow> string" where
  "fold_case [] = []"
| "fold_case (c # cs) =
     (if is_prefix_of [CHR 0xC5, CHR 0xBF] (c # cs) then CHR ''s'' # fold_case (drop 1 cs)
      else if is_prefix_of [CHR 0xE2, CHR 0x84, CHR 0xAA] (c # cs) then CHR ''k'' # fold_case (drop 2 cs)
      else lower_char c # fold_case cs)"

definition equal_fold :: "string \<Rightarrow> string \<Rightarrow> bool" where
  "equal_fold s t = (fold_case s = fold_case t)"

definition trim_prefix :: "string \<Rightarrow> string \<Rightarrow> string" where
  "trim_prefix p s = (if is_prefix_of p s then drop (length p) s else s)"

definition trim_suffix :: "string \<Rightarrow> string \<Rightarrow> string" where
  "trim_suffix p s = rev (trim_prefix (rev p) (rev s))"

definition host_only :: "string \<Rightarrow> string" where
  "host_only hostport = (case split_host hostport of
     Some host \<Rightarrow> host
   | None \<Rightarrow> trim_suffix '']'' (trim_prefix ''['' hostport))"

definition is_loopback_host :: "string \<Rightarrow> bool" where
  "is_loopback_host host =
     (equal_fold host ''localhost'' \<or>
      (is_ip host \<and> (case parse_addr host of None \<Rightarrow> False | Some a \<Rightarrow> is_loopback a)))"

record origin_url =
  ou_scheme :: string
  ou_host :: string
  ou_path :: string
  ou_query :: string

definition is_same_origin :: "(string \<Rightarrow> origin_url option) \<Rightarrow> string \<Rightarrow> string \<Rightarrow> bool" where
  "is_same_origin parse origin host = (case parse origin of
     None \<Rightarrow> False
   | Some u \<Rightarrow>
       if ou_scheme u \<noteq> ''http'' \<or> ou_path u \<noteq> [] \<or> ou_query u \<noteq> [] then False
       else equal_fold (ou_host u) host)"

definition quoted :: "string \<Rightarrow> string" where "quoted s = CHR 0x27 # s @ [CHR 0x27]"

definition guard_headers :: "(string \<times> string) list" where
  "guard_headers =
     [(''X-Content-Type-Options'', ''nosniff''), (''X-Frame-Options'', ''DENY''),
      (''Referrer-Policy'', ''no-referrer''),
      (''Content-Security-Policy'',
       ''default-src '' @ quoted ''self'' @ ''; frame-ancestors '' @ quoted ''none'' @
       ''; base-uri '' @ quoted ''none'' @ ''; form-action '' @ quoted ''none'')]"

definition guard ::
  "(string \<Rightarrow> origin_url option) \<Rightarrow> (string \<Rightarrow> 'b) \<Rightarrow> (request \<Rightarrow> 's \<Rightarrow> 's \<times> 'b response) \<Rightarrow>
   request \<Rightarrow> 's \<Rightarrow> 's \<times> 'b response" where
  "guard parse text next rq s =
     (let origin = rq_header rq ''Origin'' in
      if \<not> is_loopback_host (host_only (rq_host rq)) then
        (s, \<lparr> rs_status = 403, rs_headers = guard_headers, rs_body = text ''forbidden host'' \<rparr>)
      else if origin \<noteq> [] \<and> \<not> is_same_origin parse origin (rq_host rq) then
        (s, \<lparr> rs_status = 403, rs_headers = guard_headers, rs_body = text ''forbidden origin'' \<rparr>)
      else case next rq s of
        (s', rs) \<Rightarrow> (s', rs \<lparr> rs_headers := guard_headers @ rs_headers rs \<rparr>))"

section \<open>The token\<close>

datatype token_error = TokenShort | TokenCharacters

text \<open>\<open>CheckToken\<close>: only ASCII passes the first test of a character, so the bytes decide.\<close>

definition token_char :: "char \<Rightarrow> bool" where
  "token_char c = (let n = of_char c :: nat in
     48 \<le> n \<and> n \<le> 57 \<or> 65 \<le> n \<and> n \<le> 90 \<or> 97 \<le> n \<and> n \<le> 122 \<or> c \<in> set ''-._~'')"

definition check_token :: "string \<Rightarrow> token_error option" where
  "check_token token =
     (if length token < min_token_len then Some TokenShort
      else if list_all token_char token then None else Some TokenCharacters)"

definition has_token :: "request \<Rightarrow> string \<Rightarrow> bool" where
  "has_token rq token = (token \<noteq> [] \<and> rq_header rq token_header = token)"

section \<open>Values of a request\<close>

text \<open>\<open>queryInt\<close>: None is the answer 400.\<close>

definition query_int :: "request \<Rightarrow> string \<Rightarrow> int \<Rightarrow> int \<Rightarrow> int option" where
  "query_int rq name def max_value =
     (let raw = rq_query rq name in
      if raw = [] then Some def
      else case atoi raw of
        None \<Rightarrow> None
      | Some n \<Rightarrow> if n < 1 \<or> n > max_value then None else Some n)"

text \<open>\<open>strconv.ParseUint\<close> in base 10 with 64 bits.\<close>

definition parse_uint :: "string \<Rightarrow> nat option" where
  "parse_uint s =
     (if s = [] \<or> \<not> list_all is_digit s then None
      else let n = digits_val s in if n < 2 ^ 64 then Some n else None)"

datatype host_error = HostEmpty | HostTooLong | HostCharacters

text \<open>
  The encodings of the characters \<open>validHost\<close> refuses beside the spaces: the control characters
  U+0000 to U+001F and U+007F to U+009F, and U+FEFF. Each encoding starts with the only byte of it
  that can start a character, so it is one of the characters of the text wherever it occurs.
\<close>

definition control_encodings :: "string list" where
  "control_encodings = map (\<lambda>n. [char_of n]) ([0..<32] @ [127]) @
     map (\<lambda>n. [CHR 0xC2, char_of n]) [128..<160] @ [[CHR 0xEF, CHR 0xBB, CHR 0xBF]]"

fun occurs_in :: "string list \<Rightarrow> string \<Rightarrow> bool" where
  "occurs_in encs [] = False"
| "occurs_in encs (c # cs) = (list_ex (\<lambda>e. is_prefix_of e (c # cs)) encs \<or> occurs_in encs cs)"

definition valid_host :: "string \<Rightarrow> host_error + string" where
  "valid_host raw =
     (let host = trim_space raw in
      if host = [] then Inl HostEmpty
      else if length host > max_host_len then Inl HostTooLong
      else if occurs_in (space_encodings @ control_encodings) host then Inl HostCharacters
      else Inr host)"

section \<open>Lemmas\<close>

lemma lower_char_digit: "is_digit c \<Longrightarrow> lower_char c = c"
  by (auto simp: is_digit_def lower_char_def)

lemma parse_v4_fields_chars:
  "parse_v4_fields s fs v d = Some gs \<Longrightarrow> list_all (\<lambda>c. is_digit c \<or> c = CHR ''.'') s"
  by (induction s fs v d rule: parse_v4_fields.induct) (auto split: if_splits)

text \<open>A text without a colon is an address only if it consists of digits and dots.\<close>

lemma parse_addr_no_colon:
  assumes "parse_addr s = Some a" "CHR '':'' \<notin> set s"
  shows "list_all (\<lambda>c. is_digit c \<or> c = CHR ''.'') s"
proof -
  obtain c where c: "find (\<lambda>c. c \<in> {CHR ''.'', CHR '':'', CHR ''%''}) s = Some c"
    using assms(1) by (auto simp: parse_addr_def split: option.splits)
  then have "c \<in> set s" by (auto simp: find_Some_iff in_set_conv_nth)
  with assms(2) have "c \<noteq> CHR '':''" by auto
  with c assms(1) have "\<exists>fs. parse_v4_fields s [] 0 0 = Some fs"
    by (auto simp: parse_addr_def split: if_splits)
  then show ?thesis using parse_v4_fields_chars by blast
qed

lemma guard_cases:
  assumes "guard parse text next rq s = (s', rs)"
  shows "s' = s \<and> rs_status rs = 403 \<or>
    (is_loopback_host (host_only (rq_host rq)) \<and>
     (rq_header rq ''Origin'' = [] \<or> is_same_origin parse (rq_header rq ''Origin'') (rq_host rq)) \<and>
     fst (next rq s) = s' \<and> rs_status (snd (next rq s)) = rs_status rs \<and> rs_body (snd (next rq s)) = rs_body rs)"
  using assms by (auto simp: guard_def Let_def split: if_splits prod.splits)

lemma guard_passes:
  assumes "is_loopback_host (host_only (rq_host rq))"
    "rq_header rq ''Origin'' = [] \<or> is_same_origin parse (rq_header rq ''Origin'') (rq_host rq)"
  shows "guard parse text next rq s =
    (case next rq s of (s', rs) \<Rightarrow> (s', rs \<lparr> rs_headers := guard_headers @ rs_headers rs \<rparr>))"
  using assms by (auto simp: guard_def Let_def)

lemma parse_uint_nat_str: "n < 2 ^ 64 \<Longrightarrow> parse_uint (nat_str n) = Some n"
  using nat_str_digits [of n] nat_str_nonempty [of n] by (simp add: parse_uint_def Let_def)

end
