(* ===== verification/Web_Snapshot.thy ===== *)
theory Web_Snapshot
  imports Session_Report Web_Guard
begin

text \<open>
  The snapshot the web API serves (internal/web: source.go, snapshot.go; cmd/main/web_bridge.go): the
  source that carries the provider from one iteration of the run loop to the next, the settings a
  snapshot starts with, and the cache with one encoded snapshot per state of the world.
\<close>

section \<open>The source\<close>

datatype phase = PhaseStarting | PhaseRunning | PhaseReloading | PhaseStopped

fun phase_string :: "phase \<Rightarrow> string" where
  "phase_string PhaseStarting = ''starting''"
| "phase_string PhaseRunning = ''running''"
| "phase_string PhaseReloading = ''reloading''"
| "phase_string PhaseStopped = ''stopped''"

record 'p source_state =
  so_provider :: "'p option"
  so_state :: phase
  so_version :: nat

text \<open>The pointer is nil before the first transition, and the first transition starts from the zero
  value; every transition overwrites its state.\<close>

type_synonym 'p source = "'p source_state option"

definition source_update :: "('p source_state \<Rightarrow> 'p source_state) \<Rightarrow> 'p source \<Rightarrow> 'p source" where
  "source_update f old =
     (let prev = (case old of None \<Rightarrow> \<lparr> so_provider = None, so_state = PhaseStarting, so_version = 0 \<rparr> | Some st \<Rightarrow> st)
      in Some ((f prev) \<lparr> so_version := so_version prev + 1 \<rparr>))"

definition source_set :: "'p \<Rightarrow> 'p source \<Rightarrow> 'p source" where
  "source_set p = source_update (\<lambda>_. \<lparr> so_provider = Some p, so_state = PhaseRunning, so_version = 0 \<rparr>)"

definition source_mark :: "phase \<Rightarrow> 'p source \<Rightarrow> 'p source" where
  "source_mark state = source_update (\<lambda>st. st \<lparr> so_state := state \<rparr>)"

definition mark_reloading :: "'p source \<Rightarrow> 'p source" where
  "mark_reloading = source_mark PhaseReloading"

definition mark_stopped :: "'p source \<Rightarrow> 'p source" where
  "mark_stopped = source_mark PhaseStopped"

definition source_load :: "'p source \<Rightarrow> 'p option \<times> phase \<times> nat" where
  "source_load s = (case s of
     None \<Rightarrow> (None, PhaseStarting, 0) | Some st \<Rightarrow> (so_provider st, so_state st, so_version st))"

section \<open>Settings of a snapshot\<close>

record web_features =
  wf_traceroute :: bool
  wf_mtr :: bool
  wf_port :: bool
  wf_http :: bool
  wf_asn :: bool
  wf_ptr :: bool
  wf_mtu :: bool

record web_thresholds =
  wt_rtt_warn_ms :: float64
  wt_rtt_crit_ms :: float64
  wt_jitter_warn_ms :: float64
  wt_jitter_crit_ms :: float64
  wt_loss_warn_pct :: float64
  wt_loss_crit_pct :: float64

record web_group =
  wg_name :: string
  wg_target_ids :: "nat list"

record web_meta =
  wm_measurement_state :: string
  wm_interval_ms :: float64
  wm_features :: web_features
  wm_thresholds :: web_thresholds
  wm_groups :: "web_group list"

definition web_meta_of :: "config \<Rightarrow> nat \<Rightarrow> web_meta" where
  "web_meta_of c port_count =
     (let th = cf_thresholds c in
      \<lparr> wm_measurement_state = [], wm_interval_ms = f_of_int (cf_interval_ms c),
        wm_features = \<lparr> wf_traceroute = cf_trace c, wf_mtr = cf_mtr c, wf_port = (port_count > 0),
          wf_http = (cf_http_urls c \<noteq> []), wf_asn = cf_asn_enabled c, wf_ptr = cf_ptr_enabled c,
          wf_mtu = cf_mtu_enabled c \<rparr>,
        wm_thresholds = \<lparr> wt_rtt_warn_ms = duration_ms (rtt_warn th), wt_rtt_crit_ms = duration_ms (rtt_crit th),
          wt_jitter_warn_ms = duration_ms (jitter_warn th), wt_jitter_crit_ms = duration_ms (jitter_crit th),
          wt_loss_warn_pct = loss_warn th, wt_loss_crit_pct = loss_crit th \<rparr>,
        wm_groups = [] \<rparr>)"

definition web_groups :: "nat list \<Rightarrow> target_group list \<Rightarrow> web_group list" where
  "web_groups ids groups = map (\<lambda>g. \<lparr> wg_name = gr_name g,
     wg_target_ids = map (\<lambda>i. ids ! i) (filter (\<lambda>i. i < length ids) (gr_indices g)) \<rparr>) groups"

text \<open>\<open>Meta\<close> of the provider: \<open>base\<close> holds the settings the iteration started with, for the time before
  the supervisor publishes.\<close>

definition provider_meta :: "web_meta \<Rightarrow> target_snapshot option \<Rightarrow> web_meta" where
  "provider_meta base snap = (case snap of
     None \<Rightarrow> base \<lparr> wm_groups := [] \<rparr>
   | Some sn \<Rightarrow> (web_meta_of (sn_config sn) (length (cf_port_specs (sn_config sn))))
       \<lparr> wm_measurement_state := sn_measurement_state sn,
         wm_groups := web_groups (map ts_id (sn_targets sn)) (sn_groups sn) \<rparr>)"

section \<open>The cache\<close>

text \<open>A key is a generation of the statistics and a version of the source.\<close>

type_synonym snapshot_key = "nat \<times> nat"

record snapshot_response =
  sr_state :: phase
  sr_meta :: web_meta
  sr_snapshot :: export_snapshot

type_synonym snapshot_cache = "(snapshot_key \<times> snapshot_response) option"

text \<open>
  \<open>get\<close> in its two parts. The first reads provider, state, version and then the generation; the second
  holds the lock and builds a body unless the cache has one for the key. In between, and while it
  waits for the lock, anything can happen.
\<close>

definition cache_load :: "nat \<Rightarrow> 'p source \<Rightarrow> ('p \<times> phase \<times> snapshot_key) option" where
  "cache_load gen src = (case source_load src of
     (None, _, _) \<Rightarrow> None
   | (Some p, state, version) \<Rightarrow> Some (p, state, (gen, version)))"

definition cache_finish ::
  "(phase \<Rightarrow> snapshot_response) \<Rightarrow> phase \<Rightarrow> snapshot_key \<Rightarrow> snapshot_cache \<Rightarrow> snapshot_cache \<times> snapshot_response" where
  "cache_finish build state key c = (case c of
     Some (k, body) \<Rightarrow> if k = key then (c, body) else (Some (key, build state), build state)
   | None \<Rightarrow> (Some (key, build state), build state))"

definition snapshot_tag :: "snapshot_key \<Rightarrow> string" where
  "snapshot_tag k = [CHR 0x22] @ nat_str (fst k) @ ''.'' @ nat_str (snd k) @ [CHR 0x22]"

datatype 'b snapshot_answer = NoProvider | NotModified string | Fresh string 'b

text \<open>\<open>handleSnapshot\<close>, once \<open>get\<close> has answered: 503, 304 or 200 with the tag.\<close>

definition answer_snapshot :: "string \<Rightarrow> ('b \<times> snapshot_key) option \<Rightarrow> 'b snapshot_answer" where
  "answer_snapshot if_none_match got = (case got of
     None \<Rightarrow> NoProvider
   | Some (body, key) \<Rightarrow>
       if if_none_match = snapshot_tag key then NotModified (snapshot_tag key)
       else Fresh (snapshot_tag key) body)"

section \<open>The cache beside the measurements\<close>

text \<open>
  The targets and HTTP checks of the process, the generation, what the supervisor has published
  (indices of targets and checks, and the settings), the source, the cache, and the calls of \<open>get\<close>
  that have read their key and wait for the lock.
\<close>

record published =
  pb_targets :: "nat list"
  pb_http :: "nat list"
  pb_meta :: web_meta

record snap_sys =
  sy_world :: world
  sy_http :: "http_check list"
  sy_pub :: published
  sy_source :: "unit source"
  sy_pending :: "(phase \<times> snapshot_key) list"
  sy_cache :: snapshot_cache

datatype snap_op =
    Change world_op
  | NewHttp string
  | HttpResult nat gotime int duration bool
  | Publish published
  | SetProvider
  | Mark phase
  | Load
  | Build nat gotime

definition build_body :: "snap_sys \<Rightarrow> gotime \<Rightarrow> phase \<Rightarrow> snapshot_response" where
  "build_body y now state =
     \<lparr> sr_state = state, sr_meta = pb_meta (sy_pub y),
       sr_snapshot = build_snapshot now
         (map (\<lambda>i. w_targets (sy_world y) ! i)
           (filter (\<lambda>i. i < length (w_targets (sy_world y))) (pb_targets (sy_pub y))))
         (map (\<lambda>i. sy_http y ! i) (filter (\<lambda>i. i < length (sy_http y)) (pb_http (sy_pub y)))) \<rparr>"

fun snap_step :: "snap_op \<Rightarrow> snap_sys \<Rightarrow> snap_sys" where
  "snap_step (Change op) y = y \<lparr> sy_world := world_step op (sy_world y) \<rparr>"
| "snap_step (NewHttp url) y = y \<lparr> sy_http := sy_http y @ [new_http_check url] \<rparr>"
| "snap_step (HttpResult i now code rtt failed) y =
     (if i < length (sy_http y)
      then y \<lparr> sy_http := (sy_http y)[i := http_set_result now (sy_http y ! i) code rtt failed],
               sy_world := sy_world y \<lparr> w_generation := w_generation (sy_world y) + 1 \<rparr> \<rparr>
      else y)"
| "snap_step (Publish p) y = y \<lparr> sy_pub := p \<rparr>"
| "snap_step SetProvider y = y \<lparr> sy_source := source_set () (sy_source y) \<rparr>"
| "snap_step (Mark ph) y = y \<lparr> sy_source := source_mark ph (sy_source y) \<rparr>"
| "snap_step Load y = (case cache_load (generation (sy_world y)) (sy_source y) of
     None \<Rightarrow> y | Some (_, state, key) \<Rightarrow> y \<lparr> sy_pending := sy_pending y @ [(state, key)] \<rparr>)"
| "snap_step (Build i now) y =
     (if i < length (sy_pending y)
      then (case sy_pending y ! i of (state, key) \<Rightarrow>
        y \<lparr> sy_cache := fst (cache_finish (build_body y now) state key (sy_cache y)),
            sy_pending := delete_at i (sy_pending y) \<rparr>)
      else y)"

definition snap_run :: "snap_op list \<Rightarrow> snap_sys \<Rightarrow> snap_sys" where
  "snap_run ops y = fold snap_step ops y"

text \<open>A session whose first targets are already there; nobody has asked for a snapshot yet.\<close>

definition snap_start :: "world \<Rightarrow> published \<Rightarrow> snap_sys" where
  "snap_start w p = \<lparr> sy_world = w, sy_http = [], sy_pub = p, sy_source = None, sy_pending = [], sy_cache = None \<rparr>"

definition current_key :: "snap_sys \<Rightarrow> snapshot_key" where
  "current_key y = (generation (sy_world y), snd (snd (source_load (sy_source y))))"

definition current_phase :: "snap_sys \<Rightarrow> phase" where
  "current_phase y = fst (snd (source_load (sy_source y)))"

section \<open>A tag never hides a change\<close>

definition shows_target :: "world \<Rightarrow> target_summary \<Rightarrow> bool" where
  "shows_target w x = list_ex (\<lambda>t. x = target_summary_from_view (get_view_window 0 t)) (w_targets w)"

definition shows_check :: "http_check list \<Rightarrow> http_summary \<Rightarrow> bool" where
  "shows_check hs x = list_ex (\<lambda>h. [x] = http_check_summaries [http_get_view h]) hs"

text \<open>Every entry of a body is the entry of a target, or of a check, as it is now.\<close>

definition up_to_date :: "snap_sys \<Rightarrow> export_snapshot \<Rightarrow> bool" where
  "up_to_date y b = (list_all (shows_target (sy_world y)) (es_targets b) \<and>
     list_all (shows_check (sy_http y)) (es_http_checks b))"

definition cache_inv :: "snap_sys \<Rightarrow> bool" where
  "cache_inv y =
     ((\<forall>(ph, k)\<in>set (sy_pending y). fst k \<le> fst (current_key y) \<and> snd k \<le> snd (current_key y) \<and>
         (snd k = snd (current_key y) \<longrightarrow> ph = current_phase y)) \<and>
      (case sy_cache y of None \<Rightarrow> True
       | Some (k, b) \<Rightarrow> fst k \<le> fst (current_key y) \<and> snd k \<le> snd (current_key y) \<and>
           (snd k = snd (current_key y) \<longrightarrow> sr_state b = current_phase y) \<and>
           (fst k = fst (current_key y) \<longrightarrow> up_to_date y (sr_snapshot b))))"

lemma get_view_window_quiet:
  "snd (target_step clk op t) = 0 \<Longrightarrow> get_view_window n (fst (target_step clk op t)) = get_view_window n t"
  by (simp add: get_view_window_def target_step_quiet)

lemma shows_target_step:
  assumes "generation (world_step op w) = generation w" "shows_target w x"
  shows "shows_target (world_step op w) x"
proof (cases op)
  case (NewTarget now host)
  with assms(2) show ?thesis by (simp add: shows_target_def)
next
  case (OnTarget i clk o')
  show ?thesis
  proof (cases "i < length (w_targets w)")
    case True
    obtain t' b where st: "target_step clk o' (w_targets w ! i) = (t', b)" by fastforce
    with assms(1) OnTarget True have "b = 0" by (simp add: generation_def)
    with st have v: "get_view_window 0 t' = get_view_window 0 (w_targets w ! i)"
      using get_view_window_quiet [of clk o' "w_targets w ! i" 0] by simp
    from assms(2) obtain j where j: "j < length (w_targets w)"
      "x = target_summary_from_view (get_view_window 0 (w_targets w ! j))"
      by (auto simp: shows_target_def list_ex_length)
    with v have "x = target_summary_from_view (get_view_window 0 ((w_targets w)[i := t'] ! j))"
      by (cases "i = j") simp_all
    with j(1) show ?thesis using OnTarget True st
      by (auto simp: shows_target_def list_ex_length)
  qed (use OnTarget assms(2) in simp)
qed

lemma generation_grows: "generation w \<le> generation (world_step op w)"
  by (cases op) (simp_all add: generation_def split: prod.split)

lemma up_to_date_step:
  assumes "up_to_date y b" "generation (sy_world (snap_step op y)) = generation (sy_world y)"
  shows "up_to_date (snap_step op y) b"
proof (cases op)
  case (Change wop)
  with assms shows_target_step [of wop "sy_world y"] show ?thesis
    by (auto simp: up_to_date_def list_all_iff)
next
  case (NewHttp url)
  with assms(1) show ?thesis by (auto simp: up_to_date_def list_all_iff shows_check_def)
next
  case (HttpResult i now code rtt failed)
  with assms show ?thesis by (auto simp: generation_def split: if_splits)
next
  case (Build i now)
  with assms(1) show ?thesis by (auto simp: up_to_date_def split: prod.splits)
next
  case Load
  with assms(1) show ?thesis by (auto simp: up_to_date_def split: option.splits prod.splits)
qed (use assms(1) in \<open>simp_all add: up_to_date_def\<close>)

lemma build_up_to_date: "up_to_date y (sr_snapshot (build_body y now ph))"
proof -
  have "list_all (shows_target (sy_world y)) (es_targets (sr_snapshot (build_body y now ph)))"
    by (auto simp: build_body_def build_snapshot_def build_snapshot_from_views_def list_all_iff shows_target_def
        list_ex_iff)
  moreover have "list_all (shows_check (sy_http y)) (es_http_checks (sr_snapshot (build_body y now ph)))"
    by (auto simp: build_body_def build_snapshot_def build_snapshot_from_views_def list_all_iff shows_check_def
        list_ex_iff http_check_summaries_def)
  ultimately show ?thesis by (simp add: up_to_date_def)
qed

lemma build_body_state [simp]: "sr_state (build_body y now ph) = ph"
  by (simp add: build_body_def)

lemma source_version [simp]:
  "snd (snd (source_load (source_set p s))) = Suc (snd (snd (source_load s)))"
  "snd (snd (source_load (source_mark ph s))) = Suc (snd (snd (source_load s)))"
  by (simp_all add: source_set_def source_mark_def source_update_def source_load_def Let_def split: option.split)

lemma source_phase [simp]:
  "fst (snd (source_load (source_set p s))) = PhaseRunning"
  "fst (snd (source_load (source_mark ph s))) = ph"
  by (simp_all add: source_set_def source_mark_def source_update_def source_load_def Let_def)

lemma source_provider [simp]:
  "fst (source_load (source_set p s)) = Some p"
  "fst (source_load (source_mark ph s)) = fst (source_load s)"
  by (simp_all add: source_set_def source_mark_def source_update_def source_load_def Let_def split: option.split)

text \<open>Either the key stays, and with it the phase and what a body may show, or one half of it grows.\<close>

lemma key_step:
  "fst (current_key y) \<le> fst (current_key (snap_step op y))"
  "snd (current_key y) \<le> snd (current_key (snap_step op y))"
  "snd (current_key (snap_step op y)) = snd (current_key y) \<Longrightarrow> current_phase (snap_step op y) = current_phase y"
proof -
  have "fst (current_key y) \<le> fst (current_key (snap_step op y)) \<and>
    snd (current_key y) \<le> snd (current_key (snap_step op y)) \<and>
    (snd (current_key (snap_step op y)) = snd (current_key y) \<longrightarrow> current_phase (snap_step op y) = current_phase y)"
    by (cases op)
      (simp_all add: current_key_def current_phase_def generation_grows generation_def [of "_\<lparr>w_generation := _\<rparr>"]
        generation_def [of "sy_world y", symmetric] split: option.split prod.split)
  then show "fst (current_key y) \<le> fst (current_key (snap_step op y))"
    "snd (current_key y) \<le> snd (current_key (snap_step op y))"
    "snd (current_key (snap_step op y)) = snd (current_key y) \<Longrightarrow> current_phase (snap_step op y) = current_phase y"
    by blast+
qed

definition pending_ok :: "snap_sys \<Rightarrow> phase \<times> snapshot_key \<Rightarrow> bool" where
  "pending_ok y = (\<lambda>(ph, k). fst k \<le> fst (current_key y) \<and> snd k \<le> snd (current_key y) \<and>
     (snd k = snd (current_key y) \<longrightarrow> ph = current_phase y))"

definition cache_ok :: "snap_sys \<Rightarrow> snapshot_cache \<Rightarrow> bool" where
  "cache_ok y c = (case c of None \<Rightarrow> True
     | Some (k, b) \<Rightarrow> pending_ok y (sr_state b, k) \<and>
         (fst k = fst (current_key y) \<longrightarrow> up_to_date y (sr_snapshot b)))"

lemma cache_inv_iff: "cache_inv y = ((\<forall>p\<in>set (sy_pending y). pending_ok y p) \<and> cache_ok y (sy_cache y))"
  unfolding cache_inv_def pending_ok_def cache_ok_def
  by (cases "sy_cache y") (simp_all add: case_prod_beta conj_assoc)

lemma pending_ok_step: "pending_ok y p \<Longrightarrow> pending_ok (snap_step op y) p"
  using key_step [where op = op and y = y]
  unfolding pending_ok_def by (cases p) (auto simp: order_antisym_conv dest: order_trans le_antisym)

lemma cache_ok_step:
  assumes "cache_ok y c"
  shows "cache_ok (snap_step op y) c"
proof (cases c)
  case (Some kb)
  obtain k b where kb: "kb = (k, b)" by (cases kb)
  have p: "pending_ok y (sr_state b, k)" and u: "fst k = fst (current_key y) \<longrightarrow> up_to_date y (sr_snapshot b)"
    using assms Some kb by (simp_all add: cache_ok_def)
  have "up_to_date (snap_step op y) (sr_snapshot b)" if e: "fst k = fst (current_key (snap_step op y))"
  proof -
    have "fst k \<le> fst (current_key y)" using p by (simp add: pending_ok_def)
    with e key_step(1) [of y op] have "fst k = fst (current_key y)" by simp
    with u e show ?thesis by (intro up_to_date_step) (simp_all add: current_key_def)
  qed
  with pending_ok_step [OF p] show ?thesis by (simp add: cache_ok_def Some kb)
qed (simp add: cache_ok_def)

lemma set_delete_at: "set (delete_at i xs) \<subseteq> set xs"
  unfolding delete_at_def using set_take_subset set_drop_subset by fastforce

lemma load_pending:
  "set (sy_pending (snap_step op y)) \<subseteq> insert (current_phase y, current_key y) (set (sy_pending y))"
proof (cases op)
  case Load
  then show ?thesis by (auto simp: cache_load_def current_phase_def current_key_def split: option.splits prod.splits)
next
  case (Build i now)
  then show ?thesis using set_delete_at [of i "sy_pending y"] by (auto split: prod.splits)
qed auto

lemma cache_finish_ok:
  assumes "pending_ok y (ph, k)" "cache_ok y c"
  shows "cache_ok y (fst (cache_finish (build_body y now) ph k c))"
  using assms build_up_to_date [of y now ph]
  by (auto simp: cache_finish_def cache_ok_def split: option.split)

lemma cache_inv_step:
  assumes "cache_inv y"
  shows "cache_inv (snap_step op y)"
proof -
  have p: "\<forall>p\<in>set (sy_pending y). pending_ok y p" and c: "cache_ok y (sy_cache y)"
    using assms by (simp_all add: cache_inv_iff)
  have "pending_ok y (current_phase y, current_key y)" by (simp add: pending_ok_def)
  with p load_pending [of op y] have q: "\<forall>p\<in>set (sy_pending (snap_step op y)). pending_ok y p" by blast
  have "cache_ok y (sy_cache (snap_step op y))"
  proof (cases op)
    case (Build i now)
    obtain ph k where n: "sy_pending y ! i = (ph, k)" by (cases "sy_pending y ! i")
    have "pending_ok y (ph, k)" if "i < length (sy_pending y)" using p n that nth_mem by metis
    with c Build n show ?thesis by (simp add: cache_finish_ok)
  qed (use c in \<open>auto simp: cache_load_def split: prod.splits option.splits\<close>)
  with q show ?thesis by (simp add: cache_inv_iff pending_ok_step cache_ok_step)
qed

lemma cache_inv_run: "cache_inv (snap_run ops (snap_start w p))"
proof -
  have "cache_inv y \<Longrightarrow> cache_inv (fold snap_step ops y)" for y
    by (induction ops arbitrary: y) (simp_all add: cache_inv_step)
  then show ?thesis by (simp add: snap_run_def cache_inv_def snap_start_def)
qed

text \<open>A tag is read back as its key.\<close>

lemma tag_number_ends:
  "takeWhile (\<lambda>c. c \<noteq> d) (nat_str n @ d # rest) = nat_str n" if "\<not> is_digit d"
proof -
  have "\<forall>c\<in>set (nat_str n). c \<noteq> d" using nat_str_digits [of n] that by (auto simp: list_all_iff)
  then show ?thesis by (simp add: takeWhile_append2)
qed

lemma snapshot_tag_inj: "snapshot_tag k = snapshot_tag l \<Longrightarrow> k = l"
proof -
  assume a: "snapshot_tag k = snapshot_tag l"
  have d: "\<not> is_digit CHR ''.''" by (simp add: is_digit_def)
  from a have b: "nat_str (fst k) @ CHR ''.'' # nat_str (snd k) = nat_str (fst l) @ CHR ''.'' # nat_str (snd l)"
    by (simp add: snapshot_tag_def)
  then have "nat_str (fst k) = nat_str (fst l)" by (metis d tag_number_ends)
  with b have "fst k = fst l" "snd k = snd l" using nat_str_inj by auto
  then show "k = l" by (simp add: prod_eq_iff)
qed



section \<open>A stop that the browser does not see\<close>

definition published_of :: "web_meta \<Rightarrow> supervisor \<Rightarrow> published" where
  "published_of base s = \<lparr> pb_targets = (case sv_snap s of None \<Rightarrow> [] | Some sn \<Rightarrow> map (\<lambda>t. ts_id t - 1) (sn_targets sn)),
     pb_http = [], pb_meta = provider_meta base (sv_snap s) \<rparr>"

text \<open>C34: The tag does not cover what the supervisor publishes. The command loop stops every target, which
  moves the generation, and publishes the new membership and state only after that. A reader that
  builds its snapshot in between caches it with the settings of before under a tag that stays
  current: every later reader gets a session that is still running, until something else changes.\<close>

theorem stop_hidden_behind_current_tag:
  assumes "y = snap_run ops (snap_start w p)" "sy_pending y = []" "fst (source_load (sy_source y)) = Some ()"
    "sy_pub y = published_of base s" "sv_snap s = Some sn" "sn_measurement_state sn = ''running''"
    "sv_state s = Running"
    "generation (fold world_step changes (sy_world y)) > generation (sy_world y)"
    "z = snap_run (map Change changes @ [Load, Build 0 t1, Publish (published_of base (publish (stop_running e s))),
           Load, Build 0 t2]) y"
  shows "wm_measurement_state (pb_meta (sy_pub z)) = ''stopped'' \<and>
    (\<exists>b. sy_cache z = Some (current_key z, b) \<and> wm_measurement_state (sr_meta b) = ''running'' \<and>
       answer_snapshot (snapshot_tag (current_key z)) (Some (b, current_key z)) = NotModified (snapshot_tag (current_key z)))"
proof -
  define y1 where "y1 = snap_run (map Change changes) y"
  have f: "fold snap_step (map Change cs) v = v \<lparr> sy_world := fold world_step cs (sy_world v) \<rparr>" for cs v
    by (induction cs arbitrary: v) simp_all
  then have y1: "y1 = y \<lparr> sy_world := fold world_step changes (sy_world y) \<rparr>" by (simp add: y1_def snap_run_def)
  obtain ph ver where src: "source_load (sy_source y) = (Some (), ph, ver)" using assms(3) by (cases "source_load (sy_source y)") auto
  let ?g = "generation (fold world_step changes (sy_world y))"
  have "cache_ok y (sy_cache y)" using cache_inv_run [of ops w p] assms(1) by (simp add: cache_inv_iff)
  then have stale: "case sy_cache y of None \<Rightarrow> True | Some (k, b) \<Rightarrow> fst k < ?g"
    using assms(8) by (auto simp: cache_ok_def pending_ok_def current_key_def split: option.splits)
  have z: "z = fold snap_step [Load, Build 0 t1, Publish (published_of base (publish (stop_running e s))), Load, Build 0 t2] y1"
    using assms(9) by (simp add: snap_run_def y1_def)
  have c: "cache_finish (build_body v t1) ph (?g, ver) (sy_cache y) =
      (Some ((?g, ver), build_body v t1 ph), build_body v t1 ph)" for v
    using stale by (auto simp: cache_finish_def split: option.splits)
  have hit: "cache_finish b' ph' k' (Some (k', body)) = (Some (k', body), body)" for b' ph' k' body
    by (simp add: cache_finish_def)
  have m: "wm_measurement_state (pb_meta (sy_pub y)) = ''running''"
    using assms(4-6) by (simp add: published_of_def provider_meta_def)
  have n: "wm_measurement_state (pb_meta (published_of base (publish (stop_running e s)))) = ''stopped''"
    by (simp add: published_of_def provider_meta_def publish_def current_measurement_state_def stop_running_def Let_def)
  show ?thesis
    unfolding z y1
    by (simp add: cache_load_def src assms(2) c n m hit delete_at_def current_key_def build_body_def answer_snapshot_def)
qed

lemma demo_running_published:
  "\<exists>sn. sv_snap demo_running = Some sn \<and> sn_measurement_state sn = ''running''"
proof -
  have r: "list_all (\<lambda>t. ts_measurement_state t = ''running'') (sv_targets demo_running)"
    using start_marks_running [OF demo_start_succeeds] by (simp add: demo_running_def demo_session_parts)
  obtain t ts where t: "sv_targets demo_running = t # ts"
    using demo_running_length by (cases "sv_targets demo_running") auto
  have "current_measurement_state (fst (handle (demo_env True) CStart demo_session)) = ''running''"
    using r t demo_running_parts(1) by (simp add: current_measurement_state_def demo_running_def publish_def)
  then show ?thesis by (simp add: demo_running_def publish_def)
qed

theorem stop_hidden_behind_current_tag_witness:
  "\<exists>(y::snap_sys) (z::snap_sys). sy_pub y = published_of (web_meta_of default_config 0) demo_running \<and>
     wm_measurement_state (pb_meta (sy_pub z)) = ''stopped'' \<and>
     (\<exists>b. sy_cache z = Some (current_key z, b) \<and> wm_measurement_state (sr_meta b) = ''running'' \<and>
       answer_snapshot (snapshot_tag (current_key z)) (Some (b, current_key z)) = NotModified (snapshot_tag (current_key z)))"
proof -
  let ?base = "web_meta_of default_config 0"
  let ?w = "\<lparr> w_generation = 0, w_next_id = 2, w_targets = sv_targets demo_running \<rparr>"
  let ?y = "snap_run [SetProvider] (snap_start ?w (published_of ?base demo_running))"
  let ?clk = "\<lambda>_. 0 :: gotime"
  let ?changes = "[OnTarget 0 ?clk (SetMeasurementState ''stopped''),
     OnTarget 0 ?clk (RecordEvent ''stopped'' ''Measurements stopped''),
     OnTarget 1 ?clk (SetMeasurementState ''stopped''),
     OnTarget 1 ?clk (RecordEvent ''stopped'' ''Measurements stopped'')]"
  obtain sn where sn: "sv_snap demo_running = Some sn" "sn_measurement_state sn = ''running''"
    using demo_running_published by blast
  have y: "sy_pending ?y = []" "fst (source_load (sy_source ?y)) = Some ()"
    "sy_pub ?y = published_of ?base demo_running" "sy_world ?y = ?w"
    by (simp_all add: snap_run_def snap_start_def)
  have g: "generation (fold world_step ?changes (sy_world ?y)) > generation (sy_world ?y)"
    by (simp add: y(4) demo_running_length generation_def)
  note h = stop_hidden_behind_current_tag [where ?t1.0 = 1 and ?t2.0 = 2, OF refl y(1-3) sn demo_running_parts(1) g refl,
      where e = "demo_env True"]
  show ?thesis by (rule exI [of _ ?y], rule exI, rule conjI, rule y(3), rule h)
qed


section \<open>The life of the source\<close>

datatype 'p source_op = OpSet 'p | OpReloading | OpStopped

fun source_step :: "'p source_op \<Rightarrow> 'p source \<Rightarrow> 'p source" where
  "source_step (OpSet p) s = source_set p s"
| "source_step OpReloading s = mark_reloading s"
| "source_step OpStopped s = mark_stopped s"

definition source_ok :: "'p source \<Rightarrow> bool" where
  "source_ok s = (fst (snd (source_load s)) = PhaseRunning \<longrightarrow> fst (source_load s) \<noteq> None)"

lemma source_ok_run: "source_ok (fold source_step ops None)"
proof -
  have "source_ok s \<Longrightarrow> source_ok (fold source_step ops s)" for s :: "'a source"
  proof (induction ops arbitrary: s)
    case (Cons op ops)
    have "source_ok (source_step op s)"
      by (cases op) (simp_all add: source_ok_def mark_reloading_def mark_stopped_def)
    with Cons.IH show ?case by simp
  qed simp
  then show ?thesis by (simp add: source_ok_def source_load_def)
qed

end
