(* ===== verification/Web_Api.thy ===== *)
theory Web_Api
  imports Web_Snapshot "HOL-Library.Multiset"
begin

text \<open>
  The web API (internal/web: api.go, control.go, backend.go, frontend.go; cmd/main/web_bridge.go): the
  handlers of the backend over the supervisors of the process, and the frontend that checks Host and
  Origin and relays. A handler is a function from a request and a state to a state and a response.
\<close>

section \<open>State\<close>

text \<open>
  A provider refers to the supervisor of its iteration and carries the settings the iteration started
  with; the flags say which of the optional interfaces it implements (\<open>webProvider\<close> all three).
\<close>

record provider =
  pr_sup :: nat
  pr_base :: web_meta
  pr_controls :: bool
  pr_measures :: bool
  pr_reports :: bool

record backend =
  bk_source :: "provider source"
  bk_sups :: "nat \<Rightarrow> supervisor \<times> bool"
  bk_cache :: snapshot_cache

record web_env =
  we_sup :: sup_env
  we_now :: clock
  we_generation :: nat
  we_parse_url :: "string \<Rightarrow> origin_url option"
  we_parse_media :: "string \<Rightarrow> string option"
  we_show_time :: "gotime \<Rightarrow> string"
  we_token :: string
  we_reachable :: bool

record history_response =
  hr_samples :: "history_sample list"
  hr_captured_at :: gotime
  hr_id :: nat
  hr_rtt_ms :: "float64 option list"

datatype web_body =
    NoBody
  | Failure string
  | ControlFailed sup_error
  | HostRefused host_error
  | HostAdded string
  | SessionBody bool
  | HistoryBody history_response
  | BulkHistoryBody gotime "history_response list"
  | EventsBody nat "event list" int
  | BulkEventsBody "(event \<times> string) list"
  | SnapshotBody snapshot_response
  | ReportJson report
  | ReportCsv string
  | StaticFile string

type_synonym reply = "web_body response"

definition json_headers :: "(string \<times> string) list" where
  "json_headers = [(''Content-Type'', ''application/json; charset=utf-8''), (''Cache-Control'', ''no-store'')]"

definition write_body :: "web_body \<Rightarrow> reply" where
  "write_body b = \<lparr> rs_status = 200, rs_headers = json_headers, rs_body = b \<rparr>"

definition write_error :: "nat \<Rightarrow> web_body \<Rightarrow> reply" where
  "write_error status b = \<lparr> rs_status = status, rs_headers = json_headers, rs_body = b \<rparr>"

definition double_quoted :: "string \<Rightarrow> string" where "double_quoted s = CHR 0x22 # s @ [CHR 0x22]"

definition attachment :: "string \<Rightarrow> string \<times> string" where
  "attachment name = (''Content-Disposition'', ''attachment; filename='' @ double_quoted name)"

definition no_content :: reply where
  "no_content = \<lparr> rs_status = 204, rs_headers = [], rs_body = NoBody \<rparr>"

section \<open>What the provider shows\<close>

text \<open>The published list points to the targets, so a reader sees each of them as it is now.\<close>

definition live_targets :: "supervisor \<Rightarrow> target_stats list" where
  "live_targets s = (case sv_snap s of
     None \<Rightarrow> []
   | Some sn \<Rightarrow> map (\<lambda>t. case index_of_id (ts_id t) (sv_targets s) of
       None \<Rightarrow> t | Some i \<Rightarrow> sv_targets s ! i) (sn_targets sn))"

definition http_results :: "supervisor \<Rightarrow> http_check list" where
  "http_results s = (case sv_http_snap s of
     None \<Rightarrow> [] | Some hs \<Rightarrow> (case sv_http s of None \<Rightarrow> hs | Some h \<Rightarrow> ho_results h))"

definition live_provider :: "backend \<Rightarrow> provider option" where
  "live_provider b = fst (source_load (bk_source b))"

definition sup_of :: "provider \<Rightarrow> backend \<Rightarrow> supervisor" where
  "sup_of p b = fst (bk_sups b (pr_sup p))"

section \<open>Reading\<close>

definition max_history_points :: int where "max_history_points = 3000"
definition default_history_points :: int where "default_history_points = 300"
definition max_events :: int where "max_events = 1000"
definition default_events :: int where "default_events = 200"

definition no_provider :: reply where
  "no_provider = write_error 503 (Failure ''statistics are not available yet'')"

definition query_refused :: "string \<Rightarrow> int \<Rightarrow> reply" where
  "query_refused name max_value =
     write_error 400 (Failure (name @ '' must be an integer between 1 and '' @ int_str max_value))"

definition history_of :: "gotime \<Rightarrow> target_stats \<Rightarrow> int \<Rightarrow> history_response" where
  "history_of now t n = (let samples = history_samples t n in
     \<lparr> hr_samples = samples, hr_captured_at = now, hr_id = ts_id t, hr_rtt_ms = map hs_rtt_ms samples \<rparr>)"

text \<open>\<open>targetID\<close> and \<open>lookupTarget\<close>: the answer in the way, or the value.\<close>

definition target_id_of :: "string \<Rightarrow> reply + nat" where
  "target_id_of raw = (case parse_uint raw of
     None \<Rightarrow> Inl (write_error 400 (Failure ''target id must be an unsigned integer'')) | Some i \<Rightarrow> Inr i)"

definition lookup_target :: "string \<Rightarrow> backend \<Rightarrow> reply + target_stats" where
  "lookup_target raw b = (case live_provider b of
     None \<Rightarrow> Inl no_provider
   | Some p \<Rightarrow> (case target_id_of raw of
       Inl rs \<Rightarrow> Inl rs
     | Inr i \<Rightarrow> (case find (\<lambda>t. ts_id t = i) (live_targets (sup_of p b)) of
         None \<Rightarrow> Inl (write_error 404 (Failure ''no such target'')) | Some t \<Rightarrow> Inr t)))"

definition handle_history :: "web_env \<Rightarrow> string \<Rightarrow> request \<Rightarrow> backend \<Rightarrow> reply" where
  "handle_history env raw rq b =
     (case query_int rq ''n'' default_history_points max_history_points of
        None \<Rightarrow> query_refused ''n'' max_history_points
      | Some n \<Rightarrow> (case lookup_target raw b of
          Inl rs \<Rightarrow> rs | Inr t \<Rightarrow> write_body (HistoryBody (history_of (we_now env 0) t n))))"

definition handle_bulk_history :: "web_env \<Rightarrow> request \<Rightarrow> backend \<Rightarrow> reply" where
  "handle_bulk_history env rq b =
     (case query_int rq ''n'' default_history_points max_history_points of
        None \<Rightarrow> query_refused ''n'' max_history_points
      | Some n \<Rightarrow> (case live_provider b of
          None \<Rightarrow> no_provider
        | Some p \<Rightarrow> let targets = live_targets (sup_of p b) in
            write_body (BulkHistoryBody (we_now env (length targets))
              (map (\<lambda>(i, t). history_of (we_now env i) t n) (enumerate 0 targets)))))"

text \<open>\<open>slices.SortStableFunc\<close> is a stable sort, as \<open>sort_key\<close> is.\<close>

definition labelled_events :: "target_stats list \<Rightarrow> (event \<times> string) list" where
  "labelled_events targets =
     concat (map (\<lambda>t. map (\<lambda>e. (e, display_name_locked t)) (fst (events_of t))) targets)"

definition newest_events :: "int \<Rightarrow> (event \<times> string) list \<Rightarrow> (event \<times> string) list" where
  "newest_events limit all =
     (let sorted = sort_key (\<lambda>x. - ev_at (fst x)) all in
      if int (length sorted) > limit then take (nat limit) sorted else sorted)"

definition handle_bulk_events :: "request \<Rightarrow> backend \<Rightarrow> reply" where
  "handle_bulk_events rq b =
     (case query_int rq ''limit'' default_events max_events of
        None \<Rightarrow> query_refused ''limit'' max_events
      | Some limit \<Rightarrow> (case live_provider b of
          None \<Rightarrow> no_provider
        | Some p \<Rightarrow> write_body (BulkEventsBody (newest_events limit (labelled_events (live_targets (sup_of p b)))))))"

definition handle_events :: "string \<Rightarrow> backend \<Rightarrow> reply" where
  "handle_events raw b = (case lookup_target raw b of
     Inl rs \<Rightarrow> rs
   | Inr t \<Rightarrow> write_body (EventsBody (ts_id t) (fst (events_of t)) (snd (events_of t))))"

definition handle_snapshot :: "web_env \<Rightarrow> request \<Rightarrow> backend \<Rightarrow> backend \<times> reply" where
  "handle_snapshot env rq b =
     (case cache_load (we_generation env) (bk_source b) of
        None \<Rightarrow> (b, no_provider)
      | Some (p, state, key) \<Rightarrow>
          let s = sup_of p b;
              build = (\<lambda>st. \<lparr> sr_state = st, sr_meta = provider_meta (pr_base p) (sv_snap s),
                 sr_snapshot = build_snapshot (we_now env 0) (live_targets s) (http_results s) \<rparr>)
          in case cache_finish build state key (bk_cache b) of
            (cache, body) \<Rightarrow> (b \<lparr> bk_cache := cache \<rparr>,
              case answer_snapshot (rq_header rq ''If-None-Match'') (Some (body, key)) of
                NoProvider \<Rightarrow> no_provider
              | NotModified tag \<Rightarrow> \<lparr> rs_status = 304, rs_headers = [(''ETag'', tag)], rs_body = NoBody \<rparr>
              | Fresh tag body \<Rightarrow> (write_body (SnapshotBody body)) \<lparr> rs_headers := (''ETag'', tag) # json_headers \<rparr>))"

definition handle_session :: "web_env \<Rightarrow> request \<Rightarrow> backend \<Rightarrow> reply" where
  "handle_session env rq b = write_body (SessionBody
     ((case live_provider b of None \<Rightarrow> False | Some p \<Rightarrow> pr_controls p) \<and> has_token rq (we_token env)))"

section \<open>Control\<close>

definition on_sup ::
  "nat \<Rightarrow> (supervisor \<times> bool \<Rightarrow> (supervisor \<times> bool) \<times> sup_error option) \<Rightarrow> backend \<Rightarrow> backend \<times> sup_error option" where
  "on_sup i f b = (case f (bk_sups b i) of (sd, err) \<Rightarrow> (b \<lparr> bk_sups := (bk_sups b)(i := sd) \<rparr>, err))"

definition controlled ::
  "web_env \<Rightarrow> (request \<Rightarrow> provider \<Rightarrow> backend \<Rightarrow> backend \<times> reply) \<Rightarrow> request \<Rightarrow> backend \<Rightarrow> backend \<times> reply" where
  "controlled env next rq b =
     (if \<not> has_token rq (we_token env) then
        (b, write_error 403 (Failure ''control token missing or invalid; press b in mping's TUI to show or copy the control URL''))
      else case source_load (bk_source b) of (p, state, _) \<Rightarrow>
        if p \<noteq> None \<and> \<not> pr_controls (the p) then
          (b, write_error 501 (Failure ''this mping session does not accept changes''))
        else if state \<noteq> PhaseRunning then
          (b, write_error 409 (Failure (''mping is '' @ phase_string state @ ''; try again shortly'')))
        else next rq (the p) b)"

definition control_answer :: "reply \<Rightarrow> backend \<times> sup_error option \<Rightarrow> backend \<times> reply" where
  "control_answer done r = (fst r, case snd r of None \<Rightarrow> done | Some e \<Rightarrow> write_error 409 (ControlFailed e))"

definition handle_add_host :: "web_env \<Rightarrow> request \<Rightarrow> provider \<Rightarrow> backend \<Rightarrow> backend \<times> reply" where
  "handle_add_host env rq p b =
     (if we_parse_media env (rq_header rq ''Content-Type'') \<noteq> Some ''application/json'' then
        (b, write_error 415 (Failure ''body must be application/json''))
      else case rq_body rq of
        TooLarge \<Rightarrow> (b, write_error 413 (Failure ''request body too large''))
      | Malformed \<Rightarrow> (b, write_error 400 (Failure (''body must be {'' @ double_quoted ''host'' @ '': '' @ double_quoted ''...'' @ ''}'')))
      | Trailing \<Rightarrow> (b, write_error 400 (Failure ''body must contain a single JSON object''))
      | Decoded raw \<Rightarrow> (case valid_host raw of
          Inl e \<Rightarrow> (b, write_error 400 (HostRefused e))
        | Inr host \<Rightarrow> control_answer \<lparr> rs_status = 201, rs_headers = json_headers, rs_body = HostAdded host \<rparr>
            (on_sup (pr_sup p) (request_add_host (we_sup env) host) b)))"

definition handle_delete_target :: "web_env \<Rightarrow> string \<Rightarrow> request \<Rightarrow> provider \<Rightarrow> backend \<Rightarrow> backend \<times> reply" where
  "handle_delete_target env raw rq p b = (case target_id_of raw of
     Inl rs \<Rightarrow> (b, rs)
   | Inr i \<Rightarrow> control_answer no_content
       (on_sup (pr_sup p) (send_cmd (we_sup env) (CEdit (DeleteTargetID i))) b))"

definition handle_reset :: "web_env \<Rightarrow> request \<Rightarrow> provider \<Rightarrow> backend \<Rightarrow> backend \<times> reply" where
  "handle_reset env rq p b =
     (fst (on_sup (pr_sup p) (send_cmd (we_sup env) CResetStats) b), no_content)"

definition measurement_control :: "web_env \<Rightarrow> command \<Rightarrow> request \<Rightarrow> provider \<Rightarrow> backend \<Rightarrow> backend \<times> reply" where
  "measurement_control env c rq p b =
     (if \<not> pr_measures p then (b, write_error 501 (Failure ''measurement controls unavailable''))
      else control_answer no_content (on_sup (pr_sup p) (send_cmd (we_sup env) c) b))"

definition handle_report :: "web_env \<Rightarrow> request \<Rightarrow> provider \<Rightarrow> backend \<Rightarrow> backend \<times> reply" where
  "handle_report env rq p b =
     (let format = (if rq_query rq ''format'' = [] then ''json'' else rq_query rq ''format'') in
      if format \<noteq> ''json'' \<and> format \<noteq> ''csv'' then
        (b, write_error 400 (Failure ''format must be json or csv''))
      else if \<not> pr_reports p then (b, write_error 501 (Failure ''reports unavailable''))
      else case snapshot_report (we_now env 0) (we_now env 1) 0 (bk_sups b (pr_sup p)) of
        Inl e \<Rightarrow> (b, write_error 409 (ControlFailed e))
      | Inr r \<Rightarrow> (b, if format = ''csv'' then
            \<lparr> rs_status = 200, rs_headers = [(''Cache-Control'', ''no-store''), (''Content-Type'', ''text/csv; charset=utf-8''),
                attachment ''mping-report.csv''],
              rs_body = ReportCsv (report_csv (we_show_time env) r) \<rparr>
          else (write_body (ReportJson r)) \<lparr> rs_headers := attachment ''mping-report.json'' # json_headers \<rparr>))"

section \<open>Routes\<close>

text \<open>\<open>ServeMux\<close>: a GET pattern serves HEAD too; a path that only other methods have is 405.\<close>

definition method_not_allowed :: reply where
  "method_not_allowed = \<lparr> rs_status = 405, rs_headers = [], rs_body = Failure ''Method Not Allowed'' \<rparr>"

definition not_found :: reply where
  "not_found = \<lparr> rs_status = 404, rs_headers = [], rs_body = Failure ''404 page not found'' \<rparr>"

definition reads :: "request \<Rightarrow> bool" where
  "reads rq = (rq_method rq = ''GET'' \<or> rq_method rq = ''HEAD'')"

definition backend_get :: "web_env \<Rightarrow> request \<Rightarrow> backend \<Rightarrow> backend \<times> reply" where
  "backend_get env rq b = (case drop 2 (rq_path rq) of
     [p] \<Rightarrow>
       if p = ''snapshot'' then handle_snapshot env rq b
       else if p = ''history'' then (b, handle_bulk_history env rq b)
       else if p = ''events'' then (b, handle_bulk_events rq b)
       else if p = ''session'' then (b, handle_session env rq b)
       else if p = ''report'' then controlled env (handle_report env) rq b
       else (b, write_error 404 (Failure ''no such endpoint''))
   | [p, raw, q] \<Rightarrow>
       if p = ''targets'' \<and> raw \<noteq> [] \<and> q = ''history'' then (b, handle_history env raw rq b)
       else if p = ''targets'' \<and> raw \<noteq> [] \<and> q = ''events'' then (b, handle_events raw b)
       else (b, write_error 404 (Failure ''no such endpoint''))
   | _ \<Rightarrow> (b, write_error 404 (Failure ''no such endpoint'')))"

definition backend_handler :: "web_env \<Rightarrow> request \<Rightarrow> backend \<Rightarrow> backend \<times> reply" where
  "backend_handler env rq b =
     (if take 1 (rq_path rq) \<noteq> [''api''] \<or> length (rq_path rq) < 2 then (b, not_found)
      else if reads rq then
        (if take 2 (rq_path rq) = [''api'', ''v1''] then backend_get env rq b
         else (b, write_error 404 (Failure ''no such endpoint'')))
      else if rq_method rq = ''POST'' \<and> rq_path rq = [''api'', ''v1'', ''targets''] then controlled env (handle_add_host env) rq b
      else if rq_method rq = ''POST'' \<and> rq_path rq = [''api'', ''v1'', ''reset''] then controlled env (handle_reset env) rq b
      else if rq_method rq = ''POST'' \<and> rq_path rq = [''api'', ''v1'', ''stop''] then
        controlled env (measurement_control env CStop) rq b
      else if rq_method rq = ''POST'' \<and> rq_path rq = [''api'', ''v1'', ''restart''] then
        controlled env (measurement_control env CRestart) rq b
      else if rq_method rq = ''DELETE'' \<and> take 3 (rq_path rq) = [''api'', ''v1'', ''targets''] \<and>
          length (rq_path rq) = 4 \<and> last (rq_path rq) \<noteq> [] then
        controlled env (handle_delete_target env (last (rq_path rq))) rq b
      else (b, method_not_allowed))"

text \<open>The frontend: the stream and the files of the dashboard (arguments here, they only read), every other
  request under \<open>/api/\<close> relayed with the host of the backend, and the guard in front of all.\<close>

definition relay :: "web_env \<Rightarrow> request \<Rightarrow> backend \<Rightarrow> backend \<times> reply" where
  "relay env rq b =
     (if \<not> we_reachable env then (b, write_error 502 (Failure ''mping is not reachable''))
      else backend_handler env (rq \<lparr> rq_host := ''mping-backend'' \<rparr>) b)"

definition frontend_mux ::
  "web_env \<Rightarrow> (request \<Rightarrow> reply) \<Rightarrow> (request \<Rightarrow> reply) \<Rightarrow> request \<Rightarrow> backend \<Rightarrow> backend \<times> reply" where
  "frontend_mux env stream static rq b =
     (if reads rq \<and> rq_path rq = [''api'', ''v1'', ''stream''] then (b, stream rq)
      else if take 1 (rq_path rq) = [''api''] \<and> 2 \<le> length (rq_path rq) then
        (if reads rq \<or> rq_method rq = ''POST'' \<or> rq_method rq = ''DELETE'' then relay env rq b
         else (b, method_not_allowed))
      else if reads rq then (b, static rq)
      else (b, method_not_allowed))"

definition frontend ::
  "web_env \<Rightarrow> (request \<Rightarrow> reply) \<Rightarrow> (request \<Rightarrow> reply) \<Rightarrow> request \<Rightarrow> backend \<Rightarrow> backend \<times> reply" where
  "frontend env stream static = guard (we_parse_url env) Failure (frontend_mux env stream static)"

section \<open>What changes a session\<close>

definition same_session_of :: "backend \<Rightarrow> backend \<Rightarrow> bool" where
  "same_session_of b b' = (bk_sups b' = bk_sups b \<and> bk_source b' = bk_source b)"

lemma same_session_of_refl [simp]: "same_session_of b b"
  by (simp add: same_session_of_def)

lemma handle_snapshot_same: "same_session_of b (fst (handle_snapshot env rq b))"
  by (auto simp: handle_snapshot_def same_session_of_def Let_def split: option.split prod.split)

lemma handle_report_same: "fst (handle_report env rq p b) = b"
  by (auto simp: handle_report_def Let_def split: sum.split)

lemma control_handler_source:
  "bk_source (fst (handle_add_host env rq p b)) = bk_source b"
  "bk_source (fst (handle_delete_target env raw rq p b)) = bk_source b"
  "bk_source (fst (handle_reset env rq p b)) = bk_source b"
  "bk_source (fst (measurement_control env c rq p b)) = bk_source b"
  by (auto simp: handle_add_host_def handle_delete_target_def handle_reset_def measurement_control_def control_answer_def
      on_sup_def split: body_read.split sum.split prod.split)

text \<open>Where a controlled handler runs, the token was there and the session is running.\<close>

lemma controlled_cases:
  "fst (controlled env next rq b) = b \<or>
   (has_token rq (we_token env) \<and> fst (snd (source_load (bk_source b))) = PhaseRunning \<and>
    controlled env next rq b = next rq (the (live_provider b)) b)"
  by (auto simp: controlled_def live_provider_def split: prod.split)

lemma controlled_source:
  assumes "\<And>p. bk_source (fst (next rq p b)) = bk_source b"
  shows "bk_source (fst (controlled env next rq b)) = bk_source b"
  using controlled_cases [of env "next" rq b] assms by auto

lemma controlled_changes:
  assumes "\<And>p. bk_source (fst (next rq p b)) = bk_source b" "\<not> same_session_of b (fst (controlled env next rq b))"
  shows "has_token rq (we_token env) \<and> fst (snd (source_load (bk_source b))) = PhaseRunning"
  using controlled_cases [of env "next" rq b] assms by auto

lemma backend_get_same: "same_session_of b (fst (backend_get env rq b))"
  using controlled_cases [of env "handle_report env" rq b] handle_snapshot_same [of b env rq]
  by (auto simp: backend_get_def handle_report_same split: list.split)

lemma backend_changes:
  assumes "\<not> same_session_of b (fst (backend_handler env rq b))"
  shows "(rq_method rq = ''POST'' \<or> rq_method rq = ''DELETE'') \<and> has_token rq (we_token env) \<and>
    fst (snd (source_load (bk_source b))) = PhaseRunning"
  using assms backend_get_same [of b env rq]
    controlled_changes [of "handle_add_host env" rq b env] controlled_changes [of "handle_reset env" rq b env]
    controlled_changes [of "measurement_control env CStop" rq b env]
    controlled_changes [of "measurement_control env CRestart" rq b env]
    controlled_changes [of "handle_delete_target env (last (rq_path rq))" rq b env]
  by (auto simp: backend_handler_def control_handler_source split: if_splits)

lemma backend_source: "bk_source (fst (backend_handler env rq b)) = bk_source b"
  using backend_get_same [of b env rq]
  by (auto simp: backend_handler_def same_session_of_def control_handler_source intro!: controlled_source)


text \<open>Names for the loopback interface: a name other than \<open>localhost\<close> has a character no IPv4 address has.\<close>

lemma name_not_loopback:
  assumes "CHR '':'' \<notin> set h" "c \<in> set h" "\<not> is_digit c" "c \<noteq> CHR ''.''" "\<not> equal_fold h ''localhost''"
  shows "\<not> is_loopback_host h"
  using assms parse_addr_no_colon [of h] by (auto simp: is_loopback_host_def is_ip_def list_all_iff split: option.splits)

text \<open>C25: DNS rebinding is refused: a request whose Host is any name but \<open>localhost\<close> (a text without a colon
  that is not all digits and dots) is answered 403 with the defensive headers before anything is
  relayed, whatever its token, and nothing changes, not even the cache.\<close>

theorem rebinding_refused:
  assumes "CHR '':'' \<notin> set (host_only (rq_host rq))" "c \<in> set (host_only (rq_host rq))"
    "\<not> is_digit c" "c \<noteq> CHR ''.''" "fold_case (host_only (rq_host rq)) \<noteq> ''localhost''"
  shows "frontend env stream static rq b =
    (b, \<lparr> rs_status = 403, rs_headers = guard_headers, rs_body = Failure ''forbidden host'' \<rparr>)"
proof -
  have "fold_case ''localhost'' = ''localhost''" by code_simp
  with assms name_not_loopback [OF assms(1-4)] show ?thesis
    by (simp add: frontend_def guard_def equal_fold_def)
qed

section \<open>Deleting a target\<close>

lemma remove_at_ids:
  assumes "i < length (sv_targets s)" "snd (remove_at e i s) = None"
  shows "target_ids (fst (remove_at e i s)) = delete_at i (target_ids s)"
proof -
  note d = detach_spec [of s e "sv_state s = Running" "''Target removed''" "sv_targets s ! i"]
  show ?thesis using assms d
    by (auto simp: remove_at_def Let_def target_ids_def same_list_def delete_at_def take_map drop_map split: if_splits)
qed

lemma delete_at_filter:
  "distinct xs \<Longrightarrow> i < length xs \<Longrightarrow> delete_at i xs = filter (\<lambda>x. x \<noteq> xs ! i) xs"
proof (induction xs arbitrary: i)
  case (Cons x xs)
  show ?case
  proof (cases i)
    case 0
    have "filter (\<lambda>y. y \<noteq> x) xs = xs" using Cons.prems(1) by (auto intro: filter_True)
    with 0 show ?thesis by (simp add: delete_at_def)
  next
    case (Suc j)
    with Cons.prems have "xs ! j \<noteq> x" by auto
    with Cons Suc show ?thesis by (simp add: delete_at_def)
  qed
qed simp

lemma delete_target_id_ids:
  assumes "distinct (target_ids s)"
  shows "if snd (delete_target_id e i s) = None
    then i \<in> set (target_ids s) \<and> target_ids (fst (delete_target_id e i s)) = filter (\<lambda>x. x \<noteq> i) (target_ids s)
    else fst (delete_target_id e i s) = s"
proof (cases "index_of_id i (sv_targets s)")
  case None
  then show ?thesis by (simp add: delete_target_id_def)
next
  case (Some k)
  then have k: "k < length (sv_targets s)" "target_ids s ! k = i"
    using index_of_id_less [OF Some] by (auto simp: target_ids_def)
  show ?thesis
  proof (cases "snd (remove_at e k s) = None")
    case True
    with k Some remove_at_ids [OF k(1) True] delete_at_filter [OF assms, of k] nth_mem [of k "target_ids s"]
    show ?thesis by (simp add: delete_target_id_def target_ids_def)
  next
    case False
    then have "fst (remove_at e k s) = s" by (auto simp: remove_at_def Let_def split: if_splits)
    with False Some show ?thesis by (auto simp: delete_target_id_def)
  qed
qed

text \<open>An authorised request to a running session.\<close>

definition authorised :: "web_env \<Rightarrow> request \<Rightarrow> backend \<Rightarrow> provider \<Rightarrow> bool" where
  "authorised env rq b p =
     (is_loopback_host (host_only (rq_host rq)) \<and>
      (rq_header rq ''Origin'' = [] \<or> is_same_origin (we_parse_url env) (rq_header rq ''Origin'') (rq_host rq)) \<and>
      has_token rq (we_token env) \<and> we_reachable env \<and> pr_controls p \<and>
      (\<exists>v. source_load (bk_source b) = (Some p, PhaseRunning, v)))"

lemma frontend_delete:
  assumes "authorised env rq b p" "rq_method rq = ''DELETE''"
    "rq_path rq = [''api'', ''v1'', ''targets'', nat_str i]" "i < 2 ^ 64"
  shows "fst (frontend env stream static rq b) =
      fst (on_sup (pr_sup p) (send_cmd (we_sup env) (CEdit (DeleteTargetID i))) b) \<and>
    rs_status (snd (frontend env stream static rq b)) =
      (if snd (on_sup (pr_sup p) (send_cmd (we_sup env) (CEdit (DeleteTargetID i))) b) = None then 204 else 409)"
proof -
  let ?rq = "rq \<lparr> rq_host := ''mping-backend'' \<rparr>"
  have t: "has_token ?rq (we_token env) = has_token rq (we_token env)" by (simp add: has_token_def)
  have "backend_handler env ?rq b = controlled env (handle_delete_target env (nat_str i)) ?rq b"
    by (simp add: backend_handler_def assms(2,3) reads_def nat_str_nonempty)
  also have "\<dots> = control_answer no_content (on_sup (pr_sup p) (send_cmd (we_sup env) (CEdit (DeleteTargetID i))) b)"
    using assms(1,4) by (auto simp: controlled_def authorised_def handle_delete_target_def target_id_of_def
        parse_uint_nat_str t)
  finally have "frontend_mux env stream static rq b =
      control_answer no_content (on_sup (pr_sup p) (send_cmd (we_sup env) (CEdit (DeleteTargetID i))) b)"
    using assms(1) by (simp add: frontend_mux_def relay_def assms(2,3) reads_def authorised_def)
  with guard_passes [of rq "we_parse_url env" Failure "frontend_mux env stream static" b] assms(1) show ?thesis
    by (auto simp: frontend_def authorised_def control_answer_def no_content_def write_error_def split: prod.split option.split)
qed

text \<open>C14: An authorised DELETE of a target is answered 204 exactly when the target was there and has left
  the session: the others keep their order, and the list that readers see is the new one. Otherwise
  the answer is 409 and the session has the same targets as before.\<close>

theorem web_delete_removes_target:
  assumes "authorised env rq b p" "bk_sups b (pr_sup p) = (s, False)" "sup_reach s" "sv_state s \<noteq> Terminated"
    "rq_method rq = ''DELETE''" "rq_path rq = [''api'', ''v1'', ''targets'', nat_str i]" "i < 2 ^ 64"
    "frontend env stream static rq b = (b', rs)"
  shows "if rs_status rs = 204
    then i \<in> set (map ts_id (sv_targets s)) \<and>
      map ts_id (sv_targets (fst (bk_sups b' (pr_sup p)))) = filter (\<lambda>x. x \<noteq> i) (map ts_id (sv_targets s)) \<and>
      map ts_id (live_targets (fst (bk_sups b' (pr_sup p)))) = filter (\<lambda>x. x \<noteq> i) (map ts_id (sv_targets s))
    else rs_status rs = 409 \<and> map ts_id (sv_targets (fst (bk_sups b' (pr_sup p)))) = map ts_id (sv_targets s)"
proof -
  let ?e = "we_sup env"
  have dis: "distinct (target_ids s)" using sup_reach_inv [OF assms(3)] by (simp add: sup_inv_def data_ok_def)
  obtain s' err where d: "delete_target_id ?e i s = (s', err)" by fastforce
  have sc: "send_cmd ?e (CEdit (DeleteTargetID i)) (s, False) = ((publish s', False), err)"
    using assms(4) d by (simp add: send_cmd_def)
  have b': "fst (bk_sups b' (pr_sup p)) = publish s'" "rs_status rs = (if err = None then 204 else 409)"
    using frontend_delete [OF assms(1,5,6,7), of stream static] assms(8) by (simp_all add: on_sup_def assms(2) sc)
  have live: "map ts_id (live_targets (publish s')) = target_ids s'"
  proof -
    have "ts_id (case index_of_id (ts_id t) (sv_targets s') of None \<Rightarrow> t | Some i \<Rightarrow> sv_targets s' ! i) = ts_id t" for t
      using index_of_id_less [of "ts_id t" "sv_targets s'"] by (auto split: option.split)
    then show ?thesis by (simp add: live_targets_def publish_def target_ids_def cong: option.case_cong)
  qed
  have pt: "sv_targets (publish s') = sv_targets s'" by (simp add: publish_def)
  show ?thesis
    using delete_target_id_ids [OF dis, of ?e i] d
    by (cases err) (simp_all add: b' live pt target_ids_def [symmetric])
qed

section \<open>The events of all targets\<close>

lemma query_int_bounds:
  "query_int rq name def max_value = Some n \<Longrightarrow> 1 \<le> def \<Longrightarrow> def \<le> max_value \<Longrightarrow> 1 \<le> n \<and> n \<le> max_value"
  by (auto simp: query_int_def Let_def split: if_splits option.splits)

lemma newest_events_take: "1 \<le> limit \<Longrightarrow>
  newest_events limit all = take (nat limit) (sort_key (\<lambda>x. - ev_at (fst x)) all)"
  by (auto simp: newest_events_def Let_def)

lemma sorted_at: "sorted_wrt (\<lambda>x y. ev_at (fst y) \<le> ev_at (fst x)) (sort_key (\<lambda>x. - ev_at (fst x)) all)"
proof -
  have "sorted (map (\<lambda>x. - ev_at (fst x)) (sort_key (\<lambda>x. - ev_at (fst x)) all))" by (rule sorted_sort_key)
  then show ?thesis by (simp add: sorted_map sorted_wrt_map)
qed

text \<open>The merged event list holds the newest events of all targets: at most the limit asked for (and
  never more than 1000), newest first, nothing invented or doubled; every event left out is no newer
  than any shown, and events of the same instant keep the order of targets and logs.\<close>

theorem newest_events_exact:
  assumes "query_int rq ''limit'' default_events max_events = Some limit" "live_provider b = Some p"
    "all = labelled_events (live_targets (sup_of p b))"
  shows "\<exists>out rest. handle_bulk_events rq b = write_body (BulkEventsBody out) \<and>
    mset out + mset rest = mset all \<and> length out = min (nat limit) (length all) \<and> length out \<le> 1000 \<and>
    sorted_wrt (\<lambda>x y. ev_at (fst y) \<le> ev_at (fst x)) out \<and>
    (\<forall>x\<in>set out. \<forall>y\<in>set rest. ev_at (fst y) \<le> ev_at (fst x)) \<and>
    (\<forall>a. \<exists>k. filter (\<lambda>x. ev_at (fst x) = a) out = take k (filter (\<lambda>x. ev_at (fst x) = a) all))"
proof -
  have l: "1 \<le> limit" "limit \<le> 1000"
    using query_int_bounds [OF assms(1)] by (simp_all add: default_events_def max_events_def)
  let ?s = "sort_key (\<lambda>x. - ev_at (fst x)) all"
  have app: "take (nat limit) ?s @ drop (nat limit) ?s = ?s" by simp
  have h: "handle_bulk_events rq b = write_body (BulkEventsBody (take (nat limit) ?s))"
    by (simp add: handle_bulk_events_def assms newest_events_take [OF l(1)])
  have m: "mset (take (nat limit) ?s) + mset (drop (nat limit) ?s) = mset all"
    by (simp flip: mset_append)
  have srt: "sorted_wrt (\<lambda>x y. ev_at (fst y) \<le> ev_at (fst x)) (take (nat limit) ?s @ drop (nat limit) ?s)"
    using sorted_at [of all] by simp
  have stable: "\<exists>k. filter (\<lambda>x. ev_at (fst x) = a) (take (nat limit) ?s) = take k (filter (\<lambda>x. ev_at (fst x) = a) all)" for a
  proof -
    have "filter (\<lambda>x. ev_at (fst x) = a) all = filter (\<lambda>x. ev_at (fst x) = a) ?s"
      using sort_key_stable [of "\<lambda>x. - ev_at (fst x)" "- a" all] by simp
    also have "\<dots> = filter (\<lambda>x. ev_at (fst x) = a) (take (nat limit) ?s) @
        filter (\<lambda>x. ev_at (fst x) = a) (drop (nat limit) ?s)"
      by (subst app [symmetric], subst filter_append) simp
    finally show ?thesis by (metis append_eq_conv_conj)
  qed
  define out rest where "out = take (nat limit) ?s" and "rest = drop (nat limit) ?s"
  note o = out_def [symmetric] rest_def [symmetric]
  have "length out = min (nat limit) (length all)" "length out \<le> 1000"
    using l by (simp_all add: out_def min.commute)
  moreover have "sorted_wrt (\<lambda>x y. ev_at (fst y) \<le> ev_at (fst x)) out \<and>
      (\<forall>x\<in>set out. \<forall>y\<in>set rest. ev_at (fst y) \<le> ev_at (fst x))"
    using srt unfolding o by (simp add: sorted_wrt_append)
  ultimately show ?thesis
    using h m stable unfolding o by (intro exI [of _ out] exI [of _ rest]) blast
qed

section \<open>A session served to a browser\<close>

definition demo_provider :: provider where
  "demo_provider = \<lparr> pr_sup = 0, pr_base = web_meta_of default_config 0, pr_controls = True, pr_measures = True,
     pr_reports = True \<rparr>"

definition demo_backend :: backend where
  "demo_backend = \<lparr> bk_source = fold source_step [OpSet demo_provider] None,
     bk_sups = (\<lambda>_. (demo_session, False)), bk_cache = None \<rparr>"

definition demo_web :: web_env where
  "demo_web = \<lparr> we_sup = demo_env True, we_now = (\<lambda>_. 0), we_generation = 0, we_parse_url = (\<lambda>_. None),
     we_parse_media = (\<lambda>_. None), we_show_time = (\<lambda>_. []), we_token = ''0123456789abcdef'', we_reachable = True \<rparr>"

definition demo_delete :: "string \<Rightarrow> request" where
  "demo_delete host = \<lparr> rq_method = ''DELETE'', rq_path = [''api'', ''v1'', ''targets'', ''2''], rq_host = host,
     rq_header = (\<lambda>name. if name = ''X-Mping-Token'' then ''0123456789abcdef'' else []), rq_query = (\<lambda>_. []),
     rq_body = Malformed \<rparr>"

lemma demo_host: "is_loopback_host (host_only ''LocalHost:8080'')"
  by code_simp

lemma demo_authorised: "authorised demo_web (demo_delete ''LocalHost:8080'') demo_backend demo_provider"
  unfolding authorised_def using demo_host
  by (simp add: demo_delete_def demo_web_def has_token_def token_header_def demo_provider_def demo_backend_def
      source_set_def source_update_def source_load_def)

lemma demo_session_targets: "\<exists>t u. sv_targets demo_session = [t, u] \<and> ts_id t = 1 \<and> ts_id u = 2"
  using demo_session_parts(2) by (auto simp: target_ids_def map_eq_Cons_conv)

lemma demo_path:
  "rq_path (demo_delete ''LocalHost:8080'') = [''api'', ''v1'', ''targets'', nat_str 2]"
  "rq_method (demo_delete ''LocalHost:8080'') = ''DELETE''"
proof -
  have "nat_str 2 = ''2''" by code_simp
  then show "rq_path (demo_delete ''LocalHost:8080'') = [''api'', ''v1'', ''targets'', nat_str 2]"
    "rq_method (demo_delete ''LocalHost:8080'') = ''DELETE''"
    by (simp_all add: demo_delete_def)
qed

lemma demo_delete_ok: "snd (delete_target_id e 2 demo_session) = None"
  using demo_session_targets by (auto simp: delete_target_id_def remove_at_def demo_session_parts Let_def)

lemma demo_delete_succeeds:
  "rs_status (snd (frontend demo_web stream static (demo_delete ''LocalHost:8080'') demo_backend)) = 204"
proof -
  have "snd (on_sup 0 (send_cmd (we_sup demo_web) (CEdit (DeleteTargetID 2))) demo_backend) = None"
    using demo_delete_ok [of "we_sup demo_web"]
    by (auto simp: on_sup_def demo_backend_def send_cmd_def demo_session_parts split: prod.split)
  then show ?thesis
    using frontend_delete [OF demo_authorised demo_path(2,1)] by (simp add: demo_provider_def)
qed

lemma demo_delete_ids:
  "target_ids (fst (bk_sups (fst (frontend demo_web stream static (demo_delete ''LocalHost:8080'') demo_backend)) 0)) = [1]"
proof -
  have "fst (frontend demo_web stream static (demo_delete ''LocalHost:8080'') demo_backend) =
      fst (on_sup (pr_sup demo_provider) (send_cmd (we_sup demo_web) (CEdit (DeleteTargetID 2))) demo_backend)"
    using frontend_delete [OF demo_authorised demo_path(2,1)] by simp
  moreover have "target_ids (fst (delete_target_id (demo_env True) 2 demo_session)) = [1]"
    using delete_target_id_ids [of demo_session "demo_env True" 2] demo_delete_ok [of "demo_env True"] demo_session_parts(2)
    by simp
  then have "target_ids (publish (fst (delete_target_id (demo_env True) 2 demo_session))) = [1]"
    by (simp add: publish_def target_ids_def)
  ultimately show ?thesis
    by (simp add: on_sup_def demo_backend_def demo_provider_def demo_web_def send_cmd_def demo_session_parts split: prod.split)
      (metis fst_conv)
qed

theorem web_delete_removes_target_witness:
  "\<exists>b' rs. frontend demo_web (\<lambda>_. not_found) (\<lambda>_. not_found) (demo_delete ''LocalHost:8080'') demo_backend = (b', rs) \<and>
     map ts_id (live_targets (fst (bk_sups b' 0))) = [1]"
proof -
  obtain b' rs where f: "frontend demo_web (\<lambda>_. not_found) (\<lambda>_. not_found) (demo_delete ''LocalHost:8080'') demo_backend = (b', rs)"
    by fastforce
  have s: "bk_sups demo_backend (pr_sup demo_provider) = (demo_session, False)" "sv_state demo_session \<noteq> Terminated"
    by (simp_all add: demo_backend_def demo_session_parts)
  have "rs_status rs = 204" using demo_delete_succeeds [of "\<lambda>_. not_found" "\<lambda>_. not_found"] f by simp
  with web_delete_removes_target [OF demo_authorised s(1) demo_session_reach s(2) demo_path(2,1) _ f] demo_session_parts(2)
  have "map ts_id (live_targets (fst (bk_sups b' 0))) = [1]"
    by (simp add: demo_provider_def target_ids_def)
  with f show ?thesis by auto
qed


theorem rebinding_refused_witness:
  "frontend demo_web (\<lambda>_. not_found) (\<lambda>_. not_found) (demo_delete ''evil.example:8080'') demo_backend =
    (demo_backend, \<lparr> rs_status = 403, rs_headers = guard_headers, rs_body = Failure ''forbidden host'' \<rparr>)"
proof (rule rebinding_refused)
  have h: "host_only (rq_host (demo_delete ''evil.example:8080'')) = ''evil.example''"
    by (simp add: demo_delete_def) code_simp
  show "CHR '':'' \<notin> set (host_only (rq_host (demo_delete ''evil.example:8080'')))"
    "CHR ''x'' \<in> set (host_only (rq_host (demo_delete ''evil.example:8080'')))"
    by (simp_all add: h)
  show "fold_case (host_only (rq_host (demo_delete ''evil.example:8080''))) \<noteq> ''localhost''"
    unfolding h by code_simp
qed (simp_all add: is_digit_def)

theorem newest_events_exact_witness:
  "\<exists>out. handle_bulk_events (demo_delete []) demo_backend = write_body (BulkEventsBody out) \<and> length out \<le> 1000"
proof -
  have "query_int (demo_delete []) ''limit'' default_events max_events = Some 200"
    by (simp add: query_int_def demo_delete_def default_events_def)
  moreover have "live_provider demo_backend = Some demo_provider"
    by (simp add: live_provider_def demo_backend_def)
  ultimately show ?thesis using newest_events_exact [OF _ _ refl] by blast
qed

end
