(* ===== verification/Web_Stream.thy ===== *)
theory Web_Stream
  imports Web_Api
begin

text \<open>
  The snapshot stream of the frontend (internal/web: frontend.go, stream.go): the fetcher that reads the
  backend's snapshot for all streams and keeps its tag, and the loop of one stream.
\<close>

section \<open>The fetcher\<close>

text \<open>An answer of the backend: \<open>ReplyOK part failed tag\<close> has what was read of the body and whether the
  read failed.\<close>

datatype 'b fetch_reply = TransportFailed | ReplyNotModified | ReplyOK 'b bool string | ReplyOther nat

record 'b fetcher =
  fe_at :: gotime
  fe_body :: "'b option"
  fe_tag :: string
  fe_failed :: bool

definition new_fetcher :: "'b fetcher" where
  "new_fetcher = \<lparr> fe_at = zero_time, fe_body = None, fe_tag = [], fe_failed = False \<rparr>"

text \<open>\<open>get\<close>: \<open>clk\<close> gives the two readings of the clock; \<open>reply\<close> answers a request that names a tag
  (the empty one when there is none). The result is what the caller sees of body, tag and error.\<close>

definition fetch_get ::
  "duration \<Rightarrow> bool \<Rightarrow> clock \<Rightarrow> (string \<Rightarrow> 'b fetch_reply) \<Rightarrow> 'b fetcher \<Rightarrow> 'b fetcher \<times> 'b option \<times> string \<times> bool" where
  "fetch_get min_age fresh clk reply f =
     (if \<not> fresh \<and> \<not> is_zero_time (fe_at f) \<and> clk 0 - fe_at f < min_age then
        (f, fe_body f, fe_tag f, fe_failed f)
      else
        let f1 = f \<lparr> fe_at := clk 1 \<rparr> in
        case reply (fe_tag f) of
          TransportFailed \<Rightarrow> (f1 \<lparr> fe_body := None, fe_tag := [], fe_failed := True \<rparr>, None, [], True)
        | ReplyNotModified \<Rightarrow> (f1 \<lparr> fe_failed := False \<rparr>, fe_body f, fe_tag f, False)
        | ReplyOK part failed tag \<Rightarrow>
            (f1 \<lparr> fe_body := Some part, fe_failed := failed, fe_tag := tag \<rparr>, Some part, tag, failed)
        | ReplyOther _ \<Rightarrow> (f1 \<lparr> fe_body := None, fe_tag := [], fe_failed := True \<rparr>, None, [], True))"

section \<open>One stream\<close>

datatype 'b item = SnapshotEvent string "'b option" | Keepalive

record 'b stream =
  ss_sent :: bool
  ss_last :: string
  ss_out :: "'b item list"
  ss_open :: bool

text \<open>The headers are flushed and nothing has been sent yet.\<close>

definition new_stream :: "'b stream" where
  "new_stream = \<lparr> ss_sent = False, ss_last = [], ss_out = [], ss_open = True \<rparr>"

text \<open>\<open>send\<close>, once the fetcher has answered; \<open>writes\<close> says that the client takes what is written.\<close>

definition stream_send :: "bool \<Rightarrow> 'b option \<times> string \<times> bool \<Rightarrow> 'b stream \<Rightarrow> 'b stream" where
  "stream_send writes got st = (case got of (body, key, failed) \<Rightarrow>
     if failed \<or> (ss_sent st \<and> key = ss_last st) then st
     else if \<not> writes then st \<lparr> ss_open := False \<rparr>
     else st \<lparr> ss_sent := True, ss_last := key, ss_out := ss_out st @ [SnapshotEvent key body] \<rparr>)"

datatype stream_case = Shutdown | ClientGone | PollTick | HeartbeatTick

definition stream_step ::
  "duration \<Rightarrow> clock \<Rightarrow> (string \<Rightarrow> 'b fetch_reply) \<Rightarrow> bool \<Rightarrow> stream_case \<Rightarrow> 'b fetcher \<times> 'b stream \<Rightarrow> 'b fetcher \<times> 'b stream" where
  "stream_step min_age clk reply writes c fs =
     (case fs of (f, st) \<Rightarrow>
      if \<not> ss_open st then fs
      else case c of
        Shutdown \<Rightarrow> (case fetch_get min_age True clk reply f of
          (f', got) \<Rightarrow> (f', (stream_send writes got st) \<lparr> ss_open := False \<rparr>))
      | ClientGone \<Rightarrow> (f, st \<lparr> ss_open := False \<rparr>)
      | PollTick \<Rightarrow> (case fetch_get min_age False clk reply f of (f', got) \<Rightarrow> (f', stream_send writes got st))
      | HeartbeatTick \<Rightarrow> (f, if writes then st \<lparr> ss_out := ss_out st @ [Keepalive] \<rparr> else st \<lparr> ss_open := False \<rparr>))"

text \<open>A stream beside the other streams, which use the same fetcher: a step of this one, or a \<open>get\<close> of
  another one.\<close>

datatype 'b stream_op = Own stream_case clock "string \<Rightarrow> 'b fetch_reply" bool | Other bool clock "string \<Rightarrow> 'b fetch_reply"

fun stream_op_step :: "duration \<Rightarrow> 'b stream_op \<Rightarrow> 'b fetcher \<times> 'b stream \<Rightarrow> 'b fetcher \<times> 'b stream" where
  "stream_op_step min_age (Own c clk reply writes) fs = stream_step min_age clk reply writes c fs"
| "stream_op_step min_age (Other fresh clk reply) (f, st) = (fst (fetch_get min_age fresh clk reply f), st)"

section \<open>What a stream shows\<close>

text \<open>A backend that keeps its word: a tag names one body, 304 is the answer to the current tag only, and
  a body is read to its end. It may also fail.\<close>

definition honest :: "(string \<Rightarrow> 'b) \<Rightarrow> (string \<Rightarrow> 'b fetch_reply) \<Rightarrow> bool" where
  "honest body_of reply = (\<exists>cur. cur \<noteq> [] \<and>
     (\<forall>t. reply t = (if t = cur then ReplyNotModified else ReplyOK (body_of cur) False cur)
        \<or> reply t = TransportFailed \<or> (\<exists>n. reply t = ReplyOther n)))"

fun honest_op :: "(string \<Rightarrow> 'b) \<Rightarrow> 'b stream_op \<Rightarrow> bool" where
  "honest_op body_of (Own c clk reply writes) = honest body_of reply"
| "honest_op body_of (Other fresh clk reply) = honest body_of reply"

fun snapshots :: "'b item list \<Rightarrow> (string \<times> 'b option) list" where
  "snapshots [] = []"
| "snapshots (SnapshotEvent key body # is) = (key, body) # snapshots is"
| "snapshots (Keepalive # is) = snapshots is"

lemma snapshots_append [simp]: "snapshots (xs @ ys) = snapshots xs @ snapshots ys"
  by (induction xs rule: snapshots.induct) simp_all

definition fetcher_ok :: "(string \<Rightarrow> 'b) \<Rightarrow> 'b fetcher \<Rightarrow> bool" where
  "fetcher_ok body_of f = (if fe_tag f = [] then fe_failed f \<or> is_zero_time (fe_at f)
     else fe_body f = Some (body_of (fe_tag f)))"

definition stream_ok :: "(string \<Rightarrow> 'b) \<Rightarrow> 'b stream \<Rightarrow> bool" where
  "stream_ok body_of st =
     ((\<forall>(key, body)\<in>set (snapshots (ss_out st)). body = Some (body_of key)) \<and>
      successively (\<noteq>) (map fst (snapshots (ss_out st))) \<and>
      (if ss_sent st then snapshots (ss_out st) \<noteq> [] \<and> fst (last (snapshots (ss_out st))) = ss_last st
       else snapshots (ss_out st) = []))"

text \<open>What \<open>get\<close> hands out is an error or the body its tag names.\<close>

lemma fetch_get_ok:
  assumes "fetcher_ok body_of f" "honest body_of reply" "fetch_get min_age fresh clk reply f = (f', body, key, failed)"
  shows "fetcher_ok body_of f' \<and> (failed \<or> body = Some (body_of key))"
proof -
  obtain cur where c: "cur \<noteq> []"
    "\<And>t. reply t = (if t = cur then ReplyNotModified else ReplyOK (body_of cur) False cur)
        \<or> reply t = TransportFailed \<or> (\<exists>n. reply t = ReplyOther n)"
    using assms(2) by (auto simp: honest_def)
  from c(2) [of "fe_tag f"] assms(1,3) c(1) show ?thesis
    by (auto simp: fetch_get_def fetcher_ok_def Let_def split: if_splits)
qed

lemma stream_send_ok:
  assumes "stream_ok body_of st" "failed \<or> body = Some (body_of key)"
  shows "stream_ok body_of (stream_send writes (body, key, failed) st)"
  using assms by (auto simp: stream_ok_def stream_send_def successively_append_iff last_map split: if_splits)

lemma stream_step_ok:
  assumes "fetcher_ok body_of f" "stream_ok body_of st" "honest_op body_of op"
    "stream_op_step min_age op (f, st) = (f', st')"
  shows "fetcher_ok body_of f' \<and> stream_ok body_of st'"
proof (cases op)
  case (Own c clk reply writes)
  have o: "stream_ok body_of (s \<lparr> ss_open := x \<rparr>) = stream_ok body_of s" for s x by (simp add: stream_ok_def)
  have k: "stream_ok body_of (st \<lparr> ss_out := ss_out st @ [Keepalive] \<rparr>)"
    using assms(2) by (simp add: stream_ok_def)
  obtain f1 b1 k1 e1 where g1: "fetch_get min_age True clk reply f = (f1, b1, k1, e1)" by (metis surj_pair)
  obtain f2 b2 k2 e2 where g2: "fetch_get min_age False clk reply f = (f2, b2, k2, e2)" by (metis surj_pair)
  have h: "honest body_of reply" using assms(3) Own by simp
  note s = fetch_get_ok [OF assms(1) h g1] fetch_get_ok [OF assms(1) h g2]
  have "stream_ok body_of (stream_send writes (b1, k1, e1) st)" "stream_ok body_of (stream_send writes (b2, k2, e2) st)"
    using s stream_send_ok [OF assms(2)] by blast+
  with assms Own s k show ?thesis
    by (cases c) (auto simp: stream_step_def g1 g2 o split: if_splits)
next
  case (Other fresh clk reply)
  obtain f1 b1 k1 e1 where g1: "fetch_get min_age fresh clk reply f = (f1, b1, k1, e1)" by (metis surj_pair)
  from fetch_get_ok [OF assms(1) _ g1] assms Other g1 show ?thesis by simp
qed

text \<open>As long as reads of the backend are not cut short, a stream shows every snapshot under the tag
  the backend gave it and never the same tag twice in a row, whatever the other streams do with the
  fetcher they share, and whether or not the backend fails in between.\<close>

theorem stream_shows_tagged_snapshots:
  assumes "list_all (honest_op body_of) ops"
    "fold (stream_op_step min_age) ops (new_fetcher, new_stream) = (f, st)"
  shows "(\<forall>(key, body)\<in>set (snapshots (ss_out st)). body = Some (body_of key)) \<and>
    successively (\<noteq>) (map fst (snapshots (ss_out st)))"
proof -
  have "fetcher_ok body_of f \<and> stream_ok body_of st"
    if "fetcher_ok body_of f0" "stream_ok body_of s0" "fold (stream_op_step min_age) ops (f0, s0) = (f, st)" for f0 s0
    using assms(1) that
  proof (induction ops arbitrary: f0 s0)
    case (Cons op ops)
    obtain f1 s1 where st: "stream_op_step min_age op (f0, s0) = (f1, s1)" by fastforce
    have h: "honest_op body_of op" "list_all (honest_op body_of) ops" using Cons.prems(1) by simp_all
    have "fold (stream_op_step min_age) ops (f1, s1) = (f, st)" using Cons.prems(4) st by simp
    with stream_step_ok [OF Cons.prems(2,3) h(1) st] Cons.IH [OF h(2)] show ?case by blast
  qed simp
  from this [OF _ _ assms(2)] show ?thesis
    by (simp add: fetcher_ok_def stream_ok_def new_fetcher_def new_stream_def is_zero_time_def)
qed

text \<open>C33: A snapshot cut short is shown as a good one. The fetcher keeps the new tag with the part of the
  body it could read; the next poll names that tag, the backend answers that nothing changed, the
  error is forgotten, and the part is sent to the browser as the snapshot.\<close>

theorem truncated_snapshot_is_streamed:
  assumes "tag \<noteq> []" "tag \<noteq> fe_tag f" "\<not> (ss_sent st \<and> ss_last st = tag)" "ss_open st"
    "r1 = (\<lambda>t. if t = tag then ReplyNotModified else ReplyOK part True tag)"
    "r2 = (\<lambda>t. if t = tag then ReplyNotModified else ReplyOK body False tag)"
    "min_age \<le> clk1 0 - fe_at f" "min_age \<le> clk2 0 - clk1 1"
    "stream_step min_age clk1 r1 True PollTick (f, st) = (f1, st1)"
    "stream_step min_age clk2 r2 True PollTick (f1, st1) = (f2, st2)"
  shows "ss_out st1 = ss_out st \<and> ss_out st2 = ss_out st @ [SnapshotEvent tag (Some part)] \<and> ss_open st2"
  using assms by (auto simp: stream_step_def fetch_get_def stream_send_def Let_def split: if_splits)

section \<open>The last event\<close>

text \<open>The answer of the backend to the fetcher, as the in-process transport hands it over.\<close>

fun reply_of :: "reply \<Rightarrow> snapshot_response fetch_reply" where
  "reply_of rs =
     (if rs_status rs = 304 then ReplyNotModified
      else if rs_status rs = 200 then
        (case rs_body rs of
           SnapshotBody body \<Rightarrow> ReplyOK body False (case map_of (rs_headers rs) ''ETag'' of None \<Rightarrow> [] | Some tag \<Rightarrow> tag)
         | _ \<Rightarrow> ReplyOther 200)
      else ReplyOther (rs_status rs))"

definition snapshot_request :: "string \<Rightarrow> request" where
  "snapshot_request tag = \<lparr> rq_method = ''GET'', rq_path = [''api'', ''v1'', ''snapshot''], rq_host = ''mping-backend'',
     rq_header = (\<lambda>name. if name = ''If-None-Match'' then tag else []), rq_query = (\<lambda>_. []), rq_body = Malformed \<rparr>"

definition ask_backend :: "web_env \<Rightarrow> backend \<Rightarrow> string \<Rightarrow> snapshot_response fetch_reply" where
  "ask_backend env b tag = reply_of (snd (backend_handler env (snapshot_request tag) b))"

lemma ask_backend_fresh:
  assumes "source_load (bk_source b) = (Some p, ph, v)"
    "snd (cache_finish build ph (we_generation env, v) (bk_cache b)) = body"
    "build = (\<lambda>st. \<lparr> sr_state = st, sr_meta = provider_meta (pr_base p) (sv_snap (sup_of p b)),
       sr_snapshot = build_snapshot (we_now env 0) (live_targets (sup_of p b)) (http_results (sup_of p b)) \<rparr>)"
    "tag \<noteq> snapshot_tag (we_generation env, v)"
  shows "ask_backend env b tag = ReplyOK body False (snapshot_tag (we_generation env, v))"
proof -
  have "backend_handler env (snapshot_request tag) b = handle_snapshot env (snapshot_request tag) b"
    by (simp add: backend_handler_def snapshot_request_def reads_def backend_get_def)
  also have "\<dots> = (b \<lparr> bk_cache := fst (cache_finish build ph (we_generation env, v) (bk_cache b)) \<rparr>,
      (write_body (SnapshotBody body)) \<lparr> rs_headers := (''ETag'', snapshot_tag (we_generation env, v)) # json_headers \<rparr>)"
    using assms(4) unfolding handle_snapshot_def assms(2) [symmetric] assms(3)
    by (simp add: cache_load_def assms(1) answer_snapshot_def snapshot_request_def Let_def split: prod.split)
  finally show ?thesis by (simp add: ask_backend_def write_body_def)
qed

text \<open>A tag, or a cached body, from before version \<open>v\<close> of the source.\<close>

definition tag_before :: "nat \<Rightarrow> string \<Rightarrow> bool" where
  "tag_before v tag = (\<forall>g w. tag = snapshot_tag (g, w) \<longrightarrow> w < v)"

definition cache_before :: "nat \<Rightarrow> snapshot_cache \<Rightarrow> bool" where
  "cache_before v c = (case c of None \<Rightarrow> True | Some (k, b) \<Rightarrow> snd k < v)"


section \<open>Examples\<close>

theorem stream_shows_tagged_snapshots_witness:
  "\<exists>f st. fold (stream_op_step 1) [Own PollTick (\<lambda>_. 5)
         (\<lambda>t. if t = ''x'' then ReplyNotModified else ReplyOK ''x'' False ''x'') True] (new_fetcher, new_stream) = (f, st) \<and>
     list_all (\<lambda>(key, body). body = Some (id key)) (snapshots (ss_out st)) \<and> snapshots (ss_out st) = [(''x'', Some ''x'')]"
proof -
  let ?ops = "[Own PollTick (\<lambda>_. 5) (\<lambda>t. if t = ''x'' then ReplyNotModified else ReplyOK ''x'' False ''x'') True]"
  obtain f st where r: "fold (stream_op_step 1) ?ops (new_fetcher, new_stream) = (f, st)" by fastforce
  have "list_all (honest_op id) ?ops" by (simp add: honest_def)
  note stream_shows_tagged_snapshots [OF this r]
  moreover have "snapshots (ss_out st) = [(''x'', Some ''x'')]"
    using r by (auto simp: is_zero_time_def stream_step_def fetch_get_def stream_send_def new_fetcher_def new_stream_def Let_def)
  ultimately show ?thesis using r by (auto simp: list_all_iff)
qed

theorem truncated_snapshot_is_streamed_witness:
  "\<exists>f1 st1 f2 st2. stream_step 1 (\<lambda>_. 5) (\<lambda>t. if t = ''3.1'' then ReplyNotModified else ReplyOK ''{trunc'' True ''3.1'') True
       PollTick (new_fetcher, new_stream) = (f1, st1) \<and>
     stream_step 1 (\<lambda>_. 9) (\<lambda>t. if t = ''3.1'' then ReplyNotModified else ReplyOK ''{whole}'' False ''3.1'') True
       PollTick (f1, st1) = (f2, st2) \<and>
     ss_out st2 = [SnapshotEvent ''3.1'' (Some ''{trunc'')]"
proof -
  let ?r1 = "\<lambda>t. if t = ''3.1'' then ReplyNotModified else ReplyOK ''{trunc'' True ''3.1''"
  let ?r2 = "\<lambda>t. if t = ''3.1'' then ReplyNotModified else ReplyOK ''{whole}'' False ''3.1''"
  obtain f1 st1 where s1: "stream_step 1 (\<lambda>_. 5) ?r1 True PollTick (new_fetcher, new_stream) = (f1, st1)" by fastforce
  obtain f2 st2 where s2: "stream_step 1 (\<lambda>_. 9) ?r2 True PollTick (f1, st1) = (f2, st2)" by fastforce
  have "ss_out st2 = ss_out new_stream @ [SnapshotEvent ''3.1'' (Some ''{trunc'')]"
    using truncated_snapshot_is_streamed [OF _ _ _ _ refl refl _ _ s1 s2]
    by (simp add: new_fetcher_def new_stream_def zero_time_def)
  then have "ss_out st2 = [SnapshotEvent ''3.1'' (Some ''{trunc'')]" by (simp add: new_stream_def)
  with s1 s2 show ?thesis by blast
qed


end
