(* ===== verification/Ui_Layout.thy ===== *)
theory Ui_Layout
  imports Mping_Prelude
begin

text \<open>
  How the terminal UI divides its space (internal/ui: layout_fit.go, pane_controls.go, width_fit.go,
  graph_layout.go): heights of panes, widths of columns, cells of the RTT graph, and the pane that is
  focused, folded or maximized. Drawing itself is the tview library.
\<close>

section \<open>Heights of panes\<close>

definition pane_min_height :: int where "pane_min_height = 3"
definition log_lines :: int where "log_lines = 5"

text \<open>A demand is a weight and a content height.\<close>

type_synonym demand = "int \<times> int"

definition weight_of :: "demand \<Rightarrow> int" where "weight_of d = max (fst d) 1"
definition wanted :: "demand \<Rightarrow> int" where "wanted d = max (snd d) pane_min_height"

definition weight_sum :: "demand list \<Rightarrow> nat list \<Rightarrow> int" where
  "weight_sum ds is = sum_list (map (\<lambda>i. weight_of (ds ! i)) is)"

text \<open>One pass over the open panes: those whose content fits in their share are settled.\<close>

fun fit_pass :: "demand list \<Rightarrow> int \<Rightarrow> nat list \<Rightarrow> int \<Rightarrow> int list \<Rightarrow> int \<times> int list \<times> nat list" where
  "fit_pass ds ws [] r sizes = (r, sizes, [])"
| "fit_pass ds ws (i # is) r sizes =
     (let share = (r * weight_of (ds ! i)) sdiv ws; d = wanted (ds ! i) in
      if d \<le> share then fit_pass ds ws is (r - d) (sizes[i := d])
      else case fit_pass ds ws is r sizes of (r', sizes', open) \<Rightarrow> (r', sizes', i # open))"

lemma fit_pass_shorter:
  "fit_pass ds ws is r sizes = (r', sizes', open') \<Longrightarrow> length open' \<le> length is"
proof (induction ds ws "is" r sizes arbitrary: r' sizes' open' rule: fit_pass.induct)
  case (2 ds ws i "is" r sizes)
  then show ?case by (fastforce simp: Let_def split: if_splits prod.splits)
qed simp

function fit_loop :: "demand list \<Rightarrow> nat list \<Rightarrow> int \<Rightarrow> int list \<Rightarrow> nat list \<times> int \<times> int list" where
  "fit_loop ds open r sizes =
     (case fit_pass ds (weight_sum ds open) open r sizes of (r', sizes', open') \<Rightarrow>
        if length open' = length open \<or> open' = [] then (open', r', sizes')
        else fit_loop ds open' r' sizes')"
  by auto
termination
  by (relation "measure (\<lambda>(ds, open, r, sizes). length open)")
    (auto dest!: fit_pass_shorter [OF sym] simp: order_less_le)

declare fit_loop.simps [simp del]

text \<open>The rest goes to the open panes by weight, what rounding leaves to the last of them.\<close>

fun fit_rest :: "demand list \<Rightarrow> int \<Rightarrow> nat list \<Rightarrow> int \<Rightarrow> int list \<Rightarrow> int list" where
  "fit_rest ds ws [] r sizes = sizes"
| "fit_rest ds ws (i # is) r sizes =
     (let w = weight_of (ds ! i); size = (r * w) sdiv ws
      in fit_rest ds (ws - w) is (r - size) (sizes[i := size]))"

definition fit_heights :: "int \<Rightarrow> demand list \<Rightarrow> int list \<times> int" where
  "fit_heights avail ds =
     (if avail \<le> 0 then (replicate (length ds) 0, 0)
      else if ds = [] then ([], avail)
      else case fit_loop ds [0..<length ds] avail (replicate (length ds) 0) of
        (open, r, sizes) \<Rightarrow>
          if open = [] then (sizes, r) else (fit_rest ds (weight_sum ds open) open r sizes, 0))"

section \<open>The panes\<close>

definition header_height :: int where "header_height = 2"
definition footer_height :: int where "footer_height = 1"

datatype pane_kind = TablePane | MonitorPane | GraphPane | LogPane

record pane =
  pn_kind :: pane_kind
  pn_folded :: bool
  pn_weight :: int
  pn_desired :: int

text \<open>What the closure \<open>computeSizes\<close> gives: the sizes of the open panes beside the Log, and the Log's.\<close>

definition give_spare :: "bool \<Rightarrow> pane list \<Rightarrow> int \<Rightarrow> int list \<times> int \<Rightarrow> int list \<times> int" where
  "give_spare log_open others spare sl =
     (case sl of (sizes, log_size) \<Rightarrow>
      if spare \<le> 0 then (sizes, log_size)
      else case filter (\<lambda>i. pn_kind (others ! i) = GraphPane) [0..<length others] of
          i # _ \<Rightarrow> (sizes[i := sizes ! i + spare], log_size)
        | [] \<Rightarrow>
            if log_open then (sizes, log_size + spare)
            else if others \<noteq> [] then (sizes[length others - 1 := sizes ! (length others - 1) + spare], log_size)
            else (sizes, log_size))"

definition compute_sizes :: "bool \<Rightarrow> int \<Rightarrow> int \<Rightarrow> int \<Rightarrow> pane list \<Rightarrow> int list \<times> int" where
  "compute_sizes log_open log_desired log_base avail others =
     (case fit_heights avail (map (\<lambda>p. (pn_weight p, pn_desired p)) others) of
        (sizes, spare) \<Rightarrow>
          let grow = (if log_open then min spare (max (log_desired - log_base) 0) else 0)
          in give_spare log_open others (spare - grow) (sizes, log_base + grow))"

text \<open>
  \<open>fit\<close> while no pane is maximized. Resizing the table renders it and the other panes again, which can
  change what they hold: \<open>resized h p\<close> is the content height of pane \<open>p\<close> once the table has height \<open>h\<close>
  (what it was when the table has no room), and the sizes are computed once more when the table's differs.
\<close>

definition fit_panes :: "int \<Rightarrow> (int \<Rightarrow> pane \<Rightarrow> int) \<Rightarrow> pane list \<Rightarrow> int list \<times> int" where
  "fit_panes height resized panes =
     (let folded = int (length (filter pn_folded panes));
          others = filter (\<lambda>p. \<not> pn_folded p \<and> pn_kind p \<noteq> LogPane) panes;
          log = find (\<lambda>p. \<not> pn_folded p \<and> pn_kind p = LogPane) panes;
          avail = height - header_height - footer_height - folded;
          log_open = (log \<noteq> None);
          log_desired = (case log of None \<Rightarrow> 0 | Some p \<Rightarrow> pn_desired p);
          log_base = (if log_open then min (log_lines + 2) (max avail 0) else 0);
          first = compute_sizes log_open log_desired log_base (avail - log_base) others
      in case others of
           [] \<Rightarrow> first
         | p # _ \<Rightarrow>
             let h = fst first ! 0 in
             if pn_kind p = TablePane \<and> resized h p \<noteq> pn_desired p
             then compute_sizes log_open (case log of None \<Rightarrow> 0 | Some l \<Rightarrow> resized h l) log_base (avail - log_base)
                    (map (\<lambda>q. q \<lparr> pn_desired := resized h q \<rparr>) others)
             else first)"

section \<open>Focus, folding and maximizing\<close>

record pane_state =
  ps_folded :: "bool list"
  ps_maximized :: "nat option"
  ps_focus :: "nat option"

datatype pane_key = KeyEscape | KeyTab | KeyFold | KeyMaximize | OtherKey

text \<open>\<open>handle\<close>: the state afterwards and whether the key was taken; \<open>current\<close> is the pane with the focus.\<close>

definition handle_pane_key :: "pane_key \<Rightarrow> pane_state \<Rightarrow> pane_state \<times> bool" where
  "handle_pane_key key s = (case ps_focus s of
     None \<Rightarrow> (s, False)
   | Some p \<Rightarrow>
       (case key of
          KeyEscape \<Rightarrow> (case ps_maximized s of
              None \<Rightarrow> (s, False)
            | Some m \<Rightarrow> (s \<lparr> ps_maximized := None, ps_focus := Some m \<rparr>, True))
        | KeyTab \<Rightarrow>
            if ps_maximized s \<noteq> None then (s, True)
            else (s \<lparr> ps_focus := Some ((p + 1) mod length (ps_folded s)) \<rparr>, True)
        | KeyFold \<Rightarrow> (s \<lparr> ps_maximized := None, ps_folded := (ps_folded s)[p := \<not> ps_folded s ! p] \<rparr>, True)
        | KeyMaximize \<Rightarrow> (s \<lparr> ps_maximized := (if ps_maximized s = Some p then None else Some p) \<rparr>, True)
        | OtherKey \<Rightarrow> (s, False)))"

section \<open>Widths of columns\<close>

definition indices_by_priority :: "int list \<Rightarrow> nat list" where
  "indices_by_priority priority = sort_key (\<lambda>i. priority ! i) [0..<length priority]"

text \<open>
  One round over the columns, by one character each; it ends as soon as the widths fit. The indices are
  those of the columns, so that the bound never fails (Go would panic).
\<close>

fun shrink_round :: "int list \<Rightarrow> int \<Rightarrow> nat list \<Rightarrow> int list \<Rightarrow> int list \<times> bool" where
  "shrink_round mins avail [] ws = (ws, False)"
| "shrink_round mins avail (i # is) ws =
     (if i < length ws \<and> ws ! i > mins ! i then
        (let ws' = ws[i := ws ! i - 1] in
         if sum_list ws' \<le> avail then (ws', True) else (fst (shrink_round mins avail is ws'), True))
      else shrink_round mins avail is ws)"

fun grow_round :: "int list \<Rightarrow> int \<Rightarrow> nat list \<Rightarrow> int list \<Rightarrow> int list \<times> bool" where
  "grow_round maxs avail [] ws = (ws, False)"
| "grow_round maxs avail (i # is) ws =
     (if i < length ws \<and> ws ! i < maxs ! i then
        (let ws' = ws[i := ws ! i + 1] in
         if sum_list ws' \<ge> avail then (ws', True) else (fst (grow_round maxs avail is ws'), True))
      else grow_round maxs avail is ws)"

lemma sum_list_update_int: "i < length ws \<Longrightarrow> sum_list (ws[i := (x :: int)]) = sum_list ws - ws ! i + x"
proof (induction ws arbitrary: i)
  case (Cons w ws)
  then show ?case by (cases i) auto
qed simp

lemma shrink_round_unchanged: "shrink_round mins avail is ws = (ws', False) \<Longrightarrow> ws' = ws"
  by (induction mins avail "is" ws rule: shrink_round.induct) (auto simp: Let_def split: if_splits)

lemma grow_round_unchanged: "grow_round maxs avail is ws = (ws', False) \<Longrightarrow> ws' = ws"
  by (induction maxs avail "is" ws rule: grow_round.induct) (auto simp: Let_def split: if_splits)

lemma shrink_round_effect:
  assumes "shrink_round mins avail is ws = (ws', changed)" and "\<forall>i < length ws. mins ! i \<le> ws ! i"
  shows "length ws' = length ws \<and> (\<forall>i < length ws. mins ! i \<le> ws' ! i \<and> ws' ! i \<le> ws ! i)
    \<and> (avail < sum_list ws \<longrightarrow> avail \<le> sum_list ws')
    \<and> (if changed then sum_list ws' < sum_list ws else ws' = ws \<and> (\<forall>i \<in> set is. i < length ws \<longrightarrow> ws ! i \<le> mins ! i))"
  using assms
proof (induction mins avail "is" ws arbitrary: ws' changed rule: shrink_round.induct)
  case (2 mins avail i "is" ws)
  show ?case
  proof (cases "i < length ws \<and> ws ! i > mins ! i")
    case True
    define us where "us = ws[i := ws ! i - 1]"
    have us: "length us = length ws" "\<forall>j < length us. mins ! j \<le> us ! j \<and> us ! j \<le> ws ! j"
      "sum_list us = sum_list ws - 1"
      using True 2(4) by (auto simp: us_def nth_list_update sum_list_update_int)
    show ?thesis
    proof (cases "sum_list us \<le> avail")
      case False
      obtain vs ch where r: "shrink_round mins avail is us = (vs, ch)" by force
      have "ws' = vs" "changed" using 2(3) True False r by (simp_all add: us_def [symmetric])
      then show ?thesis
        using 2(1) [OF True us_def _ r] False us by (fastforce split: if_splits)
    next
      case True2: True
      have "ws' = us" "changed" using 2(3) True True2 by (simp_all add: us_def [symmetric])
      then show ?thesis using True2 us by auto
    qed
  next
    case False
    then have r: "shrink_round mins avail is ws = (ws', changed)" using 2(3) by (simp only: shrink_round.simps grow_round.simps if_not_P if_False)
    from 2(2) [OF False r 2(4)] False show ?thesis by (auto split: if_splits)
  qed
qed simp

lemma grow_round_effect:
  assumes "grow_round maxs avail is ws = (ws', changed)" and "\<forall>i < length ws. ws ! i \<le> maxs ! i"
  shows "length ws' = length ws \<and> (\<forall>i < length ws. ws ! i \<le> ws' ! i \<and> ws' ! i \<le> maxs ! i)
    \<and> (sum_list ws < avail \<longrightarrow> sum_list ws' \<le> avail)
    \<and> (if changed then sum_list ws < sum_list ws' else ws' = ws \<and> (\<forall>i \<in> set is. i < length ws \<longrightarrow> maxs ! i \<le> ws ! i))"
  using assms
proof (induction maxs avail "is" ws arbitrary: ws' changed rule: grow_round.induct)
  case (2 maxs avail i "is" ws)
  show ?case
  proof (cases "i < length ws \<and> ws ! i < maxs ! i")
    case True
    define us where "us = ws[i := ws ! i + 1]"
    have us: "length us = length ws" "\<forall>j < length us. ws ! j \<le> us ! j \<and> us ! j \<le> maxs ! j"
      "sum_list us = sum_list ws + 1"
      using True 2(4) by (auto simp: us_def nth_list_update sum_list_update_int)
    show ?thesis
    proof (cases "avail \<le> sum_list us")
      case False
      obtain vs ch where r: "grow_round maxs avail is us = (vs, ch)" by force
      have "ws' = vs" "changed" using 2(3) True False r by (simp_all add: us_def [symmetric])
      then show ?thesis
        using 2(1) [OF True us_def _ r] False us by (fastforce split: if_splits)
    next
      case True2: True
      have "ws' = us" "changed" using 2(3) True True2 by (simp_all add: us_def [symmetric])
      then show ?thesis using True2 us by auto
    qed
  next
    case False
    then have r: "grow_round maxs avail is ws = (ws', changed)" using 2(3) by (simp only: shrink_round.simps grow_round.simps if_not_P if_False)
    from 2(2) [OF False r 2(4)] False show ?thesis by (auto split: if_splits)
  qed
qed simp

lemma shrink_round_less: "shrink_round mins avail is ws = (ws', True) \<Longrightarrow> sum_list ws' < sum_list ws"
proof (induction mins avail "is" ws arbitrary: ws' rule: shrink_round.induct)
  case (2 mins avail i "is" ws)
  show ?case
  proof (cases "i < length ws \<and> ws ! i > mins ! i")
    case True
    define us where "us = ws[i := ws ! i - 1]"
    have us: "sum_list us = sum_list ws - 1" using True by (simp add: us_def sum_list_update_int)
    obtain vs ch where r: "shrink_round mins avail is us = (vs, ch)" by force
    have "sum_list vs \<le> sum_list us" if "\<not> sum_list us \<le> avail"
      using 2(1) [OF True us_def that] r by (cases ch) (auto dest: shrink_round_unchanged intro: less_imp_le)
    moreover have "ws' = (if sum_list us \<le> avail then us else vs)"
      using 2(3) True r by (simp add: us_def [symmetric] split: if_splits)
    ultimately show ?thesis using us by (auto split: if_splits)
  next
    case False
    with 2(2) [OF False] 2(3) show ?thesis by simp
  qed
qed simp

lemma grow_round_more: "grow_round maxs avail is ws = (ws', True) \<Longrightarrow> sum_list ws < sum_list ws'"
proof (induction maxs avail "is" ws arbitrary: ws' rule: grow_round.induct)
  case (2 maxs avail i "is" ws)
  show ?case
  proof (cases "i < length ws \<and> ws ! i < maxs ! i")
    case True
    define us where "us = ws[i := ws ! i + 1]"
    have us: "sum_list us = sum_list ws + 1" using True by (simp add: us_def sum_list_update_int)
    obtain vs ch where r: "grow_round maxs avail is us = (vs, ch)" by force
    have "sum_list us \<le> sum_list vs" if "\<not> avail \<le> sum_list us"
      using 2(1) [OF True us_def that] r by (cases ch) (auto dest: grow_round_unchanged intro: less_imp_le)
    moreover have "ws' = (if avail \<le> sum_list us then us else vs)"
      using 2(3) True r by (simp add: us_def [symmetric] split: if_splits)
    ultimately show ?thesis using us by (auto split: if_splits)
  next
    case False
    with 2(2) [OF False] 2(3) show ?thesis by simp
  qed
qed simp

text \<open>The rounds until the widths fit, or until no column can change any more.\<close>

function shrink_loop :: "int list \<Rightarrow> int \<Rightarrow> nat list \<Rightarrow> int list \<Rightarrow> int list" where
  "shrink_loop mins avail order ws =
     (if sum_list ws > avail
      then case shrink_round mins avail order ws of (ws', changed) \<Rightarrow>
        if changed then shrink_loop mins avail order ws' else ws'
      else ws)"
  by auto
termination
  by (relation "measure (\<lambda>(mins, avail, order, ws). nat (sum_list ws - avail))")
    (auto dest!: shrink_round_less [OF sym])

function grow_loop :: "int list \<Rightarrow> int \<Rightarrow> nat list \<Rightarrow> int list \<Rightarrow> int list" where
  "grow_loop maxs avail order ws =
     (if sum_list ws < avail
      then case grow_round maxs avail order ws of (ws', changed) \<Rightarrow>
        if changed then grow_loop maxs avail order ws' else ws'
      else ws)"
  by auto
termination
  by (relation "measure (\<lambda>(maxs, avail, order, ws). nat (avail - sum_list ws))")
    (auto dest!: grow_round_more [OF sym])

declare shrink_loop.simps [simp del] grow_loop.simps [simp del]

text \<open>
  \<open>fitWidthsToAvailable\<close>: the widths, and the maxima it raises to the minima in the caller's slice.
  No widths are given when the slices differ in length or even the minima do not fit.
\<close>

definition clamp_width :: "int \<Rightarrow> int \<Rightarrow> int \<Rightarrow> int" where
  "clamp_width d lo hi = (let w = max d lo in if w > hi then hi else w)"

definition fit_widths ::
    "int list \<Rightarrow> int list \<Rightarrow> int list \<Rightarrow> int list \<Rightarrow> int list \<Rightarrow> int \<Rightarrow> int list option \<times> int list" where
  "fit_widths desired mins maxs shrink_priority grow_priority avail =
     (let n = length desired in
      if n \<noteq> length mins \<or> n \<noteq> length maxs \<or> n \<noteq> length shrink_priority \<or> n \<noteq> length grow_priority
      then (None, maxs)
      else
        let maxs' = map2 max mins maxs;
            widths = map2 (\<lambda>d (lo, hi). clamp_width d lo hi) desired (zip mins maxs')
        in if avail < sum_list mins then (None, maxs')
           else (Some (grow_loop maxs' avail (indices_by_priority grow_priority)
                   (shrink_loop mins avail (indices_by_priority shrink_priority) widths)), maxs'))"

lemma set_indices_by_priority: "set (indices_by_priority ps) = {..< length ps}"
  by (auto simp: indices_by_priority_def)

lemma sum_list_nth_mono:
  fixes xs :: "int list"
  shows "length xs = length ys \<Longrightarrow> \<forall>i < length ys. xs ! i \<le> ys ! i \<Longrightarrow> sum_list xs \<le> sum_list ys"
  by (induction xs ys rule: list_induct2) (auto simp: All_less_Suc2)

lemma shrink_loop_effect:
  assumes "length mins = length ws" and "\<forall>i < length ws. mins ! i \<le> ws ! i"
    and "set order = {..< length ws}" and "sum_list mins \<le> avail"
  shows "length (shrink_loop mins avail order ws) = length ws
    \<and> (\<forall>i < length ws. mins ! i \<le> shrink_loop mins avail order ws ! i \<and> shrink_loop mins avail order ws ! i \<le> ws ! i)
    \<and> sum_list (shrink_loop mins avail order ws) = min avail (sum_list ws)"
  using assms
proof (induction mins avail order ws rule: shrink_loop.induct)
  case (1 mins avail order ws)
  show ?case
  proof (cases "sum_list ws > avail")
    case True
    obtain vs ch where r: "shrink_round mins avail order ws = (vs, ch)" by force
    note e = shrink_round_effect [OF r 1(3)]
    show ?thesis
    proof (cases ch)
      case True2: True
      have l: "shrink_loop mins avail order ws = shrink_loop mins avail order vs"
        using True True2 r by (subst shrink_loop.simps) simp
      from 1(1) [OF True r [symmetric] True2] 1(2,4,5) e True True2 show ?thesis
        unfolding l by (fastforce simp: min_def)
    next
      case False
      have "sum_list ws \<le> sum_list mins"
        using e False 1(2,4) by (intro sum_list_nth_mono) auto
      with True 1(5) show ?thesis by simp
    qed
  qed (simp add: shrink_loop.simps 1)
qed

lemma grow_loop_effect:
  assumes "length maxs = length ws" and "\<forall>i < length ws. ws ! i \<le> maxs ! i"
    and "set order = {..< length ws}"
  shows "length (grow_loop maxs avail order ws) = length ws
    \<and> (\<forall>i < length ws. ws ! i \<le> grow_loop maxs avail order ws ! i \<and> grow_loop maxs avail order ws ! i \<le> maxs ! i)
    \<and> sum_list (grow_loop maxs avail order ws) = max (sum_list ws) (min avail (sum_list maxs))"
  using assms
proof (induction maxs avail order ws rule: grow_loop.induct)
  case (1 maxs avail order ws)
  have le: "sum_list ws \<le> sum_list maxs" using 1(2,3) by (intro sum_list_nth_mono) auto
  show ?case
  proof (cases "sum_list ws < avail")
    case True
    obtain vs ch where r: "grow_round maxs avail order ws = (vs, ch)" by force
    note e = grow_round_effect [OF r 1(3)]
    show ?thesis
    proof (cases ch)
      case True2: True
      have l: "grow_loop maxs avail order ws = grow_loop maxs avail order vs"
        using True True2 r by (subst grow_loop.simps) simp
      have "sum_list vs \<le> sum_list maxs" using e 1(2) by (intro sum_list_nth_mono) auto
      with 1(1) [OF True r [symmetric] True2] 1(2,4) e True True2 show ?thesis
        unfolding l by (fastforce simp: min_def max_def)
    next
      case False
      have "sum_list maxs \<le> sum_list ws"
        using e False 1(2,4) by (intro sum_list_nth_mono) auto
      moreover have "grow_loop maxs avail order ws = ws"
        using True False r e by (subst grow_loop.simps) simp
      ultimately show ?thesis using 1(2,3) le True by (simp add: min_def max_def)
    qed
  qed (use le 1 in \<open>simp add: grow_loop.simps min_def max_def\<close>)
qed

definition clamped_widths :: "int list \<Rightarrow> int list \<Rightarrow> int list \<Rightarrow> int list" where
  "clamped_widths desired mins maxs =
     map2 (\<lambda>d (lo, hi). clamp_width d lo hi) desired (zip mins (map2 max mins maxs))"


section \<open>The heights fill the space\<close>

lemma weight_pos: "0 < weight_of d" and wanted_pos: "0 < wanted d"
  by (simp_all add: weight_of_def wanted_def pane_min_height_def)

lemma share_bounds:
  assumes "0 \<le> r" and "weight_of d \<le> ws"
  shows "0 \<le> (r * weight_of d) sdiv ws \<and> (r * weight_of d) sdiv ws \<le> r
    \<and> (r * weight_of d) sdiv ws = (r * weight_of d) div ws"
proof -
  have ws: "0 < ws" using weight_pos [of d] assms by linarith
  have "r * weight_of d \<le> r * ws" using assms by (simp add: mult_left_mono)
  then have "(r * weight_of d) div ws \<le> r" using ws zdiv_mono1 [of _ "r * ws" ws] by fastforce
  then show ?thesis using ws assms weight_pos [of d] by (simp add: sdiv_nonneg pos_imp_zdiv_nonneg_iff)
qed

lemma fit_pass_effect:
  assumes "fit_pass ds ws is r sizes = (r', sizes', open)" and "distinct is" and "0 \<le> r"
    and "\<forall>i \<in> set is. i < length sizes \<and> sizes ! i = 0 \<and> weight_of (ds ! i) \<le> ws"
  shows "0 \<le> r' \<and> length sizes' = length sizes \<and> sum_list sizes' + r' = sum_list sizes + r
    \<and> distinct open \<and> set open \<subseteq> set is
    \<and> (\<forall>j < length sizes. sizes' ! j = (if j \<in> set is - set open then wanted (ds ! j) else sizes ! j))"
  using assms
proof (induction ds ws "is" r sizes arbitrary: r' sizes' "open" rule: fit_pass.induct)
  case (2 ds ws i "is" r sizes)
  define share where "share = (r * weight_of (ds ! i)) sdiv ws"
  have share: "share \<le> r" using share_bounds [of r "ds ! i" ws] 2(5,6) by (simp add: share_def)
  show ?case
  proof (cases "wanted (ds ! i) \<le> share")
    case True
    define us where "us = sizes[i := wanted (ds ! i)]"
    have p: "fit_pass ds ws is (r - wanted (ds ! i)) us = (r', sizes', open)"
      using 2(3) True by (simp add: Let_def share_def us_def)
    have us: "length us = length sizes" "sum_list us = sum_list sizes + wanted (ds ! i)"
      "us ! i = wanted (ds ! i)" "\<forall>j. j \<noteq> i \<longrightarrow> us ! j = sizes ! j"
      using 2(6) by (auto simp: us_def sum_list_update_int)
    have "0 \<le> r' \<and> length sizes' = length us \<and> sum_list sizes' + r' = sum_list us + (r - wanted (ds ! i))
      \<and> distinct open \<and> set open \<subseteq> set is
      \<and> (\<forall>j < length us. sizes' ! j = (if j \<in> set is - set open then wanted (ds ! j) else us ! j))"
      using 2(1) [OF share_def refl True p [unfolded us_def]] 2(4,6) us True share unfolding us_def by fastforce
    with us 2(4) show ?thesis by auto
  next
    case False
    obtain r2 s2 o2 where p: "fit_pass ds ws is r sizes = (r2, s2, o2)" by (metis prod_cases3)
    have "r' = r2" "sizes' = s2" "open = i # o2" using 2(3) False p by (simp_all add: Let_def share_def)
    with 2(2) [OF share_def refl False p] 2(4,5,6) show ?thesis by auto
  qed
qed simp

lemma fit_pass_stuck:
  assumes "fit_pass ds ws is r sizes = (r', sizes', open)" and "length open = length is"
  shows "open = is \<and> r' = r \<and> sizes' = sizes \<and> (\<forall>i \<in> set is. (r * weight_of (ds ! i)) sdiv ws < wanted (ds ! i))"
  using assms
proof (induction ds ws "is" r sizes arbitrary: r' sizes' "open" rule: fit_pass.induct)
  case (2 ds ws i "is" r sizes)
  show ?case
  proof (cases "wanted (ds ! i) \<le> (r * weight_of (ds ! i)) sdiv ws")
    case True
    then have "length open \<le> length is" using 2(3) by (auto simp: Let_def dest: fit_pass_shorter)
    with 2(4) show ?thesis by simp
  next
    case False
    obtain r2 s2 o2 where p: "fit_pass ds ws is r sizes = (r2, s2, o2)" by (metis prod_cases3)
    have "r' = r2" "sizes' = s2" "open = i # o2" using 2(3) False p by (simp_all add: Let_def)
    with 2(2) [OF refl refl False p] 2(4) False show ?thesis by auto
  qed
qed simp

lemma weight_le_sum: "i \<in> set is \<Longrightarrow> weight_of (ds ! i) \<le> weight_sum ds is"
  unfolding weight_sum_def
  by (intro member_le_sum_list) (auto intro: less_imp_le weight_pos)

text \<open>When no open pane fits in its share, together they want more than what is left.\<close>

lemma stuck_wants_more:
  assumes "\<forall>i \<in> set is. (r * weight_of (ds ! i)) sdiv weight_sum ds is < wanted (ds ! i)"
    and "0 \<le> r" and "is \<noteq> []"
  shows "r < sum_list (map (\<lambda>i. wanted (ds ! i)) is)"
proof -
  define W where "W = weight_sum ds is"
  have W: "0 < W" using weight_le_sum [of "hd is" "is" ds] weight_pos [of "ds ! hd is"] assms(3)
    by (simp add: W_def)
  have one: "r * weight_of (ds ! i) < wanted (ds ! i) * W" if "i \<in> set is" for i
  proof -
    have "(r * weight_of (ds ! i)) div W < wanted (ds ! i)"
      using bspec [OF assms(1) that] assms(2) share_bounds [of r "ds ! i" W] weight_le_sum [OF that, of ds]
      by (simp add: W_def)
    then show ?thesis using W zdiv_mono1 [of "wanted (ds ! i) * W" "r * weight_of (ds ! i)" W] by (auto simp: not_less [symmetric])
  qed
  have "sum_list (map (\<lambda>i. r * weight_of (ds ! i)) is) < sum_list (map (\<lambda>i. wanted (ds ! i) * W) is)"
    using one assms(3) by (intro sum_list_strict_mono) auto
  then have "r * W < sum_list (map (\<lambda>i. wanted (ds ! i)) is) * W"
    by (simp add: W_def weight_sum_def sum_list_const_mult sum_list_mult_const)
  then show ?thesis using W by simp
qed

text \<open>What the passes keep: \<open>open\<close> are the panes without a height so far, the others have what they want.\<close>

definition settled :: "demand list \<Rightarrow> int \<Rightarrow> nat list \<Rightarrow> int \<Rightarrow> int list \<Rightarrow> bool" where
  "settled ds avail open r sizes \<longleftrightarrow> distinct open \<and> set open \<subseteq> {..< length ds} \<and> length sizes = length ds
     \<and> 0 \<le> r \<and> sum_list sizes + r = avail
     \<and> (\<forall>j < length ds. sizes ! j = (if j \<in> set open then 0 else wanted (ds ! j)))"

lemma fit_pass_settled:
  assumes "settled ds avail is r sizes" and "fit_pass ds (weight_sum ds is) is r sizes = (r', sizes', open)"
  shows "settled ds avail open r' sizes'"
proof -
  have "\<forall>i \<in> set is. i < length sizes \<and> sizes ! i = 0 \<and> weight_of (ds ! i) \<le> weight_sum ds is"
    using assms(1) weight_le_sum by (auto simp: settled_def)
  from fit_pass_effect [OF assms(2) _ _ this] assms(1) show ?thesis by (auto simp: settled_def)
qed

lemma fit_loop_settled:
  assumes "settled ds avail is r sizes" and "fit_loop ds is r sizes = (open, r', sizes')"
  shows "settled ds avail open r' sizes'
    \<and> (open \<noteq> [] \<longrightarrow> r' < sum_list (map (\<lambda>i. wanted (ds ! i)) open))"
  using assms
proof (induction ds "is" r sizes rule: fit_loop.induct)
  case (1 ds "is" r sizes)
  obtain r2 s2 o2 where p: "fit_pass ds (weight_sum ds is) is r sizes = (r2, s2, o2)" by (metis prod_cases3)
  note st = fit_pass_settled [OF 1(2) p]
  show ?case
  proof (cases "length o2 = length is \<or> o2 = []")
    case True
    then have e: "open = o2" "r' = r2" "sizes' = s2" using 1(3) p by (simp_all add: fit_loop.simps [of ds "is"])
    have "r' < sum_list (map (\<lambda>i. wanted (ds ! i)) open)" if "open \<noteq> []"
      using fit_pass_stuck [OF p] True that e stuck_wants_more [of "is" r ds] 1(2) by (auto simp: settled_def)
    with st e show ?thesis by simp
  next
    case False
    then have "fit_loop ds o2 r2 s2 = (open, r', sizes')" using 1(3) p by (simp add: fit_loop.simps [of ds "is"])
    with 1(1) [OF p [symmetric] refl False] st show ?thesis by blast
  qed
qed

lemma fit_rest_effect:
  assumes "0 \<le> r" and "\<forall>i \<in> set is. i < length sizes \<and> sizes ! i = 0" and "distinct is" and "is \<noteq> []"
    and "list_all ((\<le>) 0) sizes"
  shows "length (fit_rest ds (weight_sum ds is) is r sizes) = length sizes
    \<and> list_all ((\<le>) 0) (fit_rest ds (weight_sum ds is) is r sizes)
    \<and> sum_list (fit_rest ds (weight_sum ds is) is r sizes) = sum_list sizes + r"
  using assms
proof (induction "is" arbitrary: r sizes)
  case (Cons i "is")
  define W where "W = weight_sum ds (i # is)"
  define size where "size = (r * weight_of (ds ! i)) sdiv W"
  have W: "weight_of (ds ! i) \<le> W" "W - weight_of (ds ! i) = weight_sum ds is"
    using weight_le_sum [of i "i # is"] by (auto simp: W_def weight_sum_def)
  have size: "0 \<le> size" "size \<le> r" using share_bounds [OF Cons(2) W(1)] by (simp_all add: size_def)
  define us where "us = sizes[i := size]"
  have us: "length us = length sizes" "list_all ((\<le>) 0) us" "sum_list us = sum_list sizes + size"
    using Cons(3,6) size by (auto simp: us_def sum_list_update_int list_all_iff dest!: subsetD [OF set_update_subset_insert])
  have e: "fit_rest ds (weight_sum ds (i # is)) (i # is) r sizes = fit_rest ds (weight_sum ds is) is (r - size) us"
    by (simp add: W_def [symmetric] size_def [symmetric] us_def [symmetric] W(2) Let_def)
  show ?case
  proof (cases "is = []")
    case True
    have "size = r" using True weight_pos [of "ds ! i"] Cons(2)
      by (simp add: size_def W_def weight_sum_def sdiv_nonneg)
    with True us show ?thesis unfolding e by simp
  next
    case False
    have "\<forall>j \<in> set is. j < length us \<and> us ! j = 0" using Cons(3,4) by (auto simp: us_def nth_list_update)
    from Cons(1) [OF _ this _ False us(2), of "r - size"] size Cons(4) us(1,3) show ?thesis
      unfolding e by simp
  qed
qed simp

lemma settled_wanted_sum:
  assumes "settled ds avail open r sizes"
  shows "sum_list (map wanted ds) = sum_list sizes + sum_list (map (\<lambda>i. wanted (ds ! i)) open)"
proof -
  have d: "distinct open" and s: "set open \<subseteq> {..< length ds}" using assms by (auto simp: settled_def)
  have "sum_list (map wanted ds) = (\<Sum>j < length ds. wanted (ds ! j))"
    by (simp add: sum_list_sum_nth atLeast0LessThan)
  also have "\<dots> = (\<Sum>j < length ds. sizes ! j + (if j \<in> set open then wanted (ds ! j) else 0))"
    using assms by (intro sum.cong) (auto simp: settled_def)
  also have "\<dots> = (\<Sum>j < length ds. sizes ! j) + (\<Sum>j \<in> set open. wanted (ds ! j))"
    using s by (simp add: sum.distrib sum.If_cases Int_absorb1)
  also have "\<dots> = sum_list sizes + sum_list (map (\<lambda>i. wanted (ds ! i)) open)"
    using assms sum_list_distinct_conv_sum_set [OF d, of "\<lambda>i. wanted (ds ! i)"] by (simp add: settled_def sum_list_sum_nth [of sizes] atLeast0LessThan)
  finally show ?thesis .
qed

lemma fit_heights_effect:
  assumes "fit_heights avail ds = (sizes, spare)"
  shows "length sizes = length ds \<and> list_all ((\<le>) 0) sizes \<and> 0 \<le> spare
    \<and> sum_list sizes + spare = max avail 0
    \<and> (if sum_list (map wanted ds) \<le> avail then sizes = map wanted ds else spare = 0)"
proof (cases "avail \<le> 0 \<or> ds = []")
  case True
  have "ds \<noteq> [] \<Longrightarrow> 0 < sum_list (map wanted ds)"
    by (cases ds) (auto intro!: add_pos_nonneg sum_list_nonneg simp: wanted_pos less_imp_le [OF wanted_pos])
  then have "sum_list (map wanted ds) \<le> avail \<Longrightarrow> avail \<le> 0 \<Longrightarrow> ds = []" by (meson leD le_less_trans)
  with True assms show ?thesis by (auto simp: fit_heights_def sum_list_replicate list_all_iff split: if_splits)
next
  case False
  obtain op r ss where l: "fit_loop ds [0..<length ds] avail (replicate (length ds) 0) = (op, r, ss)"
    by (metis prod_cases3)
  have "settled ds avail [0..<length ds] avail (replicate (length ds) 0)"
    using False by (auto simp: settled_def sum_list_replicate)
  note st = fit_loop_settled [OF this l]
  then have s: "settled ds avail op r ss" by simp
  have nn: "list_all ((\<le>) 0) ss"
    using s less_imp_le [OF wanted_pos] by (auto simp: settled_def list_all_length)
  show ?thesis
  proof (cases "op = []")
    case True
    have "ss = map wanted ds" using s True by (auto simp: settled_def intro: nth_equalityI)
    moreover have "sizes = ss" "spare = r" using assms False l True by (simp_all add: fit_heights_def)
    ultimately show ?thesis using s nn False by (auto simp: settled_def)
  next
    case False2: False
    have e: "sizes = fit_rest ds (weight_sum ds op) op r ss" "spare = 0"
      using assms False False2 l by (auto simp: fit_heights_def)
    have "length sizes = length ss \<and> list_all ((\<le>) 0) sizes \<and> sum_list sizes = sum_list ss + r"
      unfolding e using s False2 nn by (intro fit_rest_effect) (auto simp: settled_def)
    moreover have "\<not> sum_list (map wanted ds) \<le> avail"
      using settled_wanted_sum [OF s] st False2 s by (auto simp: settled_def)
    ultimately show ?thesis using e(2) s False by (simp add: settled_def)
  qed
qed

text \<open>Rows nobody needs go to one pane, so that none is left blank.\<close>

lemma give_spare_effect:
  assumes "give_spare log_open others spare (sizes, log_size) = (sizes', log_size')"
    and "0 \<le> spare" and "length sizes = length others" and "log_open \<or> others \<noteq> []"
  shows "length sizes' = length others \<and> list_all2 (\<le>) sizes sizes' \<and> log_size \<le> log_size'
    \<and> sum_list sizes' + log_size' = sum_list sizes + log_size + spare
    \<and> (\<not> log_open \<longrightarrow> log_size' = log_size)"
proof (cases "spare \<le> 0")
  case True
  then show ?thesis using assms by (auto simp: give_spare_def list_all2_refl)
next
  case False
  have up: "length (sizes[i := sizes ! i + spare]) = length others
      \<and> list_all2 (\<le>) sizes (sizes[i := sizes ! i + spare])
      \<and> sum_list (sizes[i := sizes ! i + spare]) = sum_list sizes + spare" if "i < length others" for i
    using that assms(2,3) by (auto simp: list_all2_conv_all_nth nth_list_update sum_list_update_int)
  show ?thesis
  proof (cases "filter (\<lambda>i. pn_kind (others ! i) = GraphPane) [0..<length others]")
    case Nil
    then show ?thesis using assms False up [of "length others - 1"]
      by (auto simp: give_spare_def list_all2_refl split: if_splits)
  next
    case (Cons i "is")
    then have "i < length others" by (auto dest!: arg_cong [where f = set])
    from up [OF this] Cons assms(1) False show ?thesis by (auto simp: give_spare_def)
  qed
qed

definition pane_demand :: "pane \<Rightarrow> demand" where "pane_demand p = (pn_weight p, pn_desired p)"

lemma compute_sizes_effect:
  assumes "compute_sizes log_open log_desired log_base avail others = (sizes, log_size)"
    and "log_open \<or> others \<noteq> []"
  shows "length sizes = length others \<and> list_all ((\<le>) 0) sizes \<and> log_base \<le> log_size
    \<and> (\<not> log_open \<longrightarrow> log_size = log_base)
    \<and> sum_list sizes + log_size = log_base + max avail 0
    \<and> (sum_list (map (wanted \<circ> pane_demand) others) \<le> avail
        \<longrightarrow> list_all2 (\<lambda>p size. wanted (pane_demand p) \<le> size) others sizes)"
proof -
  define ds where "ds = map pane_demand others"
  obtain ss spare where f: "fit_heights avail ds = (ss, spare)" by force
  define grow where "grow = (if log_open then min spare (max (log_desired - log_base) 0) else 0)"
  have g: "give_spare log_open others (spare - grow) (ss, log_base + grow) = (sizes, log_size)"
    using assms(1) f by (simp add: compute_sizes_def ds_def pane_demand_def [abs_def] grow_def Let_def)
  note e = fit_heights_effect [OF f]
  have gr: "0 \<le> grow" "grow \<le> spare" "\<not> log_open \<longrightarrow> grow = 0" using e by (auto simp: grow_def)
  note u = give_spare_effect [OF g _ _ assms(2)]
  have l: "length ss = length others" using e by (simp add: ds_def)
  have u: "length sizes = length others" "list_all2 (\<le>) ss sizes" "log_base + grow \<le> log_size"
    "sum_list sizes + log_size = sum_list ss + (log_base + grow) + (spare - grow)"
    "\<not> log_open \<longrightarrow> log_size = log_base + grow"
    using u gr l by simp_all
  have "list_all ((\<le>) 0) sizes"
    using e u(2) by (fastforce simp: list_all_length list_all2_conv_all_nth)
  moreover have "list_all2 (\<lambda>p size. wanted (pane_demand p) \<le> size) others sizes"
    if "sum_list (map (wanted \<circ> pane_demand) others) \<le> avail"
  proof -
    have "ss = map wanted ds" using e that by (simp add: ds_def)
    then show ?thesis using u(2) by (simp add: ds_def list_all2_map1)
  qed
  ultimately show ?thesis using e u gr by auto
qed

text \<open>C28: 
  C?: The panes fill the screen: whatever the panes want, when at least one is unfolded the heights of
  the unfolded panes and of the Log together are exactly the rows left by the header, the footer and one
  line per folded pane, none of them negative; the Log keeps its five lines with borders (or all the
  rows there are, when fewer), also after the table's change of content has the heights computed again.
\<close>

theorem panes_fill_the_screen:
  assumes "fit_panes height resized panes = (sizes, log_size)"
    and "list_ex (\<lambda>p. \<not> pn_folded p) panes"
  shows "sum_list sizes + log_size = max 0 (height - 3 - int (length (filter pn_folded panes)))
    \<and> length sizes = length (filter (\<lambda>p. \<not> pn_folded p \<and> pn_kind p \<noteq> LogPane) panes)
    \<and> list_all ((\<le>) 0) sizes
    \<and> (if list_ex (\<lambda>p. \<not> pn_folded p \<and> pn_kind p = LogPane) panes
       then min 7 (max 0 (height - 3 - int (length (filter pn_folded panes)))) \<le> log_size else log_size = 0)"
proof -
  define others where "others = filter (\<lambda>p. \<not> pn_folded p \<and> pn_kind p \<noteq> LogPane) panes"
  define log where "log = find (\<lambda>p. \<not> pn_folded p \<and> pn_kind p = LogPane) panes"
  define avail where "avail = height - 2 - 1 - int (length (filter pn_folded panes))"
  define log_base where "log_base = (if log \<noteq> None then min (5 + 2) (max avail 0) else 0)"
  define log_desired where "log_desired = (case log of None \<Rightarrow> 0 | Some p \<Rightarrow> pn_desired p)"
  have log: "log \<noteq> None \<longleftrightarrow> list_ex (\<lambda>p. \<not> pn_folded p \<and> pn_kind p = LogPane) panes"
    by (auto simp: log_def find_None_iff list_ex_iff)
  have some_open: "log \<noteq> None \<or> others \<noteq> []"
    using assms(2) unfolding log by (auto simp: others_def list_ex_iff filter_empty_conv)
  note f = assms(1) [unfolded fit_panes_def Let_def header_height_def footer_height_def log_lines_def,
      folded others_def log_def avail_def, folded log_base_def log_desired_def]
  obtain os desired where os: "length os = length others"
    and c: "compute_sizes (log \<noteq> None) desired log_base (avail - log_base) os = (sizes, log_size)"
  proof (cases others)
    case Nil
    then show ?thesis using f that [of "[]"] by simp
  next
    case (Cons p ps)
    have "length (map g others) = length others" for g :: "pane \<Rightarrow> pane" by simp
    with Cons show ?thesis using f that [of others] that [of "map _ others"] by (auto split: if_splits)
  qed
  have "log \<noteq> None \<or> os \<noteq> []" using some_open os by auto
  from compute_sizes_effect [OF c this] os
  have "sum_list sizes + log_size = max 0 avail \<and> length sizes = length others \<and> list_all ((\<le>) 0) sizes
      \<and> (if log \<noteq> None then min 7 (max 0 avail) \<le> log_size else log_size = 0)"
    by (auto simp: log_base_def min_def max_def split: if_splits)
  then show ?thesis unfolding log others_def [symmetric] by (auto simp: avail_def)
qed

theorem panes_fill_the_screen_witness:
  "fit_panes 40 (\<lambda>h p. if pn_kind p = TablePane then 9 else pn_desired p)
     [\<lparr> pn_kind = TablePane, pn_folded = False, pn_weight = 2, pn_desired = 30 \<rparr>,
      \<lparr> pn_kind = MonitorPane, pn_folded = True, pn_weight = 1, pn_desired = 6 \<rparr>,
      \<lparr> pn_kind = GraphPane, pn_folded = False, pn_weight = 1, pn_desired = 13 \<rparr>,
      \<lparr> pn_kind = LogPane, pn_folded = False, pn_weight = 1, pn_desired = 7 \<rparr>] = ([9, 20], 7)
    \<and> sum_list [9, 20 :: int] + 7 = 36"
proof -
  have f: "fit_panes 40 (\<lambda>h p. if pn_kind p = TablePane then 9 else pn_desired p)
     [\<lparr> pn_kind = TablePane, pn_folded = False, pn_weight = 2, pn_desired = 30 \<rparr>,
      \<lparr> pn_kind = MonitorPane, pn_folded = True, pn_weight = 1, pn_desired = 6 \<rparr>,
      \<lparr> pn_kind = GraphPane, pn_folded = False, pn_weight = 1, pn_desired = 13 \<rparr>,
      \<lparr> pn_kind = LogPane, pn_folded = False, pn_weight = 1, pn_desired = 7 \<rparr>] = ([9, 20], 7)"
    by code_simp
  show ?thesis using f panes_fill_the_screen [OF f] by simp
qed

text \<open>A fold ends the maximizing, and only the focused pane is ever maximized.\<close>

definition panes_ok :: "pane_state \<Rightarrow> bool" where
  "panes_ok s \<longleftrightarrow> (case ps_focus s of None \<Rightarrow> ps_maximized s = None
     | Some p \<Rightarrow> p < length (ps_folded s) \<and> (ps_maximized s = None \<or> ps_maximized s = Some p))"

lemma handle_pane_key_ok:
  "panes_ok s \<Longrightarrow> panes_ok (fst (handle_pane_key key s))
     \<and> length (ps_folded (fst (handle_pane_key key s))) = length (ps_folded s)"
  by (cases key) (auto simp: panes_ok_def handle_pane_key_def intro!: mod_less_divisor split: option.splits)

section \<open>Cells and grid of the RTT graphs\<close>

definition graph_max_visible_rows :: int where "graph_max_visible_rows = 3"
definition graph_min_width :: int where "graph_min_width = 10"
definition graph_label_width :: int where "graph_label_width = 7"
definition graph_preferred_row_height :: int where "graph_preferred_row_height = 11"

text \<open>Fewer rows are shown until each has seven lines, or one row is left.\<close>

function shrink_rows :: "int \<Rightarrow> int \<Rightarrow> int \<Rightarrow> int \<times> int" where
  "shrink_rows height visible row_height =
     (if visible > 1 \<and> row_height - 2 < 5
      then shrink_rows height (visible - 1) (max (height sdiv (visible - 1)) 2)
      else (visible, row_height))"
  by auto
termination
  by (relation "measure (\<lambda>(height, visible, row_height). nat visible)") auto

declare shrink_rows.simps [simp del]

definition graph_columns :: "int \<Rightarrow> int \<Rightarrow> int" where
  "graph_columns series width =
     (if series > 1 \<and> \<not> width < (graph_min_width + graph_label_width + 2) * 2 then 2 else 1)"

text \<open>Columns, rows in all, visible rows, and the width and height of a cell.\<close>

definition layout_graph :: "int \<Rightarrow> int \<Rightarrow> int \<Rightarrow> int \<times> int \<times> int \<times> int \<times> int" where
  "layout_graph series width height =
     (if series = 0 \<or> width \<le> 0 \<or> height \<le> 0 then (1, 0, 0, 0, 0)
      else let cols = graph_columns series width;
               rows = (series + cols - 1) sdiv cols;
               visible = min rows graph_max_visible_rows
           in case shrink_rows height visible (max (height sdiv visible) 2) of
                (visible', row_height) \<Rightarrow> (cols, rows, visible', width sdiv cols, row_height))"

definition clamp_scroll :: "int \<Rightarrow> int \<Rightarrow> int \<Rightarrow> int" where
  "clamp_scroll scroll rows visible =
     (let max_scroll = max (rows - visible) 0
      in if scroll < 0 then 0 else if scroll > max_scroll then max_scroll else scroll)"

definition adjust_plot_area :: "int \<Rightarrow> int \<Rightarrow> int \<times> int" where
  "adjust_plot_area graph_y graph_height =
     (let plot_height = (if graph_height > 1 then max (((graph_height - 1) sdiv 4) * 4) 1 + 1 else graph_height);
          plot_y = (if graph_height > 1 then graph_y + (graph_height - plot_height) else graph_y)
      in if plot_height > 1
         then let y = (if plot_y - 1 < graph_y then graph_y else plot_y - 1)
              in (y, if y + plot_height > graph_y + graph_height then (graph_y + graph_height) - y else plot_height)
         else (plot_y, plot_height))"

definition grid_steps_for_height :: "int \<Rightarrow> int list" where
  "grid_steps_for_height plot_height =
     (let total = max (plot_height - 1) 1; base = total sdiv 4; left = total smod 4;
          seg = map (\<lambda>i. if int i < left then base + 1 else base) [0..<4]
      in [seg ! 0, seg ! 0 + seg ! 1, seg ! 0 + seg ! 1 + seg ! 2, total])"

definition preferred_height :: "int \<Rightarrow> int \<Rightarrow> int" where
  "preferred_height series width =
     (case layout_graph series width (graph_max_visible_rows * graph_preferred_row_height) of
        (_, _, visible, _, _) \<Rightarrow> visible * graph_preferred_row_height + 2)"

lemma shrink_rows_effect:
  assumes "shrink_rows height visible row_height = (v, h)" and "1 \<le> visible" and "0 < height"
    and "row_height = max (height sdiv visible) 2"
  shows "1 \<le> v \<and> v \<le> visible \<and> h = max (height div v) 2 \<and> (1 < v \<longrightarrow> 7 \<le> h)
    \<and> (v < visible \<longrightarrow> height div (v + 1) < 7)"
  using assms
proof (induction height visible row_height rule: shrink_rows.induct)
  case (1 height visible row_height)
  show ?case
  proof (cases "visible > 1 \<and> row_height - 2 < 5")
    case True
    with 1(2) have "shrink_rows height (visible - 1) (max (height sdiv (visible - 1)) 2) = (v, h)"
      by (simp add: shrink_rows.simps [of height visible])
    from 1(1) [OF True this _ 1(4) refl] True 1(3,4,5) show ?thesis
      by (cases "v = visible - 1") (auto simp: sdiv_nonneg)
  next
    case False
    with 1(2) have "v = visible" "h = row_height" by (auto simp: shrink_rows.simps [of height visible] split: if_splits)
    with False 1(3,4,5) show ?thesis by (auto simp: sdiv_nonneg)
  qed
qed

text \<open>
  C?: The graph area is divided so that nothing is drawn outside it: for a positive number of graphs in
  a positive area there are one or two columns, two only when each has room for a plot and its labels,
  as many rows as the graphs need, at most three of them visible, and more than one only when each has
  seven lines; the columns do not exceed the width nor the visible rows the height (a single row keeps
  two lines), and every scroll position shows only existing rows.
\<close>

theorem graphs_stay_in_their_area:
  assumes "layout_graph series width height = (cols, rows, visible, col_width, row_height)"
    and "0 < series" and "0 < width" and "0 < height"
  shows "(cols = 1 \<or> cols = 2 \<and> 1 < series \<and> 19 \<le> col_width)
    \<and> (rows - 1) * cols < series \<and> series \<le> rows * cols
    \<and> 1 \<le> visible \<and> visible \<le> 3 \<and> visible \<le> rows
    \<and> cols * col_width \<le> width \<and> visible * row_height \<le> max height 2
    \<and> (visible = 1 \<or> 7 \<le> row_height)
    \<and> 0 \<le> clamp_scroll scroll rows visible \<and> clamp_scroll scroll rows visible + visible \<le> rows"
proof -
  have c: "cols = graph_columns series width" and r: "rows = (series + cols - 1) sdiv cols"
    and w: "col_width = width sdiv cols"
    and s: "shrink_rows height (min rows 3) (max (height sdiv (min rows 3)) 2) = (visible, row_height)"
    using assms by (auto simp: layout_graph_def graph_max_visible_rows_def Let_def split: prod.splits)
  have cols: "cols = 1 \<or> cols = 2 \<and> 1 < series \<and> 38 \<le> width"
    by (auto simp: c graph_columns_def graph_min_width_def graph_label_width_def)
  have rows: "rows = (series + cols - 1) div cols" "1 \<le> rows" "(rows - 1) * cols < series" "series \<le> rows * cols"
    using cols assms(2) by (auto simp: r sdiv_nonneg)
  note e = shrink_rows_effect [OF s _ assms(4) refl]
  have e: "1 \<le> visible" "visible \<le> min rows 3" "row_height = max (height div visible) 2" "1 < visible \<longrightarrow> 7 \<le> row_height"
    using e rows(2) by auto
  have "visible * row_height \<le> max height 2"
  proof (cases "visible = 1")
    case False
    then have "row_height = height div visible" using e by auto
    moreover have "visible * (height div visible) \<le> height"
      using e(1) minus_mod_eq_mult_div [of height visible] pos_mod_sign [of visible height] by linarith
    ultimately show ?thesis by simp
  qed (use e in auto)
  moreover have "cols * col_width \<le> width" "cols = 2 \<longrightarrow> 19 \<le> col_width"
    using cols assms(3) by (auto simp: w sdiv_nonneg)
  moreover have "0 \<le> clamp_scroll scroll rows visible" "clamp_scroll scroll rows visible + visible \<le> rows"
    using e by (auto simp: clamp_scroll_def Let_def max_def)
  ultimately show ?thesis using cols rows e by auto
qed

theorem graphs_stay_in_their_area_witness:
  "layout_graph 5 80 30 = (2, 3, 3, 40, 10) \<and> clamp_scroll 4 3 3 + 3 \<le> 3"
proof -
  have l: "layout_graph 5 80 30 = (2, 3, 3, 40, 10)" by code_simp
  show ?thesis using l graphs_stay_in_their_area [OF l, of 4] by simp
qed

text \<open>The plot stays inside its cell, and the quarter lines never move backwards.\<close>

lemma plot_inside_cell:
  assumes "0 < graph_height" and "adjust_plot_area graph_y graph_height = (y, h)"
  shows "graph_y \<le> y \<and> y + h \<le> graph_y + graph_height \<and> 0 < h
    \<and> (5 \<le> graph_height \<longrightarrow> (h - 1) mod 4 = 0)"
proof (cases "graph_height > 1")
  case True
  define q where "q = (graph_height - 1) div 4"
  have q: "0 \<le> q" "4 * q \<le> graph_height - 1" "5 \<le> graph_height \<longrightarrow> 1 \<le> q" using True by (auto simp: q_def)
  have "(graph_height - 1) sdiv 4 = q" using True by (simp add: sdiv_nonneg q_def)
  with assms True q show ?thesis
    by (auto simp: adjust_plot_area_def Let_def max_def mult.commute split: if_splits)
qed (use assms in \<open>auto simp: adjust_plot_area_def\<close>)

lemma grid_steps_ordered:
  assumes "grid_steps_for_height plot_height = [a, b, c, d]"
  shows "0 \<le> a \<and> a \<le> b \<and> b \<le> c \<and> c \<le> d \<and> d = max (plot_height - 1) 1
    \<and> (\<forall>g \<in> set [a, b - a, c - b, d - c]. d div 4 \<le> g \<and> g \<le> d div 4 + 1)"
proof -
  define t where "t = max (plot_height - 1) 1"
  have t: "1 \<le> t" "t sdiv 4 = t div 4" "t smod 4 = t mod 4" by (auto simp: t_def sdiv_nonneg smod_nonneg)
  obtain q m where q: "t div 4 = q" "t mod 4 = m" "t = 4 * q + m" "0 \<le> m" "m < 4" "0 \<le> q"
    using t(1) that [OF refl refl] by simp
  have "[0..<4] = [0, 1, 2, 3 :: nat]" by (simp add: upt_rec)
  then have "a = q + (if 0 < m then 1 else 0)" "b = a + q + (if 1 < m then 1 else 0)"
    "c = b + q + (if 2 < m then 1 else 0)" "d = t"
    using assms [unfolded grid_steps_for_height_def, folded t_def, unfolded t(2,3) q(1,2) Let_def]
    by (simp_all split: if_splits)
  moreover have "m = 0 \<or> m = 1 \<or> m = 2 \<or> m = 3" using q(4,5) by linarith
  ultimately show ?thesis unfolding t_def [symmetric] using q by auto
qed

definition text_line_count :: "string \<Rightarrow> nat" where
  "text_line_count s =
     (if s = [] then 0
      else length (filter (\<lambda>c. c = CHR 0x0A) (if last s = CHR 0x0A then butlast s else s)) + 1)"

end
