(* ===== verification/Ui_Table.thy ===== *)
theory Ui_Table
  imports Target_Specs Ui_Layout
begin

text \<open>
  The main table of the terminal UI (internal/ui: column.go, group_view.go, table_renderer.go,
  selection.go): its columns and their widths, its rows in flat, grouped and compact layout, the
  selected target and the window of rows that is drawn. Targets appear by their identifiers; the texts
  of the cells are parameters where only their widths matter.
\<close>

section \<open>Columns\<close>

record table_column =
  cl_name :: string
  cl_right :: bool
  cl_base :: int
  cl_min :: int
  cl_max :: int
  cl_dynamic :: bool
  cl_shrink :: int
  cl_grow :: int

definition mk_column :: "string \<Rightarrow> bool \<Rightarrow> int \<Rightarrow> int \<Rightarrow> int \<Rightarrow> bool \<Rightarrow> int \<Rightarrow> int \<Rightarrow> table_column" where
  "mk_column name right base lo hi dynamic shrink grow =
     \<lparr> cl_name = name, cl_right = right, cl_base = base, cl_min = lo, cl_max = hi, cl_dynamic = dynamic,
       cl_shrink = shrink, cl_grow = grow \<rparr>"

definition main_table_columns :: "bool \<Rightarrow> bool \<Rightarrow> bool \<Rightarrow> table_column list" where
  "main_table_columns dns asn ptr =
     [mk_column ''Src IP'' False 6 4 45 True 20 10,
      mk_column ''Dst IP'' False 6 8 60 True 10 0]
   @ (if dns then [mk_column ''DNS'' False 10 7 15 True 25 15] else [])
   @ (if asn then [mk_column ''ASN'' True 4 4 15 True 27 17] else [])
   @ (if ptr then [mk_column ''PTR'' False 12 8 40 True 28 18] else [])
   @ [mk_column ''Success'' True 8 5 10 False 80 40,
      mk_column ''Loss'' True 7 4 10 False 90 90,
      mk_column ''Loss Ratio'' True 10 6 12 False 70 80,
      mk_column ''RTT'' True 10 7 12 False 60 50,
      mk_column ''Avg'' True 10 7 12 False 50 60,
      mk_column ''Jitter'' True 10 7 12 False 40 70,
      mk_column ''Size'' True 6 4 8 False 120 100,
      mk_column ''MTU'' True 6 4 8 False 100 110,
      mk_column ''TTL'' True 5 3 6 False 110 120,
      mk_column ''Error'' False 30 8 30 False 0 20,
      mk_column ''Last Loss'' False 15 8 18 False 30 30]"

definition compact_table_columns :: "table_column list" where
  "compact_table_columns =
     [mk_column ''Host'' False 0 8 40 False 1 1,
      mk_column ''Path'' False 0 16 80 False 0 0,
      mk_column ''Stats'' False 0 18 80 False 2 2,
      mk_column ''Error'' False 0 8 0 False 3 3]"

text \<open>
  \<open>calcColumnWidths\<close>: a dynamic column is as wide as its name and its widest text; \<open>cells i\<close> are the
  texts of column \<open>i\<close> and \<open>width\<close> is the display width of a text (the runewidth package).
\<close>

definition calc_column_widths :: "(string \<Rightarrow> int) \<Rightarrow> (nat \<Rightarrow> string list) \<Rightarrow> table_column list \<Rightarrow> int list \<Rightarrow> int list" where
  "calc_column_widths width cells cols base =
     map (\<lambda>i. if cl_dynamic (cols ! i)
              then foldl (\<lambda>w t. if width t > w then width t else w) (width (cl_name (cols ! i))) (cells i)
              else base ! i) [0..<length base]"

text \<open>The base and maximum of the Error column become the widest known error.\<close>

definition with_error_width :: "int \<Rightarrow> table_column list \<Rightarrow> table_column list" where
  "with_error_width w cols =
     map (\<lambda>c. if cl_name c = ''Error'' then c \<lparr> cl_base := w, cl_max := w \<rparr> else c) cols"

section \<open>Rows\<close>

datatype row_kind = UngroupedRow | SpacerRow | HeaderRow | SubHeaderRow | TargetRow

record table_row =
  rw_kind :: row_kind
  rw_target :: "nat option"
  rw_group :: "nat option"
  rw_name :: string

definition mk_row :: "row_kind \<Rightarrow> nat option \<Rightarrow> nat option \<Rightarrow> string \<Rightarrow> table_row" where
  "mk_row k t g n = \<lparr> rw_kind = k, rw_target = t, rw_group = g, rw_name = n \<rparr>"

definition grouped_indices :: "target_group list \<Rightarrow> nat set" where
  "grouped_indices groups = set (concat (map gr_indices groups))"

definition ungrouped_rows :: "nat \<Rightarrow> target_group list \<Rightarrow> table_row list" where
  "ungrouped_rows n groups =
     map (\<lambda>i. mk_row UngroupedRow (Some i) None []) (filter (\<lambda>i. i \<notin> grouped_indices groups) [0..<n])"

definition group_section :: "nat \<Rightarrow> nat \<Rightarrow> target_group \<Rightarrow> table_row list" where
  "group_section n gi g =
     [mk_row HeaderRow None (Some gi) (gr_name g), mk_row SubHeaderRow None (Some gi) []]
     @ map (\<lambda>i. mk_row TargetRow (Some i) (Some gi) []) (filter (\<lambda>i. i < n) (gr_indices g))"

fun add_sections :: "nat \<Rightarrow> nat \<Rightarrow> target_group list \<Rightarrow> table_row list \<Rightarrow> table_row list" where
  "add_sections n gi [] rows = rows"
| "add_sections n gi (g # gs) rows =
     add_sections n (Suc gi) gs
       ((if rows \<noteq> [] then rows @ [mk_row SpacerRow None None []] else rows) @ group_section n gi g)"

definition build_group_rows :: "nat \<Rightarrow> target_group list \<Rightarrow> table_row list" where
  "build_group_rows n groups = add_sections n 0 groups (ungrouped_rows n groups)"

definition row_targets :: "table_row list \<Rightarrow> nat list" where
  "row_targets rows = List.map_filter rw_target rows"

section \<open>The table\<close>

record table =
  tb_targets :: "nat list"
  tb_groups :: "target_group list"
  tb_compact :: bool
  tb_row_map :: "table_row list"
  tb_row_count :: int
  tb_selected :: nat
  tb_scroll :: bool
  tb_offset :: int
  tb_widths :: "int list"

definition table_min_visible_rows :: int where "table_min_visible_rows = 10"
definition row_render_margin :: int where "row_render_margin = 5"

definition selected_index :: "table \<Rightarrow> nat option" where
  "selected_index tb = find (\<lambda>i. tb_targets tb ! i = tb_selected tb) [0..<length (tb_targets tb)]"

text \<open>The row of the selected target in the table, whose row 0 is the header; \<open>-1\<close> when there is none.\<close>

definition selected_row :: "table \<Rightarrow> int" where
  "selected_row tb = (case selected_index tb of
     None \<Rightarrow> -1
   | Some i \<Rightarrow>
       if tb_compact tb then 1 + int i * 2
       else if tb_groups tb \<noteq> [] then
         (case find (\<lambda>r. rw_target (tb_row_map tb ! r) = Some i) [0..<length (tb_row_map tb)] of
            Some r \<Rightarrow> int r + 1
          | None \<Rightarrow> -1)
       else int i + 1)"

definition scrolled_offset :: "int \<Rightarrow> int \<Rightarrow> int \<Rightarrow> int" where
  "scrolled_offset row visible offset =
     (let o1 = (if row < offset then row else offset)
      in if row \<ge> o1 + visible then row - visible + 1 else o1)"

definition reconcile_selection :: "int \<Rightarrow> table \<Rightarrow> table" where
  "reconcile_selection height tb0 =
     (let tb = (if selected_index tb0 = None \<and> tb_targets tb0 \<noteq> []
                then tb0 \<lparr> tb_selected := hd (tb_targets tb0), tb_scroll := True \<rparr> else tb0);
          visible = max 1 ((height - 3) sdiv 2);
          off = (if tb_scroll tb then scrolled_offset (selected_row tb - 1) visible (tb_offset tb) else tb_offset tb)
      in tb \<lparr> tb_scroll := False,
              tb_offset := max 0 (min off (max 0 (tb_row_count tb - 1 - visible))) \<rparr>)"

definition visible_data_rows :: "int \<Rightarrow> int" where
  "visible_data_rows height = max table_min_visible_rows ((height - 2) sdiv 2)"

definition visible_row_window :: "int \<Rightarrow> int \<Rightarrow> int \<Rightarrow> int \<times> int" where
  "visible_row_window height off rows =
     (max (off - row_render_margin) 0, min (off + visible_data_rows height + 1 + row_render_margin) rows)"

text \<open>
  \<open>chooseLayout\<close>: \<open>full\<close> is the fit of the full columns, \<open>compact\<close> that of the compact ones; when
  neither fits, the layout, the widths and the count of rows stay as they are.
\<close>

definition choose_layout :: "int list option \<Rightarrow> int list option \<Rightarrow> table \<Rightarrow> table" where
  "choose_layout full compact tb =
     (let n = length (tb_targets tb);
          tb1 = (case full of
              Some ws \<Rightarrow> tb \<lparr> tb_compact := False, tb_widths := ws, tb_row_count := int n + 1 \<rparr>
            | None \<Rightarrow> (case compact of
                Some ws \<Rightarrow> tb \<lparr> tb_compact := True, tb_widths := ws, tb_row_count := 2 * int n + 1 \<rparr>
              | None \<Rightarrow> tb))
      in if tb_groups tb1 \<noteq> [] \<and> \<not> tb_compact tb1
         then tb1 \<lparr> tb_row_map := build_group_rows n (tb_groups tb1),
                    tb_row_count := int (length (build_group_rows n (tb_groups tb1))) + 1 \<rparr>
         else tb1)"

text \<open>
  \<open>update\<close> as far as layout and selection go: \<open>source\<close> gives the live targets and groups
  (\<open>beforeUpdate\<close>), \<open>fits\<close> the widths that fit for them.
\<close>

definition pull_targets :: "(nat list \<times> target_group list) option \<Rightarrow> table \<Rightarrow> table" where
  "pull_targets src tb = (case src of None \<Rightarrow> tb | Some (ids, groups) \<Rightarrow> tb \<lparr> tb_targets := ids, tb_groups := groups \<rparr>)"

definition update_table ::
    "(nat list \<times> target_group list) option \<Rightarrow> int list option \<Rightarrow> int list option \<Rightarrow> int \<Rightarrow> table \<Rightarrow> table" where
  "update_table src full compact height tb =
     reconcile_selection height (choose_layout full compact (pull_targets src tb))"

definition table_order :: "table \<Rightarrow> nat list" where
  "table_order tb =
     (if tb_groups tb \<noteq> [] \<and> \<not> tb_compact tb
      then row_targets (build_group_rows (length (tb_targets tb)) (tb_groups tb))
      else [0..<length (tb_targets tb)])"

datatype move_key = MoveUp | MoveDown | MovePgUp | MovePgDn

definition move_delta :: "int \<Rightarrow> move_key \<Rightarrow> int" where
  "move_delta height key =
     (let page = max table_min_visible_rows ((height - 3) sdiv 2) in
      case key of MoveUp \<Rightarrow> -1 | MoveDown \<Rightarrow> 1 | MovePgUp \<Rightarrow> - page | MovePgDn \<Rightarrow> page)"

text \<open>\<open>moveSelection\<close> up to its \<open>update\<close>.\<close>

definition move_selection :: "(nat list \<times> target_group list) option \<Rightarrow> int \<Rightarrow> move_key \<Rightarrow> table \<Rightarrow> table" where
  "move_selection src height key tb0 =
     (let tb = pull_targets src tb0; order = table_order tb in
      if order = [] then tb
      else
        let i = (case find (\<lambda>k. tb_targets tb ! (order ! k) = tb_selected tb) [0..<length order] of
                   Some k \<Rightarrow> int k | None \<Rightarrow> 0);
            j = max 0 (min (int (length order) - 1) (i + move_delta height key))
        in tb \<lparr> tb_selected := tb_targets tb ! (order ! nat j), tb_scroll := True \<rparr>)"

section \<open>The rows show every target\<close>

lemma map_filter_targets: "List.map_filter rw_target (map (\<lambda>i. mk_row k (Some i) (g i) n) is) = is"
  by (induction "is") (auto simp: mk_row_def map_filter_simps)

lemma row_targets_append: "row_targets (xs @ ys) = row_targets xs @ row_targets ys"
  by (simp add: row_targets_def List.map_filter_def)

lemma row_targets_section: "row_targets (group_section n gi g) = filter (\<lambda>i. i < n) (gr_indices g)"
  unfolding group_section_def row_targets_append
  by (simp add: row_targets_def map_filter_targets) (simp add: mk_row_def map_filter_simps)

lemma row_targets_add_sections:
  "row_targets (add_sections n gi gs rows) = row_targets rows @ filter (\<lambda>i. i < n) (concat (map gr_indices gs))"
proof (induction gs arbitrary: gi rows)
  case (Cons g gs)
  have "row_targets [mk_row SpacerRow None None []] = []"
    by (simp add: row_targets_def mk_row_def map_filter_simps)
  then show ?case by (simp add: Cons row_targets_append row_targets_section)
qed simp

lemma row_targets_build:
  "row_targets (build_group_rows n groups)
     = filter (\<lambda>i. i \<notin> grouped_indices groups) [0..<n] @ filter (\<lambda>i. i < n) (concat (map gr_indices groups))"
  by (simp add: build_group_rows_def row_targets_add_sections ungrouped_rows_def)
    (simp add: row_targets_def map_filter_targets)

lemma set_row_targets_build: "set (row_targets (build_group_rows n groups)) = {..< n}"
  by (auto simp: row_targets_build grouped_indices_def)

text \<open>
  C?: The grouped table shows every target exactly once when the groups share no target: the ungrouped
  ones first in their order, then group by group, each group's members in its order, below a banner and a
  header of its own; indices past the targets are left out.
\<close>

theorem rows_show_each_target_once:
  assumes "distinct (concat (map gr_indices groups))"
  shows "distinct (row_targets (build_group_rows n groups))
    \<and> set (row_targets (build_group_rows n groups)) = {..< n}
    \<and> row_targets (build_group_rows n groups)
        = filter (\<lambda>i. i \<notin> grouped_indices groups) [0..<n] @ filter (\<lambda>i. i < n) (concat (map gr_indices groups))
    \<and> map rw_group (filter (\<lambda>r. rw_kind r = HeaderRow) (build_group_rows n groups)) = map Some [0..<length groups]"
proof -
  have h: "map rw_group (filter (\<lambda>r. rw_kind r = HeaderRow) (add_sections n gi gs rows))
      = map rw_group (filter (\<lambda>r. rw_kind r = HeaderRow) rows) @ map Some [gi..<gi + length gs]" for gi gs rows
  proof (induction gs arbitrary: gi rows)
    case (Cons g gs)
    have "[gi..<gi + length (g # gs)] = gi # [Suc gi..<Suc gi + length gs]" by (simp add: upt_rec)
    then show ?case
      by (simp add: Cons group_section_def) (simp add: mk_row_def filter_map comp_def)
  qed simp
  have "filter (\<lambda>r. rw_kind r = HeaderRow) (ungrouped_rows n groups) = []"
    by (simp add: ungrouped_rows_def mk_row_def filter_map comp_def)
  then have "map rw_group (filter (\<lambda>r. rw_kind r = HeaderRow) (build_group_rows n groups)) = map Some [0..<length groups]"
    using h by (simp add: build_group_rows_def)
  then show ?thesis
    using assms set_row_targets_build [of n groups] by (auto simp: row_targets_build grouped_indices_def)
qed

definition sample_groups :: "target_group list" where
  "sample_groups = [\<lparr> gr_name = ''web'', gr_indices = [3, 1] \<rparr>, \<lparr> gr_name = ''db'', gr_indices = [2] \<rparr>]"

theorem rows_show_each_target_once_witness:
  "row_targets (build_group_rows 4 sample_groups) = [0, 3, 1, 2]
   \<and> set (row_targets (build_group_rows 4 sample_groups)) = {..< 4}"
proof -
  have d: "distinct (concat (map gr_indices sample_groups))" by code_simp
  have "row_targets (build_group_rows 4 sample_groups) = [0, 3, 1, 2]" by code_simp
  then show ?thesis using rows_show_each_target_once [OF d, of 4] by blast
qed

section \<open>The selection\<close>

lemma find_index_Some:
  "find P [0..<n] = Some i \<Longrightarrow> i < n \<and> P i"
  by (auto simp: find_Some_iff)

lemma find_index_None: "find P [0..<n] = None \<longleftrightarrow> (\<forall>i < n. \<not> P i)"
  by (auto simp: find_None_iff)

lemma selected_index_Some: "selected_index tb = Some i \<Longrightarrow> i < length (tb_targets tb) \<and> tb_targets tb ! i = tb_selected tb"
  by (auto simp: selected_index_def dest: find_index_Some)

lemma selected_index_None: "selected_index tb = None \<longleftrightarrow> tb_selected tb \<notin> set (tb_targets tb)"
  by (auto simp: selected_index_def find_index_None in_set_conv_nth)

text \<open>What \<open>chooseLayout\<close> leaves consistent: the count of rows, and the map of the rows in grouped layout.\<close>

definition layout_ok :: "table \<Rightarrow> bool" where
  "layout_ok tb \<longleftrightarrow>
     (let n = length (tb_targets tb) in
      if tb_compact tb then tb_row_count tb = 2 * int n + 1
      else if tb_groups tb \<noteq> [] then tb_row_map tb = build_group_rows n (tb_groups tb)
             \<and> tb_row_count tb = int (length (tb_row_map tb)) + 1
      else tb_row_count tb = int n + 1)"

lemma choose_layout_ok: "full \<noteq> None \<or> compact \<noteq> None \<Longrightarrow> layout_ok (choose_layout full compact tb)"
  by (cases full; cases compact; cases "tb_groups tb = []") (simp_all add: layout_ok_def choose_layout_def Let_def)

lemma selected_row_keeps: "selected_row (tb \<lparr> tb_scroll := a, tb_offset := b \<rparr>) = selected_row tb"
  by (simp add: selected_row_def selected_index_def cong: option.case_cong if_cong)

lemma choose_layout_keeps [simp]:
  "tb_targets (choose_layout full compact tb) = tb_targets tb" "tb_groups (choose_layout full compact tb) = tb_groups tb"
  "tb_selected (choose_layout full compact tb) = tb_selected tb" "tb_scroll (choose_layout full compact tb) = tb_scroll tb"
  "tb_offset (choose_layout full compact tb) = tb_offset tb"
  by (auto simp: choose_layout_def Let_def split: option.splits)

lemma row_targets_nth: "i \<in> set (row_targets rows) \<longleftrightarrow> (\<exists>r < length rows. rw_target (rows ! r) = Some i)"
proof -
  have "set (row_targets rows) = {i. \<exists>r \<in> set rows. rw_target r = Some i}"
    by (induction rows) (auto simp: row_targets_def map_filter_simps split: option.splits)
  then show ?thesis by (fastforce simp: in_set_conv_nth)
qed

lemma selected_row_in_table:
  assumes "layout_ok tb" and "tb_selected tb \<in> set (tb_targets tb)"
  shows "1 \<le> selected_row tb \<and> selected_row tb + (if tb_compact tb then 1 else 0) \<le> tb_row_count tb - 1"
proof -
  obtain i where i: "selected_index tb = Some i" using assms(2) selected_index_None by fastforce
  then have n: "i < length (tb_targets tb)" by (rule selected_index_Some [THEN conjunct1])
  show ?thesis
  proof (cases "tb_compact tb \<or> tb_groups tb = []")
    case False
    then have m: "tb_row_map tb = build_group_rows (length (tb_targets tb)) (tb_groups tb)"
      "tb_row_count tb = int (length (tb_row_map tb)) + 1"
      using assms(1) by (auto simp: layout_ok_def Let_def)
    have "i \<in> set (row_targets (tb_row_map tb))" using n by (simp add: m set_row_targets_build)
    then have "find (\<lambda>r. rw_target (tb_row_map tb ! r) = Some i) [0..<length (tb_row_map tb)] \<noteq> None"
      unfolding find_index_None row_targets_nth by auto
    then obtain r where "find (\<lambda>r. rw_target (tb_row_map tb ! r) = Some i) [0..<length (tb_row_map tb)] = Some r" by auto
    with find_index_Some [OF this] i m False show ?thesis by (simp add: selected_row_def)
  qed (use i n assms(1) in \<open>auto simp: selected_row_def layout_ok_def Let_def\<close>)
qed

lemma scrolled_offset_shows:
  "1 \<le> visible \<Longrightarrow> scrolled_offset row visible off \<le> row \<and> row < scrolled_offset row visible off + visible"
  by (auto simp: scrolled_offset_def Let_def)


section \<open>Walking through the table\<close>

lemma table_order_covers:
  assumes "distinct (concat (map gr_indices (tb_groups tb)))"
  shows "distinct (table_order tb) \<and> set (table_order tb) = {..< length (tb_targets tb)}"
  using assms set_row_targets_build [of "length (tb_targets tb)" "tb_groups tb"]
  by (auto simp: table_order_def row_targets_build grouped_indices_def)

lemma find_unique:
  assumes "k < n" and "P k" and "\<And>j. j < n \<Longrightarrow> P j \<Longrightarrow> j = k"
  shows "find P [0..<n] = Some k"
proof (cases "find P [0..<n]")
  case None
  then show ?thesis using assms(1,2) by (simp add: find_index_None)
next
  case (Some j)
  then show ?thesis using assms(3) [of j] find_index_Some [OF Some] by simp
qed

lemma move_selection_moves:
  assumes "distinct (tb_targets tb)" and "distinct (concat (map gr_indices (tb_groups tb)))"
    and "k < length (tb_targets tb)" and "tb_selected tb = tb_targets tb ! (table_order tb ! k)"
  shows "move_selection None height key tb = tb \<lparr> tb_selected :=
       tb_targets tb ! (table_order tb ! nat (max 0 (min (int (length (tb_targets tb)) - 1) (int k + move_delta height key)))),
       tb_scroll := True \<rparr>"
proof -
  define order where "order = table_order tb"
  have o: "distinct order" "set order = {..< length (tb_targets tb)}"
    using table_order_covers [OF assms(2)] by (simp_all add: order_def)
  have len: "length order = length (tb_targets tb)" using distinct_card [OF o(1)] o(2) by simp
  have inside: "order ! j < length (tb_targets tb)" if "j < length order" for j
    using o(2) that nth_mem by fastforce
  have "find (\<lambda>j. tb_targets tb ! (order ! j) = tb_selected tb) [0..<length order] = Some k"
    using assms(1,3,4) o(1) inside len
    by (intro find_unique) (auto simp: order_def [symmetric] nth_eq_iff_index_eq)
  moreover have "order \<noteq> []" using len assms(3) by auto
  ultimately show ?thesis
    by (simp add: move_selection_def pull_targets_def order_def [symmetric] Let_def len)
qed

lemma table_order_keeps [simp]: "table_order (tb \<lparr> tb_selected := a, tb_scroll := b \<rparr>) = table_order tb"
  by (simp add: table_order_def)

text \<open>C30: 
  C?: Every target can be reached with the arrow keys, in the order in which the table shows it: when
  targets have identifiers of their own and groups share no target, pressing Down \<open>j\<close> times from the first
  row shown selects the \<open>j\<close>-th, every target is one of them, and Up takes the last step back; at the ends
  Up and Down leave the selection where it is.
\<close>

theorem arrows_reach_every_target:
  assumes "distinct (tb_targets tb)" and "distinct (concat (map gr_indices (tb_groups tb)))"
    and "tb_selected tb = tb_targets tb ! (table_order tb ! 0)" and "j < length (tb_targets tb)"
  shows "tb_selected ((move_selection None height MoveDown ^^ j) tb) = tb_targets tb ! (table_order tb ! j)
    \<and> set (table_order tb) = {..< length (tb_targets tb)}
    \<and> tb_selected (move_selection None height MoveUp ((move_selection None height MoveDown ^^ j) tb))
        = tb_targets tb ! (table_order tb ! (j - 1))
    \<and> tb_selected ((move_selection None height MoveDown ^^ length (tb_targets tb)) tb)
        = tb_targets tb ! (table_order tb ! (length (tb_targets tb) - 1))"
proof -
  define at where "at = (\<lambda>i. tb_targets tb ! (table_order tb ! i))"
  have walk: "\<exists>b. (move_selection None height MoveDown ^^ i) tb
      = tb \<lparr> tb_selected := at (min i (length (tb_targets tb) - 1)), tb_scroll := b \<rparr>" for i
  proof (induction i)
    case 0
    have "tb = tb \<lparr> tb_selected := at 0, tb_scroll := tb_scroll tb \<rparr>" using assms(3) by (simp add: at_def)
    then show ?case by (intro exI [of _ "tb_scroll tb"]) simp
  next
    case (Suc i)
    then obtain b where i: "(move_selection None height MoveDown ^^ i) tb
      = tb \<lparr> tb_selected := at (min i (length (tb_targets tb) - 1)), tb_scroll := b \<rparr>" by auto
    define n where "n = length (tb_targets tb)"
    have "nat (max 0 (min (int n - 1) (int (min i (n - 1)) + 1))) = min (Suc i) (n - 1)"
      using assms(4) by (auto simp: n_def min_def max_def)
    then show ?case
      using move_selection_moves [of "tb \<lparr> tb_selected := at (min i (n - 1)), tb_scroll := b \<rparr>" "min i (n - 1)" height MoveDown]
        i assms by (auto simp: n_def at_def move_delta_def Let_def)
  qed
  obtain b where j: "(move_selection None height MoveDown ^^ j) tb = tb \<lparr> tb_selected := at j, tb_scroll := b \<rparr>"
  proof -
    have "min j (length (tb_targets tb) - 1) = j" using assms(4) by simp
    then show thesis using walk [of j] that by auto
  qed
  have up: "tb_selected (move_selection None height MoveUp (tb \<lparr> tb_selected := at j, tb_scroll := b \<rparr>)) = at (j - 1)"
    using move_selection_moves [of "tb \<lparr> tb_selected := at j, tb_scroll := b \<rparr>" j height MoveUp] assms
    by (auto simp: at_def move_delta_def Let_def max_def min_def nat_diff_distrib)
  obtain c where "(move_selection None height MoveDown ^^ length (tb_targets tb)) tb
      = tb \<lparr> tb_selected := at (length (tb_targets tb) - 1), tb_scroll := c \<rparr>"
  proof -
    have "min (length (tb_targets tb)) (length (tb_targets tb) - 1) = length (tb_targets tb) - 1" by simp
    then show thesis using walk [of "length (tb_targets tb)"] that by auto
  qed
  with j up show ?thesis using table_order_covers [OF assms(2)] by (simp add: at_def)
qed

definition sample_table :: table where
  "sample_table = \<lparr> tb_targets = [11, 12, 13, 14], tb_groups = sample_groups, tb_compact = False, tb_row_map = [],
     tb_row_count = 0, tb_selected = 11, tb_scroll = False, tb_offset = 0, tb_widths = [] \<rparr>"

theorem arrows_reach_every_target_witness:
  "tb_selected ((move_selection None 30 MoveDown ^^ 3) sample_table) = 13
   \<and> distinct (tb_targets sample_table) \<and> distinct (concat (map gr_indices (tb_groups sample_table)))"
proof -
  have h: "distinct (tb_targets sample_table)" "distinct (concat (map gr_indices (tb_groups sample_table)))"
    "tb_selected sample_table = tb_targets sample_table ! (table_order sample_table ! 0)"
    "3 < length (tb_targets sample_table)" by code_simp+
  have "tb_targets sample_table ! (table_order sample_table ! 3) = 13" by code_simp
  with arrows_reach_every_target [OF h] h show ?thesis by simp
qed


section \<open>Optional columns\<close>

definition base_columns :: "string list" where
  "base_columns = map cl_name (main_table_columns False False False)"

definition priority_order :: "(table_column \<Rightarrow> int) \<Rightarrow> table_column list \<Rightarrow> string list" where
  "priority_order f cols = map (\<lambda>i. cl_name (cols ! i)) (indices_by_priority (map f cols))"

text \<open>Columns carry their own priorities: showing DNS, ASN or PTR leaves the order of the others as it is.\<close>

lemma optional_columns_keep_order:
  "list_all (\<lambda>(dns, asn, ptr).
      filter (\<lambda>c. c \<in> set base_columns) (priority_order cl_shrink (main_table_columns dns asn ptr))
        = priority_order cl_shrink (main_table_columns False False False)
      \<and> filter (\<lambda>c. c \<in> set base_columns) (priority_order cl_grow (main_table_columns dns asn ptr))
        = priority_order cl_grow (main_table_columns False False False)
      \<and> list_all (\<lambda>c. cl_min c \<le> cl_max c) (main_table_columns dns asn ptr))
    [(a, b, c). a \<leftarrow> [False, True], b \<leftarrow> [False, True], c \<leftarrow> [False, True]]"
  by code_simp

end
