(* ===== verification/Ui_Session.thy ===== *)
theory Ui_Session
  imports Go_Text "HOL-Library.Word"
begin

text \<open>
  The terminal UI's operations (internal/ui: session.go, input_handler.go, run_support.go, view_state.go
  and the log of alerts.go): the session with its worker and mailbox, the keys that stop, restart and
  reset the measurement, and the log pane. Widgets are the tview library; what the model keeps of them
  is the text of the footer and the log.
\<close>

section \<open>The log\<close>

definition error_log_max_size :: nat where "error_log_max_size = 1000"

definition append_error_log :: "string list \<Rightarrow> string \<Rightarrow> string list" where
  "append_error_log logs msg =
     (let logs' = logs @ [msg] in if length logs' > error_log_max_size then tl logs' else logs')"

lemma append_error_log_last_lines:
  "length logs \<le> error_log_max_size \<Longrightarrow>
     append_error_log logs msg = lastn error_log_max_size (logs @ [msg])"
proof (cases "length logs = error_log_max_size")
  case True
  then show ?thesis by (cases logs) (auto simp: append_error_log_def lastn_def error_log_max_size_def)
qed (auto simp: append_error_log_def lastn_def)

definition queue_full_log :: string where
  "queue_full_log = ''[yellow]Operation queue full; please try again[-]''"

section \<open>When to redraw\<close>

definition redraw_floor :: duration where "redraw_floor = second"
definition min_ui_refresh :: duration where "min_ui_refresh = 200 * millisecond"
definition fast_ui_refresh :: duration where "fast_ui_refresh = 100 * millisecond"

definition should_redraw :: "64 word \<Rightarrow> 64 word \<Rightarrow> duration \<Rightarrow> bool" where
  "should_redraw gen last_gen since \<longleftrightarrow> gen \<noteq> last_gen \<or> since \<ge> redraw_floor"

definition refresh_tick_interval :: "duration \<Rightarrow> duration" where
  "refresh_tick_interval interval =
     (if interval < min_ui_refresh then fast_ui_refresh else min (interval sdiv 2) redraw_floor)"

text \<open>However long the ping interval, a tick comes at least every second and never faster than 100 ms.\<close>

lemma refresh_tick_bounds:
  "100 * millisecond \<le> refresh_tick_interval interval \<and> refresh_tick_interval interval \<le> redraw_floor"
  by (auto simp: refresh_tick_interval_def min_ui_refresh_def fast_ui_refresh_def redraw_floor_def sdiv_nonneg)

section \<open>The session\<close>

definition session_queue_size :: nat where "session_queue_size = 32"

datatype monitor_state = MonRunning | MonStopping | MonStopped | MonRestarting

text \<open>
  A callback handed to the worker. \<open>ResetEach\<close> is the reset of a caller without an own one, with whether
  the measurement was running; \<open>HostTask\<close> adds or deletes a host by name.
\<close>

datatype ui_task =
    StopTask
  | RestartTask
  | ResetTask
  | ResetEach bool
  | HostTask string string
  | DeleteTask nat string
  | SaveTask string string nat

text \<open>A message for the UI thread.\<close>

datatype ui_update =
    StopDone
  | RestartDone "string option"
  | HostFailed string string
  | DeleteDone nat string "string option"
  | SaveDone string "string option"
  | Redraw
  | ExternalLog string
  | ReloadRequested
  | CountFinished

text \<open>
  \<open>ui_busy\<close> is the callback the worker runs, \<open>ui_posting\<close> the message it waits to put into the mailbox.
\<close>

record ui_session =
  ui_done :: bool
  ui_tasks :: "ui_task list"
  ui_updates :: "ui_update list"
  ui_busy :: "ui_task option"
  ui_posting :: "ui_update option"
  ui_app_stopped :: bool
  ui_state :: monitor_state
  ui_log :: "string list"
  ui_footer :: string

definition append_log :: "string \<Rightarrow> ui_session \<Rightarrow> ui_session" where
  "append_log msg s = s \<lparr> ui_log := append_error_log (ui_log s) msg \<rparr>"

definition session_stop :: "ui_session \<Rightarrow> ui_session" where
  "session_stop s = s \<lparr> ui_done := True \<rparr>"

definition session_submit :: "ui_task \<Rightarrow> ui_session \<Rightarrow> ui_session \<times> bool" where
  "session_submit t s =
     (if ui_done s then (s, False)
      else if length (ui_tasks s) < session_queue_size then (s \<lparr> ui_tasks := ui_tasks s @ [t] \<rparr>, True)
      else (s, False))"

text \<open>\<open>Post\<close> waits for room in the mailbox: no result means that the producer is still waiting.\<close>

definition session_post :: "ui_update \<Rightarrow> ui_session \<Rightarrow> (ui_session \<times> bool) option" where
  "session_post u s =
     (if ui_done s then Some (s, False)
      else if length (ui_updates s) < session_queue_size then Some (s \<lparr> ui_updates := ui_updates s @ [u] \<rparr>, True)
      else None)"

text \<open>The worker \<open>runCallbacks\<close>: it takes a callback, runs it, and posts what the callback posts.\<close>

definition worker_take :: "ui_session \<Rightarrow> ui_session option" where
  "worker_take s =
     (if ui_done s \<or> ui_busy s \<noteq> None \<or> ui_posting s \<noteq> None then None
      else case ui_tasks s of [] \<Rightarrow> None
        | t # ts \<Rightarrow> Some (s \<lparr> ui_tasks := ts, ui_busy := Some t \<rparr>))"

definition update_of_task :: "ui_task \<Rightarrow> string option \<Rightarrow> ui_update option" where
  "update_of_task t err = (case t of
     StopTask \<Rightarrow> Some StopDone
   | RestartTask \<Rightarrow> Some (RestartDone err)
   | ResetTask \<Rightarrow> None
   | ResetEach _ \<Rightarrow> None
   | HostTask action _ \<Rightarrow> map_option (HostFailed action) err
   | DeleteTask i host \<Rightarrow> Some (DeleteDone i host err)
   | SaveTask path _ _ \<Rightarrow> Some (SaveDone path err))"

definition callback_returns :: "string option \<Rightarrow> ui_session \<Rightarrow> ui_session option" where
  "callback_returns err s =
     map_option (\<lambda>t. s \<lparr> ui_busy := None, ui_posting := update_of_task t err \<rparr>) (ui_busy s)"

definition worker_posts :: "ui_session \<Rightarrow> ui_session option" where
  "worker_posts s = (case ui_posting s of
     None \<Rightarrow> None
   | Some u \<Rightarrow> map_option (\<lambda>r. (fst r) \<lparr> ui_posting := None \<rparr>) (session_post u s))"

section \<open>Messages on the UI thread\<close>

definition footer_help_text :: string where
  "footer_help_text =
     ''Enter Detail | Tab Pane | f Fold | z Max | w Save | a Add | d Del | s Stop | q Quit''"

definition squote :: string where "squote = [CHR 0x27]"

definition state_text :: "monitor_state \<Rightarrow> string" where
  "state_text st = (case st of
     MonRunning \<Rightarrow> footer_help_text
   | MonStopping \<Rightarrow> ''Stopping... Press '' @ squote @ ''S'' @ squote @ '' to restart after stop, '' @ squote @ ''q'' @ squote @ '' to quit''
   | MonStopped \<Rightarrow> ''Stopped. Press '' @ squote @ ''S'' @ squote @ '' to restart, '' @ squote @ ''q'' @ squote @ '' to quit, '' @ squote @ ''R'' @ squote @ '' to reset stats''
   | MonRestarting \<Rightarrow> ''Restarting... Press '' @ squote @ ''q'' @ squote @ '' to quit'')"

definition show_state :: "ui_session \<Rightarrow> ui_session" where
  "show_state s = s \<lparr> ui_footer := state_text (ui_state s) \<rparr>"

definition log_line :: "string \<Rightarrow> string \<Rightarrow> string \<Rightarrow> string" where
  "log_line color stamp msg = ''['' @ color @ '']['' @ stamp @ ''] '' @ msg @ ''[-]''"

text \<open>\<open>notifyResult\<close>; \<open>esc\<close> is tview's escaping of colour tags.\<close>

definition notify_result :: "(string \<Rightarrow> string) \<Rightarrow> string \<Rightarrow> bool \<Rightarrow> ui_session \<Rightarrow> ui_session" where
  "notify_result esc message failed s =
     (let txt = ''['' @ (if failed then ''red'' else ''green'') @ '']'' @ esc message @ ''[-]''
      in (append_log txt s) \<lparr> ui_footer := txt \<rparr>)"

text \<open>The UTF-8 text appended to the host's name once it is deleted.\<close>

definition deleted_suffix :: string where
  "deleted_suffix = '' '' @ [CHR 0xE3, CHR 0x82, CHR 0x92, CHR 0xE5, CHR 0x89, CHR 0x8A, CHR 0xE9, CHR 0x99, CHR 0xA4,
     CHR 0xE3, CHR 0x81, CHR 0x97, CHR 0xE3, CHR 0x81, CHR 0xBE, CHR 0xE3, CHR 0x81, CHR 0x97, CHR 0xE3, CHR 0x81, CHR 0x9F]"

text \<open>What the messages do: after a stop, a restart, a host's addition or deletion, a report, a reload, the last probe.\<close>

definition stop_done :: "ui_session \<Rightarrow> ui_session" where
  "stop_done s = (if ui_state s = MonStopping then show_state (s \<lparr> ui_state := MonStopped \<rparr>) else s)"

definition restart_done :: "string \<Rightarrow> string option \<Rightarrow> ui_session \<Rightarrow> ui_session" where
  "restart_done stamp err s = (case err of
     Some e \<Rightarrow> append_log (log_line ''red'' stamp (''Restart failed: '' @ e)) (show_state (s \<lparr> ui_state := MonStopped \<rparr>))
   | None \<Rightarrow> show_state (s \<lparr> ui_state := MonRunning \<rparr>))"

definition host_failed :: "string \<Rightarrow> string \<Rightarrow> string \<Rightarrow> ui_session \<Rightarrow> ui_session" where
  "host_failed stamp action err s = append_log (log_line ''red'' stamp (action @ '' host error: '' @ err)) s"

definition delete_done :: "(string \<Rightarrow> string) \<Rightarrow> string \<Rightarrow> string option \<Rightarrow> ui_session \<Rightarrow> ui_session" where
  "delete_done esc host err s = (case err of
     Some e \<Rightarrow> notify_result esc (''Delete target: '' @ e) True s
   | None \<Rightarrow> notify_result esc (host @ deleted_suffix) False s)"

definition save_done :: "(string \<Rightarrow> string) \<Rightarrow> string \<Rightarrow> string option \<Rightarrow> ui_session \<Rightarrow> ui_session" where
  "save_done esc path err s = (case err of
     Some e \<Rightarrow> notify_result esc (''Save report: '' @ e) True s
   | None \<Rightarrow> notify_result esc (''Saved report: '' @ path) False s)"

definition reload_requested :: "string \<Rightarrow> ui_session \<Rightarrow> ui_session" where
  "reload_requested stamp s =
     (session_stop (append_log (log_line ''yellow'' stamp ''Reloading configuration...'') s)) \<lparr> ui_app_stopped := True \<rparr>"

definition count_finished :: "ui_session \<Rightarrow> ui_session" where
  "count_finished s =
     s \<lparr> ui_footer := ''Finished. Press '' @ squote @ ''q'' @ squote @ '' to quit, '' @ squote @ ''R'' @ squote @ '' to reset stats'' \<rparr>"

definition run_update :: "(string \<Rightarrow> string) \<Rightarrow> string \<Rightarrow> ui_update \<Rightarrow> ui_session \<Rightarrow> ui_session" where
  "run_update esc stamp u s = (case u of
     StopDone \<Rightarrow> stop_done s
   | RestartDone err \<Rightarrow> restart_done stamp err s
   | HostFailed action err \<Rightarrow> host_failed stamp action err s
   | DeleteDone _ host err \<Rightarrow> delete_done esc host err s
   | SaveDone path err \<Rightarrow> save_done esc path err s
   | Redraw \<Rightarrow> s
   | ExternalLog msg \<Rightarrow> append_log msg s
   | ReloadRequested \<Rightarrow> reload_requested stamp s
   | CountFinished \<Rightarrow> count_finished s)"

lemmas run_update_defs = run_update_def stop_done_def restart_done_def host_failed_def delete_done_def save_done_def
  reload_requested_def count_finished_def

text \<open>The wake-up key delivers as many messages as there are when it arrives, none once the session stops.\<close>

fun deliver :: "(string \<Rightarrow> string) \<Rightarrow> string \<Rightarrow> nat \<Rightarrow> ui_session \<Rightarrow> ui_session" where
  "deliver esc stamp 0 s = s"
| "deliver esc stamp (Suc n) s =
     (if ui_done s then s
      else case ui_updates s of
          [] \<Rightarrow> s
        | u # us \<Rightarrow> deliver esc stamp n (run_update esc stamp u (s \<lparr> ui_updates := us \<rparr>)))"

definition wake_event :: "(string \<Rightarrow> string) \<Rightarrow> string \<Rightarrow> ui_session \<Rightarrow> ui_session" where
  "wake_event esc stamp s = deliver esc stamp (length (ui_updates s)) s"

section \<open>The key handler\<close>

datatype ui_focus = FocusInput | FocusTable | FocusElsewhere

datatype nav_key = NavUp | NavDown | NavPgUp | NavPgDn

datatype ui_key = KEnter | KNav nav_key | KRune char | KOther

text \<open>Which callbacks there are.\<close>

record handler_deps =
  hd_restart :: bool
  hd_reset :: bool
  hd_add_host :: bool
  hd_delete_host :: bool
  hd_delete_selected :: bool
  hd_details :: bool
  hd_navigate :: bool

datatype key_effect =
    PassedOn
  | DetailsOpened
  | Navigated nav_key
  | Scrolled nav_key
  | AddPrompt
  | DeleteSelected
  | DeletePrompt

definition observe_measurement :: "string option \<Rightarrow> ui_session \<Rightarrow> ui_session" where
  "observe_measurement measured s =
     (case measured of
        None \<Rightarrow> s
      | Some st \<Rightarrow>
          if ui_state s = MonRunning \<or> ui_state s = MonStopped then
            (if st = ''stopped'' \<or> st = ''finished'' then s \<lparr> ui_state := MonStopped \<rparr>
             else if st = ''running'' then s \<lparr> ui_state := MonRunning \<rparr>
             else s)
          else s)"

definition handler_submit :: "ui_task \<Rightarrow> ui_session \<Rightarrow> ui_session \<times> bool" where
  "handler_submit t s =
     (case session_submit t s of (s', ok) \<Rightarrow> if ok then (s', True) else (append_log queue_full_log s', False))"

definition stop_key :: "string \<Rightarrow> ui_session \<Rightarrow> ui_session" where
  "stop_key stamp s =
     (if ui_state s \<noteq> MonRunning then s
      else
        case handler_submit StopTask
               (append_log (log_line ''yellow'' stamp ''Stop requested by user'') (s \<lparr> ui_state := MonStopping \<rparr>)) of
          (s', ok) \<Rightarrow> if ok then show_state s' else s' \<lparr> ui_state := MonRunning \<rparr>)"

definition restart_key :: "handler_deps \<Rightarrow> string \<Rightarrow> ui_session \<Rightarrow> ui_session" where
  "restart_key d stamp s =
     (if ui_state s \<noteq> MonStopping \<and> ui_state s \<noteq> MonStopped \<or> \<not> hd_restart d then s
      else
        case handler_submit RestartTask
               (append_log (log_line ''yellow'' stamp ''Restart requested by user'') (s \<lparr> ui_state := MonRestarting \<rparr>)) of
          (s', ok) \<Rightarrow> show_state (if ok then s' else s' \<lparr> ui_state := ui_state s \<rparr>))"

definition reset_key :: "handler_deps \<Rightarrow> ui_session \<Rightarrow> ui_session" where
  "reset_key d s =
     (let s1 = s \<lparr> ui_log := [] \<rparr> in
      if hd_reset d then fst (handler_submit ResetTask s1)
      else fst (handler_submit (ResetEach (ui_state s = MonRunning \<or> ui_state s = MonRestarting)) s1))"

definition rune_key :: "handler_deps \<Rightarrow> string \<Rightarrow> char \<Rightarrow> ui_session \<Rightarrow> ui_session \<times> key_effect" where
  "rune_key d stamp c s =
     (if c = CHR ''a'' \<and> hd_add_host d then (s, AddPrompt)
      else if c = CHR ''d'' \<and> hd_delete_selected d then (s, DeleteSelected)
      else if c = CHR ''d'' \<and> hd_delete_host d then (s, DeletePrompt)
      else if c = CHR ''q'' then ((session_stop s) \<lparr> ui_app_stopped := True \<rparr>, PassedOn)
      else if c = CHR ''s'' then (stop_key stamp s, PassedOn)
      else if c = CHR ''S'' then (restart_key d stamp s, PassedOn)
      else if c = CHR ''R'' then (reset_key d s, PassedOn)
      else (s, PassedOn))"

definition handle_key ::
    "handler_deps \<Rightarrow> string option \<Rightarrow> string \<Rightarrow> ui_focus \<Rightarrow> ui_key \<Rightarrow> ui_session \<Rightarrow> ui_session \<times> key_effect" where
  "handle_key d measured stamp focus key s =
     (let s1 = observe_measurement measured s in
      if focus = FocusInput then (s1, PassedOn)
      else if focus = FocusTable \<and> key = KEnter \<and> hd_details d then (s1, DetailsOpened)
      else case key of
          KNav k \<Rightarrow> if focus = FocusTable then (s1, if hd_navigate d then Navigated k else Scrolled k) else (s1, PassedOn)
        | KRune c \<Rightarrow> rune_key d stamp c s1
        | _ \<Rightarrow> (s1, PassedOn))"

text \<open>Enter in the input for a host to add or delete, once trimmed; \<open>wired\<close> says that there is a callback.\<close>

definition host_entered :: "string \<Rightarrow> string \<Rightarrow> bool \<Rightarrow> ui_session \<Rightarrow> ui_session" where
  "host_entered action txt wired s =
     (let host = trim_space txt in
      if host \<noteq> [] \<and> wired
      then (case session_submit (HostTask action host) s of
              (s', ok) \<Rightarrow> if ok then s' else append_log queue_full_log s')
      else s)"

section \<open>The refresh loop\<close>

record redraw_loop =
  rl_last_gen :: "64 word"
  rl_last_redraw :: gotime
  rl_log_open :: bool
  rl_done_open :: bool
  rl_running :: bool

datatype refresh_case =
    TickCase "64 word" gotime
  | LogReceived string
  | LogClosed
  | CloseRequested
  | CountDone
  | CountClosed
  | SessionDone

text \<open>One round of the loop's \<open>select\<close>: the loop afterwards and what it posts.\<close>

definition refresh_round :: "refresh_case \<Rightarrow> redraw_loop \<Rightarrow> redraw_loop \<times> ui_update option" where
  "refresh_round c l =
     (if \<not> rl_running l then (l, None)
      else case c of
        TickCase gen now \<Rightarrow>
          if should_redraw gen (rl_last_gen l) (now - rl_last_redraw l)
          then (l \<lparr> rl_last_gen := gen, rl_last_redraw := now \<rparr>, Some Redraw)
          else (l, None)
      | LogReceived msg \<Rightarrow> if rl_log_open l then (l, Some (ExternalLog msg)) else (l, None)
      | LogClosed \<Rightarrow> (l \<lparr> rl_log_open := False \<rparr>, None)
      | CloseRequested \<Rightarrow> (l \<lparr> rl_running := False \<rparr>, Some ReloadRequested)
      | CountDone \<Rightarrow> if rl_done_open l then (l, Some CountFinished) else (l, None)
      | CountClosed \<Rightarrow>
          if rl_done_open l then (l \<lparr> rl_done_open := False \<rparr>, Some CountFinished) else (l, None)
      | SessionDone \<Rightarrow> (l \<lparr> rl_running := False \<rparr>, None))"

section \<open>One run\<close>

text \<open>
  What can happen next: a key, a host entered, an operation of a dialog, a step of the worker (take,
  return with the callback's error, post), a round of the refresh loop, a delivery, the end of the run.
  A step that cannot be taken changes nothing: its goroutine waits.
\<close>

datatype ui_event =
    KeyEvent "string option" string ui_focus ui_key
  | HostEvent string string bool
  | DialogEvent ui_task
  | TakeEvent
  | ReturnEvent "string option"
  | PostEvent
  | RefreshEvent refresh_case
  | WakeEvent string
  | EndEvent

definition or_wait :: "'a \<Rightarrow> 'a option \<Rightarrow> 'a" where
  "or_wait s r = (case r of None \<Rightarrow> s | Some s' \<Rightarrow> s')"

text \<open>
  A confirmed deletion, or a report to save; when the queue is full the dialog of the report stays open
  and says so in its own line.
\<close>

definition dialog_submit :: "(string \<Rightarrow> string) \<Rightarrow> ui_task \<Rightarrow> ui_session \<Rightarrow> ui_session" where
  "dialog_submit esc t s = (case t of
     DeleteTask _ _ \<Rightarrow> fst (handler_submit t s)
   | SaveTask path _ _ \<Rightarrow> (case session_submit t s of
       (s', ok) \<Rightarrow> if ok then notify_result esc (''Saving report: '' @ path) False s' else s')
   | _ \<Rightarrow> s)"

definition refresh_event :: "refresh_case \<Rightarrow> ui_session \<Rightarrow> redraw_loop \<Rightarrow> ui_session \<times> redraw_loop" where
  "refresh_event c s l = (case refresh_round c l of
     (l', None) \<Rightarrow> (s, l')
   | (l', Some u) \<Rightarrow> (case session_post u s of None \<Rightarrow> (s, l) | Some (s', _) \<Rightarrow> (s', l')))"

definition ui_step ::
    "handler_deps \<Rightarrow> (string \<Rightarrow> string) \<Rightarrow> ui_event \<Rightarrow> ui_session \<times> redraw_loop \<Rightarrow> ui_session \<times> redraw_loop" where
  "ui_step d esc ev sl = (case sl of (s, l) \<Rightarrow> (case ev of
     KeyEvent measured stamp focus key \<Rightarrow> (fst (handle_key d measured stamp focus key s), l)
   | HostEvent action txt wired \<Rightarrow> (host_entered action txt wired s, l)
   | DialogEvent t \<Rightarrow> (dialog_submit esc t s, l)
   | TakeEvent \<Rightarrow> (or_wait s (worker_take s), l)
   | ReturnEvent err \<Rightarrow> (or_wait s (callback_returns err s), l)
   | PostEvent \<Rightarrow> (or_wait s (worker_posts s), l)
   | RefreshEvent c \<Rightarrow> refresh_event c s l
   | WakeEvent stamp \<Rightarrow> (wake_event esc stamp s, l)
   | EndEvent \<Rightarrow> (session_stop s, l)))"

definition ui_run ::
    "handler_deps \<Rightarrow> (string \<Rightarrow> string) \<Rightarrow> ui_event list \<Rightarrow> ui_session \<times> redraw_loop \<Rightarrow> ui_session \<times> redraw_loop" where
  "ui_run d esc evs sl = fold (ui_step d esc) evs sl"

definition new_session :: ui_session where
  "new_session = \<lparr> ui_done = False, ui_tasks = [], ui_updates = [], ui_busy = None, ui_posting = None,
     ui_app_stopped = False, ui_state = MonRunning, ui_log = [], ui_footer = footer_help_text \<rparr>"

section \<open>What is under way\<close>

text \<open>
  The stops and restarts between the key and the UI's next message about them, the oldest first: in the
  mailbox, on the way there, in the worker, in its queue.
\<close>

datatype monitor_op = StopOp | RestartOp

definition op_of_task :: "ui_task \<Rightarrow> monitor_op list" where
  "op_of_task t = (case t of StopTask \<Rightarrow> [StopOp] | RestartTask \<Rightarrow> [RestartOp] | _ \<Rightarrow> [])"

definition op_of_update :: "ui_update \<Rightarrow> monitor_op list" where
  "op_of_update u = (case u of StopDone \<Rightarrow> [StopOp] | RestartDone _ \<Rightarrow> [RestartOp] | _ \<Rightarrow> [])"

definition ops_under_way :: "ui_session \<Rightarrow> monitor_op list" where
  "ops_under_way s = concat (map op_of_update (ui_updates s))
     @ (case ui_posting s of None \<Rightarrow> [] | Some u \<Rightarrow> op_of_update u)
     @ (case ui_busy s of None \<Rightarrow> [] | Some t \<Rightarrow> op_of_task t)
     @ concat (map op_of_task (ui_tasks s))"

definition ops_expected :: "monitor_state \<Rightarrow> monitor_op list set" where
  "ops_expected st = (case st of
     MonRunning \<Rightarrow> {[]} | MonStopped \<Rightarrow> {[]} | MonStopping \<Rightarrow> {[StopOp]}
   | MonRestarting \<Rightarrow> {[RestartOp], [StopOp, RestartOp]})"

definition ui_inv :: "ui_session \<Rightarrow> bool" where
  "ui_inv s \<longleftrightarrow> length (ui_tasks s) \<le> session_queue_size \<and> length (ui_updates s) \<le> session_queue_size
     \<and> (ui_busy s = None \<or> ui_posting s = None) \<and> length (ui_log s) \<le> error_log_max_size
     \<and> (ui_done s \<or> ops_under_way s \<in> ops_expected (ui_state s))"

lemmas session_defs = session_submit_def session_post_def append_log_def show_state_def session_stop_def
  handler_submit_def notify_result_def Let_def

lemma append_error_log_bounded:
  "length logs \<le> error_log_max_size \<Longrightarrow> length (append_error_log logs msg) \<le> error_log_max_size"
  by (simp add: append_error_log_last_lines)

lemma ops_under_way_cong [simp]:
  "ops_under_way (s \<lparr> ui_log := a \<rparr>) = ops_under_way s"
  "ops_under_way (s \<lparr> ui_footer := b \<rparr>) = ops_under_way s"
  "ops_under_way (s \<lparr> ui_state := c \<rparr>) = ops_under_way s"
  "ops_under_way (s \<lparr> ui_done := e \<rparr>) = ops_under_way s"
  "ops_under_way (s \<lparr> ui_app_stopped := e \<rparr>) = ops_under_way s"
  "ui_tasks s = ts \<Longrightarrow> ops_under_way (s \<lparr> ui_tasks := ts @ [t] \<rparr>) = ops_under_way s @ op_of_task t"
  by (simp_all add: ops_under_way_def)

lemma session_submit_inv:
  "ui_inv s \<Longrightarrow> op_of_task t = [] \<Longrightarrow> ui_inv (fst (session_submit t s))"
  by (auto simp: ui_inv_def session_submit_def session_queue_size_def)

lemma append_log_inv: "ui_inv s \<Longrightarrow> ui_inv (append_log msg s)"
  by (auto simp: ui_inv_def append_log_def append_error_log_bounded)

lemma session_stop_inv: "ui_inv s \<Longrightarrow> ui_inv (session_stop s)"
  by (auto simp: ui_inv_def session_stop_def)

lemma footer_inv: "ui_inv s \<Longrightarrow> ui_inv (s \<lparr> ui_footer := b \<rparr>)"
  by (auto simp: ui_inv_def)

lemma app_stopped_inv: "ui_inv s \<Longrightarrow> ui_inv (s \<lparr> ui_app_stopped := b \<rparr>)"
  by (auto simp: ui_inv_def)

lemma notify_result_inv: "ui_inv s \<Longrightarrow> ui_inv (notify_result esc msg failed s)"
  by (simp add: notify_result_def Let_def footer_inv append_log_inv)

lemma handler_submit_inv:
  "ui_inv s \<Longrightarrow> op_of_task t = [] \<Longrightarrow> ui_inv (fst (handler_submit t s))"
  using session_submit_inv [of s t]
  by (auto simp: handler_submit_def intro!: append_log_inv split: prod.splits)

lemma observe_measurement_inv: "ui_inv s \<Longrightarrow> ui_inv (observe_measurement measured s)"
  by (auto simp: observe_measurement_def ui_inv_def ops_expected_def split: option.splits)

lemma ops_after_head:
  "ui_updates s = u # us \<Longrightarrow> ops_under_way s = op_of_update u @ ops_under_way (s \<lparr> ui_updates := us \<rparr>)"
  by (simp add: ops_under_way_def)

lemma set_state_inv:
  "ui_inv s' \<longleftrightarrow> ui_inv (s' \<lparr> ui_footer := b \<rparr>)"
  by (simp add: ui_inv_def)

lemma run_update_inv:
  assumes "ui_inv s" and "ui_updates s = u # us" and "\<not> ui_done s"
  shows "ui_inv (run_update esc stamp u (s \<lparr> ui_updates := us \<rparr>))"
proof -
  define s1 where "s1 = s \<lparr> ui_updates := us \<rparr>"
  have ops: "op_of_update u @ ops_under_way s1 \<in> ops_expected (ui_state s1)"
    using assms by (simp add: ui_inv_def s1_def ops_after_head)
  have st: "ui_state s1 = ui_state s" by (simp add: s1_def)
  have rest: "length (ui_tasks s1) \<le> session_queue_size" "length (ui_updates s1) \<le> session_queue_size"
    "ui_busy s1 = None \<or> ui_posting s1 = None" "length (ui_log s1) \<le> error_log_max_size" "\<not> ui_done s1"
    using assms by (auto simp: ui_inv_def s1_def)
  have move: "ui_inv (s1 \<lparr> ui_state := st \<rparr>)" if "ops_under_way s1 \<in> ops_expected st" for st
    using that rest by (simp add: ui_inv_def)
  have other: "ui_inv s1" if "op_of_update u = []"
    using that ops rest by (simp add: ui_inv_def)
  show ?thesis unfolding s1_def [symmetric]
  proof (cases u)
    case StopDone
    have "ui_state s1 = MonStopping \<Longrightarrow> ops_under_way s1 = []"
      "ui_state s1 \<noteq> MonStopping \<Longrightarrow> ui_inv s1"
      using ops StopDone rest by (auto simp: op_of_update_def ops_expected_def ui_inv_def split: monitor_state.splits)
    then show "ui_inv (run_update esc stamp u s1)"
      using StopDone move [of MonStopped]
      by (auto simp: run_update_defs show_state_def ops_expected_def intro: footer_inv)
  next
    case (RestartDone err)
    have "ops_under_way s1 = []"
      using ops RestartDone by (auto simp: op_of_update_def ops_expected_def split: monitor_state.splits)
    then show "ui_inv (run_update esc stamp u s1)"
      using RestartDone move [of MonStopped] move [of MonRunning]
      by (cases err) (auto simp: run_update_defs show_state_def ops_expected_def intro!: footer_inv append_log_inv)
  next
    case (DeleteDone i host err)
    then show "ui_inv (run_update esc stamp u s1)"
      using other by (cases err) (auto simp: run_update_defs op_of_update_def intro!: notify_result_inv)
  next
    case (SaveDone path err)
    then show "ui_inv (run_update esc stamp u s1)"
      using other by (cases err) (auto simp: run_update_defs op_of_update_def intro!: notify_result_inv)
  qed (use other in \<open>auto simp: run_update_defs op_of_update_def
      intro!: footer_inv append_log_inv app_stopped_inv session_stop_inv\<close>)
qed

lemma deliver_inv: "ui_inv s \<Longrightarrow> ui_inv (deliver esc stamp n s)"
proof (induction esc stamp n s rule: deliver.induct)
  case (2 esc stamp n s)
  then show ?case using run_update_inv by (auto split: list.splits)
qed simp

lemma session_post_inv:
  "ui_inv s \<Longrightarrow> session_post u s = Some (s', ok) \<Longrightarrow> op_of_update u = [] \<Longrightarrow> ui_inv s'"
  by (auto simp: session_post_def ui_inv_def ops_under_way_def session_queue_size_def split: if_splits)

lemma worker_posts_inv: "ui_inv s \<Longrightarrow> worker_posts s = Some s' \<Longrightarrow> ui_inv s'"
  by (auto simp: worker_posts_def session_post_def ui_inv_def ops_under_way_def session_queue_size_def
      split: option.splits if_splits)

lemma op_of_update_of_task:
  "(case update_of_task t err of None \<Rightarrow> [] | Some u \<Rightarrow> op_of_update u) = op_of_task t"
  by (cases t; cases err) (simp_all add: update_of_task_def op_of_update_def op_of_task_def)

lemma callback_returns_inv: "ui_inv s \<Longrightarrow> callback_returns err s = Some s' \<Longrightarrow> ui_inv s'"
  by (auto simp: callback_returns_def ui_inv_def ops_under_way_def op_of_update_of_task)

lemma worker_take_inv: "ui_inv s \<Longrightarrow> worker_take s = Some s' \<Longrightarrow> ui_inv s'"
  by (auto simp: worker_take_def ui_inv_def ops_under_way_def split: list.splits if_splits)

lemma stop_key_inv: "ui_inv s \<Longrightarrow> ui_inv (stop_key stamp s)"
  by (auto simp: stop_key_def handler_submit_def session_submit_def ui_inv_def append_log_def show_state_def
      append_error_log_bounded op_of_task_def ops_expected_def session_queue_size_def)

lemma restart_key_inv: "ui_inv s \<Longrightarrow> ui_inv (restart_key d stamp s)"
  by (auto simp: restart_key_def handler_submit_def session_submit_def ui_inv_def append_log_def show_state_def
      append_error_log_bounded op_of_task_def ops_expected_def session_queue_size_def split: monitor_state.splits)

lemma reset_key_inv: "ui_inv s \<Longrightarrow> ui_inv (reset_key d s)"
proof -
  assume "ui_inv s"
  then have "ui_inv (s \<lparr> ui_log := [] \<rparr>)" by (simp add: ui_inv_def)
  then show ?thesis by (simp add: reset_key_def Let_def handler_submit_inv op_of_task_def)
qed

lemma handle_key_inv: "ui_inv s \<Longrightarrow> ui_inv (fst (handle_key d measured stamp focus key s))"
proof -
  assume "ui_inv s"
  then have "ui_inv (observe_measurement measured s)" by (rule observe_measurement_inv)
  moreover have "ui_inv (fst (rune_key d stamp c s'))" if "ui_inv s'" for c s'
    using that by (auto simp: rune_key_def intro: stop_key_inv restart_key_inv reset_key_inv app_stopped_inv session_stop_inv)
  ultimately show ?thesis by (auto simp: handle_key_def Let_def split: ui_key.splits)
qed

lemma host_entered_inv: "ui_inv s \<Longrightarrow> ui_inv (host_entered action txt wired s)"
  using session_submit_inv [of s "HostTask action (trim_space txt)"]
  by (auto simp: host_entered_def Let_def op_of_task_def intro!: append_log_inv split: prod.splits)

lemma dialog_submit_inv: "ui_inv s \<Longrightarrow> ui_inv (dialog_submit esc t s)"
  using session_submit_inv [of s t]
  by (cases t) (auto simp: dialog_submit_def op_of_task_def intro!: handler_submit_inv notify_result_inv split: prod.splits)

lemma refresh_round_op: "refresh_round c l = (l', Some u) \<Longrightarrow> op_of_update u = []"
  by (auto simp: refresh_round_def op_of_update_def split: if_splits refresh_case.splits)

lemma refresh_event_inv: "ui_inv s \<Longrightarrow> ui_inv (fst (refresh_event c s l))"
  by (auto simp: refresh_event_def dest: refresh_round_op session_post_inv split: prod.splits option.splits)

lemma ui_step_inv: "ui_inv (fst sl) \<Longrightarrow> ui_inv (fst (ui_step d esc ev sl))"
  by (cases sl; cases ev)
    (auto simp: ui_step_def or_wait_def wake_event_def handle_key_inv host_entered_inv dialog_submit_inv refresh_event_inv
      deliver_inv session_stop_inv split: option.splits
      intro: worker_take_inv callback_returns_inv worker_posts_inv)

lemma new_session_inv: "ui_inv new_session"
  by (simp add: ui_inv_def new_session_def ops_under_way_def ops_expected_def)

lemma ui_run_inv: "ui_inv (fst sl) \<Longrightarrow> ui_inv (fst (ui_run d esc evs sl))"
  unfolding ui_run_def by (induction evs arbitrary: sl) (auto simp: ui_step_inv)

text \<open>C6: 
  C?: The terminal UI's idea of the measurement follows its operations: whatever keys, dialogs, deliveries,
  refreshes and worker steps happen in whatever order from the start, at most 32 operations and 32 messages
  wait, the worker does one thing at a time, the log keeps at most its 1000 last lines, and while the session
  lives the state shown is "stopping" exactly while one stop is under way, "restarting" exactly while one restart
  is, possibly behind the stop it waits for, and otherwise no stop or restart is under way.
\<close>

theorem ui_state_follows_operations:
  "case ui_run d esc evs (new_session, l) of (s, _) \<Rightarrow>
     length (ui_tasks s) \<le> 32 \<and> length (ui_updates s) \<le> 32 \<and> (ui_busy s = None \<or> ui_posting s = None)
     \<and> length (ui_log s) \<le> 1000
     \<and> (ui_done s \<or>
          (case ui_state s of
             MonRunning \<Rightarrow> ops_under_way s = []
           | MonStopped \<Rightarrow> ops_under_way s = []
           | MonStopping \<Rightarrow> ops_under_way s = [StopOp]
           | MonRestarting \<Rightarrow> ops_under_way s = [RestartOp] \<or> ops_under_way s = [StopOp, RestartOp]))"
proof -
  obtain s l' where r: "ui_run d esc evs (new_session, l) = (s, l')" by force
  have "ui_inv s" using ui_run_inv [of "(new_session, l)" d esc evs] new_session_inv r by simp
  then show ?thesis unfolding r
    by (cases "ui_state s") (simp_all add: ui_inv_def ops_expected_def session_queue_size_def error_log_max_size_def)
qed

section \<open>Operations settle\<close>

text \<open>Everything the session still has to do, in steps.\<close>

definition pending :: "ui_session \<Rightarrow> nat" where
  "pending s = 4 * length (ui_tasks s) + (if ui_busy s = None then 0 else 3)
     + (if ui_posting s = None then 0 else 2) + length (ui_updates s)"

text \<open>One step of a session left to itself; \<open>errs\<close> gives the error a callback returns.\<close>

definition progress :: "(string \<Rightarrow> string) \<Rightarrow> (ui_task \<Rightarrow> string option) \<Rightarrow> ui_session \<Rightarrow> ui_session" where
  "progress esc errs s =
     (if ui_updates s \<noteq> [] then wake_event esc [] s
      else if ui_posting s \<noteq> None then or_wait s (worker_posts s)
      else case ui_busy s of
          Some t \<Rightarrow> or_wait s (callback_returns (errs t) s)
        | None \<Rightarrow> or_wait s (worker_take s))"

fun settle :: "nat \<Rightarrow> (string \<Rightarrow> string) \<Rightarrow> (ui_task \<Rightarrow> string option) \<Rightarrow> ui_session \<Rightarrow> ui_session" where
  "settle 0 esc errs s = s"
| "settle (Suc n) esc errs s = settle n esc errs (progress esc errs s)"

lemma run_update_keeps [simp]:
  "ui_tasks (run_update esc stamp u s) = ui_tasks s" "ui_busy (run_update esc stamp u s) = ui_busy s"
  "ui_posting (run_update esc stamp u s) = ui_posting s" "ui_updates (run_update esc stamp u s) = ui_updates s"
  by (auto simp: run_update_defs session_defs split: ui_update.splits option.splits)

lemma deliver_effect:
  "ui_tasks (deliver esc stamp n s) = ui_tasks s \<and> ui_busy (deliver esc stamp n s) = ui_busy s
     \<and> ui_posting (deliver esc stamp n s) = ui_posting s
     \<and> (ui_done (deliver esc stamp n s) \<or> ui_updates (deliver esc stamp n s) = drop n (ui_updates s))"
proof (induction esc stamp n s rule: deliver.induct)
  case (2 esc stamp n s)
  then show ?case by (cases "ui_updates s") auto
qed simp

lemma progress_done: "ui_done s \<Longrightarrow> ui_done (progress esc errs s)"
  by (auto simp: progress_def wake_event_def or_wait_def worker_posts_def session_post_def callback_returns_def
      worker_take_def neq_Nil_conv split: option.splits)

lemma progress_advances:
  assumes "\<not> ui_done s" and "pending s \<noteq> 0" and "length (ui_updates s) \<le> session_queue_size"
  shows "ui_done (progress esc errs s) \<or> pending (progress esc errs s) < pending s"
proof (cases "ui_updates s")
  case (Cons u us)
  then show ?thesis
    using deliver_effect [of esc "[]" "length (ui_updates s)" s]
    by (auto simp: progress_def wake_event_def pending_def)
next
  case Nil
  show ?thesis
  proof (cases "ui_posting s")
    case (Some u)
    then show ?thesis using Nil assms
      by (simp add: progress_def worker_posts_def session_post_def session_queue_size_def or_wait_def pending_def)
  next
    case None
    note posting = this
    show ?thesis
    proof (cases "ui_busy s")
      case (Some t)
      then show ?thesis using Nil posting assms
        by (simp add: progress_def callback_returns_def or_wait_def pending_def)
    next
      case busy: None
      then obtain t ts where "ui_tasks s = t # ts" using Nil posting assms by (cases "ui_tasks s") (auto simp: pending_def)
      then show ?thesis using Nil posting busy assms
        by (simp add: progress_def worker_take_def or_wait_def pending_def)
    qed
  qed
qed

lemma progress_inv: "ui_inv s \<Longrightarrow> ui_inv (progress esc errs s)"
  by (auto simp: progress_def wake_event_def or_wait_def deliver_inv split: option.splits
      intro: worker_take_inv callback_returns_inv worker_posts_inv)

text \<open>While a stop is under way no restart's result can arrive.\<close>

definition stop_side :: "ui_session \<Rightarrow> bool" where
  "stop_side s \<longleftrightarrow> ui_done s \<or> ui_state s = MonStopping \<or> ui_state s = MonStopped"

lemma deliver_stop_side: "ui_inv s \<Longrightarrow> stop_side s \<Longrightarrow> stop_side (deliver esc stamp n s)"
proof (induction esc stamp n s rule: deliver.induct)
  case (2 esc stamp n s)
  show ?case
  proof (cases "ui_done s")
    case False
    show ?thesis
    proof (cases "ui_updates s")
      case (Cons u us)
      have "\<nexists>err. u = RestartDone err"
        using 2(2,3) False Cons
        by (auto simp: ui_inv_def stop_side_def ops_after_head op_of_update_def ops_expected_def)
      then have "stop_side (run_update esc stamp u (s \<lparr> ui_updates := us \<rparr>))"
        using 2(3) by (cases u) (auto simp: stop_side_def run_update_defs session_defs split: option.splits)
      then show ?thesis using 2(1) [OF False Cons] run_update_inv [OF 2(2) Cons False] False Cons by simp
    qed (use 2 in simp)
  qed (use 2 in \<open>simp add: stop_side_def\<close>)
qed simp

lemma progress_stop_side: "ui_inv s \<Longrightarrow> stop_side s \<Longrightarrow> stop_side (progress esc errs s)"
  using deliver_stop_side [of s esc "[]" "length (ui_updates s)"]
  by (auto simp: progress_def wake_event_def or_wait_def stop_side_def worker_posts_def session_post_def
      callback_returns_def worker_take_def split: option.splits list.splits if_splits)

lemma settle_effect:
  assumes "ui_inv s" and "ui_done s \<or> pending s \<le> n"
  shows "ui_inv (settle n esc errs s) \<and> (ui_done (settle n esc errs s) \<or> pending (settle n esc errs s) = 0)
    \<and> (stop_side s \<longrightarrow> stop_side (settle n esc errs s))"
  using assms
proof (induction n arbitrary: s)
  case (Suc n)
  have "ui_done (progress esc errs s) \<or> pending (progress esc errs s) \<le> n"
  proof (cases "ui_done s \<or> pending s = 0")
    case True
    then show ?thesis
      by (auto simp: progress_done) (auto simp: progress_def pending_def or_wait_def worker_take_def split: if_splits)
  next
    case False
    then show ?thesis using progress_advances [of s esc errs] Suc(2,3) by (auto simp: ui_inv_def)
  qed
  from Suc(1) [OF progress_inv [OF Suc(2)] this] show ?case using progress_stop_side Suc(2) by auto
qed (auto simp: settle.simps)

text \<open>C7: 
  C?: Operations settle: from any state the terminal UI can reach, a session left to itself (deliveries, the
  worker's posts, returning callbacks, taken operations) comes, in as many steps as are pending, to a state
  in which it was told to end, or in which nothing waits and the measurement is shown as running or stopped,
  never for ever as stopping or restarting; a stop under way then shows as stopped, whatever the callbacks
  return.
\<close>

theorem operations_settle:
  "case ui_run d esc evs (new_session, l) of (s, _) \<Rightarrow>
     let s' = settle (pending s) esc errs s in
     ui_done s' \<or>
       ui_tasks s' = [] \<and> ui_busy s' = None \<and> ui_posting s' = None \<and> ui_updates s' = []
       \<and> (if ui_state s = MonStopping then ui_state s' = MonStopped
          else ui_state s' = MonRunning \<or> ui_state s' = MonStopped)"
proof -
  obtain s l' where r: "ui_run d esc evs (new_session, l) = (s, l')" by force
  have i: "ui_inv s" using ui_run_inv [of "(new_session, l)" d esc evs] new_session_inv r by simp
  define s' where "s' = settle (pending s) esc errs s"
  note e = settle_effect [OF i, of "pending s" esc errs, folded s'_def]
  show ?thesis
  proof (cases "ui_done s'")
    case False
    then have p: "ui_tasks s' = []" "ui_busy s' = None" "ui_posting s' = None" "ui_updates s' = []"
      using e by (auto simp: pending_def split: if_splits)
    then have "ops_under_way s' = []" by (simp add: ops_under_way_def)
    then have "ui_state s' = MonRunning \<or> ui_state s' = MonStopped"
      using e False by (cases "ui_state s'") (auto simp: ui_inv_def ops_expected_def)
    moreover have "ui_state s = MonStopping \<Longrightarrow> ui_state s' = MonStopped"
      using e False calculation by (auto simp: stop_side_def)
    ultimately show ?thesis using p r by (simp add: s'_def [symmetric] Let_def)
  qed (simp add: r s'_def [symmetric] Let_def)
qed

section \<open>Operations run in order\<close>

text \<open>What a run submitted, and what its worker started, in order.\<close>

definition submitted_by :: "ui_session \<Rightarrow> ui_session \<Rightarrow> ui_event \<Rightarrow> ui_task list" where
  "submitted_by s s' ev = (case ev of
     KeyEvent _ _ _ _ \<Rightarrow> drop (length (ui_tasks s)) (ui_tasks s')
   | HostEvent _ _ _ \<Rightarrow> drop (length (ui_tasks s)) (ui_tasks s')
   | DialogEvent _ \<Rightarrow> drop (length (ui_tasks s)) (ui_tasks s')
   | _ \<Rightarrow> [])"

definition started_by :: "ui_session \<Rightarrow> ui_event \<Rightarrow> ui_task list" where
  "started_by s ev = (if ev = TakeEvent \<and> worker_take s \<noteq> None then [hd (ui_tasks s)] else [])"

fun ui_history ::
    "handler_deps \<Rightarrow> (string \<Rightarrow> string) \<Rightarrow> ui_event list \<Rightarrow> ui_session \<times> redraw_loop \<Rightarrow> ui_task list \<times> ui_task list" where
  "ui_history d esc [] sl = ([], [])"
| "ui_history d esc (ev # evs) sl =
     (let sl' = ui_step d esc ev sl; rest = ui_history d esc evs sl'
      in (submitted_by (fst sl) (fst sl') ev @ fst rest, started_by (fst sl) ev @ snd rest))"

definition submits :: "ui_session \<Rightarrow> ui_session \<Rightarrow> bool" where
  "submits s s' \<longleftrightarrow> (\<exists>ts. ui_tasks s' = ui_tasks s @ ts)"

lemma session_submit_submits: "submits s (fst (session_submit t s))"
  by (simp add: submits_def session_submit_def)

lemma handler_submit_tasks: "ui_tasks (fst (handler_submit t s)) = ui_tasks (fst (session_submit t s))"
  by (auto simp: handler_submit_def append_log_def split: prod.splits)

lemma handle_key_submits: "submits s (fst (handle_key d measured stamp focus key s))"
proof -
  have o: "ui_tasks (observe_measurement measured s) = ui_tasks s"
    by (auto simp: observe_measurement_def split: option.splits)
  have h: "\<exists>ts. ui_tasks (fst (handler_submit t u)) = ui_tasks u @ ts" for t u
    using session_submit_submits [of u t] by (simp add: submits_def handler_submit_tasks)
  have rk: "submits u (fst (rune_key d stamp c u))" for c u
    using h [of StopTask] h [of RestartTask] h [of ResetTask]
    by (auto simp: submits_def rune_key_def stop_key_def restart_key_def reset_key_def handler_submit_def
        session_submit_def session_stop_def append_log_def show_state_def Let_def)
  then have "submits s (fst (rune_key d stamp c (observe_measurement measured s)))" for c
    using o rk [of "observe_measurement measured s" c] by (simp add: submits_def)
  then show ?thesis using o by (auto simp: submits_def handle_key_def Let_def split: ui_key.splits)
qed

lemma ui_step_tasks:
  "started_by (fst sl) ev @ ui_tasks (fst (ui_step d esc ev sl))
     = ui_tasks (fst sl) @ submitted_by (fst sl) (fst (ui_step d esc ev sl)) ev"
proof -
  obtain s l where sl: "sl = (s, l)" by force
  have sub: "ui_tasks s' = ui_tasks s @ drop (length (ui_tasks s)) (ui_tasks s')" if "submits s s'" for s'
    using that by (auto simp: submits_def)
  show ?thesis
  proof (cases ev)
    case (KeyEvent measured stamp foc key)
    then show ?thesis using sub [OF handle_key_submits] by (simp add: sl ui_step_def submitted_by_def started_by_def)
  next
    case (HostEvent act raw bound)
    have "submits s (host_entered act raw bound s)"
      by (auto simp: submits_def host_entered_def Let_def session_submit_def append_log_def)
    with sub HostEvent show ?thesis by (simp add: sl ui_step_def submitted_by_def started_by_def)
  next
    case (DialogEvent t)
    have "submits s (dialog_submit esc t s)"
      using session_submit_submits [of s t]
      by (cases t) (auto simp: submits_def dialog_submit_def handler_submit_tasks notify_result_def append_log_def Let_def
          split: prod.splits)
    with sub DialogEvent show ?thesis by (simp add: sl ui_step_def submitted_by_def started_by_def)
  next
    case TakeEvent
    then show ?thesis
      by (auto simp: sl ui_step_def submitted_by_def started_by_def or_wait_def worker_take_def split: option.splits list.splits)
  qed (auto simp: sl ui_step_def submitted_by_def started_by_def or_wait_def callback_returns_def worker_posts_def
      session_post_def refresh_event_def wake_event_def deliver_effect session_stop_def
      split: option.splits prod.splits if_splits)
qed

text \<open>C26: 
  C?: Operations never overtake one another: over any run of the terminal UI, the operations the worker has
  started, followed by those still queued, are exactly the accepted ones in the order in which the keys,
  dialogs and host inputs were accepted; and one that is running ends before the next is taken.
\<close>

theorem operations_run_in_order:
  "snd (ui_history d esc evs (new_session, l)) @ ui_tasks (fst (ui_run d esc evs (new_session, l)))
     = fst (ui_history d esc evs (new_session, l))
   \<and> (ui_busy (fst (ui_run d esc evs (new_session, l))) = None
        \<or> worker_take (fst (ui_run d esc evs (new_session, l))) = None)"
proof -
  have "snd (ui_history d esc evs sl) @ ui_tasks (fst (ui_run d esc evs sl))
      = ui_tasks (fst sl) @ fst (ui_history d esc evs sl)" for sl
  proof (induction evs arbitrary: sl)
    case (Cons ev evs)
    show ?case
      using Cons [of "ui_step d esc ev sl"] ui_step_tasks [of sl ev d esc]
      by (simp add: ui_run_def Let_def)
  qed (simp add: ui_run_def)
  from this [of "(new_session, l)"] show ?thesis by (simp add: new_session_def worker_take_def)
qed

end
