(* ===== verification/Spec2Isabelle.thy ===== *)
theory Spec2Isabelle
  imports
    Target_Properties
    Ping_Worker
    Pmtu_Search
    Export_Summary
    Mtr_Engine
    Reload_Coordinator
    Lookups
    Watcher
    Web_Stream
    Ui_Table
    Ui_Session
begin

text \<open>
  A verification development for mping, a multi-target ping monitor in Go.

  \<^bold>\<open>The program.\<close> A session monitors a set of targets. For each one a worker goroutine
  (internal/pinger) sends ICMP echoes, a shared receiver hands every packet to the channel of the
  worker it belongs to, and the outcome of each probe is recorded in the target's statistics
  (internal/stats): counters, round-trip statistics, a health judgment with hysteresis, an event
  log, an address history and a hop path. The MTR engine (internal/mtr) discovers and monitors the
  route with TTL-limited probes. Views of the targets feed the terminal UI, the web API and the
  export; a generation counter tells readers whether anything changed. The configuration comes from
  flags and a hosts file (internal/hostsfile, cmd/main); a supervisor (cmd/main) owns the pinger, the
  route engine and the checkers of a session, executes commands and live edits one at a time, and
  reloads the hosts file while it runs. A web server shows and controls the session in a browser.

  \<^bold>\<open>What models what.\<close>
  \<^item> \<open>Mping_Prelude\<close>: durations and instants as integers (nanoseconds), Go's truncated division,
    strings as bytes, slices, windows of lists, and the contract \<open>bounded_log\<close> of the logs that
    keep their last entries.
  \<^item> \<open>Go_Float\<close>: float64 with the rounding of IEEE 754 binary64; the contract \<open>rounding\<close> states what
    the proofs use of it and is interpreted on the actual rounding function.
  \<^item> \<open>Rtt_Accumulator\<close> (stats/rtt_accumulator.go): Welford statistics, the history ring and the
    jitter filter; the contract \<open>sample_window\<close> is interpreted on the ring.
  \<^item> \<open>Thresholds\<close> (thresholds.go, asn.go), \<open>Check_Results\<close> (portcheck.go, httpcheck.go), \<open>Mtr_Stats\<close>
    (mtr.go): severities and labels, port and HTTP check results, the hop path and its flaps.
  \<^item> \<open>Target_Stats\<close> (stats.go, events.go, health.go, probe.go, history.go): the record of a target and
    every operation on it, each one atomic as its lock makes it. \<open>Health_Judgment\<close> relates the
    incremental judgment to specifications over the whole sequence of outcomes.
    \<open>Target_View\<close> (view.go, dirty.go) has the views, the operations as a datatype with how often
    each bumps the generation, and the process as a list of targets; \<open>Target_Properties\<close> the
    invariants over all sequences of operations. \<open>Export_Summary\<close> (export.go) is the export.
  \<^item> \<open>Probe_Wire\<close> (timestamp.go, icmp_errors.go): bytes on the wire. \<open>Echo_Dispatch\<close> (targets.go,
    receiver.go): identifiers, registration of workers and the receiver; the contract \<open>id_source\<close> of
    reusable identifiers is interpreted on the allocator of trace identifiers.
  \<^item> \<open>Recent_Seq\<close> and \<open>Ping_Worker\<close> (worker.go, resolve.go): the linked list of recently resolved
    sequence numbers with the contract \<open>seq_history\<close> the worker relies on, and the worker's
    loop as a step function whose events are the ready cases of its select. \<open>worker_run\<close> is
    reachability by steps of the worker and of the other goroutines that use the target.
  \<^item> \<open>Hop_Probe\<close> (mtr_probe.go), \<open>Pmtu_Search\<close> (pmtu.go, pmtu_ipv6.go): route probes and path MTU
    discovery. \<open>Mtr_Engine\<close> (mtr/engine.go, mtr/annotate.go): rounds, rediscovery, annotation.
  \<^item> \<open>Go_Text\<close>, \<open>Net_Addr\<close>: what the program uses of strconv, strings, net and net/netip on text.
    \<open>Host_Patterns\<close> (hostsfile/expand.go), \<open>Netbox_Import\<close> (netbox.go), \<open>Hosts_Document\<close> (document.go,
    include.go): expansion of brace, range and CIDR patterns, NetBox exports and their names, and the
    hosts file with its includes. A range that would make the program panic or run forever is None.
  \<^item> \<open>Target_Specs\<close> (targetspec.go, hosts.go): from entries to targets and groups, and back from a
    target to its address. \<open>Run_Config\<close> (config.go, config_validation.go, monitoring_config.go, cli.go):
    precedence of settings, every check of the merged configuration, what a reload may change.
  \<^item> \<open>Checkers\<close> (portchecker.go, httpchecker.go, periodic.go): port and HTTP checks.
    \<open>Pinger_Life\<close> (pinger.go, live_targets.go): Start, Stop and Wait of a pinger and the contract
    \<open>live_membership\<close> of joining and leaving a running one, interpreted on the registry.
  \<^item> \<open>Supervisor\<close> (supervisor.go, supervisor_loop.go, live_targets.go, live_reload.go, report.go): the
    state of a session and one function per command; \<open>handle\<close> dispatches, \<open>send_cmd\<close> is the loop.
    \<open>Supervisor_Invariant\<close> shows what every command keeps; \<open>Supervisor_Properties\<close> defines the runs
    (\<open>sup_reach\<close>) and states what holds on them. \<open>Reload_Coordinator\<close> (reload_coordinator.go) composes
    document, configuration and supervisor into the reload of a hosts file.
  \<^item> \<open>Report_Rows\<close> (report/report.go, csv.go) and \<open>Session_Report\<close> (cmd/main/report.go, report/path.go):
    the data of a report, its CSV form, and what a report of the running session contains.
  \<^item> \<open>Lookups\<close> (asn.go, ptr.go, lifetime.go): queries, answers and caches of ASN and reverse DNS lookups.
    \<open>Watcher\<close> (internal/watcher): watched files and directories, and the loop that turns a burst of
    changes into one call; \<open>watch_trace\<close> is what happens in a run.
  \<^item> The web interface (internal/web, cmd/main/web_bridge.go). \<open>Web_Guard\<close> (server.go, control.go): Host and
    Origin, the token, values of a request. \<open>Web_Snapshot\<close> (source.go, snapshot.go): the source that carries
    the provider over reloads, and the snapshot cache beside measurements, publications and any
    number of readers (\<open>snap_step\<close>). \<open>Web_Api\<close> (api.go, control.go, backend.go, frontend.go): every handler
    over the supervisors of the process, and the frontend with guard, routes and relay.
    \<open>Web_Stream\<close> (frontend.go, stream.go): the fetcher the streams share and the loop of a stream.

  \<^item> The terminal UI (internal/ui). \<open>Ui_Layout\<close> (layout_fit.go, pane_controls.go, width_fit.go,
    graph_layout.go): heights of panes, widths of columns and cells of graphs, with the theorems that they
    fill the space exactly. \<open>Ui_Table\<close> (column.go, group_view.go, table_renderer.go, selection.go): columns,
    rows, the layout chosen, and that the selection is live, visible and reaches every target.
    \<open>Ui_Session\<close> (session.go, input_handler.go, run_support.go): the queue of operations, the worker, the
    mailbox and the keys as one step function \<open>ui_step\<close> over interleaved events; \<open>ops_under_way\<close> ties the
    state the UI shows to the stops and restarts between key and answer, \<open>settle\<close> lets a session run out.

  \<^bold>\<open>Conventions.\<close> The mutexes make each exported operation of a component atomic: an operation is one
  function on the state, and concurrency is the order of operations. A function that reads the
  clock takes the readings as an argument. Where another goroutine may act in the middle of an
  operation that blocks (a lookup, a write), the operations it performs are an argument too. Code
  outside the repository (the ICMP codec of golang.org/x/net, DNS, sockets, the kernel) is an
  argument; \<open>parses_echo\<close> is the one hypothesis about it, the documented layout of an echo message.

  \<^bold>\<open>Termination and bounds.\<close> Every function is total: the eviction loop of the sequence history by the
  length of its list, the binary search by the distance of its bounds, the extension of the hop
  path by the missing hops. The loop of \<open>traceID\<close> and the attempts of the IPv6 path MTU are
  bounded in the code and the bound is the argument of the recursion. The worker's loop is a
  reactive step relation; that its drain ends is a theorem. The fuel of \<open>settle\<close> is the number of pending
  steps, and \<open>operations_settle\<close> shows that it is enough; the loops that narrow and widen columns end by
  the distance from the space there is, those of the panes by the panes that are still open.

  \<^bold>\<open>Ghost state.\<close> \<open>sv_live\<close> of the supervisor is the set of component instances whose goroutines were
  started and not yet joined; the code has no such set, the theorems about leaks speak of it.

  \<^bold>\<open>Not modelled.\<close> Of the terminal UI, the texts, colours and dialogs that the tview library draws and the
  projection of samples to the columns of a graph; privilege handling, start-up wiring and shell
  completion (cmd/main); of internal/pinger, socket setup and interface binding; of internal/web,
  listening, static files and the frontend process. Log lines are left out but for the terminal UI's.
  The semaphores that bound concurrent probes and lookups of the MTR engine are not modelled: rounds are
  given by the results they record.
\<close>

end
